(* ===== verification/Prelude.thy ===== *)
theory Prelude
  imports Complex_Main "HOL-Library.Multiset" "HOL-Library.Sublist"
begin

text \<open>
  What every component of the coordinator model shares: the lemma collections, Go's error
  values and fixed-width integers, SQL statements over tables kept as lists of rows, and
  the locales for transition systems and for simulations between them.
\<close>

named_theorems frame_simps \<open>what an operation leaves unchanged\<close>
named_theorems wf_intros \<open>operations keep the well-formedness of the state\<close>

section \<open>Go values\<close>

text \<open>
  A Go \<open>string\<close> and a Go \<open>[]byte\<close> are both sequences of bytes, and Isabelle's
  \<open>char\<close> is a byte.
\<close>

type_synonym bytes = "char list"

text \<open>
  Go's \<open>error\<close> values. \<open>Err\<close> is \<open>fmt.Errorf\<close> with the text of the source, \<open>Wrap\<close> is
  \<open>fmt.Errorf\<close> with a \<open>%w\<close> verb, \<open>NoRows\<close> is \<open>pgx.ErrNoRows\<close> and \<open>DbFailure\<close> is any
  other error of a database call (lost connection, violated constraint).
\<close>

datatype go_error = Err string | NoRows | DbFailure | Wrap string go_error

type_synonym 'a result = "go_error + 'a"

fun Error :: "go_error \<Rightarrow> string" where
  "Error (Err m) = m"
| "Error NoRows = ''no rows in result set''"
| "Error DbFailure = ''database error''"
| "Error (Wrap m e) = m @ '': '' @ Error e"

definition is_ok :: "'a result \<Rightarrow> bool" where
  "is_ok r \<longleftrightarrow> (case r of Inl _ \<Rightarrow> False | Inr _ \<Rightarrow> True)"

lemma is_ok_simps [simp]: "is_ok (Inr x)" "\<not> is_ok (Inl e)"
  by (simp_all add: is_ok_def)

text \<open>Two's complement wrap-around of Go's signed integer types.\<close>

definition wrap_int :: "nat \<Rightarrow> int \<Rightarrow> int" where
  "wrap_int b x = (x + 2 ^ (b - 1)) mod 2 ^ b - 2 ^ (b - 1)"

abbreviation int64 :: "int \<Rightarrow> int" where "int64 \<equiv> wrap_int 64"
abbreviation int32 :: "int \<Rightarrow> int" where "int32 \<equiv> wrap_int 32"

definition in_int :: "nat \<Rightarrow> int \<Rightarrow> bool" where
  "in_int b x \<longleftrightarrow> - (2 ^ (b - 1)) \<le> x \<and> x < 2 ^ (b - 1)"

abbreviation in_int64 :: "int \<Rightarrow> bool" where "in_int64 \<equiv> in_int 64"
abbreviation in_int32 :: "int \<Rightarrow> bool" where "in_int32 \<equiv> in_int 32"

lemma wrap_int_id:
  assumes "in_int b x" and "0 < b"
  shows "wrap_int b x = x"
proof -
  have "(2::int) ^ b = 2 * 2 ^ (b - 1)"
    using assms(2) by (cases b) simp_all
  with assms(1) show ?thesis by (simp add: wrap_int_def in_int_def)
qed

lemma wrap_int_range:
  assumes "0 < b"
  shows "in_int b (wrap_int b x)"
proof -
  have *: "(2::int) ^ b = 2 * 2 ^ (b - 1)"
    using assms by (cases b) simp_all
  have "0 \<le> (x + 2 ^ (b - 1)) mod 2 ^ b" "(x + 2 ^ (b - 1)) mod 2 ^ b < 2 ^ b"
    by simp_all
  with * show ?thesis by (simp add: wrap_int_def in_int_def)
qed

section \<open>SQL over lists of rows\<close>

text \<open>
  A table is the list of its rows in the order in which they were inserted. The statements
  of the source are one of: \<open>SELECT .. WHERE\<close>, \<open>SELECT COUNT( * ) .. WHERE\<close>,
  \<open>UPDATE .. SET .. WHERE\<close> and \<open>INSERT\<close> (which appends, after its constraints were checked).
\<close>

definition sql_select :: "('r \<Rightarrow> bool) \<Rightarrow> 'r list \<Rightarrow> 'r list" where
  "sql_select P rows = filter P rows"

definition sql_count :: "('r \<Rightarrow> bool) \<Rightarrow> 'r list \<Rightarrow> nat" where
  "sql_count P rows = length (filter P rows)"

definition sql_update :: "('r \<Rightarrow> bool) \<Rightarrow> ('r \<Rightarrow> 'r) \<Rightarrow> 'r list \<Rightarrow> 'r list" where
  "sql_update P f rows = map (\<lambda>r. if P r then f r else r) rows"

definition sql_insert :: "'r \<Rightarrow> 'r list \<Rightarrow> 'r list" where
  "sql_insert r rows = rows @ [r]"

text \<open>The single row that \<open>QueryRow(..).Scan\<close> sees: the first one of the result.\<close>

definition sql_row :: "('r \<Rightarrow> bool) \<Rightarrow> 'r list \<Rightarrow> 'r option" where
  "sql_row P rows = find P rows"

lemmas sql_defs = sql_select_def sql_count_def sql_update_def sql_insert_def sql_row_def

lemma set_sql_update: "set (sql_update P f rows) = (\<lambda>r. if P r then f r else r) ` set rows"
  by (simp add: sql_update_def)

lemma in_sql_update: "r \<in> set rows \<Longrightarrow> P r \<Longrightarrow> f r \<in> set (sql_update P f rows)"
  by (auto simp: set_sql_update)

lemma length_sql_update [simp]: "length (sql_update P f rows) = length rows"
  by (simp add: sql_update_def)

lemma sql_update_no_match: "(\<And>r. r \<in> set rows \<Longrightarrow> \<not> P r) \<Longrightarrow> sql_update P f rows = rows"
  by (auto simp: sql_update_def intro: map_idI)

lemma map_sql_update_frame [simp]:
  "(\<And>r. g (f r) = g r) \<Longrightarrow> map g (sql_update P f rows) = map g rows"
  by (simp add: sql_update_def)

lemma sql_count_insert [simp]: "sql_count P (sql_insert r rows) = sql_count P rows + (if P r then 1 else 0)"
  by (simp add: sql_defs)

lemma sql_row_Some: "sql_row P rows = Some r \<Longrightarrow> r \<in> set rows \<and> P r"
  by (auto simp: sql_row_def find_Some_iff)

lemma sql_row_None: "sql_row P rows = None \<longleftrightarrow> (\<forall>r\<in>set rows. \<not> P r)"
  by (auto simp: sql_row_def find_None_iff)

lemma sql_count_0: "sql_count P rows = 0 \<longleftrightarrow> (\<forall>r\<in>set rows. \<not> P r)"
  by (auto simp: sql_count_def filter_empty_conv)

lemma sql_update_cong_count:
  "(\<And>r. r \<in> set rows \<Longrightarrow> Q (if P r then f r else r) = Q r) \<Longrightarrow>
   sql_count Q (sql_update P f rows) = sql_count Q rows"
  by (induction rows) (auto simp: sql_defs)

subsection \<open>Keyed tables\<close>

text \<open>
  A column with a primary key or unique constraint: \<open>key\<close> reads it, and the rows of the
  table have distinct values in it.
\<close>

definition keyed :: "('r \<Rightarrow> 'k) \<Rightarrow> 'r list \<Rightarrow> bool" where
  "keyed key rows \<longleftrightarrow> distinct (map key rows)"

definition lookup :: "('r \<Rightarrow> 'k) \<Rightarrow> 'k \<Rightarrow> 'r list \<Rightarrow> 'r option" where
  "lookup key k rows = sql_row (\<lambda>r. key r = k) rows"

lemma keyed_Nil [simp]: "keyed key []"
  by (simp add: keyed_def)

lemma keyed_insert [simp]:
  "keyed key (sql_insert r rows) \<longleftrightarrow> keyed key rows \<and> lookup key (key r) rows = None"
  by (auto simp: keyed_def sql_insert_def lookup_def sql_row_None image_iff)

lemma keyed_unique:
  "keyed key rows \<Longrightarrow> r \<in> set rows \<Longrightarrow> s \<in> set rows \<Longrightarrow> key r = key s \<Longrightarrow> r = s"
  by (auto simp: keyed_def distinct_map dest: inj_onD)

lemma keyed_update [simp]: "(\<And>r. key (f r) = key r) \<Longrightarrow> keyed key (sql_update P f rows) = keyed key rows"
  by (simp add: keyed_def)

lemma lookup_Some: "lookup key k rows = Some r \<Longrightarrow> r \<in> set rows \<and> key r = k"
  by (auto simp: lookup_def dest: sql_row_Some)

lemma lookup_None: "lookup key k rows = None \<longleftrightarrow> (\<forall>r\<in>set rows. key r \<noteq> k)"
  by (simp add: lookup_def sql_row_None)

lemma lookup_in: "keyed key rows \<Longrightarrow> r \<in> set rows \<Longrightarrow> lookup key (key r) rows = Some r"
  by (cases "lookup key (key r) rows")
    (auto simp: lookup_None dest: lookup_Some keyed_unique)

lemma lookup_update:
  assumes "\<And>r. key (f r) = key r"
  shows "lookup key k (sql_update P f rows) =
    map_option (\<lambda>r. if P r then f r else r) (lookup key k rows)"
  using assms by (induction rows) (auto simp: lookup_def sql_defs)

lemma lookup_insert:
  "lookup key k (sql_insert r rows) =
    (case lookup key k rows of None \<Rightarrow> (if key r = k then Some r else None) | Some s \<Rightarrow> Some s)"
  by (induction rows) (auto simp: lookup_def sql_defs)

lemma keyed_update_key:
  assumes "keyed key rows" "lookup key k rows = Some r" "key (f r) = k"
  shows "keyed key (sql_update (\<lambda>r. key r = k) f rows)"
proof -
  have "key (if key s = k then f s else s) = key s" if "s \<in> set rows" for s
    using that assms lookup_Some [OF assms(2)] keyed_unique [OF assms(1), of s r] by auto
  then have "map key (sql_update (\<lambda>r. key r = k) f rows) = map key rows"
    by (simp add: sql_update_def)
  with assms(1) show ?thesis by (simp add: keyed_def)
qed

text \<open>
  An update that hits exactly one row, a row leaving class \<open>P\<close> for class \<open>Q\<close>: what a gauge
  that counts the rows of each class has to add and to subtract.
\<close>

lemma sql_count_update_key:
  assumes "keyed key rows" "r \<in> set rows"
  shows "int (sql_count Q (sql_update (\<lambda>s. key s = key r) f rows)) =
    int (sql_count Q rows) - (if Q r then 1 else 0) + (if Q (f r) then 1 else 0)"
  using assms
proof (induction rows)
  case Nil
  then show ?case by simp
next
  case (Cons s rows)
  show ?case
  proof (cases "key s = key r")
    case True
    with Cons.prems have sr: "s = r" by (auto dest: keyed_unique)
    with Cons.prems have "\<And>t. t \<in> set rows \<Longrightarrow> key t \<noteq> key r"
      by (auto simp: keyed_def image_iff)
    then have "sql_update (\<lambda>s. key s = key r) f rows = rows"
      by (rule sql_update_no_match) simp
    with sr show ?thesis by (simp add: sql_defs)
  next
    case False
    with Cons show ?thesis by (auto simp: sql_defs keyed_def)
  qed
qed

section \<open>Transition systems\<close>

text \<open>
  Reachable states and the invariant rule, once for every machine of the development: a
  machine gives its start states, its steps and an invariant that both respect.
\<close>

locale transition_system =
  fixes start :: "'s \<Rightarrow> bool"
    and step :: "'s \<Rightarrow> 's \<Rightarrow> bool"
    and inv :: "'s \<Rightarrow> bool"
  assumes inv_start: "start s \<Longrightarrow> inv s"
    and inv_step: "step s t \<Longrightarrow> inv s \<Longrightarrow> inv t"
begin

lemma inv_steps: "step\<^sup>*\<^sup>* s t \<Longrightarrow> inv s \<Longrightarrow> inv t"
  by (induction rule: rtranclp_induct) (auto intro: inv_step)

lemma inv_reachable: "start s \<Longrightarrow> step\<^sup>*\<^sup>* s t \<Longrightarrow> inv t"
  using inv_steps inv_start by blast

end

text \<open>
  A machine that implements another one: every step is matched by a finite number of abstract
  steps. What the abstract machine keeps, the concrete one keeps.
\<close>

locale simulation = transition_system start step inv
  for start :: "'s \<Rightarrow> bool" and step :: "'s \<Rightarrow> 's \<Rightarrow> bool" and inv :: "'s \<Rightarrow> bool" +
  fixes abs_of :: "'s \<Rightarrow> 'a" and astep :: "'a \<Rightarrow> 'a \<Rightarrow> bool"
  assumes sim_step: "step s t \<Longrightarrow> inv s \<Longrightarrow> astep\<^sup>*\<^sup>* (abs_of s) (abs_of t)"
begin

lemma sim_steps: "step\<^sup>*\<^sup>* s t \<Longrightarrow> inv s \<Longrightarrow> astep\<^sup>*\<^sup>* (abs_of s) (abs_of t)"
proof (induction rule: rtranclp_induct)
  case (step t u)
  then show ?case using sim_step inv_steps by (meson rtranclp_trans)
qed simp

lemma sim_reachable: "start s \<Longrightarrow> step\<^sup>*\<^sup>* s t \<Longrightarrow> astep\<^sup>*\<^sup>* (abs_of s) (abs_of t)"
  using sim_steps inv_start by blast

end

end
