(* ===== verification/Go_Strings.thy ===== *)
theory Go_Strings
  imports Prelude
begin

text \<open>
  The parts of Go's \<open>strings\<close>, \<open>bytes\<close>, \<open>strconv\<close>, \<open>fmt\<close> and \<open>encoding/hex\<close> packages that
  the coordinator calls. White space and letter case are those of ASCII; Go's extra Unicode
  spaces and letters are outside the strings the coordinator trims or folds.
\<close>

section \<open>Hexadecimal\<close>

definition hex_digit :: "nat \<Rightarrow> char" where
  "hex_digit n = ''0123456789abcdef'' ! n"

definition fromHexChar :: "char \<Rightarrow> nat option" where
  "fromHexChar c = (let n = of_char c :: nat in
     if 48 \<le> n \<and> n \<le> 57 then Some (n - 48)
     else if 97 \<le> n \<and> n \<le> 102 then Some (n - 97 + 10)
     else if 65 \<le> n \<and> n \<le> 70 then Some (n - 65 + 10)
     else None)"

definition hex_byte :: "char \<Rightarrow> string" where
  "hex_byte c = [hex_digit (of_char c div 16), hex_digit (of_char c mod 16)]"

definition hex_EncodeToString :: "bytes \<Rightarrow> string" where
  "hex_EncodeToString bs = concat (map hex_byte bs)"

fun hex_DecodeString :: "string \<Rightarrow> bytes option" where
  "hex_DecodeString [] = Some []"
| "hex_DecodeString [c] = None"
| "hex_DecodeString (a # b # s) =
     (case fromHexChar a of None \<Rightarrow> None | Some x \<Rightarrow>
      (case fromHexChar b of None \<Rightarrow> None | Some y \<Rightarrow>
       (case hex_DecodeString s of None \<Rightarrow> None | Some bs \<Rightarrow> Some (char_of (16 * x + y) # bs))))"

definition hex_char :: "char \<Rightarrow> bool" where
  "hex_char c \<longleftrightarrow> fromHexChar c \<noteq> None"

lemma fromHexChar_hex_digit: "n < 16 \<Longrightarrow> fromHexChar (hex_digit n) = Some n"
proof -
  assume "n < 16"
  then have "n \<in> set [0, 1, 2, 3, 4, 5, 6, 7, 8, 9, 10, 11, 12, 13, 14, 15]"
    by (simp, presburger)
  then show ?thesis by (auto simp: hex_digit_def fromHexChar_def)
qed

lemma fromHexChar_less: "fromHexChar c = Some n \<Longrightarrow> n < 16"
  by (auto simp: fromHexChar_def Let_def split: if_splits)

lemma of_char_less: "(of_char c :: nat) < 16 * 16"
  using nat_of_char_less_256 by simp

lemma nibble_less: "(of_char c :: nat) div 16 < 16" "(of_char c :: nat) mod 16 < 16"
  using less_mult_imp_div_less [OF of_char_less] by simp_all

lemma hex_decode_encode: "hex_DecodeString (hex_EncodeToString bs) = Some bs"
proof (induction bs)
  case (Cons c bs)
  then show ?case
    by (simp add: nibble_less hex_EncodeToString_def hex_byte_def fromHexChar_hex_digit)
qed (simp add: hex_EncodeToString_def)

lemma length_hex_EncodeToString [simp]: "length (hex_EncodeToString bs) = 2 * length bs"
  by (induction bs) (simp_all add: hex_EncodeToString_def hex_byte_def)

lemma hex_DecodeString_length: "hex_DecodeString s = Some bs \<Longrightarrow> length s = 2 * length bs"
  by (induction s arbitrary: bs rule: hex_DecodeString.induct) (auto split: option.splits)

lemma hex_DecodeString_chars: "hex_DecodeString s = Some bs \<Longrightarrow> c \<in> set s \<Longrightarrow> hex_char c"
  by (induction s arbitrary: bs rule: hex_DecodeString.induct)
    (auto simp: hex_char_def split: option.splits)

lemma hex_DecodeString_complete:
  "even (length s) \<Longrightarrow> (\<And>c. c \<in> set s \<Longrightarrow> hex_char c) \<Longrightarrow> \<exists>bs. hex_DecodeString s = Some bs"
proof (induction s rule: hex_DecodeString.induct)
  case (3 a b s)
  then obtain x y where "fromHexChar a = Some x" "fromHexChar b = Some y"
    by (auto simp: hex_char_def) (metis option.exhaust)
  with 3 show ?case by fastforce
qed simp_all

lemma hex_EncodeToString_inj: "hex_EncodeToString a = hex_EncodeToString b \<Longrightarrow> a = b"
  by (metis hex_decode_encode option.inject)

lemma hex_char_not_sep: "hex_char c \<Longrightarrow> c \<noteq> CHR ''|'' \<and> c \<noteq> CHR ''/'' \<and> c \<noteq> CHR ''@''"
  by (auto simp: hex_char_def fromHexChar_def)

lemma hex_digit_hex_char: "n < 16 \<Longrightarrow> hex_char (hex_digit n)"
  by (simp add: hex_char_def fromHexChar_hex_digit)

lemma hex_EncodeToString_chars: "c \<in> set (hex_EncodeToString bs) \<Longrightarrow> hex_char c"
  by (auto simp: hex_EncodeToString_def hex_byte_def nibble_less intro!: hex_digit_hex_char)

section \<open>Decimal\<close>

definition dec_digit :: "nat \<Rightarrow> char" where
  "dec_digit n = char_of (48 + n)"

fun dec_nat :: "nat \<Rightarrow> string" where
  "dec_nat n = (if n < 10 then [dec_digit n] else dec_nat (n div 10) @ [dec_digit (n mod 10)])"

declare dec_nat.simps [simp del]

text \<open>The verb \<open>%d\<close> and \<open>strconv.Itoa\<close>.\<close>

definition dec :: "int \<Rightarrow> string" where
  "dec n = (if n < 0 then CHR ''-'' # dec_nat (nat (- n)) else dec_nat (nat n))"

definition is_digit :: "char \<Rightarrow> bool" where
  "is_digit c \<longleftrightarrow> 48 \<le> (of_char c :: nat) \<and> (of_char c :: nat) \<le> 57"

definition digits_value :: "string \<Rightarrow> nat" where
  "digits_value s = foldl (\<lambda>a c. 10 * a + (of_char c - 48)) 0 s"

text \<open>\<open>strconv.ParseInt(s, 10, 64)\<close>: an optional sign, at least one digit, in range.\<close>

definition ParseInt :: "string \<Rightarrow> int option" where
  "ParseInt s =
     (let neg = (s \<noteq> [] \<and> hd s = CHR ''-'');
          ds = (if s \<noteq> [] \<and> (hd s = CHR ''-'' \<or> hd s = CHR ''+'') then tl s else s);
          n = int (digits_value ds);
          v = (if neg then - n else n)
      in if ds \<noteq> [] \<and> list_all is_digit ds \<and> in_int64 v then Some v else None)"

lemma of_char_dec_digit: "n < 10 \<Longrightarrow> (of_char (dec_digit n) :: nat) = 48 + n"
  by (simp add: dec_digit_def)

lemma dec_nat_digits: "c \<in> set (dec_nat n) \<Longrightarrow> is_digit c"
proof (induction n rule: dec_nat.induct)
  case (1 n)
  show ?case
  proof (cases "n < 10")
    case True
    with 1(2) show ?thesis by (auto simp: dec_nat.simps [of n] is_digit_def of_char_dec_digit)
  next
    case False
    with 1 show ?thesis by (auto simp: dec_nat.simps [of n] is_digit_def of_char_dec_digit)
  qed
qed

lemma digits_value_dec_nat: "digits_value (dec_nat n) = n"
proof (induction n rule: dec_nat.induct)
  case (1 n)
  then show ?case
    by (cases "n < 10") (simp_all add: dec_nat.simps [of n] digits_value_def of_char_dec_digit)
qed

lemma dec_nat_nonempty [simp]: "dec_nat n \<noteq> []"
  by (subst dec_nat.simps) simp

lemma dec_nat_inj: "dec_nat m = dec_nat n \<Longrightarrow> m = n"
  by (metis digits_value_dec_nat)

lemma is_digit_not_sep: "is_digit c \<Longrightarrow> c \<noteq> CHR ''|'' \<and> c \<noteq> CHR ''-'' \<and> c \<noteq> CHR ''+'' \<and> c \<noteq> CHR ''/''"
  by (auto simp: is_digit_def)

lemma dec_chars: "c \<in> set (dec n) \<Longrightarrow> c = CHR ''-'' \<or> is_digit c"
  by (auto simp: dec_def dest: dec_nat_digits split: if_splits)

lemma dec_no_bar: "CHR ''|'' \<notin> set (dec n)"
  using dec_chars is_digit_not_sep by fastforce

lemma dec_hd_minus: "hd (dec_nat k) \<noteq> CHR ''-''" "hd (dec_nat k) \<noteq> CHR ''+''"
  using is_digit_not_sep [OF dec_nat_digits [of "hd (dec_nat k)" k]] by simp_all

lemma ParseInt_dec:
  assumes "in_int64 n"
  shows "ParseInt (dec n) = Some n"
proof (cases "n < 0")
  case True
  then show ?thesis using assms dec_nat_digits
    by (auto simp: ParseInt_def dec_def digits_value_dec_nat list_all_iff)
next
  case False
  then show ?thesis using assms dec_nat_digits dec_hd_minus [of "nat n"]
    by (auto simp: ParseInt_def dec_def digits_value_dec_nat list_all_iff)
qed

lemma dec_inj:
  assumes "dec m = dec n"
  shows "m = n"
proof -
  have neg: "dec k \<noteq> dec l" if "k < 0" "\<not> l < 0" for k l
    using that dec_hd_minus(1) [of "nat l"] by (auto simp: dec_def) (metis list.sel(1))
  show ?thesis
  proof (cases "m < 0 \<longleftrightarrow> n < 0")
    case True
    then show ?thesis using assms by (auto simp: dec_def dest!: dec_nat_inj split: if_splits)
  next
    case False
    then show ?thesis using neg assms by metis
  qed
qed

section \<open>Trimming, folding and splitting\<close>

definition is_space :: "char \<Rightarrow> bool" where
  "is_space c \<longleftrightarrow> (of_char c :: nat) \<in> {9, 10, 11, 12, 13, 32}"

definition TrimSpace :: "string \<Rightarrow> string" where
  "TrimSpace s = rev (dropWhile is_space (rev (dropWhile is_space s)))"

definition to_lower :: "char \<Rightarrow> char" where
  "to_lower c = (if 65 \<le> (of_char c :: nat) \<and> (of_char c :: nat) \<le> 90 then char_of (of_char c + 32 :: nat) else c)"

definition to_upper :: "char \<Rightarrow> char" where
  "to_upper c = (if 97 \<le> (of_char c :: nat) \<and> (of_char c :: nat) \<le> 122 then char_of (of_char c - 32 :: nat) else c)"

definition ToLower :: "string \<Rightarrow> string" where "ToLower = map to_lower"
definition ToUpper :: "string \<Rightarrow> string" where "ToUpper = map to_upper"

definition TrimPrefix :: "string \<Rightarrow> string \<Rightarrow> string" where
  "TrimPrefix s p = (if prefix p s then drop (length p) s else s)"

definition TrimSuffix :: "string \<Rightarrow> string \<Rightarrow> string" where
  "TrimSuffix s p = (if suffix p s then take (length s - length p) s else s)"

text \<open>\<open>strings.TrimRight\<close> with a one-character cutset.\<close>

definition TrimRight :: "string \<Rightarrow> char \<Rightarrow> string" where
  "TrimRight s c = rev (dropWhile (\<lambda>d. d = c) (rev s))"

text \<open>What stands before the first \<open>c\<close>, and what after it: \<open>strings.Index\<close> and \<open>strings.SplitN(.., 2)\<close>.\<close>

definition before :: "char \<Rightarrow> string \<Rightarrow> string" where
  "before c s = takeWhile (\<lambda>d. d \<noteq> c) s"

definition after :: "char \<Rightarrow> string \<Rightarrow> string option" where
  "after c s = (case dropWhile (\<lambda>d. d \<noteq> c) s of [] \<Rightarrow> None | _ # t \<Rightarrow> Some t)"

lemma before_append [simp]: "c \<notin> set a \<Longrightarrow> before c (a @ c # b) = a"
  unfolding before_def by (subst takeWhile_append2) auto

lemma before_notin: "c \<notin> set a \<Longrightarrow> before c a = a"
  unfolding before_def by (subst takeWhile_eq_all_conv) auto

lemma after_append [simp]: "c \<notin> set a \<Longrightarrow> after c (a @ c # b) = Some b"
  unfolding after_def by (subst dropWhile_append2) auto

lemma before_no_sep: "c \<notin> set (before c s)"
  by (auto simp: before_def dest: set_takeWhileD)

lemma set_TrimSpace: "set (TrimSpace s) \<subseteq> set s"
  by (auto simp: TrimSpace_def dest!: set_dropWhileD)

lemma TrimSpace_id: "s = [] \<or> \<not> is_space (hd s) \<and> \<not> is_space (last s) \<Longrightarrow> TrimSpace s = s"
proof -
  assume *: "s = [] \<or> \<not> is_space (hd s) \<and> \<not> is_space (last s)"
  then have "dropWhile is_space s = s" by (auto simp: dropWhile_eq_self_iff)
  moreover have "dropWhile is_space (rev s) = rev s"
    using * by (auto simp: dropWhile_eq_self_iff hd_rev)
  ultimately show ?thesis by (simp add: TrimSpace_def)
qed

lemma TrimSpace_idem: "TrimSpace (TrimSpace s) = TrimSpace s"
proof (cases "TrimSpace s = []")
  case False
  define t where "t = dropWhile is_space s"
  have T: "TrimSpace s = rev (dropWhile is_space (rev t))" by (simp add: TrimSpace_def t_def)
  have "\<not> is_space (last (TrimSpace s))"
    using False hd_dropWhile [of is_space "rev t"] by (simp add: T last_rev)
  moreover have "\<not> is_space (hd (TrimSpace s))"
  proof -
    obtain u where u: "t = TrimSpace s @ u"
      using T takeWhile_dropWhile_id [of is_space "rev t"] by (metis rev_append rev_rev_ident)
    then have "t \<noteq> []" "hd t = hd (TrimSpace s)" using False by auto
    then show ?thesis using hd_dropWhile [of is_space s] by (simp add: t_def)
  qed
  ultimately show ?thesis by (simp add: TrimSpace_id)
next
  case True
  then show ?thesis by (simp only: True) (simp add: TrimSpace_def)
qed

lemma sep_unique:
  fixes a a' :: string
  assumes "c \<notin> set a" "c \<notin> set a'" "a @ c # b = a' @ c # b'"
  shows "a = a' \<and> b = b'"
proof -
  have "before c (a @ c # b) = a" "before c (a' @ c # b') = a'"
    using assms(1,2) by simp_all
  then have "a = a'" using assms(3) by (simp only:)
  with assms(3) show ?thesis by simp
qed

lemma sep_unique_last:
  fixes b b' :: string
  assumes "c \<notin> set b" "c \<notin> set b'" "a @ c # b = a' @ c # b'"
  shows "a = a' \<and> b = b'"
proof -
  have "rev b @ c # rev a = rev b' @ c # rev a'"
    using arg_cong [OF assms(3), of rev] by simp
  then show ?thesis using sep_unique [of c "rev b" "rev b'" "rev a" "rev a'"] assms by simp
qed

end
