(* ===== verification/Go_Float.thy ===== *)
theory Go_Float
  imports Prelude "HOL-Library.Log_Nat"
begin

text \<open>
  Go's \<open>float64\<close> and \<open>float32\<close>: finite values are real numbers, every operation is the
  exact result rounded to nearest, ties to even, with gradual underflow and with overflow to
  an infinity; comparisons with a NaN are false. The sign of zero and the payload of a NaN
  are not kept (no code of the coordinator reads them).
\<close>

section \<open>Rounding to an integer, ties to even\<close>

definition rne :: "real \<Rightarrow> int" where
  "rne x = (let n = \<lfloor>x\<rfloor>; d = x - of_int n in
     if d < 1 / 2 then n else if 1 / 2 < d then n + 1 else if even n then n else n + 1)"

lemma rne_of_int [simp]: "rne (of_int k) = k"
  by (simp add: rne_def)

lemma rne_bounds: "\<lfloor>x\<rfloor> \<le> rne x" "rne x \<le> \<lceil>x\<rceil>"
proof -
  show "\<lfloor>x\<rfloor> \<le> rne x" by (simp add: rne_def Let_def)
  show "rne x \<le> \<lceil>x\<rceil>"
  proof (cases "x = of_int \<lfloor>x\<rfloor>")
    case True
    then show ?thesis by (metis ceiling_of_int order_refl rne_of_int)
  next
    case False
    then have "\<lceil>x\<rceil> = \<lfloor>x\<rfloor> + 1"
      using ceiling_altdef by metis
    then show ?thesis by (simp add: rne_def Let_def)
  qed
qed

lemma rne_mono: "x \<le> y \<Longrightarrow> rne x \<le> rne y"
proof (cases "\<lfloor>x\<rfloor> = \<lfloor>y\<rfloor>")
  case True
  moreover assume "x \<le> y"
  ultimately show ?thesis by (auto simp: rne_def Let_def)
next
  case False
  moreover assume "x \<le> y"
  ultimately have "\<lfloor>x\<rfloor> + 1 \<le> \<lfloor>y\<rfloor>" using floor_mono [of x y] by simp
  moreover have "rne x \<le> \<lfloor>x\<rfloor> + 1" by (simp add: rne_def Let_def)
  ultimately show ?thesis using rne_bounds(1) [of y] by simp
qed

lemma rne_error: "\<bar>of_int (rne x) - x\<bar> \<le> 1 / 2"
  unfolding rne_def Let_def by (auto simp: abs_if) linarith+

lemma rne_ge: "of_int k \<le> x \<Longrightarrow> k \<le> rne x"
  using rne_mono [of "of_int k" x] by simp

lemma rne_le: "x \<le> of_int k \<Longrightarrow> rne x \<le> k"
  using rne_mono [of x "of_int k"] by simp

section \<open>The binary exponent\<close>

definition ilog2 :: "real \<Rightarrow> int" where
  "ilog2 x = (if 1 \<le> x then bitlen \<lfloor>x\<rfloor> - 1 else - bitlen (\<lceil>1 / x\<rceil> - 1))"

lemma bitlen_sandwich:
  assumes "0 < n"
  shows "2 powi (bitlen n - 1) \<le> real_of_int n" "real_of_int n < 2 powi (bitlen n)"
proof -
  define k where "k = nat (bitlen n)"
  have k: "bitlen n = int k" "0 < k"
    using assms bitlen_nonneg [of n] bitlen_eq_zero_iff [of n] by (auto simp: k_def)
  have "nat (bitlen n - 1) = k - 1" "nat (bitlen n) = k" using k by simp_all
  then have "2 ^ (k - 1) \<le> n" "n < 2 ^ k"
    using bitlen_bounds [OF assms] by simp_all
  then have "(2::real) ^ (k - 1) \<le> of_int n" "of_int n < (2::real) ^ k"
    by (metis of_int_le_iff of_int_numeral of_int_power, metis of_int_less_iff of_int_numeral of_int_power)
  moreover have "int k - 1 = int (k - 1)" using k by simp
  ultimately show "2 powi (bitlen n - 1) \<le> real_of_int n" "real_of_int n < 2 powi (bitlen n)"
    by (simp_all only: k power_int_of_nat)
qed

lemma ilog2_bounds:
  assumes "0 < x"
  shows "2 powi ilog2 x \<le> x" "x < 2 powi (ilog2 x + 1)"
proof (atomize (full), cases "1 \<le> x")
  case True
  then have n: "0 < \<lfloor>x\<rfloor>" by linarith
  have i: "ilog2 x = bitlen \<lfloor>x\<rfloor> - 1" using True by (simp add: ilog2_def)
  have lo: "2 powi ilog2 x \<le> x"
    using order_trans [OF bitlen_sandwich(1) [OF n] of_int_floor_le [of x]] i by simp
  have "real_of_int \<lfloor>x\<rfloor> + 1 \<le> 2 powi bitlen \<lfloor>x\<rfloor>"
  proof -
    obtain k where k: "bitlen \<lfloor>x\<rfloor> = int k" using bitlen_nonneg nonneg_int_cases by blast
    with bitlen_sandwich(2) [OF n] have "real_of_int \<lfloor>x\<rfloor> < of_int (2 ^ k)" by simp
    then have "\<lfloor>x\<rfloor> + 1 \<le> 2 ^ k" by linarith
    then have "real_of_int (\<lfloor>x\<rfloor> + 1) \<le> of_int (2 ^ k)" by (simp only: of_int_le_iff)
    with k show ?thesis by simp
  qed
  moreover have "x < real_of_int \<lfloor>x\<rfloor> + 1" by linarith
  ultimately have "x < 2 powi bitlen \<lfloor>x\<rfloor>" by (meson less_le_trans)
  then show "2 powi ilog2 x \<le> x \<and> x < 2 powi (ilog2 x + 1)"
    using lo i by simp
next
  case False
  define m where "m = \<lceil>1 / x\<rceil> - 1"
  define k where "k = nat (bitlen m)"
  have "1 < 1 / x" using False assms by simp
  then have m: "0 < m" unfolding m_def by linarith
  have k: "bitlen m = int k" by (simp add: k_def bitlen_nonneg)
  have i: "ilog2 x = - int k" using False k by (simp add: ilog2_def m_def)
  have "real_of_int m < of_int (2 ^ k)" using bitlen_sandwich(2) [OF m] k by simp
  then have "m + 1 \<le> 2 ^ k" by linarith
  then have "real_of_int (m + 1) \<le> 2 ^ k" by (metis of_int_le_iff of_int_numeral of_int_power)
  then have "1 / x \<le> 2 ^ k" unfolding m_def using le_of_int_ceiling [of "1 / x"] by linarith
  then have lo: "2 powi ilog2 x \<le> x"
    using assms by (simp add: i power_int_minus divide_simps mult.commute)
  have "real_of_int m < 1 / x" unfolding m_def by linarith
  then have "2 powi (int k - 1) < 1 / x" using bitlen_sandwich(1) [OF m] k by simp
  then have "x < 1 / (2 powi (int k - 1))"
    using assms by (simp add: divide_simps mult.commute)
  also have "\<dots> = 2 powi (ilog2 x + 1)"
    by (metis i add.commute diff_minus_eq_add inverse_eq_divide minus_diff_eq power_int_minus uminus_add_conv_diff)
  finally show "2 powi ilog2 x \<le> x \<and> x < 2 powi (ilog2 x + 1)" using lo by simp
qed

lemma powi2_less_cancel: "2 powi a < (2::real) powi b \<Longrightarrow> a < b"
  using power_int_increasing [of b a "2::real"] by (cases "a < b") auto

lemma ilog2_mono:
  assumes "0 < x" "x \<le> y"
  shows "ilog2 x \<le> ilog2 y"
proof -
  have "2 powi ilog2 x < (2::real) powi (ilog2 y + 1)"
    using ilog2_bounds(1) [of x] ilog2_bounds(2) [of y] assms by linarith
  then show ?thesis using powi2_less_cancel by fastforce
qed

section \<open>Rounding to a binary format\<close>

record fformat =
  prec :: nat
  emin :: int
  emax :: nat

definition binary64 :: fformat where "binary64 = \<lparr>prec = 53, emin = - 1074, emax = 1024\<rparr>"
definition binary32 :: fformat where "binary32 = \<lparr>prec = 24, emin = - 149, emax = 128\<rparr>"

text \<open>The exponent of the unit in the last place at \<open>x\<close>, and the rounding of \<open>x\<close>.\<close>

definition ulp_exp :: "fformat \<Rightarrow> real \<Rightarrow> int" where
  "ulp_exp F x = max (ilog2 \<bar>x\<bar> - (int (prec F) - 1)) (emin F)"

definition rnd :: "fformat \<Rightarrow> real \<Rightarrow> real" where
  "rnd F x = (if x = 0 then 0 else
     let u = 2 powi ulp_exp F x in of_int (rne (x / u)) * u)"

text \<open>Values of the format: a significand below \<open>2 ^ prec\<close> times a power of two.\<close>

definition representable :: "fformat \<Rightarrow> real \<Rightarrow> bool" where
  "representable F x \<longleftrightarrow> (\<exists>m e. x = of_int m * 2 powi e \<and> \<bar>m\<bar> \<le> 2 ^ prec F \<and> emin F \<le> e)"

lemma rnd_0 [simp]: "rnd F 0 = 0"
  by (simp add: rnd_def)

lemma rne_uminus: "rne (- x) = - rne x"
proof (cases "x = of_int \<lfloor>x\<rfloor>")
  case True
  then show ?thesis by (metis of_int_minus rne_of_int)
next
  case False
  then have "\<lfloor>- x\<rfloor> = - \<lfloor>x\<rfloor> - 1" by linarith
  then show ?thesis by (auto simp: rne_def Let_def)
qed

lemma rnd_uminus: "rnd F (- x) = - rnd F x"
  by (simp add: rnd_def ulp_exp_def Let_def rne_uminus)

lemma rnd_eq_grid:
  assumes "x = of_int m * 2 powi e" "e \<ge> ulp_exp F x"
  shows "rnd F x = x"
proof (cases "x = 0")
  case False
  define k where "k = nat (e - ulp_exp F x)"
  have e: "e = int k + ulp_exp F x" using assms(2) by (simp add: k_def)
  have "x = of_int (m * 2 ^ k) * 2 powi ulp_exp F x"
    using assms(1) by (simp add: e power_int_add)
  then have "x / 2 powi ulp_exp F x = of_int (m * 2 ^ k)"
    by (simp add: divide_simps)
  then have "rnd F x = of_int (m * 2 ^ k) * 2 powi ulp_exp F x"
    using False by (simp only: rnd_def Let_def rne_of_int if_False)
  with \<open>x = of_int (m * 2 ^ k) * 2 powi ulp_exp F x\<close> show ?thesis by (simp only:)
qed simp

lemma rnd_representable:
  assumes "representable F x" "0 < prec F"
  shows "rnd F x = x"
proof (cases "x = 0")
  case False
  obtain m e where x: "x = of_int m * 2 powi e" and m: "\<bar>m\<bar> \<le> 2 ^ prec F" and e: "emin F \<le> e"
    using assms(1) by (auto simp: representable_def)
  show ?thesis
  proof (cases "\<bar>m\<bar> = 2 ^ prec F")
    case True
    have "x = of_int (sgn m) * 2 powi (e + int (prec F))"
      unfolding x using True
      by (simp add: power_int_add abs_sgn_eq) (metis abs_sgn_eq mult_sgn_abs of_int_mult of_int_numeral of_int_power mult.assoc mult.commute)
    moreover have "ilog2 \<bar>x\<bar> \<le> e + int (prec F)"
    proof -
      have "\<bar>x\<bar> = 2 powi (e + int (prec F))"
        unfolding x using True
        by (simp add: abs_mult power_int_add) (metis of_int_abs of_int_numeral of_int_power)
      then have "2 powi ilog2 \<bar>x\<bar> < (2::real) powi (e + int (prec F) + 1)"
        using ilog2_bounds(1) [of "\<bar>x\<bar>"] False by (simp add: power_int_add)
      then show ?thesis using powi2_less_cancel by fastforce
    qed
    ultimately show ?thesis using e assms(2)
      by (intro rnd_eq_grid) (auto simp: ulp_exp_def)
  next
    case False
    with m have "\<bar>m\<bar> < 2 ^ prec F" by simp
    then have "real_of_int \<bar>m\<bar> < 2 ^ prec F"
      by (metis of_int_less_iff of_int_numeral of_int_power)
    then have "\<bar>x\<bar> < 2 powi (e + int (prec F))"
      unfolding x by (simp add: abs_mult power_int_add)
    then have "2 powi ilog2 \<bar>x\<bar> < (2::real) powi (e + int (prec F))"
      using ilog2_bounds(1) [of "\<bar>x\<bar>"] \<open>x \<noteq> 0\<close> by simp
    then have "ilog2 \<bar>x\<bar> < e + int (prec F)" by (rule powi2_less_cancel)
    then show ?thesis using x e by (intro rnd_eq_grid) (auto simp: ulp_exp_def)
  qed
qed simp

text \<open>
  What the proofs about the coordinator's arithmetic use of a rounding: it is monotone, odd,
  and the identity on a set of values that contains 0 and 1. Bounds by such values then carry
  over from the exact result to the rounded one.
\<close>

locale rounding =
  fixes r :: "real \<Rightarrow> real"
    and repr :: "real \<Rightarrow> bool"
  assumes mono: "x \<le> y \<Longrightarrow> r x \<le> r y"
    and odd_r: "r (- x) = - r x"
    and exact: "repr x \<Longrightarrow> r x = x"
    and repr_r: "repr (r x)"
    and repr_01: "repr 0" "repr 1"
begin

lemma idem [simp]: "r (r x) = r x"
  by (simp add: exact repr_r)

lemma zero [simp]: "r 0 = 0" and one [simp]: "r 1 = 1"
  using exact repr_01 by auto

lemma upper: "x \<le> b \<Longrightarrow> repr b \<Longrightarrow> r x \<le> b"
  using mono [of x b] exact [of b] by simp

lemma lower: "b \<le> x \<Longrightarrow> repr b \<Longrightarrow> b \<le> r x"
  using mono [of b x] exact [of b] by simp

lemma nonneg: "0 \<le> x \<Longrightarrow> 0 \<le> r x"
  by (rule lower) (simp_all add: repr_01)

lemma nonpos: "x \<le> 0 \<Longrightarrow> r x \<le> 0"
  by (rule upper) (simp_all add: repr_01)

lemma unit: "0 \<le> x \<Longrightarrow> x \<le> 1 \<Longrightarrow> 0 \<le> r x \<and> r x \<le> 1"
  by (simp add: nonneg upper repr_01)

lemma abs_upper: "\<bar>x\<bar> \<le> b \<Longrightarrow> repr b \<Longrightarrow> \<bar>r x\<bar> \<le> b"
  using upper [of x b] upper [of "- x" b] by (simp add: odd_r abs_le_iff)

end

lemma ulp_exp_mono:
  assumes "0 < x" "x \<le> y"
  shows "ulp_exp F x \<le> ulp_exp F y"
  using ilog2_mono [OF assms] assms by (simp add: ulp_exp_def max_def)

lemma rnd_nonneg: "0 \<le> x \<Longrightarrow> 0 \<le> rnd F x"
  using rne_ge [of 0] by (simp add: rnd_def Let_def)

lemma rnd_grid_step:
  assumes "0 < x" "x < y" "ulp_exp F x < ulp_exp F y" "0 < prec F"
  shows "rnd F x \<le> rnd F y"
proof -
  define p where "p = int (prec F) - 1"
  define a where "a = ulp_exp F x"
  define b where "b = ulp_exp F y"
  have p: "0 \<le> p" using assms(4) by (simp add: p_def)
  have ab: "a + 1 \<le> b" using assms(3) by (simp add: a_def b_def)
  have b: "b = ilog2 y - p"
    using assms by (auto simp: ulp_exp_def a_def b_def p_def split: if_splits)
  have "x < 2 powi (ilog2 x + 1)" using ilog2_bounds assms by simp
  also have "\<dots> \<le> 2 powi (a + (p + 1))"
    using assms by (intro power_int_increasing) (simp_all add: ulp_exp_def a_def p_def)
  finally have "x / 2 powi a \<le> 2 powi (p + 1)" by (simp add: power_int_add divide_simps mult.commute)
  also have "\<dots> = of_int (2 ^ prec F)" by (simp add: p_def)
  finally have "rne (x / 2 powi a) \<le> 2 ^ prec F" by (rule rne_le)
  then have "of_int (rne (x / 2 powi a)) \<le> (2::real) ^ prec F"
    by (metis of_int_le_iff of_int_numeral of_int_power)
  then have "rnd F x \<le> 2 ^ prec F * 2 powi a"
    using assms by (simp add: rnd_def Let_def a_def)
  also have "\<dots> = 2 powi (a + 1) * 2 powi p"
    using assms(4) by (simp add: p_def power_int_add power_int_diff)
  also have "\<dots> \<le> 2 powi b * 2 powi p" using ab by (simp add: power_int_increasing)
  also have "\<dots> \<le> rnd F y"
  proof -
    have "2 powi b * 2 powi p = (2::real) powi ilog2 y"
      unfolding b by (simp flip: power_int_add)
    then have "2 powi p \<le> y / 2 powi b"
      using ilog2_bounds(1) [of y] assms by (simp add: field_simps)
    moreover have "2 powi p = (of_int (2 ^ nat p) :: real)"
      using p power_int_of_nat [of "2::real" "nat p"] by simp
    ultimately have "2 ^ nat p \<le> rne (y / 2 powi b)" using rne_ge by metis
    then have "2 powi p \<le> real_of_int (rne (y / 2 powi b))"
      using \<open>2 powi p = (of_int (2 ^ nat p) :: real)\<close> by (metis of_int_le_iff)
    then show ?thesis using assms by (simp add: rnd_def Let_def b_def mult.commute)
  qed
  finally show ?thesis .
qed

lemma rnd_mono_pos:
  assumes "0 < x" "x \<le> y" "0 < prec F"
  shows "rnd F x \<le> rnd F y"
proof (cases "ulp_exp F x = ulp_exp F y")
  case True
  have "x / 2 powi ulp_exp F y \<le> y / 2 powi ulp_exp F y"
    using assms by (simp add: divide_right_mono)
  then show ?thesis using assms True rne_mono
    by (simp add: rnd_def Let_def mult_right_mono)
next
  case False
  then have "ulp_exp F x < ulp_exp F y" "x < y"
    using ulp_exp_mono [OF assms(1,2), of F] assms by (auto simp: order.order_iff_strict)
  then show ?thesis using assms rnd_grid_step by blast
qed

lemma rnd_mono:
  assumes "x \<le> y" "0 < prec F"
  shows "rnd F x \<le> rnd F y"
proof -
  consider "0 < x" | "x \<le> 0" "0 \<le> y" | "y < 0" by linarith
  then show ?thesis
  proof cases
    case 1
    then show ?thesis using assms rnd_mono_pos by blast
  next
    case 2
    then show ?thesis
      using rnd_nonneg [of y F] rnd_nonneg [of "- x" F] by (simp add: rnd_uminus)
  next
    case 3
    then show ?thesis
      using rnd_mono_pos [of "- y" "- x" F] assms by (simp add: rnd_uminus)
  qed
qed

lemma representable_rnd:
  assumes "0 < prec F"
  shows "representable F (rnd F x)"
proof (cases "x = 0")
  case True
  then show ?thesis by (auto simp: representable_def intro!: exI [of _ 0] exI [of _ "emin F"])
next
  case False
  define a where "a = ulp_exp F x"
  have "\<bar>x\<bar> < 2 powi (ilog2 \<bar>x\<bar> + 1)" using ilog2_bounds [of "\<bar>x\<bar>"] False by simp
  also have "\<dots> \<le> 2 powi (a + int (prec F))"
    using False by (intro power_int_increasing) (simp_all add: ulp_exp_def a_def)
  finally have "\<bar>x\<bar> / 2 powi a \<le> 2 ^ prec F" by (simp add: power_int_add divide_simps mult.commute)
  then have "x / 2 powi a \<le> of_int (2 ^ prec F)" "of_int (- (2 ^ prec F)) \<le> x / 2 powi a"
    by (auto simp: abs_le_iff abs_if divide_simps split: if_splits)
  then have "\<bar>rne (x / 2 powi a)\<bar> \<le> 2 ^ prec F" using rne_le rne_ge by (auto simp: abs_le_iff minus_le_iff)
  moreover have "emin F \<le> a" by (simp add: a_def ulp_exp_def)
  ultimately show ?thesis unfolding representable_def using False
    by (intro exI [of _ "rne (x / 2 powi a)"] exI [of _ a]) (simp add: rnd_def Let_def a_def)
qed

lemma representable_int:
  assumes "\<bar>k\<bar> \<le> 2 ^ prec F" "emin F \<le> 0"
  shows "representable F (of_int k)"
  unfolding representable_def by (rule exI [of _ k], rule exI [of _ 0]) (use assms in simp)

interpretation f64: rounding "rnd binary64" "representable binary64"
proof (unfold_locales, goal_cases)
  case (1 x y)
  then show ?case by (simp add: rnd_mono binary64_def)
next
  case (2 x)
  show ?case by (rule rnd_uminus)
next
  case (3 x)
  then show ?case by (simp add: rnd_representable binary64_def)
next
  case (4 x)
  show ?case by (simp add: representable_rnd binary64_def)
next
  case 5
  show ?case using representable_int [of 0 binary64] by (simp add: binary64_def)
next
  case 6
  show ?case using representable_int [of 1 binary64] by (simp add: binary64_def)
qed

interpretation f32: rounding "rnd binary32" "representable binary32"
proof (unfold_locales, goal_cases)
  case (1 x y)
  then show ?case by (simp add: rnd_mono binary32_def)
next
  case (2 x)
  show ?case by (rule rnd_uminus)
next
  case (3 x)
  then show ?case by (simp add: rnd_representable binary32_def)
next
  case (4 x)
  show ?case by (simp add: representable_rnd binary32_def)
next
  case 5
  show ?case using representable_int [of 0 binary32] by (simp add: binary32_def)
next
  case 6
  show ?case using representable_int [of 1 binary32] by (simp add: binary32_def)
qed

section \<open>Floating-point values and operations\<close>

datatype flt = Fin real | PInf | NInf | NaN

definition fround :: "fformat \<Rightarrow> real \<Rightarrow> flt" where
  "fround F x = (let y = rnd F x in
     if 2 ^ emax F \<le> y then PInf else if y \<le> - (2 ^ emax F) then NInf else Fin y)"

text \<open>A \<open>float64\<close> constant of the source, and the conversion \<open>float64(k)\<close> of an integer.\<close>

definition f64 :: "real \<Rightarrow> flt" where "f64 x = fround binary64 x"
definition float64 :: "int \<Rightarrow> flt" where "float64 k = f64 (of_int k)"

fun flt_neg :: "flt \<Rightarrow> flt" where
  "flt_neg (Fin x) = Fin (- x)"
| "flt_neg PInf = NInf"
| "flt_neg NInf = PInf"
| "flt_neg NaN = NaN"

fun flt_add :: "fformat \<Rightarrow> flt \<Rightarrow> flt \<Rightarrow> flt" where
  "flt_add F (Fin x) (Fin y) = fround F (x + y)"
| "flt_add F NaN _ = NaN"
| "flt_add F _ NaN = NaN"
| "flt_add F PInf NInf = NaN"
| "flt_add F NInf PInf = NaN"
| "flt_add F PInf _ = PInf"
| "flt_add F _ PInf = PInf"
| "flt_add F NInf _ = NInf"
| "flt_add F _ NInf = NInf"

definition flt_sub :: "fformat \<Rightarrow> flt \<Rightarrow> flt \<Rightarrow> flt" where
  "flt_sub F a b = flt_add F a (flt_neg b)"

text \<open>An infinity with the given sign; a product or quotient of it with zero is a NaN.\<close>

definition signed_inf :: "real \<Rightarrow> flt" where
  "signed_inf s = (if 0 < s then PInf else if s < 0 then NInf else NaN)"

fun flt_sgn :: "flt \<Rightarrow> real" where
  "flt_sgn (Fin x) = sgn x"
| "flt_sgn PInf = 1"
| "flt_sgn NInf = - 1"
| "flt_sgn NaN = 0"

fun flt_mul :: "fformat \<Rightarrow> flt \<Rightarrow> flt \<Rightarrow> flt" where
  "flt_mul F (Fin x) (Fin y) = fround F (x * y)"
| "flt_mul F NaN _ = NaN"
| "flt_mul F _ NaN = NaN"
| "flt_mul F a b = signed_inf (flt_sgn a * flt_sgn b)"

text \<open>Division by zero gives the infinity of the dividend's sign (positive zero), \<open>0 / 0\<close> a NaN.\<close>

fun flt_div :: "fformat \<Rightarrow> flt \<Rightarrow> flt \<Rightarrow> flt" where
  "flt_div F (Fin x) (Fin y) = (if y = 0 then signed_inf (sgn x) else fround F (x / y))"
| "flt_div F NaN _ = NaN"
| "flt_div F _ NaN = NaN"
| "flt_div F (Fin x) _ = Fin 0"
| "flt_div F a (Fin y) = (if y = 0 then a else signed_inf (flt_sgn a * sgn y))"
| "flt_div F _ _ = NaN"

fun flt_sqrt :: "fformat \<Rightarrow> flt \<Rightarrow> flt" where
  "flt_sqrt F (Fin x) = (if x < 0 then NaN else fround F (sqrt x))"
| "flt_sqrt F PInf = PInf"
| "flt_sqrt F _ = NaN"

fun flt_lt :: "flt \<Rightarrow> flt \<Rightarrow> bool" where
  "flt_lt (Fin x) (Fin y) \<longleftrightarrow> x < y"
| "flt_lt NaN _ \<longleftrightarrow> False"
| "flt_lt _ NaN \<longleftrightarrow> False"
| "flt_lt NInf b \<longleftrightarrow> b \<noteq> NInf"
| "flt_lt _ NInf \<longleftrightarrow> False"
| "flt_lt a PInf \<longleftrightarrow> a \<noteq> PInf"
| "flt_lt PInf _ \<longleftrightarrow> False"

definition flt_le :: "flt \<Rightarrow> flt \<Rightarrow> bool" where
  "flt_le a b \<longleftrightarrow> flt_lt a b \<or> (a = b \<and> a \<noteq> NaN)"

definition flt_eq :: "flt \<Rightarrow> flt \<Rightarrow> bool" where
  "flt_eq a b \<longleftrightarrow> a = b \<and> a \<noteq> NaN"

text \<open>The conversions \<open>float32(x)\<close> and \<open>int64(x)\<close> (on amd64 an unrepresentable value gives the least integer).\<close>

fun flt_conv :: "fformat \<Rightarrow> flt \<Rightarrow> flt" where
  "flt_conv F (Fin x) = fround F x"
| "flt_conv F x = x"

definition trunc :: "real \<Rightarrow> int" where
  "trunc x = (if 0 \<le> x then \<lfloor>x\<rfloor> else \<lceil>x\<rceil>)"

definition flt_to_int64 :: "flt \<Rightarrow> int" where
  "flt_to_int64 a = (case a of
     Fin x \<Rightarrow> if in_int64 (trunc x) then trunc x else - (2 ^ 63)
   | _ \<Rightarrow> - (2 ^ 63))"

abbreviation add64 :: "flt \<Rightarrow> flt \<Rightarrow> flt" where "add64 \<equiv> flt_add binary64"
abbreviation sub64 :: "flt \<Rightarrow> flt \<Rightarrow> flt" where "sub64 \<equiv> flt_sub binary64"
abbreviation mul64 :: "flt \<Rightarrow> flt \<Rightarrow> flt" where "mul64 \<equiv> flt_mul binary64"
abbreviation div64 :: "flt \<Rightarrow> flt \<Rightarrow> flt" where "div64 \<equiv> flt_div binary64"
abbreviation sqrt64 :: "flt \<Rightarrow> flt" where "sqrt64 \<equiv> flt_sqrt binary64"
abbreviation float32 :: "flt \<Rightarrow> flt" where "float32 \<equiv> flt_conv binary32"

abbreviation r64 :: "real \<Rightarrow> real" where "r64 \<equiv> rnd binary64"
abbreviation r32 :: "real \<Rightarrow> real" where "r32 \<equiv> rnd binary32"

subsection \<open>Operations that stay finite\<close>

lemma representable_pow2:
  assumes "emin F \<le> int k"
  shows "representable F (2 ^ k)"
  unfolding representable_def
  by (rule exI [of _ 1], rule exI [of _ "int k"]) (use assms in simp)

lemma representable_half_int:
  assumes "\<bar>k\<bar> \<le> 2 ^ prec F" "emin F \<le> - 1"
  shows "representable F (of_int k / 2)"
  unfolding representable_def
  by (rule exI [of _ k], rule exI [of _ "- 1"]) (use assms in \<open>simp add: power_int_minus\<close>)

text \<open>The magnitude below which no result of the coordinator's \<open>float64\<close> arithmetic overflows.\<close>

definition small :: "real \<Rightarrow> bool" where "small x \<longleftrightarrow> \<bar>x\<bar> \<le> 2 ^ 200"

lemma small_I: "\<bar>x\<bar> \<le> 2 ^ 200 \<Longrightarrow> small x"
  by (simp add: small_def)

lemma small_r64: "small x \<Longrightarrow> small (r64 x)"
  unfolding small_def by (erule f64.abs_upper [OF _ representable_pow2]) (simp add: binary64_def)

lemma small_fround:
  assumes "small x"
  shows "fround binary64 x = Fin (r64 x)"
proof -
  have "\<bar>r64 x\<bar> \<le> 2 ^ 200" using small_r64 [OF assms] by (simp add: small_def)
  moreover have "(2::real) ^ 120 < 2 ^ 1024" by (rule power_strict_increasing) simp_all
  ultimately have "\<bar>r64 x\<bar> < 2 ^ emax binary64" by (simp add: binary64_def)
  then show ?thesis by (auto simp: fround_def Let_def abs_less_iff simp del: power_numeral)
qed

lemma small_f64: "small x \<Longrightarrow> f64 x = Fin (r64 x)"
  by (simp add: f64_def small_fround)

lemma float64_finite:
  assumes "in_int64 k"
  shows "float64 k = Fin (r64 (of_int k))"
proof -
  have "\<bar>real_of_int k\<bar> \<le> 2 ^ 63" using assms by (auto simp: in_int_def abs_le_iff)
  then have "small (of_int k)" by (simp add: small_def)
  then show ?thesis by (simp add: float64_def small_f64)
qed

lemma r64_int: "\<bar>k\<bar> \<le> 2 ^ 53 \<Longrightarrow> r64 (of_int k) = of_int k"
  by (rule f64.exact) (simp add: representable_int binary64_def)

lemma r64_numeral:
  "(numeral n :: int) \<le> 2 ^ 53 \<Longrightarrow> r64 (numeral n) = numeral n"
  using r64_int [of "numeral n"] by simp

lemma flt_lt_irrefl [simp]: "\<not> flt_lt a a"
  by (cases a) simp_all

lemma flt_le_Fin [simp]: "flt_le (Fin x) (Fin y) \<longleftrightarrow> x \<le> y"
  by (auto simp: flt_le_def)

lemma flt_lt_trans: "flt_lt a b \<Longrightarrow> flt_lt b c \<Longrightarrow> flt_lt a c"
  by (cases a; cases b; cases c) auto

lemma flt_lt_NaN [simp]: "\<not> flt_lt a NaN" "\<not> flt_le a NaN" "\<not> flt_le NaN a"
  by (cases a; simp add: flt_le_def)+

lemma NaN_absorbs [simp]:
  "flt_add F a NaN = NaN" "flt_mul F a NaN = NaN" "flt_div F a NaN = NaN" "flt_sub F a NaN = NaN"
  "flt_sub F NaN a = NaN"
  by (cases a; simp add: flt_sub_def)+

lemma trunc_bounds: "0 \<le> x \<Longrightarrow> x \<le> of_int b \<Longrightarrow> 0 \<le> trunc x \<and> trunc x \<le> b"
  by (simp add: trunc_def) linarith

end
