(* ===== verification/World.thy ===== *)
theory World
  imports Go_Strings Go_Float
begin

text \<open>
  The state the coordinator's packages share: the PostgreSQL tables of the migrations, the
  Prometheus metrics, the Redis channel, the object store, the payment queue and the clock.
  A database call may fail at any time; which calls fail is the list \<open>w_faults\<close>, consumed one
  entry per call. A failed call has no effect. Each statement sees one instant of the clock.
\<close>

section \<open>Time\<close>

text \<open>
  A \<open>time.Time\<close> is a number of nanoseconds since the year 1, Go's internal epoch; the seconds
  are an \<open>int64\<close>, so \<open>time.Unix\<close> wraps. \<open>Time.Sub\<close> saturates at the ends of \<open>Duration\<close>.
\<close>

definition Second :: int where "Second = 10 ^ 9"
definition Minute :: int where "Minute = 60 * Second"
definition Hour :: int where "Hour = 60 * Minute"

definition unixToInternal :: int where "unixToInternal = 62135596800"

definition time_Unix :: "int \<Rightarrow> int" where
  "time_Unix ts = int64 (ts + unixToInternal) * Second"

definition unix_seconds :: "int \<Rightarrow> int" where
  "unix_seconds t = t div Second - unixToInternal"

definition minDuration :: int where "minDuration = - (2 ^ 63)"
definition maxDuration :: int where "maxDuration = 2 ^ 63 - 1"

definition time_Sub :: "int \<Rightarrow> int \<Rightarrow> int" where
  "time_Sub t u = max minDuration (min maxDuration (t - u))"

lemmas time_defs = Second_def Minute_def Hour_def unixToInternal_def minDuration_def maxDuration_def

lemma time_Sub_range: "in_int64 (time_Sub t u)"
  by (simp add: time_Sub_def in_int_def time_defs)

text \<open>Go's \<open>/\<close> and \<open>%\<close> on signed integers truncate towards zero.\<close>

definition go_div :: "int \<Rightarrow> int \<Rightarrow> int" where
  "go_div a b = sgn a * sgn b * (\<bar>a\<bar> div \<bar>b\<bar>)"

definition go_mod :: "int \<Rightarrow> int \<Rightarrow> int" where
  "go_mod a b = a - b * go_div a b"

definition Duration_Seconds :: "int \<Rightarrow> flt" where
  "Duration_Seconds d = add64 (float64 (go_div d Second)) (div64 (float64 (go_mod d Second)) (f64 (10 ^ 9)))"

section \<open>External code\<close>

text \<open>
  Code that is not part of the repository, as parameters: PostgreSQL's cast of a number to
  \<open>NUMERIC(p, s)\<close> and back, the \<open>google/uuid\<close> package, the cryptographic primitives, the
  JSON image of a task assignment, and how the database driver takes a Go \<open>int\<close> as the argument
  of a parameter to which PostgreSQL gives the type \<open>text\<close>: the error with which it refuses the
  argument, if it does.
\<close>

type_synonym uuid = nat

record Assignment =
  a_TaskID :: uuid
  a_NodeID :: uuid
  a_NodeLNURI :: string
  a_TaskType :: string
  a_RewardSats :: int
  a_TimeoutSecs :: int
  a_AssignedAt :: int

record ext =
  pg_numeric :: "nat \<Rightarrow> nat \<Rightarrow> flt \<Rightarrow> flt option"
  uuid_Parse :: "string \<Rightarrow> uuid option"
  uuid_String :: "uuid \<Rightarrow> string"
  ed25519_Verify :: "bytes \<Rightarrow> bytes \<Rightarrow> bytes \<Rightarrow> bool"
  ed25519_Sign :: "bytes \<Rightarrow> bytes \<Rightarrow> bytes"
  sha256_Sum256 :: "bytes \<Rightarrow> bytes"
  json_Assignment :: "Assignment \<Rightarrow> string"
  pgx_int_as_text :: "int \<Rightarrow> go_error option"

text \<open>
  The documented behaviour of pgx v5, the driver in \<open>go.mod\<close>, in its default mode: an argument is
  encoded for the type that the server gives the parameter, and there is no encoding of an \<open>int\<close>
  as \<open>text\<close>.
\<close>

definition refuses_int :: "ext \<Rightarrow> bool" where
  "refuses_int E \<longleftrightarrow> (\<forall>n. pgx_int_as_text E n \<noteq> None)"

text \<open>The documented behaviour of \<open>NUMERIC\<close>: rounding a value between two whole numbers that fit stays between them.\<close>

definition numeric_rounds :: "ext \<Rightarrow> bool" where
  "numeric_rounds E \<longleftrightarrow> (\<forall>p s x (lo::int) (hi::int).
     s < p \<longrightarrow> of_int lo \<le> x \<longrightarrow> x \<le> of_int hi \<longrightarrow> \<bar>lo\<bar> < 10 ^ (p - s) \<longrightarrow> \<bar>hi\<bar> < 10 ^ (p - s) \<longrightarrow>
     (\<exists>y. pg_numeric E p s (Fin x) = Some (Fin y) \<and> of_int lo \<le> y \<and> y \<le> of_int hi))"

section \<open>Rows\<close>

record node =
  NodeID :: uuid
  PublicKey :: string
  LNNodeURI :: string
  OnionAddress :: string
  Tier :: string
  VRAMGB :: flt
  RAMGB :: flt
  BandwidthMbps :: flt
  SupportedTaskTypes :: "string list"
  Reliability :: flt
  TotalTasks :: int
  TotalSats :: int
  Status :: string
  RegisteredAt :: int
  LastHeartbeat :: "int option"

record stake_row =
  st_node :: uuid
  st_channel_id :: string
  st_capacity :: int
  st_local_balance :: int
  st_tier_minimum :: int
  st_bonus :: flt
  st_status :: string
  st_last_verified :: int
  st_degraded_since :: "int option"

record task_row =
  tk_id :: uuid
  tk_type :: string
  tk_assigned :: "uuid option"
  tk_ln_uri :: "string option"
  tk_status :: string
  tk_input_hash :: string
  tk_output_hash :: "string option"
  tk_reward :: int
  tk_payment_status :: string
  tk_preimage :: "string option"
  tk_submitted :: int
  tk_started :: "int option"
  tk_completed :: "int option"
  tk_timeout :: int
  tk_receipt_id :: "string option"

record round_row =
  rd_id :: int
  rd_number :: int
  rd_status :: string
  rd_model_version :: string
  rd_checkpoint :: "string option"
  rd_ots :: "string option"
  rd_started :: int
  rd_completed :: "int option"

record participant_row =
  pt_round :: int
  pt_node :: uuid
  pt_hash :: string
  pt_s3_url :: string
  pt_flagged :: bool

record slash_row =
  sl_id :: uuid
  sl_node :: uuid
  sl_channel :: string
  sl_tier :: string
  sl_reason :: string
  sl_evidence :: string
  sl_signal_count :: int
  sl_cooldown :: int

record signal_row =
  sg_node :: uuid
  sg_type :: string
  sg_evidence :: string
  sg_event :: "uuid option"

record paymentJob =
  j_TaskID :: uuid
  j_NodeLNURI :: string
  j_AmountSats :: int

record SendPaymentRequest =
  DestPubkeyHex :: string
  AmountSats :: int
  Memo :: string
  TimeoutSecs :: int

section \<open>The state\<close>

record world =
  w_nodes :: "node list"
  w_stakes :: "stake_row list"
  w_tasks :: "task_row list"
  w_rounds :: "round_row list"
  w_participants :: "participant_row list"
  w_slashings :: "slash_row list"
  w_signals :: "signal_row list"
  w_heartbeats :: "(uuid \<times> int) list"
  w_next_round :: int
  w_gauge :: "string \<Rightarrow> string \<Rightarrow> int"
  w_counters :: "string \<times> string list \<Rightarrow> nat"
  w_paid_sats :: int
  w_published :: "(string \<times> string) list"
  w_s3 :: "string \<rightharpoonup> bytes"
  w_queue :: "paymentJob list"
  w_receipts :: "(paymentJob \<times> string) list"
  w_sent :: "SendPaymentRequest list"
  w_stamps :: "(string \<times> int) list"
  w_now :: int
  w_faults :: "bool list"

definition empty_world :: "int \<Rightarrow> world" where
  "empty_world now = \<lparr>w_nodes = [], w_stakes = [], w_tasks = [], w_rounds = [], w_participants = [],
     w_slashings = [], w_signals = [], w_heartbeats = [], w_next_round = 1, w_gauge = (\<lambda>_ _. 0),
     w_counters = (\<lambda>_. 0), w_paid_sats = 0, w_published = [], w_s3 = Map.empty, w_queue = [],
     w_receipts = [], w_sent = [], w_stamps = [], w_now = now, w_faults = []\<rparr>"

section \<open>Database calls\<close>

definition db_down :: "world \<Rightarrow> bool" where
  "db_down w \<longleftrightarrow> (case w_faults w of [] \<Rightarrow> False | f # _ \<Rightarrow> f)"

definition db_tick :: "world \<Rightarrow> world" where
  "db_tick w = w\<lparr>w_faults := tl (w_faults w)\<rparr>"

definition db_call :: "(world \<Rightarrow> 'a result \<times> world) \<Rightarrow> world \<Rightarrow> 'a result \<times> world" where
  "db_call stmt w = (if db_down w then (Inl DbFailure, db_tick w) else stmt (db_tick w))"

text \<open>An \<open>UPDATE\<close> or \<open>INSERT\<close> that returns nothing, and a \<open>SELECT\<close> that changes nothing.\<close>

abbreviation db_exec :: "(world \<Rightarrow> world) \<Rightarrow> world \<Rightarrow> unit result \<times> world" where
  "db_exec f \<equiv> db_call (\<lambda>w. (Inr (), f w))"

abbreviation db_query :: "(world \<Rightarrow> 'a) \<Rightarrow> world \<Rightarrow> 'a result \<times> world" where
  "db_query f \<equiv> db_call (\<lambda>w. (Inr (f w), w))"

abbreviation db_query_row :: "(world \<Rightarrow> 'a option) \<Rightarrow> world \<Rightarrow> 'a result \<times> world" where
  "db_query_row f \<equiv> db_call (\<lambda>w. (case f w of None \<Rightarrow> (Inl NoRows, w) | Some x \<Rightarrow> (Inr x, w)))"

definition healthy :: "world \<Rightarrow> bool" where
  "healthy w \<longleftrightarrow> w_faults w = []"

lemma db_tick_healthy: "healthy w \<Longrightarrow> db_tick w = w"
  by (cases w) (simp add: healthy_def db_tick_def)

lemma db_call_healthy: "healthy w \<Longrightarrow> db_call stmt w = stmt w"
  by (simp add: db_call_def db_down_def db_tick_healthy) (simp add: healthy_def)

lemma db_call_cases:
  assumes "db_call stmt w = (res, w')"
  obtains (fault) "db_down w" "res = Inl DbFailure" "w' = db_tick w"
    | (run) "\<not> db_down w" "stmt (db_tick w) = (res, w')"
  using assms by (auto simp: db_call_def split: if_splits)

text \<open>Every failure schedule is possible; a tick of it changes nothing else.\<close>

lemma db_tick_frame [simp, frame_simps]:
  "w_nodes (db_tick w) = w_nodes w" "w_stakes (db_tick w) = w_stakes w"
  "w_tasks (db_tick w) = w_tasks w" "w_rounds (db_tick w) = w_rounds w"
  "w_participants (db_tick w) = w_participants w" "w_slashings (db_tick w) = w_slashings w"
  "w_signals (db_tick w) = w_signals w" "w_heartbeats (db_tick w) = w_heartbeats w"
  "w_next_round (db_tick w) = w_next_round w" "w_gauge (db_tick w) = w_gauge w"
  "w_counters (db_tick w) = w_counters w" "w_paid_sats (db_tick w) = w_paid_sats w"
  "w_stamps (db_tick w) = w_stamps w"
  "w_receipts (db_tick w) = w_receipts w"
  "w_published (db_tick w) = w_published w" "w_s3 (db_tick w) = w_s3 w"
  "w_queue (db_tick w) = w_queue w" "w_sent (db_tick w) = w_sent w" "w_now (db_tick w) = w_now w"
  by (simp_all add: db_tick_def)

section \<open>Metrics\<close>

definition nodes_gauge_add :: "string \<Rightarrow> string \<Rightarrow> int \<Rightarrow> world \<Rightarrow> world" where
  "nodes_gauge_add t s d w =
     w\<lparr>w_gauge := (\<lambda>t' s'. w_gauge w t' s' + (if t' = t \<and> s' = s then d else 0))\<rparr>"

definition counter_inc :: "string \<Rightarrow> string list \<Rightarrow> world \<Rightarrow> world" where
  "counter_inc m ls w = w\<lparr>w_counters := (w_counters w)((m, ls) := Suc (w_counters w (m, ls)))\<rparr>"

lemma nodes_gauge_add_frame [simp, frame_simps]:
  "w_nodes (nodes_gauge_add t s d w) = w_nodes w" "w_stakes (nodes_gauge_add t s d w) = w_stakes w"
  "w_tasks (nodes_gauge_add t s d w) = w_tasks w" "w_rounds (nodes_gauge_add t s d w) = w_rounds w"
  "w_participants (nodes_gauge_add t s d w) = w_participants w"
  "w_slashings (nodes_gauge_add t s d w) = w_slashings w" "w_signals (nodes_gauge_add t s d w) = w_signals w"
  "w_heartbeats (nodes_gauge_add t s d w) = w_heartbeats w"
  "w_next_round (nodes_gauge_add t s d w) = w_next_round w" "w_queue (nodes_gauge_add t s d w) = w_queue w"
  "w_sent (nodes_gauge_add t s d w) = w_sent w" "w_now (nodes_gauge_add t s d w) = w_now w"
  "w_faults (nodes_gauge_add t s d w) = w_faults w" "w_counters (nodes_gauge_add t s d w) = w_counters w"
  "w_paid_sats (nodes_gauge_add t s d w) = w_paid_sats w" "w_s3 (nodes_gauge_add t s d w) = w_s3 w"
  "w_stamps (nodes_gauge_add t s d w) = w_stamps w"
  "w_receipts (nodes_gauge_add t s d w) = w_receipts w"
  "w_published (nodes_gauge_add t s d w) = w_published w"
  by (simp_all add: nodes_gauge_add_def)

lemma counter_inc_frame [simp, frame_simps]:
  "w_nodes (counter_inc m ls w) = w_nodes w" "w_stakes (counter_inc m ls w) = w_stakes w"
  "w_tasks (counter_inc m ls w) = w_tasks w" "w_rounds (counter_inc m ls w) = w_rounds w"
  "w_participants (counter_inc m ls w) = w_participants w"
  "w_slashings (counter_inc m ls w) = w_slashings w" "w_signals (counter_inc m ls w) = w_signals w"
  "w_heartbeats (counter_inc m ls w) = w_heartbeats w"
  "w_next_round (counter_inc m ls w) = w_next_round w" "w_queue (counter_inc m ls w) = w_queue w"
  "w_sent (counter_inc m ls w) = w_sent w" "w_now (counter_inc m ls w) = w_now w"
  "w_faults (counter_inc m ls w) = w_faults w" "w_gauge (counter_inc m ls w) = w_gauge w"
  "w_paid_sats (counter_inc m ls w) = w_paid_sats w" "w_s3 (counter_inc m ls w) = w_s3 w"
  "w_stamps (counter_inc m ls w) = w_stamps w"
  "w_receipts (counter_inc m ls w) = w_receipts w"
  "w_published (counter_inc m ls w) = w_published w"
  by (simp_all add: counter_inc_def)

section \<open>Well-formed databases\<close>

text \<open>What the schema's keys and checks promise of the tables, and what the code relies on.\<close>

definition tiers :: "string list" where "tiers = [''t1'', ''t2'', ''t3'']"

definition node_statuses :: "string list" where
  "node_statuses = [''pending'', ''active'', ''degraded'', ''suspended'']"

definition unit_flt :: "flt \<Rightarrow> bool" where
  "unit_flt a \<longleftrightarrow> (case a of Fin x \<Rightarrow> 0 \<le> x \<and> x \<le> 1 | _ \<Rightarrow> False)"

definition node_ok :: "node \<Rightarrow> bool" where
  "node_ok n \<longleftrightarrow> Tier n \<in> set tiers \<and> Status n \<in> set node_statuses \<and> unit_flt (Reliability n)"

definition nodes_ok :: "node list \<Rightarrow> bool" where
  "nodes_ok ns \<longleftrightarrow> keyed NodeID ns \<and> keyed PublicKey ns \<and> list_all node_ok ns"

text \<open>The difference between the gauge and the number of nodes it is meant to count.\<close>

definition nodes_with :: "string \<Rightarrow> string \<Rightarrow> node list \<Rightarrow> nat" where
  "nodes_with t s ns = sql_count (\<lambda>n. Tier n = t \<and> Status n = s) ns"

definition gauge_drift :: "world \<Rightarrow> string \<Rightarrow> string \<Rightarrow> int" where
  "gauge_drift w t s = w_gauge w t s - int (nodes_with t s (w_nodes w))"

text \<open>An operation that may change the nodes, their gauge and the failure schedule, and nothing else.\<close>

definition nodes_only :: "world \<Rightarrow> world \<Rightarrow> bool" where
  "nodes_only w w' \<longleftrightarrow> w' = w\<lparr>w_nodes := w_nodes w', w_gauge := w_gauge w', w_faults := w_faults w'\<rparr>"

lemma nodes_only_iff:
  "nodes_only w w' \<longleftrightarrow>
     w_stakes w' = w_stakes w \<and> w_tasks w' = w_tasks w \<and> w_rounds w' = w_rounds w \<and>
     w_participants w' = w_participants w \<and> w_slashings w' = w_slashings w \<and>
     w_signals w' = w_signals w \<and> w_heartbeats w' = w_heartbeats w \<and>
     w_next_round w' = w_next_round w \<and> w_counters w' = w_counters w \<and>
     w_paid_sats w' = w_paid_sats w \<and> w_published w' = w_published w \<and> w_s3 w' = w_s3 w \<and>
     w_queue w' = w_queue w \<and> w_receipts w' = w_receipts w \<and> w_stamps w' = w_stamps w \<and> w_sent w' = w_sent w \<and> w_now w' = w_now w"
  unfolding nodes_only_def by (cases w, cases w') auto

lemma list_all_sql_update:
  "list_all Q rows \<Longrightarrow> (\<And>r. r \<in> set rows \<Longrightarrow> Q r \<Longrightarrow> P r \<Longrightarrow> Q (f r)) \<Longrightarrow> list_all Q (sql_update P f rows)"
  by (auto simp: list_all_iff set_sql_update)

lemma nodes_ok_update [wf_intros]:
  assumes "nodes_ok ns" "\<And>n. NodeID (f n) = NodeID n" "\<And>n. PublicKey (f n) = PublicKey n"
    and "\<And>n. n \<in> set ns \<Longrightarrow> node_ok n \<Longrightarrow> P n \<Longrightarrow> node_ok (f n)"
  shows "nodes_ok (sql_update P f ns)"
  using assms by (auto simp: nodes_ok_def intro!: list_all_sql_update)

text \<open>
  Tasks: identifiers are unique, statuses within their checks, a running task has a node and a
  start time, and a paid task has the preimage that proves the payment.
\<close>

definition task_statuses :: "string list" where
  "task_statuses = [''pending'', ''running'', ''completed'', ''failed'', ''timeout'']"

definition payment_statuses :: "string list" where
  "payment_statuses = [''pending'', ''paid'', ''failed'']"

definition task_ok :: "task_row \<Rightarrow> bool" where
  "task_ok t \<longleftrightarrow> tk_status t \<in> set task_statuses \<and> tk_payment_status t \<in> set payment_statuses \<and>
     in_int32 (tk_reward t) \<and>
     (tk_status t = ''running'' \<longrightarrow> tk_assigned t \<noteq> None \<and> tk_started t \<noteq> None) \<and>
     (tk_payment_status t = ''paid'' \<longrightarrow> tk_preimage t \<noteq> None)"

definition tasks_ok :: "task_row list \<Rightarrow> bool" where
  "tasks_ok ts \<longleftrightarrow> keyed tk_id ts \<and> list_all task_ok ts"

lemma tasks_ok_update [wf_intros]:
  assumes "tasks_ok ts" "\<And>t. tk_id (f t) = tk_id t"
    and "\<And>t. t \<in> set ts \<Longrightarrow> task_ok t \<Longrightarrow> P t \<Longrightarrow> task_ok (f t)"
  shows "tasks_ok (sql_update P f ts)"
  using assms by (auto simp: tasks_ok_def intro!: list_all_sql_update)

section \<open>A concrete environment\<close>

text \<open>
  An instance of the external code on which the model evaluates: numbers are stored as they
  are when they fit, identifiers print as 36 digits, and a signature is the key followed by
  the message.
\<close>

definition demo_numeric :: "nat \<Rightarrow> nat \<Rightarrow> flt \<Rightarrow> flt option" where
  "demo_numeric p s a = (case a of
     Fin x \<Rightarrow> if \<bar>x\<bar> < 10 ^ (p - s) then Some (Fin x) else None
   | NaN \<Rightarrow> Some NaN
   | _ \<Rightarrow> None)"

definition demo_uuid_String :: "uuid \<Rightarrow> string" where
  "demo_uuid_String u = (let d = dec_nat u in replicate (36 - length d) (CHR ''0'') @ d)"

definition demo_uuid_Parse :: "string \<Rightarrow> uuid option" where
  "demo_uuid_Parse s = (if length s = 36 \<and> list_all is_digit s then Some (digits_value s) else None)"

definition demo_ext :: ext where
  "demo_ext = \<lparr>pg_numeric = demo_numeric, uuid_Parse = demo_uuid_Parse, uuid_String = demo_uuid_String,
     ed25519_Verify = (\<lambda>k m s. s = k @ m), ed25519_Sign = (\<lambda>k m. drop 32 k @ m), sha256_Sum256 = (\<lambda>m. take 32 (m @ replicate 32 (CHR ''0''))),
     json_Assignment = (\<lambda>a. demo_uuid_String (a_TaskID a)),
     pgx_int_as_text = (\<lambda>_. Some (Err ''cannot find encode plan''))\<rparr>"

lemma demo_refuses [simp]: "refuses_int demo_ext"
  by (simp add: refuses_int_def demo_ext_def)

lemma demo_numeric_rounds: "numeric_rounds demo_ext"
proof -
  have "\<bar>x\<bar> < 10 ^ k" if "of_int lo \<le> x" "x \<le> of_int hi" "\<bar>lo\<bar> < 10 ^ k" "\<bar>hi\<bar> < 10 ^ k"
    for lo hi :: int and x :: real and k :: nat
  proof -
    have "real_of_int (- (10 ^ k)) < of_int lo" "real_of_int hi < of_int (10 ^ k)"
      using that(3,4) by (simp_all only: of_int_less_iff)
    moreover have e: "real_of_int (10 ^ k) = 10 ^ k" by simp
    ultimately show ?thesis
      using that(1,2) unfolding of_int_minus e abs_less_iff by linarith
  qed
  then show ?thesis
    by (auto simp: numeric_rounds_def demo_ext_def demo_numeric_def)
qed

end
