(* ===== verification/Registry.thy ===== *)
theory Registry
  imports World
begin

text \<open>
  \<open>internal/registry/registry.go\<close>: registration, activation, heartbeats, status changes and
  the reliability score of nodes, over the tables \<open>nodes\<close>, \<open>tasks\<close>, \<open>heartbeat_log\<close> and
  \<open>slashing_events\<close> and the gauge \<open>owm_nodes_total\<close>.
\<close>

section \<open>Definitions\<close>

record NodeCapabilities =
  cap_Tier :: string
  cap_VRAMGB :: flt
  cap_RAMGB :: flt
  cap_BandwidthMbps :: flt
  cap_SupportedTaskTypes :: "string list"

definition canonicalRegisterMessage :: "string \<Rightarrow> string \<Rightarrow> string \<Rightarrow> int \<Rightarrow> bytes" where
  "canonicalRegisterMessage pubKey lnURI tier ts =
     ''owm-register|'' @ pubKey @ ''|'' @ lnURI @ ''|'' @ tier @ ''|'' @ dec ts"

text \<open>The columns that a second registration overwrites.\<close>

definition reregister_row :: "node \<Rightarrow> flt \<Rightarrow> flt \<Rightarrow> flt \<Rightarrow> node \<Rightarrow> node" where
  "reregister_row n vram ram bw r =
     r\<lparr>LNNodeURI := LNNodeURI n, OnionAddress := OnionAddress n, Tier := Tier n,
       VRAMGB := vram, RAMGB := ram, BandwidthMbps := bw,
       SupportedTaskTypes := SupportedTaskTypes n, Status := ''pending'',
       RegisteredAt := RegisteredAt n\<rparr>"

text \<open>
  The upsert of \<open>Register\<close>. The row proposed by the \<open>INSERT\<close> is checked first (tier, width of
  the \<open>NUMERIC\<close> columns); a row with the same public key is then updated in the columns the
  statement names, and keeps its identifier, reliability, totals and heartbeat; otherwise the
  row is inserted, which fails when the new identifier is taken. The result holds the
  identifier, the status, and the tier and status from before.
\<close>

definition upsert_node :: "ext \<Rightarrow> node \<Rightarrow> world \<Rightarrow> (uuid \<times> string \<times> (string \<times> string) option) result \<times> world" where
  "upsert_node E n = db_call (\<lambda>w.
     if Tier n \<notin> set tiers then (Inl DbFailure, w)
     else case (pg_numeric E 6 2 (VRAMGB n), pg_numeric E 6 2 (RAMGB n),
                pg_numeric E 8 2 (BandwidthMbps n), pg_numeric E 5 4 (Reliability n)) of
       (Some vram, Some ram, Some bw, Some rel) \<Rightarrow>
         (case lookup PublicKey (PublicKey n) (w_nodes w) of
           Some old \<Rightarrow>
             (Inr (NodeID old, ''pending'', Some (Tier old, Status old)),
              w\<lparr>w_nodes := sql_update (\<lambda>r. PublicKey r = PublicKey n)
                 (reregister_row n vram ram bw) (w_nodes w)\<rparr>)
         | None \<Rightarrow>
             if lookup NodeID (NodeID n) (w_nodes w) \<noteq> None then (Inl DbFailure, w)
             else (Inr (NodeID n, Status n, None),
                   w\<lparr>w_nodes := sql_insert (n\<lparr>VRAMGB := vram, RAMGB := ram, BandwidthMbps := bw,
                      Reliability := rel\<rparr>) (w_nodes w)\<rparr>))
     | _ \<Rightarrow> (Inl DbFailure, w))"

definition new_node :: "uuid \<Rightarrow> string \<Rightarrow> string \<Rightarrow> string \<Rightarrow> NodeCapabilities \<Rightarrow> int \<Rightarrow> node" where
  "new_node fresh pubKeyHex lnURI onionAddr caps now =
     \<lparr>NodeID = fresh, PublicKey = pubKeyHex, LNNodeURI = lnURI, OnionAddress = onionAddr,
      Tier = cap_Tier caps, VRAMGB = cap_VRAMGB caps, RAMGB = cap_RAMGB caps,
      BandwidthMbps = cap_BandwidthMbps caps, SupportedTaskTypes = cap_SupportedTaskTypes caps,
      Reliability = Fin 1, TotalTasks = 0, TotalSats = 0, Status = ''pending'',
      RegisteredAt = now, LastHeartbeat = None\<rparr>"

text \<open>\<open>fresh\<close> is the value of \<open>uuid.New()\<close>.\<close>

definition Register :: "ext \<Rightarrow> uuid \<Rightarrow> string \<Rightarrow> string \<Rightarrow> string \<Rightarrow> NodeCapabilities \<Rightarrow> bytes \<Rightarrow> int \<Rightarrow>
    world \<Rightarrow> node result \<times> world" where
  "Register E fresh pubKeyHex lnURI onionAddr caps sig timestamp w =
     (if 5 * Minute < time_Sub (w_now w) (time_Unix timestamp)
      then (Inl (Err ''registration timestamp too old (anti-replay)''), w)
      else case hex_DecodeString pubKeyHex of
        None \<Rightarrow> (Inl (Err ''invalid public key''), w)
      | Some pubKeyBytes \<Rightarrow>
        if length pubKeyBytes \<noteq> 32 then (Inl (Err ''invalid public key''), w)
        else if \<not> ed25519_Verify E pubKeyBytes
                    (canonicalRegisterMessage pubKeyHex lnURI (cap_Tier caps) timestamp) sig
        then (Inl (Err ''invalid signature''), w)
        else let n = new_node fresh pubKeyHex lnURI onionAddr caps (w_now w) in
          (case upsert_node E n w of
            (Inl e, w) \<Rightarrow> (Inl (Wrap ''upserting node'' e), w)
          | (Inr (nid, st, prior), w) \<Rightarrow>
              let w = (case prior of None \<Rightarrow> w | Some (pt, ps) \<Rightarrow> nodes_gauge_add pt ps (- 1) w);
                  w = nodes_gauge_add (Tier n) st 1 w
              in (Inr (n\<lparr>NodeID := nid, Status := st\<rparr>), w)))"

definition activate_row :: "uuid \<Rightarrow> world \<Rightarrow> string result \<times> world" where
  "activate_row nodeID = db_call (\<lambda>w.
     case sql_row (\<lambda>n. NodeID n = nodeID \<and> Status n = ''pending'') (w_nodes w) of
       None \<Rightarrow> (Inl NoRows, w)
     | Some n \<Rightarrow> (Inr (Tier n), w\<lparr>w_nodes := sql_update (\<lambda>n. NodeID n = nodeID \<and> Status n = ''pending'')
                    (\<lambda>n. n\<lparr>Status := ''active''\<rparr>) (w_nodes w)\<rparr>))"

definition Activate :: "uuid \<Rightarrow> world \<Rightarrow> unit result \<times> world" where
  "Activate nodeID w = (case activate_row nodeID w of
     (Inl e, w) \<Rightarrow> if e = NoRows then (Inr (), w) else (Inl e, w)
   | (Inr tier, w) \<Rightarrow>
       (Inr (), nodes_gauge_add tier ''active'' 1 (nodes_gauge_add tier ''pending'' (- 1) w)))"

definition RecordHeartbeat :: "uuid \<Rightarrow> world \<Rightarrow> int result \<times> world" where
  "RecordHeartbeat nodeID w =
     (case db_call (\<lambda>w. case lookup NodeID nodeID (w_nodes w) of
          None \<Rightarrow> (Inl NoRows, w)
        | Some _ \<Rightarrow> (Inr (int (sql_count (\<lambda>t. tk_assigned t = Some nodeID \<and> tk_status t = ''pending'') (w_tasks w))),
            w\<lparr>w_nodes := sql_update (\<lambda>n. NodeID n = nodeID)
                (\<lambda>n. n\<lparr>LastHeartbeat := Some (w_now w)\<rparr>) (w_nodes w)\<rparr>)) w of
       (Inl e, w) \<Rightarrow> (Inl e, w)
     | (Inr pendingTasks, w) \<Rightarrow>
         (case db_exec (\<lambda>w. w\<lparr>w_heartbeats := sql_insert (nodeID, w_now w) (w_heartbeats w)\<rparr>) w of
           (Inl e, w) \<Rightarrow> (Inl e, w)
         | (Inr _, w) \<Rightarrow> (Inr pendingTasks, w)))"

definition GetByPublicKey :: "string \<Rightarrow> world \<Rightarrow> node result \<times> world" where
  "GetByPublicKey pubKeyHex w =
     (case db_query_row (\<lambda>w. lookup PublicKey pubKeyHex (w_nodes w)) w of
       (Inl e, w) \<Rightarrow> (Inl (Wrap ''node not found'' e), w)
     | (Inr n, w) \<Rightarrow> (Inr n, w))"

text \<open>PostgreSQL's order on \<open>NUMERIC\<close> has \<open>NaN\<close> above every other value; \<open>ORDER BY reliability DESC\<close> is a stable insertion.\<close>

definition pg_lt :: "flt \<Rightarrow> flt \<Rightarrow> bool" where
  "pg_lt a b \<longleftrightarrow> flt_lt a b \<or> (b = NaN \<and> a \<noteq> NaN)"

fun insert_desc :: "node \<Rightarrow> node list \<Rightarrow> node list" where
  "insert_desc n [] = [n]"
| "insert_desc n (m # ms) =
     (if pg_lt (Reliability m) (Reliability n) then n # m # ms else m # insert_desc n ms)"

definition order_by_reliability :: "node list \<Rightarrow> node list" where
  "order_by_reliability ns = foldl (\<lambda>acc n. insert_desc n acc) [] ns"

definition ListActive :: "world \<Rightarrow> node list result \<times> world" where
  "ListActive = db_query (\<lambda>w. order_by_reliability (sql_select (\<lambda>n. Status n = ''active'') (w_nodes w)))"

definition UpdateStatus :: "uuid \<Rightarrow> string \<Rightarrow> world \<Rightarrow> unit result \<times> world" where
  "UpdateStatus nodeID status w =
     (case db_query_row (\<lambda>w. lookup NodeID nodeID (w_nodes w)) w of (r, w) \<Rightarrow>
      let (tier, oldStatus) = (case r of Inl _ \<Rightarrow> ('''', '''') | Inr n \<Rightarrow> (Tier n, Status n)) in
      (case db_call (\<lambda>w.
          if status \<notin> set node_statuses \<and> lookup NodeID nodeID (w_nodes w) \<noteq> None then (Inl DbFailure, w)
          else (Inr (), w\<lparr>w_nodes := sql_update (\<lambda>n. NodeID n = nodeID)
                            (\<lambda>n. n\<lparr>Status := status\<rparr>) (w_nodes w)\<rparr>)) w of
        (Inl e, w) \<Rightarrow> (Inl e, w)
      | (Inr _, w) \<Rightarrow>
          if tier \<noteq> '''' then
            let w = (if oldStatus \<noteq> '''' then nodes_gauge_add tier oldStatus (- 1) w else w)
            in (Inr (), nodes_gauge_add tier status 1 w)
          else (Inr (), w)))"

definition computeReliability :: "int \<Rightarrow> int \<Rightarrow> int \<Rightarrow> int \<Rightarrow> flt" where
  "computeReliability completed totalN receivedHB windowDuration =
     (let taskFraction = (if 0 < totalN then div64 (float64 completed) (float64 totalN) else Fin 1);
          expectedHB = div64 (Duration_Seconds windowDuration) (f64 60);
          uptimeFraction =
            (if flt_le (Fin 1) expectedHB then
               let u = div64 (float64 receivedHB) expectedHB in if flt_lt (Fin 1) u then Fin 1 else u
             else Fin 1);
          r = mul64 taskFraction uptimeFraction
      in if flt_lt r (Fin 0) then Fin 0 else if flt_lt (Fin 1) r then Fin 1 else r)"

definition windowStart :: "int \<Rightarrow> int \<Rightarrow> int" where
  "windowStart now registeredAt =
     (let ws = now - 7 * 24 * Hour in if ws < registeredAt then registeredAt else ws)"

definition UpdateReliability :: "ext \<Rightarrow> uuid \<Rightarrow> bool \<Rightarrow> world \<Rightarrow> unit result \<times> world" where
  "UpdateReliability E nodeID success w =
     (case db_query_row (\<lambda>w. lookup NodeID nodeID (w_nodes w)) w of
       (Inl e, w) \<Rightarrow> (Inl (Wrap ''fetching registration time'' e), w)
     | (Inr n, w) \<Rightarrow>
       let ws = windowStart (w_now w) (RegisteredAt n) in
       (case db_query (\<lambda>w. let ts = sql_select (\<lambda>t. tk_assigned t = Some nodeID \<and> ws < tk_submitted t) (w_tasks w)
                          in (int (length ts), int (sql_count (\<lambda>t. tk_status t = ''completed'') ts))) w of
         (Inl e, w) \<Rightarrow> (Inl (Wrap ''counting tasks'' e), w)
       | (Inr (totalTasks, completedTasks), w) \<Rightarrow>
         (case db_query (\<lambda>w. int (sql_count (\<lambda>(i, t). i = nodeID \<and> ws < t) (w_heartbeats w))) w of
           (Inl e, w) \<Rightarrow> (Inl (Wrap ''counting heartbeats'' e), w)
         | (Inr receivedHB, w) \<Rightarrow>
           let reliability = computeReliability completedTasks totalTasks receivedHB (time_Sub (w_now w) ws);
               successIncr = (if success then 1 else 0)
           in db_call (\<lambda>w. case pg_numeric E 5 4 reliability of
                  None \<Rightarrow> (Inl DbFailure, w)
                | Some rel \<Rightarrow>
                    if list_all (\<lambda>n. NodeID n = nodeID \<longrightarrow> in_int32 (TotalTasks n + successIncr)) (w_nodes w)
                    then (Inr (), w\<lparr>w_nodes := sql_update (\<lambda>n. NodeID n = nodeID)
                            (\<lambda>n. n\<lparr>Reliability := rel, TotalTasks := TotalTasks n + successIncr\<rparr>) (w_nodes w)\<rparr>)
                    else (Inl DbFailure, w)) w)))"

definition IsSuspendedOrCoolingDown :: "string \<Rightarrow> world \<Rightarrow> bool result \<times> world" where
  "IsSuspendedOrCoolingDown pubKeyHex =
     db_query (\<lambda>w. 0 < length [(n, se). n \<leftarrow> w_nodes w, se \<leftarrow> w_slashings w,
        sl_node se = NodeID n, PublicKey n = pubKeyHex, w_now w < sl_cooldown se])"

section \<open>Frames and well-formedness\<close>

lemmas registry_defs = Register_def upsert_node_def Activate_def activate_row_def RecordHeartbeat_def
  GetByPublicKey_def ListActive_def UpdateStatus_def UpdateReliability_def IsSuspendedOrCoolingDown_def

lemmas world_splits = prod.splits sum.splits option.splits if_splits

lemma reregister_row_simps [simp]:
  "NodeID (reregister_row n v ra b r) = NodeID r" "PublicKey (reregister_row n v ra b r) = PublicKey r"
  "Tier (reregister_row n v ra b r) = Tier n" "Status (reregister_row n v ra b r) = ''pending''"
  "Reliability (reregister_row n v ra b r) = Reliability r"
  "TotalTasks (reregister_row n v ra b r) = TotalTasks r"
  by (simp_all add: reregister_row_def)

lemma upsert_node_ok:
  assumes "nodes_ok (w_nodes w)" "node_ok n" "Status n = ''pending''" "Reliability n = Fin 1"
    and "numeric_rounds E" "upsert_node E n w = (res, w')"
  shows "nodes_ok (w_nodes w')"
proof -
  have rel: "unit_flt r" if "pg_numeric E 5 4 (Fin 1) = Some r" for r
  proof -
    have "\<exists>y. pg_numeric E 5 4 (Fin 1) = Some (Fin y) \<and> of_int 0 \<le> y \<and> y \<le> of_int 1"
      by (rule assms(5) [unfolded numeric_rounds_def, rule_format]) simp_all
    with that show ?thesis by (auto simp: unit_flt_def)
  qed
  show ?thesis using assms(6)
  proof (cases rule: db_call_cases [OF assms(6) [unfolded upsert_node_def]])
    case 1
    then show ?thesis using assms by simp
  next
    case 2
    then show ?thesis using assms rel
      by (auto simp: Let_def node_ok_def nodes_ok_def intro!: list_all_sql_update
          split: world_splits)
        (auto simp: node_ok_def node_statuses_def sql_insert_def)
  qed
qed

lemma nodes_only_Register: "nodes_only w (snd (Register E fresh pk uri onion caps sig ts w))"
  by (auto simp: registry_defs db_call_def nodes_only_iff Let_def split: world_splits)

lemma nodes_only_Activate: "nodes_only w (snd (Activate nid w))"
  by (auto simp: registry_defs db_call_def nodes_only_iff split: world_splits)

lemma nodes_only_UpdateStatus: "nodes_only w (snd (UpdateStatus nid st w))"
  by (auto simp: registry_defs db_call_def nodes_only_iff Let_def split: world_splits)

lemma nodes_only_UpdateReliability: "nodes_only w (snd (UpdateReliability E nid ok w))"
  by (auto simp: registry_defs db_call_def nodes_only_iff Let_def split: world_splits)

lemma new_node_simps [simp]:
  "Status (new_node fresh pk uri onion caps now) = ''pending''"
  "Reliability (new_node fresh pk uri onion caps now) = Fin 1"
  "Tier (new_node fresh pk uri onion caps now) = cap_Tier caps"
  "PublicKey (new_node fresh pk uri onion caps now) = pk"
  "NodeID (new_node fresh pk uri onion caps now) = fresh"
  by (simp_all add: new_node_def)

lemma upsert_node_tier: "upsert_node E n w = (Inr x, w') \<Longrightarrow> Tier n \<in> set tiers"
  by (auto simp: upsert_node_def db_call_def split: world_splits)

lemma upsert_node_fail: "upsert_node E n w = (Inl e, w') \<Longrightarrow> w' = db_tick w"
  by (auto simp: upsert_node_def db_call_def split: world_splits)

lemma Register_nodes_ok [wf_intros]:
  assumes "nodes_ok (w_nodes w)" "numeric_rounds E"
  shows "nodes_ok (w_nodes (snd (Register E fresh pk uri onion caps sig ts w)))"
proof -
  let ?n = "new_node fresh pk uri onion caps (w_now w)"
  obtain res w' where u: "upsert_node E ?n w = (res, w')" by fastforce
  have "nodes_ok (w_nodes w')"
  proof (cases res)
    case (Inl e)
    with u show ?thesis using assms upsert_node_fail by fastforce
  next
    case (Inr x)
    with u have "Tier ?n \<in> set tiers" using upsert_node_tier by blast
    then have "node_ok ?n" by (simp add: node_ok_def node_statuses_def unit_flt_def)
    with u show ?thesis using assms upsert_node_ok by simp
  qed
  with u assms show ?thesis by (auto simp: Register_def Let_def split: world_splits)
qed

lemma Activate_nodes_ok [wf_intros]:
  "nodes_ok (w_nodes w) \<Longrightarrow> nodes_ok (w_nodes (snd (Activate nid w)))"
  by (auto simp: registry_defs db_call_def split: world_splits intro!: nodes_ok_update)
    (simp_all add: node_ok_def node_statuses_def)

lemma RecordHeartbeat_nodes_ok [wf_intros]:
  "nodes_ok (w_nodes w) \<Longrightarrow> nodes_ok (w_nodes (snd (RecordHeartbeat nid w)))"
  by (auto simp: registry_defs db_call_def split: world_splits intro!: nodes_ok_update)
    (simp_all add: node_ok_def)

lemma UpdateStatus_nodes_ok [wf_intros]:
  "nodes_ok (w_nodes w) \<Longrightarrow> nodes_ok (w_nodes (snd (UpdateStatus nid st w)))"
  by (auto simp: registry_defs db_call_def Let_def split: world_splits intro!: nodes_ok_update)
    (auto simp: node_ok_def lookup_None)

section \<open>The gauge of nodes\<close>

lemma nodes_with_update_key:
  assumes "keyed key ns" "n \<in> set ns"
  shows "int (nodes_with t s (sql_update (\<lambda>r. key r = key n) f ns)) =
    int (nodes_with t s ns) - (if Tier n = t \<and> Status n = s then 1 else 0)
      + (if Tier (f n) = t \<and> Status (f n) = s then 1 else 0)"
  using sql_count_update_key [OF assms, of "\<lambda>n. Tier n = t \<and> Status n = s" f]
  by (simp add: nodes_with_def)

lemma upsert_node_gauge:
  assumes "keyed PublicKey (w_nodes w)" "upsert_node E n w = (Inr (nid, st, prior), w')"
    and "Status n = ''pending''"
  shows "w_gauge w' = w_gauge w \<and> st = ''pending'' \<and>
    int (nodes_with t s (w_nodes w')) = int (nodes_with t s (w_nodes w))
      - (if prior = Some (t, s) then 1 else 0) + (if Tier n = t \<and> st = s then 1 else 0)"
proof (cases "lookup PublicKey (PublicKey n) (w_nodes w)")
  case None
  then show ?thesis using assms(2,3)
    by (auto simp: upsert_node_def db_call_def nodes_with_def split: world_splits)
next
  case (Some old)
  then have old: "old \<in> set (w_nodes w)" "PublicKey old = PublicKey n"
    by (auto dest: lookup_Some)
  obtain v ra b where "w_nodes w' = sql_update (\<lambda>r. PublicKey r = PublicKey old) (reregister_row n v ra b) (w_nodes w)"
    "prior = Some (Tier old, Status old)" "st = ''pending''" "w_gauge w' = w_gauge w"
    using assms(2) Some old by (auto simp: upsert_node_def db_call_def split: world_splits)
  then show ?thesis
    by (simp add: nodes_with_update_key [OF assms(1) old(1)])
qed

lemma Register_gauge:
  assumes "nodes_ok (w_nodes w)"
  shows "gauge_drift (snd (Register E fresh pk uri onion caps sig ts w)) = gauge_drift w"
proof -
  let ?n = "new_node fresh pk uri onion caps (w_now w)"
  have k: "keyed PublicKey (w_nodes w)" using assms by (simp add: nodes_ok_def)
  obtain res w' where u: "upsert_node E ?n w = (res, w')" by fastforce
  show ?thesis
  proof (cases res)
    case (Inl e)
    then show ?thesis using u upsert_node_fail [of E ?n w e w']
      by (auto simp: Register_def gauge_drift_def Let_def fun_eq_iff split: option.splits)
  next
    case (Inr x)
    then obtain nid st prior where x: "res = Inr (nid, st, prior)" by (cases x) auto
    have *: "w_gauge w' = w_gauge w \<and> st = ''pending'' \<and>
      int (nodes_with t s (w_nodes w')) = int (nodes_with t s (w_nodes w))
        - (if prior = Some (t, s) then 1 else 0) + (if Tier ?n = t \<and> st = s then 1 else 0)" for t s
      using upsert_node_gauge [OF k u [unfolded x]] by simp
    show ?thesis using u x *
      by (auto simp: Register_def gauge_drift_def nodes_gauge_add_def Let_def fun_eq_iff split: option.splits)
  qed
qed

lemma Activate_gauge:
  assumes "nodes_ok (w_nodes w)"
  shows "gauge_drift (snd (Activate nid w)) = gauge_drift w"
proof (cases "sql_row (\<lambda>n. NodeID n = nid \<and> Status n = ''pending'') (w_nodes w)")
  case None
  then show ?thesis
    by (auto simp: registry_defs db_call_def gauge_drift_def fun_eq_iff)
next
  case (Some n)
  then have n: "n \<in> set (w_nodes w)" "NodeID n = nid" "Status n = ''pending''"
    by (auto dest: sql_row_Some)
  have k: "keyed NodeID (w_nodes w)" using assms by (simp add: nodes_ok_def)
  have "sql_update (\<lambda>r. NodeID r = nid \<and> Status r = ''pending'') (\<lambda>r. r\<lparr>Status := ''active''\<rparr>) (w_nodes w)
      = sql_update (\<lambda>r. NodeID r = NodeID n) (\<lambda>r. r\<lparr>Status := ''active''\<rparr>) (w_nodes w)"
    unfolding sql_update_def using n keyed_unique [OF k _ n(1)] by (intro map_cong refl) metis
  with Some n have *: "activate_row nid w = (if db_down w then (Inl DbFailure, db_tick w) else
      (Inr (Tier n), (db_tick w)\<lparr>w_nodes := sql_update (\<lambda>r. NodeID r = NodeID n) (\<lambda>r. r\<lparr>Status := ''active''\<rparr>) (w_nodes w)\<rparr>))"
    by (simp add: activate_row_def db_call_def)
  have "gauge_drift (snd (Activate nid w)) t s = gauge_drift w t s" for t s
    using n(3) by (auto simp add: Activate_def * gauge_drift_def nodes_gauge_add_def nodes_with_update_key [OF k n(1)]
        simp del: of_nat_eq_iff)
  then show ?thesis by blast
qed

lemma UpdateStatus_gauge:
  assumes "nodes_ok (w_nodes w)" "healthy w"
  shows "gauge_drift (snd (UpdateStatus nid st w)) = gauge_drift w"
proof (cases "lookup NodeID nid (w_nodes w)")
  case None
  then have "sql_update (\<lambda>n. NodeID n = nid) (\<lambda>n. n\<lparr>Status := st\<rparr>) (w_nodes w) = w_nodes w"
    by (intro sql_update_no_match) (auto simp: lookup_None)
  with None show ?thesis using assms(2)
    by (auto simp: UpdateStatus_def db_call_healthy gauge_drift_def fun_eq_iff)
next
  case (Some n)
  then have n: "n \<in> set (w_nodes w)" "NodeID n = nid" by (auto dest: lookup_Some)
  have k: "keyed NodeID (w_nodes w)" using assms by (simp add: nodes_ok_def)
  have ne: "Tier n \<noteq> []" "Status n \<noteq> []"
    using assms(1) n(1) by (auto simp: nodes_ok_def node_ok_def tiers_def node_statuses_def list_all_iff)
  have "gauge_drift (snd (UpdateStatus nid st w)) t s = gauge_drift w t s" for t s
    using Some ne nodes_with_update_key [OF k n(1), of t s "\<lambda>n. n\<lparr>Status := st\<rparr>"]
    by (simp add: UpdateStatus_def db_call_healthy [OF assms(2)] gauge_drift_def nodes_gauge_add_def n(2)
        del: of_nat_eq_iff)
  then show ?thesis by blast
qed

section \<open>Registration\<close>

lemma Register_ok_cases:
  assumes "Register E fresh pk uri onion caps sig ts w = (Inr n, w')"
  obtains key where "hex_DecodeString pk = Some key" "length key = 32"
    "time_Sub (w_now w) (time_Unix ts) \<le> 5 * Minute"
    "ed25519_Verify E key (canonicalRegisterMessage pk uri (cap_Tier caps) ts) sig"
    "PublicKey n = pk" "Tier n = cap_Tier caps" "cap_Tier caps \<in> set tiers" "Status n = ''pending''"
    "\<exists>r\<in>set (w_nodes w'). NodeID r = NodeID n \<and> PublicKey r = pk \<and> Tier r = cap_Tier caps \<and> Status r = ''pending''"
proof -
  let ?n = "new_node fresh pk uri onion caps (w_now w)"
  obtain key where key: "hex_DecodeString pk = Some key" "length key = 32"
    "time_Sub (w_now w) (time_Unix ts) \<le> 5 * Minute"
    "ed25519_Verify E key (canonicalRegisterMessage pk uri (cap_Tier caps) ts) sig"
    using assms by (auto simp: Register_def split: option.splits if_splits)
  obtain nid st prior w1 where u: "upsert_node E ?n w = (Inr (nid, st, prior), w1)"
    and n: "n = ?n\<lparr>NodeID := nid, Status := st\<rparr>" "w_nodes w' = w_nodes w1"
    using assms key by (auto simp: Register_def Let_def split: prod.splits sum.splits option.splits)
  have "\<exists>r\<in>set (w_nodes w1). NodeID r = nid \<and> PublicKey r = pk \<and> Tier r = cap_Tier caps \<and> Status r = ''pending''"
    "st = ''pending''"
  proof (atomize (full), cases "lookup PublicKey pk (w_nodes w)")
    case None
    then show "(\<exists>r\<in>set (w_nodes w1). NodeID r = nid \<and> PublicKey r = pk \<and> Tier r = cap_Tier caps \<and> Status r = ''pending'') \<and> st = ''pending''"
      using u by (auto simp: upsert_node_def db_call_def sql_insert_def split: world_splits)
  next
    case (Some old)
    then have old: "old \<in> set (w_nodes w)" "PublicKey old = pk" by (auto dest: lookup_Some)
    obtain v ra b where "w_nodes w1 = sql_update (\<lambda>r. PublicKey r = pk) (reregister_row ?n v ra b) (w_nodes w)"
      "nid = NodeID old" "st = ''pending''"
      using u Some by (auto simp: upsert_node_def db_call_def split: world_splits)
    then show "(\<exists>r\<in>set (w_nodes w1). NodeID r = nid \<and> PublicKey r = pk \<and> Tier r = cap_Tier caps \<and> Status r = ''pending'') \<and> st = ''pending''"
      using old by (auto intro!: bexI [OF _ in_sql_update [OF old(1)]])
  qed
  with key n u show thesis using upsert_node_tier [OF u] by (intro that) auto
qed

text \<open>
  A signed registration cannot be read in two ways: two requests with the same signed bytes
  agree in key, address, tier and time. Keys are hexadecimal and tiers are those of the
  network, so neither contains the separator; the address may.
\<close>

lemma canonicalRegisterMessage_inj:
  assumes eq: "canonicalRegisterMessage pk uri tier ts = canonicalRegisterMessage pk' uri' tier' ts'"
    and "CHR ''|'' \<notin> set pk" "CHR ''|'' \<notin> set pk'" "CHR ''|'' \<notin> set tier" "CHR ''|'' \<notin> set tier'"
  shows "pk = pk' \<and> uri = uri' \<and> tier = tier' \<and> ts = ts'"
proof -
  have "pk @ CHR ''|'' # (uri @ CHR ''|'' # tier @ CHR ''|'' # dec ts) =
        pk' @ CHR ''|'' # (uri' @ CHR ''|'' # tier' @ CHR ''|'' # dec ts')"
    using eq by (simp add: canonicalRegisterMessage_def)
  from sep_unique [OF assms(2,3) this]
  have pk: "pk = pk'" and "(uri @ CHR ''|'' # tier) @ CHR ''|'' # dec ts = (uri' @ CHR ''|'' # tier') @ CHR ''|'' # dec ts'"
    by simp_all
  from sep_unique_last [OF dec_no_bar dec_no_bar this(2)]
  have "uri @ CHR ''|'' # tier = uri' @ CHR ''|'' # tier'" "ts = ts'"
    using dec_inj by auto
  with sep_unique_last [OF assms(4,5) this(1)] pk show ?thesis by simp
qed

lemma tier_no_bar: "t \<in> set tiers \<Longrightarrow> CHR ''|'' \<notin> set t"
  by (auto simp: tiers_def)

lemma hex_no_bar: "hex_DecodeString s = Some bs \<Longrightarrow> CHR ''|'' \<notin> set s"
  using hex_DecodeString_chars hex_char_not_sep by blast

section \<open>Reliability\<close>

lemma go_div_Second: "in_int64 d \<Longrightarrow> \<bar>go_div d Second\<bar> \<le> 2 ^ 34" "\<bar>go_mod d Second\<bar> \<le> Second"
proof -
  have div_le: "\<bar>d\<bar> div Second \<le> 2 ^ 34" if "in_int64 d"
    using that by (auto simp: in_int_def time_defs abs_if)
  then show "in_int64 d \<Longrightarrow> \<bar>go_div d Second\<bar> \<le> 2 ^ 34"
    by (auto simp: go_div_def abs_mult sgn_if time_defs)
  have "go_mod d Second = sgn d * (\<bar>d\<bar> mod Second)"
  proof -
    have "d = sgn d * \<bar>d\<bar>" by (simp add: mult_sgn_abs)
    moreover have "\<bar>d\<bar> = Second * (\<bar>d\<bar> div Second) + \<bar>d\<bar> mod Second" by simp
    ultimately have "d = sgn d * (Second * (\<bar>d\<bar> div Second)) + sgn d * (\<bar>d\<bar> mod Second)"
      by (metis distrib_left)
    then show ?thesis by (simp add: go_mod_def go_div_def time_defs algebra_simps)
  qed
  moreover have "0 \<le> \<bar>d\<bar> mod Second" "\<bar>d\<bar> mod Second < Second" by (simp_all add: time_defs)
  ultimately show "\<bar>go_mod d Second\<bar> \<le> Second" by (auto simp: abs_mult sgn_if)
qed

lemma small_ratio: "\<bar>x\<bar> \<le> 2 ^ 64 \<Longrightarrow> 1 \<le> y \<Longrightarrow> small (x / y)"
proof -
  assume x: "\<bar>x\<bar> \<le> 2 ^ 64" and y: "1 \<le> (y::real)"
  have "\<bar>x / y\<bar> \<le> \<bar>x\<bar>" using y by (simp add: divide_le_eq mult_le_cancel_left1)
  with x show ?thesis by (simp add: small_def)
qed

lemma r64_int_bound:
  assumes "\<bar>k\<bar> \<le> 2 ^ n" "n \<le> 200"
  shows "\<bar>r64 (of_int k)\<bar> \<le> 2 ^ n"
proof (rule f64.abs_upper)
  show "\<bar>real_of_int k\<bar> \<le> 2 ^ n"
    using assms by (metis of_int_abs of_int_le_iff of_int_numeral of_int_power)
  show "representable binary64 (2 ^ n)" by (simp add: representable_pow2 binary64_def)
qed

lemma Duration_Seconds_finite:
  assumes "in_int64 d"
  obtains x where "Duration_Seconds d = Fin x" "\<bar>x\<bar> \<le> 2 ^ 35"
proof -
  define q where "q = go_div d Second"
  define m where "m = go_mod d Second"
  have q: "\<bar>q\<bar> \<le> 2 ^ 34" and m: "\<bar>m\<bar> \<le> 2 ^ 30"
    using go_div_Second [of d] assms by (auto simp: q_def m_def time_defs)
  have fq: "float64 q = Fin (r64 (of_int q))" and fm: "float64 m = Fin (r64 (of_int m))"
    using q m by (auto intro!: float64_finite simp: in_int_def)
  have "small (10 ^ 9)" by (simp add: small_def)
  then have c: "f64 (10 ^ 9) = Fin (10 ^ 9)" by (simp add: small_f64 r64_numeral)
  let ?y = "r64 (of_int m) / 10 ^ 9"
  have "\<bar>r64 (of_int m)\<bar> \<le> 2 ^ 30" using m r64_int_bound [of m 30] by simp
  then have y: "\<bar>?y\<bar> \<le> 2 ^ 30" by (simp add: abs_divide)
  then have "small ?y" by (simp add: small_def)
  then have d1: "div64 (float64 m) (f64 (10 ^ 9)) = Fin (r64 ?y)"
    unfolding fm c by (simp add: small_fround)
  have "\<bar>r64 ?y\<bar> \<le> 2 ^ 30"
    using y by (rule f64.abs_upper) (simp add: representable_pow2 binary64_def del: power_numeral)
  moreover have "\<bar>r64 (of_int q)\<bar> \<le> 2 ^ 34" using q r64_int_bound [of q 34] by simp
  ultimately have s: "\<bar>r64 (of_int q) + r64 ?y\<bar> \<le> 2 ^ 35" by simp
  then have "small (r64 (of_int q) + r64 ?y)" by (simp add: small_def)
  moreover have "\<bar>r64 (r64 (of_int q) + r64 ?y)\<bar> \<le> 2 ^ 35"
    using s by (rule f64.abs_upper) (simp add: representable_pow2 binary64_def del: power_numeral)
  ultimately show thesis
    using d1 fq by (intro that) (simp_all add: Duration_Seconds_def q_def m_def small_fround)
qed

lemma taskFraction_finite:
  assumes "in_int64 completed" "in_int64 totalN"
  obtains x where "(if 0 < totalN then div64 (float64 completed) (float64 totalN) else Fin 1) = Fin x" "\<bar>x\<bar> \<le> 2 ^ 64"
proof (cases "0 < totalN")
  case True
  have "\<bar>completed\<bar> \<le> 2 ^ 63" using assms(1) by (auto simp: in_int_def abs_if)
  then have c: "\<bar>r64 (of_int completed)\<bar> \<le> 2 ^ 64" using r64_int_bound [of completed 63] by simp
  have t: "1 \<le> r64 (of_int totalN)" using True by (intro f64.lower) (simp_all add: f64.repr_01)
  have s: "small (r64 (of_int completed) / r64 (of_int totalN))" using c t by (rule small_ratio)
  have "\<bar>r64 (of_int completed) / r64 (of_int totalN)\<bar> \<le> \<bar>r64 (of_int completed)\<bar>"
    using t by (simp add: divide_le_eq mult_le_cancel_left1)
  then have "\<bar>r64 (of_int completed) / r64 (of_int totalN)\<bar> \<le> 2 ^ 64" using c by linarith
  then have "\<bar>r64 (r64 (of_int completed) / r64 (of_int totalN))\<bar> \<le> 2 ^ 64"
    by (rule f64.abs_upper) (simp add: representable_pow2 binary64_def del: power_numeral)
  then show thesis using True t s assms
    by (intro that) (auto simp: float64_finite small_fround)
next
  case False
  then show thesis by (intro that [of 1]) simp_all
qed

lemma small_mult:
  assumes "\<bar>x\<bar> \<le> 2 ^ 64" "\<bar>y\<bar> \<le> 2 ^ 64"
  shows "small (x * y)"
proof -
  have "\<bar>x * y\<bar> \<le> 2 ^ 64 * 2 ^ 64"
    unfolding abs_mult using assms by (intro mult_mono) simp_all
  then show ?thesis by (simp add: small_def)
qed

text \<open>The uptime factor: a finite value that is at most 1, and not negative for a heartbeat count.\<close>

definition uptime :: "int \<Rightarrow> int \<Rightarrow> flt" where
  "uptime receivedHB d = (let expectedHB = div64 (Duration_Seconds d) (f64 60) in
     if flt_le (Fin 1) expectedHB then
       let u = div64 (float64 receivedHB) expectedHB in if flt_lt (Fin 1) u then Fin 1 else u
     else Fin 1)"

lemma expectedHB_finite:
  assumes "in_int64 d"
  obtains e where "div64 (Duration_Seconds d) (f64 60) = Fin e"
proof -
  obtain x where x: "Duration_Seconds d = Fin x" "\<bar>x\<bar> \<le> 2 ^ 35"
    using Duration_Seconds_finite [OF assms] .
  have "f64 60 = Fin 60" by (simp add: small_f64 small_def r64_numeral)
  moreover have "small (x / 60)" using x(2) by (intro small_ratio) simp_all
  ultimately show thesis using x(1) by (intro that) (simp add: small_fround)
qed

lemma uptime_finite:
  assumes "in_int64 hb" "in_int64 d"
  obtains u where "uptime hb d = Fin u" "u \<le> 1" "\<bar>u\<bar> \<le> 2 ^ 64" "0 \<le> hb \<longrightarrow> 0 \<le> u"
proof -
  obtain e where e: "div64 (Duration_Seconds d) (f64 60) = Fin e"
    using expectedHB_finite [OF assms(2)] .
  show thesis
  proof (cases "1 \<le> e")
    case True
    have "\<bar>hb\<bar> \<le> 2 ^ 63" using assms(1) by (auto simp: in_int_def abs_if)
    then have h: "\<bar>r64 (of_int hb)\<bar> \<le> 2 ^ 64" using r64_int_bound [of hb 63] by simp
    have s: "small (r64 (of_int hb) / e)" using h True by (rule small_ratio)
    have "\<bar>r64 (of_int hb) / e\<bar> \<le> \<bar>r64 (of_int hb)\<bar>"
      using True by (simp add: divide_le_eq mult_le_cancel_left1)
    then have "\<bar>r64 (r64 (of_int hb) / e)\<bar> \<le> 2 ^ 64"
      using h by (intro f64.abs_upper [OF _ representable_pow2]) (simp_all add: binary64_def)
    moreover have "0 \<le> r64 (r64 (of_int hb) / e)" if "0 \<le> hb"
      using that True by (simp add: f64.nonneg)
    ultimately show thesis using True e s assms(1)
      by (intro that [of "min 1 (r64 (r64 (of_int hb) / e))"])
        (auto simp: uptime_def float64_finite small_fround min_def)
  next
    case False
    then show thesis using e by (intro that [of 1]) (auto simp: uptime_def)
  qed
qed

lemma computeReliability_clamp:
  assumes "in_int64 completed" "in_int64 totalN" "in_int64 hb" "in_int64 d"
  obtains x u where
    "(if 0 < totalN then div64 (float64 completed) (float64 totalN) else Fin 1) = Fin x"
    "uptime hb d = Fin u" "u \<le> 1" "0 \<le> hb \<longrightarrow> 0 \<le> u"
    "computeReliability completed totalN hb d = Fin (max 0 (min 1 (r64 (x * u))))"
proof -
  obtain x where x: "(if 0 < totalN then div64 (float64 completed) (float64 totalN) else Fin 1) = Fin x" "\<bar>x\<bar> \<le> 2 ^ 64"
    using taskFraction_finite [OF assms(1,2)] .
  obtain u where u: "uptime hb d = Fin u" "u \<le> 1" "\<bar>u\<bar> \<le> 2 ^ 64" "0 \<le> hb \<longrightarrow> 0 \<le> u"
    using uptime_finite [OF assms(3,4)] .
  have "computeReliability completed totalN hb d =
    (let r = mul64 (Fin x) (Fin u) in if flt_lt r (Fin 0) then Fin 0 else if flt_lt (Fin 1) r then Fin 1 else r)"
    unfolding computeReliability_def Let_def x(1) uptime_def [unfolded Let_def, symmetric] u(1) ..
  also have "\<dots> = Fin (max 0 (min 1 (r64 (x * u))))"
    using small_mult [OF x(2) u(3)] by (auto simp: small_fround Let_def)
  finally show thesis using x(1) u by (intro that) auto
qed

lemma computeReliability_unit:
  assumes "in_int64 completed" "in_int64 totalN" "in_int64 hb" "in_int64 d"
  shows "unit_flt (computeReliability completed totalN hb d)"
proof -
  obtain x u where "computeReliability completed totalN hb d = Fin (max 0 (min 1 (r64 (x * u))))"
    using computeReliability_clamp [OF assms] by metis
  then show ?thesis by (simp add: unit_flt_def)
qed

lemma UpdateReliability_nodes_ok [wf_intros]:
  assumes "nodes_ok (w_nodes w)" "numeric_rounds E"
    and "int (length (w_tasks w)) < 2 ^ 63" "int (length (w_heartbeats w)) < 2 ^ 63"
  shows "nodes_ok (w_nodes (snd (UpdateReliability E nid success w)))"
proof -
  have rel: "unit_flt r" if p: "pg_numeric E 5 4 a = Some r" and a: "unit_flt a" for a r
  proof -
    obtain x where x: "a = Fin x" "0 \<le> x" "x \<le> 1"
      using a by (auto simp: unit_flt_def split: flt.splits)
    have "\<exists>y. pg_numeric E 5 4 (Fin x) = Some (Fin y) \<and> of_int 0 \<le> y \<and> y \<le> of_int 1"
      by (rule assms(2) [unfolded numeric_rounds_def, rule_format]) (use x in simp_all)
    with p x show ?thesis by (auto simp: unit_flt_def)
  qed
  have cnt: "in_int64 (int (sql_count P (w_heartbeats w)))"
    "in_int64 (int (length (sql_select Q (w_tasks w))))"
    "in_int64 (int (sql_count R (sql_select Q (w_tasks w))))" for P Q R
    using assms(3,4)
    by (auto simp: in_int_def sql_defs intro!: le_less_trans [OF length_filter_le])
  note unit = rel [OF _ computeReliability_unit [OF cnt(3) cnt(2) cnt(1) time_Sub_range]]
  show ?thesis using assms(1)
    by (auto simp: UpdateReliability_def db_call_def Let_def split: world_splits
        intro!: nodes_ok_update) (auto simp: node_ok_def dest: unit)
qed

lemma div64_mono_left:
  assumes "in_int64 a" "in_int64 b" "in_int64 n" "a \<le> b" "0 < n"
  shows "\<exists>x y. div64 (float64 a) (float64 n) = Fin x \<and> div64 (float64 b) (float64 n) = Fin y \<and> x \<le> y"
proof -
  obtain x where x: "div64 (float64 a) (float64 n) = Fin x"
    using taskFraction_finite [OF assms(1,3)] assms(5) by auto
  obtain y where y: "div64 (float64 b) (float64 n) = Fin y"
    using taskFraction_finite [OF assms(2,3)] assms(5) by auto
  have n: "1 \<le> r64 (of_int n)" using assms(5) by (intro f64.lower) (simp_all add: f64.repr_01)
  have "r64 (of_int a) / r64 (of_int n) \<le> r64 (of_int b) / r64 (of_int n)"
    using n assms(4) by (intro divide_right_mono f64.mono) simp_all
  from f64.mono [OF this] have "x \<le> y"
    using x y n assms(1-3) by (auto simp: float64_finite fround_def Let_def split: if_splits)
  with x y show ?thesis by blast
qed

lemma computeReliability_mono:
  assumes "in_int64 a" "in_int64 b" "in_int64 n" "in_int64 hb" "in_int64 d" "a \<le> b" "0 \<le> hb"
  shows "flt_le (computeReliability a n hb d) (computeReliability b n hb d)"
proof -
  obtain x u where xu: "(if 0 < n then div64 (float64 a) (float64 n) else Fin 1) = Fin x"
    "uptime hb d = Fin u" "0 \<le> u" "computeReliability a n hb d = Fin (max 0 (min 1 (r64 (x * u))))"
    using computeReliability_clamp [OF assms(1,3,4,5)] assms(7) by metis
  obtain y v where yv: "(if 0 < n then div64 (float64 b) (float64 n) else Fin 1) = Fin y"
    "uptime hb d = Fin v" "computeReliability b n hb d = Fin (max 0 (min 1 (r64 (y * v))))"
    using computeReliability_clamp [OF assms(2,3,4,5)] by metis
  have "x \<le> y" using xu(1) yv(1) div64_mono_left [OF assms(1,2,3,6)] by (auto split: if_splits)
  then have "r64 (x * u) \<le> r64 (y * u)" using xu(3) by (intro f64.mono mult_right_mono)
  then show ?thesis using xu yv by (auto simp: max_def min_def)
qed

section \<open>A concrete registration\<close>

definition demo_pk :: string where "demo_pk = replicate 64 (CHR ''0'')"
definition demo_key :: bytes where "demo_key = replicate 32 (CHR 0x00)"

definition demo_caps :: "string \<Rightarrow> NodeCapabilities" where
  "demo_caps t = \<lparr>cap_Tier = t, cap_VRAMGB = Fin 24, cap_RAMGB = Fin 64, cap_BandwidthMbps = Fin 100,
     cap_SupportedTaskTypes = []\<rparr>"

definition demo_uri :: string where "demo_uri = ''02ab@host:9735''"

definition demo_now :: int where "demo_now = time_Unix 1000"

definition demo_sig :: "string \<Rightarrow> bytes" where
  "demo_sig t = demo_key @ canonicalRegisterMessage demo_pk demo_uri t 1000"

definition demo_node :: "string \<Rightarrow> node" where
  "demo_node t = new_node 7 demo_pk demo_uri [] (demo_caps t) demo_now"

lemma demo_pk_decode: "hex_DecodeString demo_pk = Some demo_key"
  unfolding demo_pk_def demo_key_def by code_simp

lemma demo_node_simps [simp]: "Tier (demo_node t) = t" "Status (demo_node t) = ''pending''"
  "NodeID (demo_node t) = 7" "PublicKey (demo_node t) = demo_pk" "Reliability (demo_node t) = Fin 1"
  "SupportedTaskTypes (demo_node t) = []" "RegisteredAt (demo_node t) = demo_now"
  "TotalTasks (demo_node t) = 0" "LNNodeURI (demo_node t) = demo_uri"
  by (simp_all add: demo_node_def new_node_def demo_caps_def)

lemma demo_time: "time_Sub demo_now (time_Unix 1000) = 0"
  by (simp add: demo_now_def time_Sub_def time_defs)

lemma demo_Register:
  assumes "t \<in> set tiers"
  shows "Register demo_ext 7 demo_pk demo_uri [] (demo_caps t) (demo_sig t) 1000 (empty_world demo_now) =
    (Inr (demo_node t), nodes_gauge_add t ''pending'' 1 ((empty_world demo_now)\<lparr>w_nodes := [demo_node t]\<rparr>))"
proof -
  have up: "upsert_node demo_ext (demo_node t) (empty_world demo_now) =
    (Inr (7, ''pending'', None), (empty_world demo_now)\<lparr>w_nodes := [demo_node t]\<rparr>)"
    using assms
    by (simp add: upsert_node_def db_call_def db_down_def db_tick_def empty_world_def demo_ext_def
        demo_numeric_def demo_node_def new_node_def demo_caps_def lookup_def sql_defs)
  have now: "w_now (empty_world demo_now) = demo_now" by (simp add: empty_world_def)
  have verify: "ed25519_Verify demo_ext demo_key
      (canonicalRegisterMessage demo_pk demo_uri (cap_Tier (demo_caps t)) 1000) (demo_sig t)"
    by (simp add: demo_ext_def demo_sig_def demo_caps_def)
  have len: "length demo_key = 32" by (simp add: demo_key_def)
  show ?thesis
    using up verify demo_time len
    by (simp add: Register_def now demo_pk_decode demo_node_def [symmetric] Let_def time_defs)
qed

section \<open>Properties\<close>

text \<open>
  Registration is authenticated. A registration that succeeds was signed by the key it
  registers, over the address, tier and time of the request, no more than five minutes ago;
  the key is 32 bytes and the tier is one of the network's; and the database then holds a
  pending node with that key and tier under the returned identifier.
\<close>

theorem register_authentic:
  assumes "Register E fresh pk uri onion caps sig ts w = (Inr n, w')"
  shows "\<exists>key. hex_DecodeString pk = Some key \<and> length key = 32 \<and>
      ed25519_Verify E key (canonicalRegisterMessage pk uri (cap_Tier caps) ts) sig \<and>
      time_Sub (w_now w) (time_Unix ts) \<le> 5 * Minute \<and> cap_Tier caps \<in> set tiers \<and>
      (\<exists>r\<in>set (w_nodes w'). NodeID r = NodeID n \<and> PublicKey r = pk \<and>
         Tier r = cap_Tier caps \<and> Status r = ''pending'')"
  using assms by (rule Register_ok_cases) blast

theorem register_authentic_witness:
  "\<exists>n w' key. Register demo_ext 7 demo_pk demo_uri [] (demo_caps ''t2'') (demo_sig ''t2'') 1000
       (empty_world demo_now) = (Inr n, w') \<and>
     hex_DecodeString demo_pk = Some key \<and> length key = 32 \<and>
     (\<exists>r\<in>set (w_nodes w'). NodeID r = NodeID n \<and> PublicKey r = demo_pk \<and> Tier r = ''t2'' \<and> Status r = ''pending'')"
proof -
  have "''t2'' \<in> set tiers" by (simp add: tiers_def)
  note r = demo_Register [OF this]
  from register_authentic [OF r] show ?thesis
    unfolding r by (auto simp: demo_caps_def)
qed

text \<open>
  C28 (signed registrations are unambiguous). When two registrations are accepted for the same
  signed bytes, they agree in key, address, tier and timestamp: no part of one can be moved
  into another, even though the address may contain the separator.
\<close>

theorem register_message_unambiguous:
  assumes "Register E fresh pk uri onion caps sig ts w = (Inr n, w1)"
    and "Register E fresh' pk' uri' onion' caps' sig' ts' w' = (Inr n', w1')"
    and "canonicalRegisterMessage pk uri (cap_Tier caps) ts = canonicalRegisterMessage pk' uri' (cap_Tier caps') ts'"
  shows "pk = pk' \<and> uri = uri' \<and> cap_Tier caps = cap_Tier caps' \<and> ts = ts'"
proof -
  obtain k where "hex_DecodeString pk = Some k" "cap_Tier caps \<in> set tiers"
    using assms(1) by (rule Register_ok_cases) blast
  moreover obtain k' where "hex_DecodeString pk' = Some k'" "cap_Tier caps' \<in> set tiers"
    using assms(2) by (rule Register_ok_cases) blast
  ultimately show ?thesis
    using canonicalRegisterMessage_inj [OF assms(3)] hex_no_bar tier_no_bar by blast
qed

theorem register_message_unambiguous_witness:
  "\<exists>n w'. Register demo_ext 7 demo_pk demo_uri [] (demo_caps ''t1'') (demo_sig ''t1'') 1000
     (empty_world demo_now) = (Inr n, w') \<and>
   demo_pk = demo_pk \<and> demo_uri = demo_uri \<and> cap_Tier (demo_caps ''t1'') = cap_Tier (demo_caps ''t1'') \<and> (1000::int) = 1000"
proof -
  have "''t1'' \<in> set tiers" by (simp add: tiers_def)
  note r = demo_Register [OF this]
  from register_message_unambiguous [OF r r refl] r show ?thesis by blast
qed

text \<open>
  The node table stays well-formed. Every operation of the registry keeps identifiers
  and public keys unique, tiers and statuses within their checks and every reliability score
  between 0 and 1, whichever database calls fail.
\<close>

theorem registry_keeps_nodes_ok:
  assumes "nodes_ok (w_nodes w)" "numeric_rounds E"
    and "int (length (w_tasks w)) < 2 ^ 63" "int (length (w_heartbeats w)) < 2 ^ 63"
  shows "nodes_ok (w_nodes (snd (Register E fresh pk uri onion caps sig ts w))) \<and>
    nodes_ok (w_nodes (snd (Activate nid w))) \<and>
    nodes_ok (w_nodes (snd (RecordHeartbeat nid w))) \<and>
    nodes_ok (w_nodes (snd (UpdateStatus nid st w))) \<and>
    nodes_ok (w_nodes (snd (UpdateReliability E nid success w)))"
  using assms by (simp add: wf_intros)

theorem registry_keeps_nodes_ok_witness:
  "nodes_ok [demo_node ''t1''] \<and>
   nodes_ok (w_nodes (snd (Activate 7 ((empty_world demo_now)\<lparr>w_nodes := [demo_node ''t1'']\<rparr>)))) \<and>
   nodes_ok (w_nodes (snd (UpdateReliability demo_ext 7 True ((empty_world demo_now)\<lparr>w_nodes := [demo_node ''t1'']\<rparr>))))"
proof -
  have ok: "nodes_ok [demo_node ''t1'']"
    by (simp add: nodes_ok_def keyed_def node_ok_def tiers_def node_statuses_def unit_flt_def)
  let ?w = "(empty_world demo_now)\<lparr>w_nodes := [demo_node ''t1'']\<rparr>"
  have "nodes_ok (w_nodes ?w)" "int (length (w_tasks ?w)) < 2 ^ 63" "int (length (w_heartbeats ?w)) < 2 ^ 63"
    using ok by (simp_all add: empty_world_def)
  from registry_keeps_nodes_ok [OF this(1) demo_numeric_rounds this(2,3)] ok show ?thesis by simp
qed

text \<open>
  The registry's gauge moves with the table. Registering, activating and changing the
  status of a node change the gauge \<open>owm_nodes_total\<close> of every tier and status by exactly as
  much as the number of nodes with that tier and status changes.
\<close>

theorem registry_gauge_follows_nodes:
  assumes "nodes_ok (w_nodes w)" "healthy w"
  shows "gauge_drift (snd (Register E fresh pk uri onion caps sig ts w)) = gauge_drift w \<and>
    gauge_drift (snd (Activate nid w)) = gauge_drift w \<and>
    gauge_drift (snd (UpdateStatus nid st w)) = gauge_drift w"
  using assms by (simp add: Register_gauge Activate_gauge UpdateStatus_gauge)

theorem registry_gauge_follows_nodes_witness:
  "nodes_ok (w_nodes (empty_world demo_now)) \<and> healthy (empty_world demo_now) \<and>
   gauge_drift (snd (Register demo_ext 7 demo_pk demo_uri [] (demo_caps ''t1'') (demo_sig ''t1'') 1000
     (empty_world demo_now))) ''t1'' ''pending'' = 0"
proof -
  have h: "nodes_ok (w_nodes (empty_world demo_now))" "healthy (empty_world demo_now)"
    by (simp_all add: empty_world_def nodes_ok_def healthy_def)
  have "gauge_drift (empty_world demo_now) ''t1'' ''pending'' = 0"
    by (simp add: gauge_drift_def empty_world_def nodes_with_def sql_defs)
  with registry_gauge_follows_nodes [OF h] h show ?thesis by simp
qed

text \<open>
  The reliability score. For all 64-bit counts and window lengths the computed score is
  a number between 0 and 1, in spite of rounding; and for a given window it never falls when
  more of the tasks were completed.
\<close>

theorem reliability_bounded_and_monotone:
  assumes "in_int64 a" "in_int64 b" "in_int64 n" "in_int64 hb" "in_int64 d"
  shows "unit_flt (computeReliability a n hb d) \<and>
    (a \<le> b \<longrightarrow> 0 \<le> hb \<longrightarrow> flt_le (computeReliability a n hb d) (computeReliability b n hb d))"
  using assms by (simp add: computeReliability_unit computeReliability_mono)

theorem reliability_bounded_and_monotone_witness:
  "unit_flt (computeReliability 3 4 100 (Hour)) \<and>
   flt_le (computeReliability 3 4 100 Hour) (computeReliability 4 4 100 Hour)"
proof -
  have r: "in_int64 3" "in_int64 4" "in_int64 100" "in_int64 Hour"
    by (simp_all add: in_int_def time_defs)
  from reliability_bounded_and_monotone [OF r(1,2,2,3,4)] show ?thesis by simp
qed

end
