(* ===== verification/Lightning.thy ===== *)
theory Lightning
  imports World "HOL-Library.Char_ord"
begin

unbundle bit_operations_syntax

text \<open>
  \<open>internal/lightning\<close>: the client interface, the mock client of dev mode, and the LND and
  Core Lightning clients. The node they talk to is a parameter: what an RPC answers, or the
  decoded JSON of a response. A client of the interface is the record of its methods;
  \<open>SendPayment\<close> takes the number of payments sent before, since a node need not answer the
  same request twice alike.
\<close>

section \<open>The interface\<close>

record Channel =
  ChannelID :: string
  RemotePubkey :: string
  CapacitySats :: int
  LocalBalanceSats :: int
  Active :: bool

record PaymentResult =
  PaymentHash :: string
  Preimage :: string
  FeeSats :: int
  pr_Status :: string
  FailureReason :: string

record Invoice =
  PaymentRequest :: string
  inv_PaymentHash :: string
  ExpiresAt :: int

record NodeInfo =
  PubkeyHex :: string
  Alias :: string
  BlockHeight :: int

record Client =
  ListChannels :: "string \<Rightarrow> Channel list result"
  SendPayment :: "nat \<Rightarrow> SendPaymentRequest \<Rightarrow> PaymentResult option result"
  AddInvoice :: "int \<Rightarrow> string \<Rightarrow> int \<Rightarrow> Invoice result"
  ForceCloseChan :: "string \<Rightarrow> unit result"
  GetInfo :: "NodeInfo result"

section \<open>The mock client\<close>

record mock_state =
  channels :: "string \<rightharpoonup> Channel list"
  FailPayments :: bool
  FailForceClose :: bool

definition mock_New :: mock_state where
  "mock_New = \<lparr>channels = Map.empty, FailPayments = False, FailForceClose = False\<rparr>"

definition mock_SetChannels :: "string \<Rightarrow> Channel list \<Rightarrow> mock_state \<Rightarrow> mock_state" where
  "mock_SetChannels pubkeyHex chans m = m\<lparr>channels := (channels m)(pubkeyHex \<mapsto> chans)\<rparr>"

definition mock_ListChannels :: "mock_state \<Rightarrow> string \<Rightarrow> Channel list result" where
  "mock_ListChannels m remotePubkeyHex = (case channels m remotePubkeyHex of
     Some chans \<Rightarrow> Inr chans
   | None \<Rightarrow> Inr [\<lparr>ChannelID = ''mock-dev-channel'', RemotePubkey = remotePubkeyHex,
       CapacitySats = 2500000, LocalBalanceSats = 2500000, Active = True\<rparr>])"

definition mock_SendPayment :: "mock_state \<Rightarrow> SendPaymentRequest \<Rightarrow> PaymentResult option result" where
  "mock_SendPayment m req =
     (if FailPayments m then Inl (Err ''mock: payments disabled for test'')
      else Inr (Some \<lparr>PaymentHash = ''mock-payment-hash'', Preimage = ''mock-preimage'', FeeSats = 0,
        pr_Status = ''SUCCEEDED'', FailureReason = []\<rparr>))"

definition mock_AddInvoice :: "int \<Rightarrow> string \<Rightarrow> int \<Rightarrow> Invoice result" where
  "mock_AddInvoice amountSats memo expirySeconds =
     Inr \<lparr>PaymentRequest = ''mock-bolt11-invoice'', inv_PaymentHash = ''mock-invoice-hash'', ExpiresAt = 0\<rparr>"

definition mock_ForceCloseChan :: "mock_state \<Rightarrow> string \<Rightarrow> unit result" where
  "mock_ForceCloseChan m channelID =
     (if FailForceClose m then Inl (Err ''mock: force close disabled for test'') else Inr ())"

definition mock_GetInfo :: "NodeInfo result" where
  "mock_GetInfo = Inr \<lparr>PubkeyHex = ''02b7b2e205e27f236b1d2b2e2b2e2b2e2b2e2b2e2b2e2b2e2b2e2b2e2b2e2b2e2b2e'',
     Alias = ''owm-mock-dev'', BlockHeight = 0\<rparr>"

definition mock_Client :: "mock_state \<Rightarrow> Client" where
  "mock_Client m = \<lparr>ListChannels = mock_ListChannels m, SendPayment = (\<lambda>_. mock_SendPayment m),
     AddInvoice = mock_AddInvoice, ForceCloseChan = mock_ForceCloseChan m, GetInfo = mock_GetInfo\<rparr>"

section \<open>The LND client\<close>

text \<open>\<open>NewLNDClient\<close>: macaroons are refused without TLS; dialling is the parameter \<open>dial\<close>.\<close>

definition NewLNDClient :: "(string \<Rightarrow> bool \<Rightarrow> string \<Rightarrow> 'conn result) \<Rightarrow> (string \<Rightarrow> unit result) \<Rightarrow>
    string \<Rightarrow> string \<Rightarrow> bytes \<Rightarrow> (string \<Rightarrow> string) \<Rightarrow> 'conn result" where
  "NewLNDClient dial loadTLS host tlsCertPath macaroonBytes hexEnc =
     (if macaroonBytes \<noteq> [] \<and> tlsCertPath = [] then
        Inl (Err ''lightning.tls_cert_path is required when using LND macaroon auth: macaroons must not be sent over plaintext gRPC'')
      else case (if tlsCertPath \<noteq> [] then loadTLS tlsCertPath else Inr ()) of
        Inl e \<Rightarrow> Inl (Wrap ''loading TLS cert'' e)
      | Inr _ \<Rightarrow>
          (case dial host (tlsCertPath \<noteq> []) (if macaroonBytes \<noteq> [] then hexEnc macaroonBytes else []) of
            Inl e \<Rightarrow> Inl (Wrap ''dialing LND'' e)
          | Inr conn \<Rightarrow> Inr conn))"

definition hexEncodeMacaroon :: "bytes \<Rightarrow> string" where
  "hexEncodeMacaroon b = concat (map (\<lambda>c.
     [''0123456789abcdef'' ! drop_bit 4 (of_char c), ''0123456789abcdef'' ! (of_char c AND 15)]) b)"

text \<open>What each call to LND carries; gRPC refuses it on a connection without TLS.\<close>

record macaroonCredential =
  macaroonHex :: string

definition GetRequestMetadata :: "macaroonCredential \<Rightarrow> (string \<rightharpoonup> string) result" where
  "GetRequestMetadata m = (if macaroonHex m = [] then Inr Map.empty else Inr [''macaroon'' \<mapsto> macaroonHex m])"

definition RequireTransportSecurity :: "macaroonCredential \<Rightarrow> bool" where
  "RequireTransportSecurity m = True"

definition hex_val :: "char \<Rightarrow> nat option" where
  "hex_val c = (if CHR ''0'' \<le> c \<and> c \<le> CHR ''9'' then Some (of_char c - 48)
     else if CHR ''a'' \<le> c \<and> c \<le> CHR ''f'' then Some (of_char c - 97 + 10)
     else if CHR ''A'' \<le> c \<and> c \<le> CHR ''F'' then Some (of_char c - 65 + 10)
     else None)"

fun decodeHex_pairs :: "string \<Rightarrow> bytes option" where
  "decodeHex_pairs (x # y # s) = (case hex_val x of None \<Rightarrow> None | Some a \<Rightarrow>
     (case hex_val y of None \<Rightarrow> None | Some b \<Rightarrow>
       map_option (\<lambda>out. char_of (push_bit 4 a OR b) # out) (decodeHex_pairs s)))"
| "decodeHex_pairs s = Some []"

text \<open>\<open>nil\<close> is \<open>None\<close>.\<close>

definition decodeHex :: "string \<Rightarrow> bytes option" where
  "decodeHex s = (if length s mod 2 \<noteq> 0 then None else decodeHex_pairs s)"

definition normalizeNodePubkeyHex :: "string \<Rightarrow> string" where
  "normalizeNodePubkeyHex s = ToLower (TrimPrefix (TrimSpace s) ''0x'')"

record lnrpc_Channel =
  lc_RemotePubkey :: string
  lc_ChannelPoint :: string
  lc_ChanId :: nat
  lc_Capacity :: int
  lc_LocalBalance :: int
  lc_Active :: bool

definition lnd_channel :: "lnrpc_Channel \<Rightarrow> Channel" where
  "lnd_channel ch =
     \<lparr>ChannelID = (if lc_ChannelPoint ch = [] \<and> lc_ChanId ch \<noteq> 0 then dec_nat (lc_ChanId ch) else lc_ChannelPoint ch),
      RemotePubkey = lc_RemotePubkey ch, CapacitySats = lc_Capacity ch,
      LocalBalanceSats = lc_LocalBalance ch, Active = lc_Active ch\<rparr>"

definition lnd_ListChannels :: "lnrpc_Channel list result \<Rightarrow> string \<Rightarrow> Channel list result" where
  "lnd_ListChannels resp remotePubkeyHex =
     (let want = normalizeNodePubkeyHex remotePubkeyHex in
      case resp of Inl e \<Rightarrow> Inl e
      | Inr chans \<Rightarrow> Inr (map lnd_channel (filter (\<lambda>ch. normalizeNodePubkeyHex (lc_RemotePubkey ch) = want) chans)))"

datatype payment_state = Payment_UNKNOWN | Payment_IN_FLIGHT | Payment_SUCCEEDED | Payment_FAILED

record lnrpc_Payment =
  lp_Status :: payment_state
  lp_PaymentHash :: bytes
  lp_PaymentPreimage :: bytes
  lp_FeeSat :: int
  lp_FailureReason :: string

text \<open>
  The loop of \<open>SendPayment\<close> over the update stream: \<open>updates\<close> are the messages that
  \<open>stream.Recv\<close> delivers before it fails with \<open>err\<close> (for instance at the timeout).
\<close>

fun lnd_recv_payment :: "lnrpc_Payment list \<Rightarrow> go_error \<Rightarrow> PaymentResult result" where
  "lnd_recv_payment [] err = Inl err"
| "lnd_recv_payment (u # updates) err =
     (if lp_Status u = Payment_SUCCEEDED then
        Inr \<lparr>PaymentHash = hex_EncodeToString (lp_PaymentHash u), Preimage = hex_EncodeToString (lp_PaymentPreimage u),
             FeeSats = lp_FeeSat u, pr_Status = ''SUCCEEDED'', FailureReason = []\<rparr>
      else if lp_Status u = Payment_FAILED then
        Inr \<lparr>PaymentHash = hex_EncodeToString (lp_PaymentHash u), Preimage = [], FeeSats = 0,
             pr_Status = ''FAILED'', FailureReason = lp_FailureReason u\<rparr>
      else lnd_recv_payment updates err)"

record router_request =
  rr_Dest :: "bytes option"
  rr_Amt :: int
  rr_TimeoutSeconds :: int

definition lnd_payment_request :: "SendPaymentRequest \<Rightarrow> router_request" where
  "lnd_payment_request req =
     \<lparr>rr_Dest = decodeHex (DestPubkeyHex req), rr_Amt = AmountSats req,
      rr_TimeoutSeconds = (if TimeoutSecs req \<le> 0 then 60 else TimeoutSecs req)\<rparr>"

definition lnd_SendPayment :: "(router_request \<Rightarrow> (lnrpc_Payment list \<times> go_error) result) \<Rightarrow>
    SendPaymentRequest \<Rightarrow> PaymentResult option result" where
  "lnd_SendPayment router req = (case router (lnd_payment_request req) of
     Inl e \<Rightarrow> Inl e
   | Inr (updates, err) \<Rightarrow>
       (case lnd_recv_payment updates err of Inl e \<Rightarrow> Inl e | Inr r \<Rightarrow> Inr (Some r)))"

definition lnd_AddInvoice :: "(int \<Rightarrow> string \<Rightarrow> int \<Rightarrow> (string \<times> bytes) result) \<Rightarrow> int \<Rightarrow>
    int \<Rightarrow> string \<Rightarrow> int \<Rightarrow> Invoice result" where
  "lnd_AddInvoice rpc now amountSats memo expirySeconds = (case rpc amountSats memo expirySeconds of
     Inl e \<Rightarrow> Inl e
   | Inr (payReq, rHash) \<Rightarrow>
       Inr \<lparr>PaymentRequest = payReq, inv_PaymentHash = (if rHash \<noteq> [] then hex_EncodeToString rHash else []),
            ExpiresAt = int64 (unix_seconds now + expirySeconds)\<rparr>)"

text \<open>
  \<open>ForceCloseChan\<close>: the channel point is \<open>txid:index\<close>; the stream is read to its end
  (\<open>None\<close> stands for \<open>io.EOF\<close>). \<open>fmt.Sscanf(.., "%d", ..)\<close> skips spaces and reads the leading
  digits; an overflow leaves the index at 0.
\<close>

definition scan_index :: "string \<Rightarrow> nat" where
  "scan_index s = (let n = digits_value (takeWhile is_digit (dropWhile is_space s)) in if n < 2 ^ 32 then n else 0)"

definition channel_point :: "string \<Rightarrow> string \<times> nat" where
  "channel_point channelID =
     (before (CHR '':'') channelID, case after (CHR '':'') channelID of None \<Rightarrow> 0 | Some s \<Rightarrow> scan_index s)"

definition lnd_ForceCloseChan :: "(string \<times> nat \<Rightarrow> go_error option result) \<Rightarrow> string \<Rightarrow> unit result" where
  "lnd_ForceCloseChan rpc channelID = (case rpc (channel_point channelID) of
     Inl e \<Rightarrow> Inl e
   | Inr None \<Rightarrow> Inr ()
   | Inr (Some e) \<Rightarrow> Inl e)"

definition lnd_GetInfo :: "NodeInfo result \<Rightarrow> NodeInfo result" where
  "lnd_GetInfo resp = (case resp of Inl e \<Rightarrow> Inl e
   | Inr i \<Rightarrow> Inr \<lparr>PubkeyHex = PubkeyHex i, Alias = Alias i, BlockHeight = BlockHeight i mod 2 ^ 32\<rparr>)"

section \<open>The Core Lightning client\<close>

text \<open>\<open>clnReq\<close>: the HTTP exchange is the parameter \<open>post\<close>; only three status codes are successes.\<close>

definition clnReq :: "(string \<Rightarrow> string \<Rightarrow> string option \<Rightarrow> (nat \<times> string \<times> bytes) result) \<Rightarrow> string \<Rightarrow> string \<Rightarrow>
    string \<Rightarrow> string \<Rightarrow> bytes result" where
  "clnReq post baseURL apiKey methd body =
     (case post (baseURL @ ''/v1/'' @ methd) body (if apiKey \<noteq> [] then Some apiKey else None) of
        Inl e \<Rightarrow> Inl e
      | Inr (code, status, data) \<Rightarrow>
          if code = 200 \<or> code = 201 \<or> code = 202 then Inr data
          else Inl (Err (''cln '' @ methd @ '': '' @ status @ '': '' @ TrimSpace data)))"

definition cln_baseURL :: "string \<Rightarrow> string" where
  "cln_baseURL url = TrimSuffix (TrimSpace url) ''/''"

text \<open>
  \<open>clnDecodePayload\<close>: \<open>wrap\<close> is \<open>json.Unmarshal\<close> into the wrapper with the raw result and the
  error message, \<open>decode\<close> is \<open>json.Unmarshal\<close> into the destination.
\<close>

definition clnDecodePayload :: "(bytes \<Rightarrow> (bytes \<times> string option) option) \<Rightarrow> (bytes \<Rightarrow> 'a result) \<Rightarrow>
    bytes \<Rightarrow> 'a result" where
  "clnDecodePayload wrap decode data = (case wrap data of
     None \<Rightarrow> decode data
   | Some (res, err) \<Rightarrow>
       (case err of
          Some m \<Rightarrow> if m \<noteq> [] then Inl (Err (''cln rpc error: '' @ m))
                   else if res \<noteq> [] \<and> res \<noteq> ''null'' then decode res else decode data
        | None \<Rightarrow> if res \<noteq> [] \<and> res \<noteq> ''null'' then decode res else decode data))"

definition parseMsatStringToSats :: "string \<Rightarrow> int" where
  "parseMsatStringToSats s0 =
     (let s = TrimSpace (TrimSuffix (TrimSpace (ToLower s0)) ''msat'') in
      if s = [] then 0 else case ParseInt s of None \<Rightarrow> 0 | Some n \<Rightarrow> go_div n 1000)"

record clnChannelRow =
  cr_ChannelID :: string
  cr_PeerID :: string
  cr_State :: string
  cr_TotalSatoshis :: nat
  cr_ToUsSatoshis :: nat
  cr_TotalMsat :: string
  cr_ToUsMsat :: string

definition clnRowToChannel :: "clnChannelRow \<Rightarrow> Channel" where
  "clnRowToChannel ch =
     (let capSats = int64 (int (cr_TotalSatoshis ch));
          localSats = int64 (int (cr_ToUsSatoshis ch));
          capSats = (if capSats = 0 \<and> cr_TotalMsat ch \<noteq> [] then parseMsatStringToSats (cr_TotalMsat ch) else capSats);
          localSats = (if localSats = 0 \<and> cr_ToUsMsat ch \<noteq> [] then parseMsatStringToSats (cr_ToUsMsat ch) else localSats)
      in \<lparr>ChannelID = cr_ChannelID ch, RemotePubkey = cr_PeerID ch, CapacitySats = capSats,
          LocalBalanceSats = localSats, Active = (ToLower (cr_State ch) = ToLower ''CHANNELD_NORMAL'')\<rparr>)"

text \<open>The response decoded flat, and decoded once more as a list of peers with their channels.\<close>

definition cln_ListChannels :: "clnChannelRow list result \<Rightarrow> (string \<times> clnChannelRow list) list result \<Rightarrow>
    string \<Rightarrow> Channel list result" where
  "cln_ListChannels flat nested remotePubkeyHex =
     (case flat of Inl e \<Rightarrow> Inl e
      | Inr rows \<Rightarrow>
          if 0 < length rows then
            Inr (map clnRowToChannel (filter (\<lambda>row. normalizeNodePubkeyHex (cr_PeerID row) = normalizeNodePubkeyHex remotePubkeyHex) rows))
          else (case nested of Inl e \<Rightarrow> Inl e
            | Inr peers \<Rightarrow>
                Inr (concat (map (\<lambda>(peer, rows).
                   if normalizeNodePubkeyHex peer \<noteq> normalizeNodePubkeyHex remotePubkeyHex then []
                   else map (\<lambda>row. clnRowToChannel (row\<lparr>cr_PeerID := peer\<rparr>)) rows) peers))))"

definition normalizeCLNPayStatus :: "string \<Rightarrow> string" where
  "normalizeCLNPayStatus s = (let t = ToLower (TrimSpace s) in
     if t \<in> set [''complete'', ''completed'', ''succeeded'', ''success'', ''paid''] then ''SUCCEEDED''
     else if t \<in> set [''failed'', ''failure''] then ''FAILED''
     else if t \<in> set [''pending'', ''pending_state''] then ''IN_FLIGHT''
     else if s = [] then ''IN_FLIGHT''
     else ToUpper (TrimSpace s))"

record cln_pay =
  cp_PaymentHash :: string
  cp_Status :: string
  cp_PaymentPreimage :: string

definition cln_amount_msat :: "int \<Rightarrow> string" where
  "cln_amount_msat sats = dec (int64 (sats * 1000)) @ ''msat''"

text \<open>
  \<open>SendPayment\<close> after the request: \<open>data\<close> is the response, \<open>unmarshal\<close> decodes its \<open>result\<close>
  and \<open>error\<close> members, \<open>bare\<close> its top level.
\<close>

definition cln_SendPayment :: "bytes result \<Rightarrow> (bytes \<Rightarrow> (cln_pay \<times> string option) result) \<Rightarrow>
    (bytes \<Rightarrow> cln_pay \<Rightarrow> cln_pay) \<Rightarrow> PaymentResult option result" where
  "cln_SendPayment response unmarshal bare = (case response of Inl e \<Rightarrow> Inl e
   | Inr data \<Rightarrow> (case unmarshal data of Inl e \<Rightarrow> Inl e
     | Inr (_, Some msg) \<Rightarrow> Inr (Some \<lparr>PaymentHash = [], Preimage = [], FeeSats = 0, pr_Status = ''FAILED'', FailureReason = msg\<rparr>)
     | Inr (res, None) \<Rightarrow>
         let res = (if cp_PaymentHash res = [] \<and> cp_Status res = [] \<and> cp_PaymentPreimage res = [] then bare data res else res);
             st = normalizeCLNPayStatus (cp_Status res);
             preimage = (if cp_PaymentPreimage res = [] \<and> st = ''SUCCEEDED'' then ''unknown'' else cp_PaymentPreimage res)
         in Inr (Some \<lparr>PaymentHash = cp_PaymentHash res, Preimage = preimage, FeeSats = 0, pr_Status = st, FailureReason = []\<rparr>)))"

definition cln_AddInvoice :: "(string \<times> string \<times> string) result \<Rightarrow> int \<Rightarrow> int \<Rightarrow> Invoice result" where
  "cln_AddInvoice response now expirySeconds = (case response of Inl e \<Rightarrow> Inl e
   | Inr (bolt11, paymentHash, invoice) \<Rightarrow>
       Inr \<lparr>PaymentRequest = (if bolt11 = [] then invoice else bolt11), inv_PaymentHash = paymentHash,
            ExpiresAt = int64 (unix_seconds now + expirySeconds)\<rparr>)"

definition cln_ForceCloseChan :: "(string \<Rightarrow> bytes result) \<Rightarrow> string \<Rightarrow> unit result" where
  "cln_ForceCloseChan req channelID = (case req channelID of Inl e \<Rightarrow> Inl e | Inr _ \<Rightarrow> Inr ())"

datatype json_value = JNumber flt | JNumberLit string | JString string | JOther

text \<open>
  The value \<open>strconv.ParseInt\<close> returns beside an error, which \<open>GetInfo\<close> ignores: 0 for a
  malformed number, the nearest bound for one out of range.
\<close>

definition ParseInt_value :: "string \<Rightarrow> int" where
  "ParseInt_value s = (let neg = (s \<noteq> [] \<and> hd s = CHR ''-'');
      ds = (if s \<noteq> [] \<and> (hd s = CHR ''-'' \<or> hd s = CHR ''+'') then tl s else s);
      n = int (digits_value ds)
    in if ds = [] \<or> \<not> list_all is_digit ds then 0
       else if neg then max (- (2 ^ 63)) (- n) else min (2 ^ 63 - 1) n)"

text \<open>The block height: a JSON number is a \<open>float64\<close>, converted through \<open>uint32\<close>.\<close>

definition cln_blockheight :: "json_value \<Rightarrow> int" where
  "cln_blockheight v = (case v of
     JNumber f \<Rightarrow> flt_to_int64 f mod 2 ^ 32
   | JNumberLit s \<Rightarrow> ParseInt_value s mod 2 ^ 32
   | JString s \<Rightarrow> (let t = TrimSpace s in
       if t \<noteq> [] \<and> list_all is_digit t then min (int (digits_value t)) (2 ^ 32 - 1) else 0)
   | JOther \<Rightarrow> 0)"

definition cln_GetInfo :: "(string \<times> string \<times> json_value) result \<Rightarrow> NodeInfo result" where
  "cln_GetInfo response = (case response of Inl e \<Rightarrow> Inl e
   | Inr (ident, alias, height) \<Rightarrow>
       Inr \<lparr>PubkeyHex = ident, Alias = alias, BlockHeight = cln_blockheight height\<rparr>)"

section \<open>Hexadecimal helpers\<close>

lemma hex_val_eq: "hex_val c = fromHexChar c"
  by (simp add: hex_val_def fromHexChar_def less_eq_char_def Let_def)

lemma nibbles_or: "b < 16 \<Longrightarrow> push_bit 4 a OR b = 16 * a + (b::nat)"
proof -
  assume "b < 16"
  then have "take_bit 4 b = b" by (simp add: take_bit_eq_mod)
  moreover have "push_bit 4 a AND take_bit 4 b = 0"
    by (rule bit_eqI) (auto simp: bit_simps)
  ultimately have "push_bit 4 a OR b = push_bit 4 a + b"
    by (simp add: disjunctive_add_eq_or)
  then show ?thesis by (simp add: push_bit_eq_mult)
qed

lemma decodeHex_pairs_eq: "even (length s) \<Longrightarrow> decodeHex_pairs s = hex_DecodeString s"
  by (induction s rule: hex_DecodeString.induct)
    (auto simp: hex_val_eq nibbles_or fromHexChar_less split: option.splits)

lemma hex_DecodeString_odd: "odd (length s) \<Longrightarrow> hex_DecodeString s = None"
  by (cases "hex_DecodeString s") (auto dest: hex_DecodeString_length)

lemma decodeHex_eq: "decodeHex s = hex_DecodeString s"
  by (simp add: decodeHex_def decodeHex_pairs_eq hex_DecodeString_odd even_iff_mod_2_eq_zero)

lemma hexEncodeMacaroon_eq: "hexEncodeMacaroon b = hex_EncodeToString b"
proof -
  have "(n::nat) AND 15 = n mod 16" for n
    using take_bit_eq_mask [of 4 n] by (simp add: take_bit_eq_mod mask_eq_exp_minus_1)
  then show ?thesis
    by (simp add: hexEncodeMacaroon_def hex_EncodeToString_def hex_byte_def [abs_def] hex_digit_def
        drop_bit_eq_div)
qed

section \<open>Channels of a peer\<close>

text \<open>
  What the stake verifier relies on in \<open>ListChannels\<close>: every channel it returns belongs to
  the peer that was asked for, up to the spelling of its key.
\<close>

locale channel_source =
  fixes list_channels :: "string \<Rightarrow> Channel list result"
  assumes of_peer: "list_channels pk = Inr chans \<Longrightarrow> c \<in> set chans \<Longrightarrow>
    normalizeNodePubkeyHex (RemotePubkey c) = normalizeNodePubkeyHex pk"
begin

lemma same_peer:
  "list_channels pk = Inr cs \<Longrightarrow> list_channels pk' = Inr cs' \<Longrightarrow> c \<in> set cs \<Longrightarrow> c \<in> set cs' \<Longrightarrow>
   normalizeNodePubkeyHex pk = normalizeNodePubkeyHex pk'"
  using of_peer by metis

end

interpretation lnd: channel_source "lnd_ListChannels resp" for resp
  by unfold_locales (auto simp: lnd_ListChannels_def lnd_channel_def Let_def split: sum.splits)

interpretation cln: channel_source "cln_ListChannels flat nested" for flat nested
  by unfold_locales
    (auto simp: cln_ListChannels_def clnRowToChannel_def Let_def split: sum.splits if_splits)

section \<open>Amounts and statuses\<close>

lemma to_lower_digit: "is_digit c \<Longrightarrow> to_lower c = c"
  by (simp add: to_lower_def is_digit_def)

lemma digit_not_space: "is_digit c \<Longrightarrow> \<not> is_space c"
  by (auto simp: is_digit_def is_space_def)

lemma ToLower_dec: "ToLower (dec n) = dec n"
proof -
  have "to_lower c = c" if "c \<in> set (dec n)" for c
    using dec_chars [OF that] by (elim disjE) (simp_all add: to_lower_digit, simp add: to_lower_def)
  then show ?thesis by (simp add: ToLower_def map_idI)
qed

lemma dec_nonempty [simp]: "dec n \<noteq> []"
  by (simp add: dec_def)

lemma dec_not_space: "c \<in> set (dec n) \<Longrightarrow> \<not> is_space c"
  using dec_chars [of c n] digit_not_space by (auto simp: is_space_def)

lemma TrimSpace_dec: "TrimSpace (dec n) = dec n"
  by (rule TrimSpace_id) (use dec_not_space [of "hd (dec n)" n] dec_not_space [of "last (dec n)" n] in simp)

lemma parseMsat_dec:
  assumes "in_int64 n"
  shows "parseMsatStringToSats (dec n @ ''msat'') = go_div n 1000"
proof -
  have low: "ToLower (dec n @ ''msat'') = dec n @ ''msat''"
    using ToLower_dec [of n] by (simp add: ToLower_def to_lower_def)
  have "\<not> is_space (CHR ''t'')" by (simp add: is_space_def)
  then have "TrimSpace (dec n @ ''msat'') = dec n @ ''msat''"
    by (intro TrimSpace_id) (use dec_not_space [of "hd (dec n)" n] in simp)
  moreover have "TrimSuffix (dec n @ ''msat'') ''msat'' = dec n"
    by (simp add: TrimSuffix_def suffix_def)
  ultimately show ?thesis
    using assms by (simp add: parseMsatStringToSats_def low TrimSpace_dec ParseInt_dec)
qed

lemma parseMsat_amount:
  assumes "in_int64 (sats * 1000)"
  shows "parseMsatStringToSats (cln_amount_msat sats) = sats"
proof -
  have "\<bar>sats * 1000\<bar> div 1000 = \<bar>sats\<bar>" by (simp add: abs_mult)
  moreover have "sgn sats * \<bar>sats\<bar> = sats" by (rule mult_sgn_abs)
  ultimately have "go_div (sats * 1000) 1000 = sats" by (simp add: go_div_def sgn_mult)
  then show ?thesis
    using assms by (simp add: cln_amount_msat_def wrap_int_id parseMsat_dec)
qed

lemma to_lower_upper: "to_lower (to_upper c) = to_lower c"
proof -
  have "(of_char c :: nat) < 256" using nat_of_char_less_256 by simp
  then show ?thesis by (auto simp: to_lower_def to_upper_def)
qed

lemma normalizeCLNPayStatus_succeeded:
  "normalizeCLNPayStatus s = ''SUCCEEDED'' \<longleftrightarrow>
   ToLower (TrimSpace s) \<in> {''complete'', ''completed'', ''succeeded'', ''success'', ''paid''}"
proof -
  have "ToLower t = ''succeeded''" if "ToUpper t = ''SUCCEEDED''" for t
  proof -
    have "ToLower t = ToLower (ToUpper t)" by (simp add: ToLower_def ToUpper_def to_lower_upper)
    also have "\<dots> = ''succeeded''" unfolding that by code_simp
    finally show ?thesis .
  qed
  then show ?thesis by (auto simp: normalizeCLNPayStatus_def Let_def split: if_splits)
qed

section \<open>The payment stream\<close>

definition decided :: "lnrpc_Payment \<Rightarrow> bool" where
  "decided u \<longleftrightarrow> lp_Status u = Payment_SUCCEEDED \<or> lp_Status u = Payment_FAILED"

lemma lnd_recv_payment_first:
  "lnd_recv_payment us err = (case find decided us of None \<Rightarrow> Inl err | Some u \<Rightarrow> lnd_recv_payment [u] err)"
  by (induction us) (auto simp: decided_def)

section \<open>Properties\<close>

text \<open>
  The hand-written hex routines. The LND client's own decoder agrees with the standard
  library's on every string, rejecting the same ones, and reads back what its encoder of
  macaroons writes.
\<close>

theorem lnd_hex_equivalence:
  "decodeHex s = hex_DecodeString s \<and> hexEncodeMacaroon b = hex_EncodeToString b \<and>
   decodeHex (hexEncodeMacaroon b) = Some b"
  by (simp add: decodeHex_eq hexEncodeMacaroon_eq hex_decode_encode)

text \<open>
  Channels of the peer only. Whatever the Lightning node answers, every channel that
  the LND or the Core Lightning client returns for a public key has that key as its remote
  side, up to spaces, case and a \<open>0x\<close> prefix; so another peer's channel never counts as stake.
\<close>

theorem channels_belong_to_peer:
  "(lnd_ListChannels resp pk = Inr cs \<or> cln_ListChannels flat nested pk = Inr cs) \<and> c \<in> set cs \<longrightarrow>
   normalizeNodePubkeyHex (RemotePubkey c) = normalizeNodePubkeyHex pk"
  using lnd.of_peer cln.of_peer by blast

theorem channels_belong_to_peer_witness:
  "\<exists>cs c. lnd_ListChannels (Inr [\<lparr>lc_RemotePubkey = ''0xAB'', lc_ChannelPoint = [], lc_ChanId = 5, lc_Capacity = 10,
      lc_LocalBalance = 4, lc_Active = True\<rparr>]) ''ab'' = Inr cs \<and> c \<in> set cs \<and>
    normalizeNodePubkeyHex (RemotePubkey c) = normalizeNodePubkeyHex ''ab''"
proof -
  let ?row = "\<lparr>lc_RemotePubkey = ''0xAB'', lc_ChannelPoint = [], lc_ChanId = 5, lc_Capacity = 10,
      lc_LocalBalance = 4, lc_Active = True\<rparr>"
  have n: "normalizeNodePubkeyHex ''0xAB'' = normalizeNodePubkeyHex ''ab''" by code_simp
  have l: "lnd_ListChannels (Inr [?row]) ''ab'' = Inr [lnd_channel ?row]"
    by (simp add: lnd_ListChannels_def n)
  then have "normalizeNodePubkeyHex (RemotePubkey (lnd_channel ?row)) = normalizeNodePubkeyHex ''ab''"
    using channels_belong_to_peer [of "Inr [?row]" "''ab''" "[lnd_channel ?row]" undefined undefined "lnd_channel ?row"]
    by simp
  with l show ?thesis by (intro exI conjI) auto
qed

text \<open>
  Amounts in millisatoshi. The amount text the Core Lightning client sends reads back
  as the same number of satoshi, as long as the product with 1000 fits in 64 bits.
\<close>

theorem cln_amount_roundtrip:
  assumes "in_int64 (sats * 1000)"
  shows "parseMsatStringToSats (cln_amount_msat sats) = sats"
  using assms by (rule parseMsat_amount)

theorem cln_amount_roundtrip_witness:
  "in_int64 (2500000 * 1000) \<and> parseMsatStringToSats (cln_amount_msat 2500000) = 2500000"
proof -
  have "in_int64 (2500000 * 1000)" by (simp add: in_int_def)
  with cln_amount_roundtrip [OF this] show ?thesis by simp
qed

end
