(* ===== verification/Stake.thy ===== *)
theory Stake
  imports Registry Lightning
begin

text \<open>
  \<open>internal/stake/verifier.go\<close>: stake verification against the Lightning node, the stake
  records, periodic re-verification, misbehaviour signals and slashing.
\<close>

section \<open>Definitions\<close>

definition TierMinimums :: "string \<rightharpoonup> int" where
  "TierMinimums = [''t1'' \<mapsto> 100000, ''t2'' \<mapsto> 500000, ''t3'' \<mapsto> 2000000]"

record StakeResult =
  OK :: bool
  sr_ChannelID :: string
  sr_CapacitySats :: int
  sr_LocalBalanceSats :: int
  TierMinimumSats :: int
  BonusMultiplier :: flt
  sr_Error :: string

record SlashConfig =
  T1AutoSlashSignals :: int
  T2T3MaintainerAcks :: int
  CooldownDuration :: int

text \<open>The verifier and its constructor; a client may be nil.\<close>

record Verifier =
  vf_lnReadonly :: "Client option"
  vf_lnSlash :: "Client option"
  vf_slashCfg :: SlashConfig

definition verifier_New :: "Client option \<Rightarrow> Client option \<Rightarrow> SlashConfig \<Rightarrow> Verifier" where
  "verifier_New lnReadonly lnSlash cfg = \<lparr>vf_lnReadonly = lnReadonly, vf_lnSlash = lnSlash, vf_slashCfg = cfg\<rparr>"

definition computeBonus :: "int \<Rightarrow> int \<Rightarrow> flt" where
  "computeBonus stakeSats minSats =
     (if stakeSats \<le> minSats then Fin 1
      else let bonus = add64 (Fin 1) (mul64 (div64 (float64 (int64 (stakeSats - minSats))) (float64 minSats)) (f64 (1 / 2)))
           in if flt_lt (Fin 2) bonus then Fin 2 else bonus)"

text \<open>The loop over the channels: the one with the highest local balance among those that reach the minimum.\<close>

definition better_channel :: "int \<Rightarrow> Channel option \<Rightarrow> Channel \<Rightarrow> Channel option" where
  "better_channel tierMin best ch =
     (if tierMin \<le> LocalBalanceSats ch then
        (case best of None \<Rightarrow> Some ch
         | Some b \<Rightarrow> if LocalBalanceSats b < LocalBalanceSats ch then Some ch else best)
      else best)"

definition best_channel :: "int \<Rightarrow> Channel list \<Rightarrow> Channel option" where
  "best_channel tierMin chans = foldl (better_channel tierMin) None chans"

definition VerifyStake :: "Client option \<Rightarrow> string \<Rightarrow> string \<Rightarrow> world \<Rightarrow> StakeResult result \<times> world" where
  "VerifyStake lnReadonly pubKeyHex tier w =
     (case TierMinimums tier of
       None \<Rightarrow> (Inl (Err (''unknown tier: '' @ tier)), w)
     | Some tierMin \<Rightarrow>
       (case lnReadonly of
         None \<Rightarrow>
           (Inr \<lparr>OK = False, sr_ChannelID = [], sr_CapacitySats = 0, sr_LocalBalanceSats = 0,
                 TierMinimumSats = tierMin, BonusMultiplier = Fin 0,
                 sr_Error = ''LN client not configured (dev_mode?)''\<rparr>,
            counter_inc ''owm_stake_verifications_total'' [''fail''] w)
       | Some lnc \<Rightarrow>
         (case ListChannels lnc pubKeyHex of
           Inl e \<Rightarrow> (Inl (Wrap ''querying LND channels'' e), w)
         | Inr chans \<Rightarrow>
           (case best_channel tierMin chans of
             None \<Rightarrow>
               (Inr \<lparr>OK = False, sr_ChannelID = [], sr_CapacitySats = 0, sr_LocalBalanceSats = 0,
                     TierMinimumSats = tierMin, BonusMultiplier = Fin 0,
                     sr_Error = ''INSUFFICIENT_STAKE: need '' @ dec tierMin @ '' sats, found none qualifying''\<rparr>,
                counter_inc ''owm_stake_verifications_total'' [''fail''] w)
           | Some best \<Rightarrow>
               (Inr \<lparr>OK = True, sr_ChannelID = ChannelID best, sr_CapacitySats = CapacitySats best,
                     sr_LocalBalanceSats = LocalBalanceSats best, TierMinimumSats = tierMin,
                     BonusMultiplier = computeBonus (LocalBalanceSats best) tierMin, sr_Error = []\<rparr>,
                counter_inc ''owm_stake_verifications_total'' [''ok''] w)))))"

text \<open>
  \<open>PersistStake\<close>: an upsert on the node's identifier. The update leaves the recorded tier
  minimum as it was. It fails when the bonus does not fit its column, when another node has
  the same channel, or when the node does not exist.
\<close>

definition PersistStake :: "ext \<Rightarrow> uuid \<Rightarrow> StakeResult \<Rightarrow> world \<Rightarrow> unit result \<times> world" where
  "PersistStake E nodeID res = db_call (\<lambda>w.
     case pg_numeric E 4 3 (BonusMultiplier res) of
       None \<Rightarrow> (Inl DbFailure, w)
     | Some bonus \<Rightarrow>
       if (\<exists>s\<in>set (w_stakes w). st_node s \<noteq> nodeID \<and> st_channel_id s = sr_ChannelID res) then (Inl DbFailure, w)
       else (case lookup st_node nodeID (w_stakes w) of
         Some _ \<Rightarrow>
           (Inr (), w\<lparr>w_stakes := sql_update (\<lambda>s. st_node s = nodeID)
              (\<lambda>s. s\<lparr>st_channel_id := sr_ChannelID res, st_capacity := sr_CapacitySats res,
                    st_local_balance := sr_LocalBalanceSats res, st_bonus := bonus,
                    st_status := ''active'', st_last_verified := w_now w, st_degraded_since := None\<rparr>) (w_stakes w)\<rparr>)
       | None \<Rightarrow>
           if lookup NodeID nodeID (w_nodes w) = None then (Inl DbFailure, w)
           else (Inr (), w\<lparr>w_stakes := sql_insert
              \<lparr>st_node = nodeID, st_channel_id = sr_ChannelID res, st_capacity = sr_CapacitySats res,
               st_local_balance = sr_LocalBalanceSats res, st_tier_minimum = TierMinimumSats res,
               st_bonus = bonus, st_status = ''active'', st_last_verified = w_now w,
               st_degraded_since = None\<rparr> (w_stakes w)\<rparr>)))"

definition markDegraded :: "uuid \<Rightarrow> world \<Rightarrow> unit result \<times> world" where
  "markDegraded nodeID w =
     (case db_exec (\<lambda>w. w\<lparr>w_nodes := sql_update (\<lambda>n. NodeID n = nodeID \<and> Status n = ''active'')
          (\<lambda>n. n\<lparr>Status := ''degraded''\<rparr>) (w_nodes w)\<rparr>) w of
       (Inl e, w) \<Rightarrow> (Inl e, w)
     | (Inr _, w) \<Rightarrow>
         db_exec (\<lambda>w. w\<lparr>w_stakes := sql_update (\<lambda>s. st_node s = nodeID \<and> st_degraded_since s = None)
           (\<lambda>s. s\<lparr>st_status := ''degraded'', st_degraded_since := Some (w_now w)\<rparr>) (w_stakes w)\<rparr>) w)"

text \<open>One row of the re-verification loop, and the loop; errors are logged and the next row is taken.\<close>

definition reverify_row :: "ext \<Rightarrow> Client \<Rightarrow> node \<Rightarrow> world \<Rightarrow> world" where
  "reverify_row E lnc n w =
     (case VerifyStake (Some lnc) (PublicKey n) (Tier n) w of
       (Inl _, w) \<Rightarrow> w
     | (Inr res, w) \<Rightarrow> if \<not> OK res then snd (markDegraded (NodeID n) w) else snd (PersistStake E (NodeID n) res w))"

definition VerifyAllActive :: "ext \<Rightarrow> Client option \<Rightarrow> world \<Rightarrow> unit result \<times> world" where
  "VerifyAllActive E lnReadonly w = (case lnReadonly of
     None \<Rightarrow> (Inr (), w)
   | Some lnc \<Rightarrow>
       (case db_query (\<lambda>w. sql_select (\<lambda>n. Status n = ''active'' \<and> lookup st_node (NodeID n) (w_stakes w) \<noteq> None) (w_nodes w)) w of
         (Inl e, w) \<Rightarrow> (Inl e, w)
       | (Inr rows, w) \<Rightarrow> (Inr (), foldl (\<lambda>w n. reverify_row E lnc n w) w rows)))"

text \<open>\<open>eventID\<close> is the identifier that the database generates for the slashing event.\<close>

definition Slash :: "SlashConfig \<Rightarrow> Client option \<Rightarrow> uuid \<Rightarrow> uuid \<Rightarrow> string \<Rightarrow> string \<Rightarrow> string \<Rightarrow> int \<Rightarrow>
    world \<Rightarrow> unit result \<times> world" where
  "Slash cfg lnSlash eventID nodeID tier reason evidenceHash signalCount w = (case lnSlash of
     None \<Rightarrow> (Inl (Err ''cannot slash: Lightning slashing client is nil (dev mode or misconfiguration)''), w)
   | Some lnc \<Rightarrow>
     (case db_query_row (\<lambda>w. map_option st_channel_id (lookup st_node nodeID (w_stakes w))) w of
       (Inl e, w) \<Rightarrow> (Inl (Wrap ''fetching channel for slashing'' e), w)
     | (Inr channelID, w) \<Rightarrow>
       (case ForceCloseChan lnc channelID of
         Inl e \<Rightarrow> (Inl (Wrap (''force-closing channel '' @ channelID) e), w)
       | Inr _ \<Rightarrow>
         (case db_call (\<lambda>w.
             if lookup NodeID nodeID (w_nodes w) = None \<or> lookup sl_id eventID (w_slashings w) \<noteq> None \<or>
                \<not> in_int32 signalCount then (Inl DbFailure, w)
             else (Inr (), w\<lparr>w_slashings := sql_insert
               \<lparr>sl_id = eventID, sl_node = nodeID, sl_channel = channelID, sl_tier = tier, sl_reason = reason,
                sl_evidence = evidenceHash, sl_signal_count = signalCount,
                sl_cooldown = w_now w + CooldownDuration cfg\<rparr> (w_slashings w)\<rparr>)) w of
           (Inl e, w) \<Rightarrow> (Inl (Wrap ''persisting slash event'' e), w)
         | (Inr _, w) \<Rightarrow>
           (case db_exec (\<lambda>w. w\<lparr>w_nodes := sql_update (\<lambda>n. NodeID n = nodeID)
               (\<lambda>n. n\<lparr>Status := ''suspended''\<rparr>) (w_nodes w)\<rparr>) w of
             (Inl e, w) \<Rightarrow> (Inl e, w)
           | (Inr _, w) \<Rightarrow>
             (case db_exec (\<lambda>w. w\<lparr>w_stakes := sql_update (\<lambda>s. st_node s = nodeID)
                 (\<lambda>s. s\<lparr>st_status := ''force_closed''\<rparr>) (w_stakes w)\<rparr>) w of
               (Inl e, w) \<Rightarrow> (Inl e, w)
             | (Inr _, w) \<Rightarrow>
               (case db_exec (\<lambda>w. w\<lparr>w_signals := sql_update (\<lambda>g. sg_node g = nodeID \<and> sg_event g = None)
                   (\<lambda>g. g\<lparr>sg_event := Some eventID\<rparr>) (w_signals w)\<rparr>) w of
                 (r, w) \<Rightarrow> (r, counter_inc ''owm_slash_events_total'' [tier] w))))))))"

text \<open>
  The \<open>INSERT .. RETURNING (SELECT count( * ) ..)\<close> of \<open>RecordMisbehaviorSignal\<close>. PostgreSQL
  evaluates the sub-select on the snapshot of the statement, in which the inserted row is not
  yet visible: the count is that of the unresolved signals recorded before.
\<close>

definition insert_signal :: "uuid \<Rightarrow> string \<Rightarrow> string \<Rightarrow> world \<Rightarrow> int result \<times> world" where
  "insert_signal nodeID signalType evidenceHash = db_call (\<lambda>w.
     if lookup NodeID nodeID (w_nodes w) = None then (Inl DbFailure, w)
     else (Inr (int (sql_count (\<lambda>g. sg_node g = nodeID \<and> sg_event g = None) (w_signals w))),
           w\<lparr>w_signals := sql_insert \<lparr>sg_node = nodeID, sg_type = signalType, sg_evidence = evidenceHash,
              sg_event = None\<rparr> (w_signals w)\<rparr>))"

definition RecordMisbehaviorSignal :: "SlashConfig \<Rightarrow> Client option \<Rightarrow> uuid \<Rightarrow> uuid \<Rightarrow> string \<Rightarrow> string \<Rightarrow> string \<Rightarrow>
    world \<Rightarrow> unit result \<times> world" where
  "RecordMisbehaviorSignal cfg lnSlash eventID nodeID tier signalType evidenceHash w =
     (case insert_signal nodeID signalType evidenceHash w of
       (Inl e, w) \<Rightarrow> (Inl (Wrap ''recording signal'' e), w)
     | (Inr signalCount, w) \<Rightarrow>
         if tier = ''t1'' \<and> T1AutoSlashSignals cfg \<le> signalCount
         then Slash cfg lnSlash eventID nodeID tier signalType evidenceHash signalCount w
         else (Inr (), w))"

section \<open>The stake bonus\<close>

lemma r64_half: "r64 (1 / 2) = 1 / 2"
  using representable_half_int [of 1 binary64] by (intro f64.exact) (simp add: binary64_def)

lemma computeBonus_value:
  assumes "in_int64 s" "in_int64 m" "0 < m" "m < s"
  shows "computeBonus s m =
    Fin (min 2 (r64 (1 + r64 (r64 (r64 (of_int (s - m)) / r64 (of_int m)) * (1 / 2)))))"
proof -
  have i: "in_int64 (s - m)" using assms by (simp add: in_int_def)
  define a where "a = r64 (of_int (s - m))"
  define b where "b = r64 (of_int m)"
  have "\<bar>s - m\<bar> \<le> 2 ^ 63" using i by (auto simp: in_int_def abs_if)
  then have a: "\<bar>a\<bar> \<le> 2 ^ 63" using r64_int_bound [of "s - m" 63] by (simp add: a_def)
  have b: "1 \<le> b" unfolding b_def using assms(3) by (intro f64.lower) (simp_all add: f64.repr_01)
  have "\<bar>a / b\<bar> \<le> \<bar>a\<bar>" using b by (simp add: divide_le_eq mult_le_cancel_left1)
  then have q: "\<bar>a / b\<bar> \<le> 2 ^ 63" using a by linarith
  then have "\<bar>r64 (a / b)\<bar> \<le> 2 ^ 63" by (intro f64.abs_upper [OF _ representable_pow2]) (simp_all add: binary64_def)
  then have h: "\<bar>r64 (a / b) * (1 / 2)\<bar> \<le> 2 ^ 63" by (simp add: abs_mult)
  then have "\<bar>r64 (r64 (a / b) * (1 / 2))\<bar> \<le> 2 ^ 63"
    by (intro f64.abs_upper [OF _ representable_pow2]) (simp_all add: binary64_def)
  then have sm: "small (a / b)" "small (r64 (a / b) * (1 / 2))" "small (1 + r64 (r64 (a / b) * (1 / 2)))"
    using q h by (auto simp: small_def)
  have half: "f64 (1 / 2) = Fin (1 / 2)" by (simp add: small_f64 small_def r64_half)
  have "div64 (float64 (s - m)) (float64 m) = Fin (r64 (a / b))"
    using b sm(1) i assms(2) by (simp add: float64_finite a_def b_def small_fround)
  moreover have "int64 (s - m) = s - m" using i by (simp add: wrap_int_id)
  ultimately show ?thesis
    using assms(4) sm half
    by (simp add: computeBonus_def small_fround Let_def a_def b_def min_def)
qed

lemma r64_2: "representable binary64 2"
  using representable_int [of 2 binary64] by (simp add: binary64_def)

lemma computeBonus_range:
  assumes "in_int64 s" "in_int64 m" "0 < m"
  shows "\<exists>b. computeBonus s m = Fin b \<and> 1 \<le> b \<and> b \<le> 2"
proof (cases "m < s")
  case True
  have "0 \<le> r64 (r64 (r64 (of_int (s - m)) / r64 (of_int m)) * (1 / 2))"
    using True assms(3) by (intro f64.nonneg mult_nonneg_nonneg divide_nonneg_nonneg) simp_all
  then have "1 \<le> r64 (1 + r64 (r64 (r64 (of_int (s - m)) / r64 (of_int m)) * (1 / 2)))"
    by (intro f64.lower) (simp_all add: f64.repr_01)
  then show ?thesis using computeBonus_value [OF assms True] by auto
next
  case False
  then show ?thesis by (simp add: computeBonus_def)
qed

lemma computeBonus_mono:
  assumes "in_int64 s" "in_int64 s'" "in_int64 m" "0 < m" "s \<le> s'"
  shows "flt_le (computeBonus s m) (computeBonus s' m)"
proof (cases "m < s")
  case True
  let ?f = "\<lambda>s. r64 (1 + r64 (r64 (r64 (of_int (s - m)) / r64 (of_int m)) * (1 / 2)))"
  have "?f s \<le> ?f s'"
    using assms by (intro f64.mono add_left_mono mult_right_mono divide_right_mono f64.nonneg) simp_all
  then show ?thesis using computeBonus_value [OF assms(1,3,4)] computeBonus_value [OF assms(2,3,4)] True assms(5)
    by (simp add: min_def)
next
  case False
  then have "computeBonus s m = Fin 1" by (simp add: computeBonus_def)
  then show ?thesis using computeBonus_range [OF assms(2-4)] by auto
qed

section \<open>Choosing the channel\<close>

lemma best_channel_None: "best_channel m cs = None \<longleftrightarrow> (\<forall>c\<in>set cs. LocalBalanceSats c < m)"
  by (induction cs rule: rev_induct)
    (auto simp: best_channel_def better_channel_def split: option.splits if_splits)

lemma best_channel_Some:
  "best_channel m cs = Some b \<Longrightarrow>
   b \<in> set cs \<and> m \<le> LocalBalanceSats b \<and> (\<forall>c\<in>set cs. LocalBalanceSats c \<le> LocalBalanceSats b)"
proof (induction cs arbitrary: b rule: rev_induct)
  case (snoc c cs)
  have "best_channel m (cs @ [c]) = better_channel m (best_channel m cs) c"
    by (simp add: best_channel_def)
  with snoc show ?case using best_channel_None [of m cs]
    by (fastforce simp: better_channel_def split: option.splits if_splits)
qed (simp add: best_channel_def)

lemma TierMinimums_pos: "TierMinimums t = Some m \<Longrightarrow> 0 < m \<and> in_int64 m"
  by (auto simp: TierMinimums_def in_int_def split: if_splits)

lemma TierMinimums_dom: "TierMinimums t \<noteq> None \<longleftrightarrow> t \<in> set tiers"
  by (auto simp: TierMinimums_def tiers_def)

lemma VerifyStake_frame: "snd (VerifyStake ln' pk tier w) \<in> {w} \<union> range (\<lambda>r. counter_inc ''owm_stake_verifications_total'' [r] w)"
  by (auto simp: VerifyStake_def split: option.splits sum.splits)

lemma VerifyStake_simps [simp]:
  "w_nodes (snd (VerifyStake l pk tier w)) = w_nodes w" "w_stakes (snd (VerifyStake l pk tier w)) = w_stakes w"
  "w_faults (snd (VerifyStake l pk tier w)) = w_faults w" "w_tasks (snd (VerifyStake l pk tier w)) = w_tasks w"
  "w_now (snd (VerifyStake l pk tier w)) = w_now w" "w_gauge (snd (VerifyStake l pk tier w)) = w_gauge w"
  "w_heartbeats (snd (VerifyStake l pk tier w)) = w_heartbeats w"
  "w_slashings (snd (VerifyStake l pk tier w)) = w_slashings w"
  "w_signals (snd (VerifyStake l pk tier w)) = w_signals w"
  "w_rounds (snd (VerifyStake l pk tier w)) = w_rounds w"
  "w_queue (snd (VerifyStake l pk tier w)) = w_queue w"
  "w_receipts (snd (VerifyStake l pk tier w)) = w_receipts w"
  "w_stamps (snd (VerifyStake l pk tier w)) = w_stamps w"
  "w_sent (snd (VerifyStake l pk tier w)) = w_sent w"
  "w_participants (snd (VerifyStake l pk tier w)) = w_participants w"
  "w_next_round (snd (VerifyStake l pk tier w)) = w_next_round w"
  using VerifyStake_frame [of l pk tier w] by auto

section \<open>Re-verification\<close>

text \<open>The tier's minimum is known, the node answers, and no channel reaches the minimum.\<close>

definition underfunded :: "Client \<Rightarrow> node \<Rightarrow> bool" where
  "underfunded lnc n \<longleftrightarrow> (case TierMinimums (Tier n) of None \<Rightarrow> False | Some m \<Rightarrow>
     (case ListChannels lnc (PublicKey n) of Inl _ \<Rightarrow> False
      | Inr cs \<Rightarrow> list_all (\<lambda>c. LocalBalanceSats c < m) cs))"

definition degrade :: "node \<Rightarrow> node" where
  "degrade m = (if Status m = ''active'' then m\<lparr>Status := ''degraded''\<rparr> else m)"

lemma degrade_simps [simp]: "NodeID (degrade m) = NodeID m" "degrade (degrade m) = degrade m"
  by (simp_all add: degrade_def)

lemma VerifyStake_underfunded:
  "(\<exists>res w1. VerifyStake (Some lnc) (PublicKey n) (Tier n) w = (Inr res, w1) \<and> \<not> OK res) \<longleftrightarrow> underfunded lnc n"
  by (auto simp: VerifyStake_def underfunded_def list_all_iff best_channel_None [symmetric]
      split: option.splits sum.splits)

lemma markDegraded_healthy:
  assumes "healthy w"
  shows "w_nodes (snd (markDegraded nid w)) = map (\<lambda>m. if NodeID m = nid then degrade m else m) (w_nodes w)"
    and "healthy (snd (markDegraded nid w))"
  using assms
  by (auto simp: markDegraded_def db_call_healthy sql_update_def degrade_def healthy_def db_call_def db_down_def db_tick_def)

lemma PersistStake_nodes [simp]: "w_nodes (snd (PersistStake E nid res w)) = w_nodes w"
  by (auto simp: PersistStake_def db_call_def split: option.splits)

lemma PersistStake_healthy: "healthy w \<Longrightarrow> healthy (snd (PersistStake E nid res w))"
  by (auto simp: PersistStake_def db_call_healthy split: option.splits) (simp_all add: healthy_def)

lemma reverify_row_healthy:
  assumes "healthy w"
  shows "healthy (reverify_row E lnc n w)"
    and "w_nodes (reverify_row E lnc n w) =
      map (\<lambda>m. if underfunded lnc n \<and> NodeID m = NodeID n then degrade m else m) (w_nodes w)"
proof (atomize (full))
  obtain r w1 where v: "VerifyStake (Some lnc) (PublicKey n) (Tier n) w = (r, w1)" by fastforce
  have w1: "healthy w1" "w_nodes w1 = w_nodes w"
    using assms VerifyStake_simps [of "Some lnc" "PublicKey n" "Tier n" w] v by (simp_all add: healthy_def)
  have u: "underfunded lnc n \<longleftrightarrow> (\<exists>res. r = Inr res \<and> \<not> OK res)"
    using VerifyStake_underfunded [of lnc n w] v by auto
  show "healthy (reverify_row E lnc n w) \<and> w_nodes (reverify_row E lnc n w) =
      map (\<lambda>m. if underfunded lnc n \<and> NodeID m = NodeID n then degrade m else m) (w_nodes w)"
    using w1 u v markDegraded_healthy [OF w1(1), of "NodeID n"] PersistStake_healthy [OF w1(1)]
    by (auto simp: reverify_row_def split: sum.splits)
qed

lemma reverify_loop:
  assumes "healthy w"
  shows "healthy (foldl (\<lambda>w n. reverify_row E lnc n w) w rows) \<and>
    w_nodes (foldl (\<lambda>w n. reverify_row E lnc n w) w rows) =
      map (\<lambda>m. if \<exists>n\<in>set rows. underfunded lnc n \<and> NodeID m = NodeID n then degrade m else m) (w_nodes w)"
  using assms
proof (induction rows arbitrary: w)
  case (Cons n rows)
  from Cons.IH [OF reverify_row_healthy(1) [OF Cons.prems, of E lnc n]] show ?case
    by (auto simp: reverify_row_healthy(2) [OF Cons.prems])
qed simp

lemma VerifyAllActive_nodes:
  assumes "healthy w" "keyed NodeID (w_nodes w)"
  shows "w_nodes (snd (VerifyAllActive E (Some lnc) w)) =
    map (\<lambda>n. if Status n = ''active'' \<and> lookup st_node (NodeID n) (w_stakes w) \<noteq> None \<and> underfunded lnc n
             then n\<lparr>Status := ''degraded''\<rparr> else n) (w_nodes w)"
proof -
  define rows where "rows = sql_select (\<lambda>n. Status n = ''active'' \<and> lookup st_node (NodeID n) (w_stakes w) \<noteq> None) (w_nodes w)"
  have "w_nodes (snd (VerifyAllActive E (Some lnc) w)) =
      map (\<lambda>m. if \<exists>n\<in>set rows. underfunded lnc n \<and> NodeID m = NodeID n then degrade m else m) (w_nodes w)"
    using reverify_loop [OF assms(1), of E lnc rows]
    by (simp add: VerifyAllActive_def db_call_healthy [OF assms(1)] rows_def)
  also have "\<dots> = map (\<lambda>n. if Status n = ''active'' \<and> lookup st_node (NodeID n) (w_stakes w) \<noteq> None \<and> underfunded lnc n
             then n\<lparr>Status := ''degraded''\<rparr> else n) (w_nodes w)"
  proof (intro map_cong refl)
    fix m assume m: "m \<in> set (w_nodes w)"
    have "(\<exists>n\<in>set rows. underfunded lnc n \<and> NodeID m = NodeID n) \<longleftrightarrow> m \<in> set rows \<and> underfunded lnc m"
      using keyed_unique [OF assms(2) m] by (auto simp: rows_def sql_select_def)
    with m show "(if \<exists>n\<in>set rows. underfunded lnc n \<and> NodeID m = NodeID n then degrade m else m) =
      (if Status m = ''active'' \<and> lookup st_node (NodeID m) (w_stakes w) \<noteq> None \<and> underfunded lnc m
       then m\<lparr>Status := ''degraded''\<rparr> else m)"
      by (simp add: rows_def sql_select_def degrade_def)
  qed
  finally show ?thesis .
qed

section \<open>Slashing\<close>

lemma Slash_healthy:
  assumes "healthy w" "lookup st_node nid (w_stakes w) = Some st" "ForceCloseChan lnc (st_channel_id st) = Inr ()"
    and "lookup NodeID nid (w_nodes w) \<noteq> None" "lookup sl_id ev (w_slashings w) = None" "in_int32 k"
  shows "Slash cfg (Some lnc) ev nid tier reason evid k w =
    (Inr (), counter_inc ''owm_slash_events_total'' [tier]
       (w\<lparr>w_slashings := sql_insert \<lparr>sl_id = ev, sl_node = nid, sl_channel = st_channel_id st, sl_tier = tier,
            sl_reason = reason, sl_evidence = evid, sl_signal_count = k,
            sl_cooldown = w_now w + CooldownDuration cfg\<rparr> (w_slashings w),
          w_nodes := sql_update (\<lambda>n. NodeID n = nid) (\<lambda>n. n\<lparr>Status := ''suspended''\<rparr>) (w_nodes w),
          w_stakes := sql_update (\<lambda>s. st_node s = nid) (\<lambda>s. s\<lparr>st_status := ''force_closed''\<rparr>) (w_stakes w),
          w_signals := sql_update (\<lambda>g. sg_node g = nid \<and> sg_event g = None) (\<lambda>g. g\<lparr>sg_event := Some ev\<rparr>) (w_signals w)\<rparr>))"
proof -
  have h: "healthy (w\<lparr>w_slashings := x\<rparr>)" "healthy (w\<lparr>w_slashings := x, w_nodes := y\<rparr>)"
    "healthy (w\<lparr>w_slashings := x, w_nodes := y, w_stakes := z\<rparr>)" for x y z
    using assms(1) by (simp_all add: healthy_def)
  show ?thesis using assms(2-) by (simp add: Slash_def db_call_healthy [OF assms(1)] db_call_healthy [OF h(1)]
    db_call_healthy [OF h(2)] db_call_healthy [OF h(3)])
qed

lemma Slash_refused:
  assumes "healthy w" "lookup st_node nid (w_stakes w) = Some st" "ForceCloseChan lnc (st_channel_id st) = Inl e"
  shows "Slash cfg (Some lnc) ev nid tier reason evid k w =
    (Inl (Wrap (''force-closing channel '' @ st_channel_id st) e), w)"
  using assms(2,3) by (simp add: Slash_def db_call_healthy [OF assms(1)])

text \<open>Whatever fails in it, slashing only ever moves nodes to the status of suspension.\<close>

lemma Slash_nodes:
  "w_nodes (snd (Slash cfg lnSlash ev nid tier reason evid k w)) \<in>
     {w_nodes w, sql_update (\<lambda>n. NodeID n = nid) (\<lambda>n. n\<lparr>Status := ''suspended''\<rparr>) (w_nodes w)}"
  by (auto simp: Slash_def db_call_def split: option.splits sum.splits prod.splits if_splits)

lemma RecordMisbehaviorSignal_below:
  assumes "healthy w" "lookup NodeID nid (w_nodes w) \<noteq> None"
    and "tier = ''t1'' \<longrightarrow> int (sql_count (\<lambda>g. sg_node g = nid \<and> sg_event g = None) (w_signals w)) < T1AutoSlashSignals cfg"
  shows "RecordMisbehaviorSignal cfg lnSlash ev nid tier ty evid w =
    (Inr (), w\<lparr>w_signals := sql_insert \<lparr>sg_node = nid, sg_type = ty, sg_evidence = evid, sg_event = None\<rparr> (w_signals w)\<rparr>)"
  using assms(2,3)
  by (auto simp: RecordMisbehaviorSignal_def insert_signal_def db_call_healthy [OF assms(1)])

lemma RecordMisbehaviorSignal_reached:
  assumes "healthy w" "lookup NodeID nid (w_nodes w) \<noteq> None"
    and "T1AutoSlashSignals cfg \<le> int (sql_count (\<lambda>g. sg_node g = nid \<and> sg_event g = None) (w_signals w))"
  shows "RecordMisbehaviorSignal cfg lnSlash ev nid ''t1'' ty evid w =
    Slash cfg lnSlash ev nid ''t1'' ty evid (int (sql_count (\<lambda>g. sg_node g = nid \<and> sg_event g = None) (w_signals w)))
      (w\<lparr>w_signals := sql_insert \<lparr>sg_node = nid, sg_type = ty, sg_evidence = evid, sg_event = None\<rparr> (w_signals w)\<rparr>)"
  using assms(2,3)
  by (auto simp: RecordMisbehaviorSignal_def insert_signal_def db_call_healthy [OF assms(1)])

text \<open>A run of signals about one node, with the event identifiers the database would generate.\<close>

fun signals :: "SlashConfig \<Rightarrow> Client option \<Rightarrow> uuid \<Rightarrow> string \<Rightarrow> (uuid \<times> string \<times> string) list \<Rightarrow> world \<Rightarrow> world" where
  "signals cfg lnSlash nid tier [] w = w"
| "signals cfg lnSlash nid tier ((ev, ty, evid) # sigs) w =
     signals cfg lnSlash nid tier sigs (snd (RecordMisbehaviorSignal cfg lnSlash ev nid tier ty evid w))"

abbreviation open_signals :: "uuid \<Rightarrow> world \<Rightarrow> nat" where
  "open_signals nid w \<equiv> sql_count (\<lambda>g. sg_node g = nid \<and> sg_event g = None) (w_signals w)"

lemma signals_below:
  assumes "healthy w" "lookup NodeID nid (w_nodes w) \<noteq> None"
    and "tier = ''t1'' \<longrightarrow> int (open_signals nid w + length sigs) \<le> T1AutoSlashSignals cfg"
  shows "signals cfg lnSlash nid tier sigs w = w\<lparr>w_signals := w_signals w @
      map (\<lambda>(ev, ty, evid). \<lparr>sg_node = nid, sg_type = ty, sg_evidence = evid, sg_event = None\<rparr>) sigs\<rparr>"
  using assms
proof (induction sigs arbitrary: w)
  case (Cons s sigs)
  obtain ev ty evid where s: "s = (ev, ty, evid)" by (cases s) auto
  let ?w = "w\<lparr>w_signals := sql_insert \<lparr>sg_node = nid, sg_type = ty, sg_evidence = evid, sg_event = None\<rparr> (w_signals w)\<rparr>"
  have step: "RecordMisbehaviorSignal cfg lnSlash ev nid tier ty evid w = (Inr (), ?w)"
    using Cons.prems by (intro RecordMisbehaviorSignal_below) auto
  have "signals cfg lnSlash nid tier sigs ?w = ?w\<lparr>w_signals := w_signals ?w @
      map (\<lambda>(ev, ty, evid). \<lparr>sg_node = nid, sg_type = ty, sg_evidence = evid, sg_event = None\<rparr>) sigs\<rparr>"
    using Cons.prems by (intro Cons.IH) (auto simp: healthy_def)
  then show ?case by (simp add: s step sql_insert_def)
qed simp

text \<open>What each statement of \<open>Slash\<close> keeps, slashing keeps.\<close>

lemma Slash_keeps:
  assumes "P w" "\<And>v. P (db_tick v) = P v" "\<And>v. P v \<Longrightarrow> P (counter_inc ''owm_slash_events_total'' [tier] v)"
    and "\<And>v x. P (v\<lparr>w_slashings := x\<rparr>) = P v" "\<And>v x. P (v\<lparr>w_signals := x\<rparr>) = P v"
    and "\<And>v. P v \<Longrightarrow> P (v\<lparr>w_nodes := sql_update (\<lambda>n. NodeID n = nid) (\<lambda>n. n\<lparr>Status := ''suspended''\<rparr>) (w_nodes v)\<rparr>)"
    and "\<And>v. P v \<Longrightarrow> P (v\<lparr>w_stakes := sql_update (\<lambda>s. st_node s = nid) (\<lambda>s. s\<lparr>st_status := ''force_closed''\<rparr>) (w_stakes v)\<rparr>)"
  shows "P (snd (Slash cfg l ev nid tier reason evid k w))"
proof -
  have row: "P v' = P v" if "db_query_row f v = (r, v')" for f v v' and r :: "string result"
    using that assms(2) by (auto simp: db_call_def split: if_splits option.splits)
  have event: "P v' = P v" if "db_call (\<lambda>w. if c w then (Inl DbFailure, w) else (Inr (), w\<lparr>w_slashings := g w\<rparr>)) v = (r, v')"
    for c g v v' and r :: "unit result"
    using that assms(2,4) by (auto simp: db_call_def split: if_splits)
  have signal: "P v' = P v" if "db_exec (\<lambda>w. w\<lparr>w_signals := g w\<rparr>) v = (r, v')" for g v v' and r :: "unit result"
    using that assms(2,5) by (auto simp: db_call_def split: if_splits)
  have exec: "P v'" if "db_exec f v = (r, v')" "P v" "\<And>v. P v \<Longrightarrow> P (f v)" for f v v' and r :: "unit result"
    using that assms(2) by (auto simp: db_call_def split: if_splits)
  show ?thesis using assms(1)
    by (auto simp: Slash_def simp del: case_map_option split: option.split sum.split prod.split dest!: row event signal dest: exec [OF _ _ assms(6)] exec [OF _ _ assms(7)] intro: assms(3))
qed

section \<open>A concrete stake\<close>

definition demo_stake :: "string \<Rightarrow> stake_row" where
  "demo_stake ch = \<lparr>st_node = 7, st_channel_id = ch, st_capacity = 400000, st_local_balance = 300000,
     st_tier_minimum = 100000, st_bonus = Fin 2, st_status = ''active'', st_last_verified = demo_now,
     st_degraded_since = None\<rparr>"

definition demo_channel :: "string \<Rightarrow> int \<Rightarrow> Channel" where
  "demo_channel cid bal = \<lparr>ChannelID = cid, RemotePubkey = demo_pk, CapacitySats = 400000,
     LocalBalanceSats = bal, Active = True\<rparr>"

text \<open>A Lightning node that knows one peer's channels.\<close>

definition demo_ln :: "Channel list \<Rightarrow> Client" where
  "demo_ln cs = mock_Client (mock_SetChannels demo_pk cs mock_New)"

lemma demo_ln_simps [simp]: "ListChannels (demo_ln cs) demo_pk = Inr cs" "ForceCloseChan (demo_ln cs) ch = Inr ()"
  by (simp_all add: demo_ln_def mock_Client_def mock_ListChannels_def mock_SetChannels_def
      mock_ForceCloseChan_def mock_New_def)

definition demo_staked :: "string \<Rightarrow> string \<Rightarrow> signal_row list \<Rightarrow> world" where
  "demo_staked t st sigs = (empty_world demo_now)\<lparr>w_nodes := [demo_node t\<lparr>Status := st\<rparr>],
     w_stakes := [demo_stake ''c1''], w_signals := sigs\<rparr>"

lemma demo_staked_simps [simp]:
  "w_nodes (demo_staked t st sigs) = [demo_node t\<lparr>Status := st\<rparr>]"
  "w_stakes (demo_staked t st sigs) = [demo_stake ''c1'']" "w_signals (demo_staked t st sigs) = sigs"
  "w_slashings (demo_staked t st sigs) = []" "w_now (demo_staked t st sigs) = demo_now"
  "w_gauge (demo_staked t st sigs) = (\<lambda>_ _. 0)" "healthy (demo_staked t st sigs)"
  by (simp_all add: demo_staked_def empty_world_def healthy_def)

lemma demo_staked_lookup [simp]:
  "lookup NodeID 7 [demo_node t\<lparr>Status := st\<rparr>] = Some (demo_node t\<lparr>Status := st\<rparr>)"
  "lookup st_node 7 [demo_stake ch] = Some (demo_stake ch)"
  by (simp_all add: lookup_def sql_row_def demo_stake_def)

section \<open>Properties\<close>

text \<open>
  C31 (stake verification). When the Lightning node does not answer, verification of a known tier is
  an error. When it answers, verification succeeds exactly when one of the peer's channels holds the
  tier's minimum on the local side, the side of the treasury; the recorded channel is one with the
  largest local balance, and its bonus lies between 1 and 2. The capacity of a channel, which the
  comments and the requirements name as what has to reach the minimum, decides nothing: channels
  of any capacity are refused when the local balance of each is below the minimum.
\<close>

theorem verify_stake_correct:
  assumes "TierMinimums tier = Some m"
  shows "(\<forall>e. ListChannels lnc pk = Inl e \<longrightarrow>
      fst (VerifyStake (Some lnc) pk tier w) = Inl (Wrap ''querying LND channels'' e)) \<and>
    (\<forall>cs. ListChannels lnc pk = Inr cs \<longrightarrow> (\<forall>c\<in>set cs. in_int64 (LocalBalanceSats c)) \<longrightarrow>
      (\<exists>res. fst (VerifyStake (Some lnc) pk tier w) = Inr res \<and> TierMinimumSats res = m \<and>
        (OK res \<longleftrightarrow> (\<exists>c\<in>set cs. m \<le> LocalBalanceSats c)) \<and>
        (OK res \<longrightarrow> (\<exists>c\<in>set cs. sr_ChannelID res = ChannelID c \<and> sr_LocalBalanceSats res = LocalBalanceSats c \<and>
            sr_CapacitySats res = CapacitySats c \<and> (\<forall>d\<in>set cs. LocalBalanceSats d \<le> LocalBalanceSats c) \<and>
            (\<exists>b. BonusMultiplier res = Fin b \<and> 1 \<le> b \<and> b \<le> 2))) \<and>
        (list_all (\<lambda>c. LocalBalanceSats c < m \<and> m \<le> CapacitySats c) cs \<longrightarrow>
          \<not> OK res \<and> sr_Error res = ''INSUFFICIENT_STAKE: need '' @ dec m @ '' sats, found none qualifying'')))"
proof (intro conjI allI impI)
  fix cs assume cs: "ListChannels lnc pk = Inr cs" "\<forall>c\<in>set cs. in_int64 (LocalBalanceSats c)"
  show "\<exists>res. fst (VerifyStake (Some lnc) pk tier w) = Inr res \<and> TierMinimumSats res = m \<and>
      (OK res \<longleftrightarrow> (\<exists>c\<in>set cs. m \<le> LocalBalanceSats c)) \<and>
      (OK res \<longrightarrow> (\<exists>c\<in>set cs. sr_ChannelID res = ChannelID c \<and> sr_LocalBalanceSats res = LocalBalanceSats c \<and>
          sr_CapacitySats res = CapacitySats c \<and> (\<forall>d\<in>set cs. LocalBalanceSats d \<le> LocalBalanceSats c) \<and>
          (\<exists>b. BonusMultiplier res = Fin b \<and> 1 \<le> b \<and> b \<le> 2))) \<and>
      (list_all (\<lambda>c. LocalBalanceSats c < m \<and> m \<le> CapacitySats c) cs \<longrightarrow>
        \<not> OK res \<and> sr_Error res = ''INSUFFICIENT_STAKE: need '' @ dec m @ '' sats, found none qualifying'')"
  proof (cases "best_channel m cs")
    case None
    then show ?thesis using assms cs best_channel_None [of m cs] by (auto simp: VerifyStake_def)
  next
    case (Some b)
    note b = best_channel_Some [OF Some]
    have "\<exists>x. computeBonus (LocalBalanceSats b) m = Fin x \<and> 1 \<le> x \<and> x \<le> 2"
      using cs(2) b TierMinimums_pos [OF assms] by (intro computeBonus_range) auto
    moreover have "\<not> list_all (\<lambda>c. LocalBalanceSats c < m \<and> m \<le> CapacitySats c) cs" using b by (force simp: list_all_iff)
    ultimately show ?thesis using b Some assms cs(1) by (auto simp: VerifyStake_def)
  qed
qed (use assms in \<open>simp add: VerifyStake_def\<close>)

theorem verify_stake_correct_witness:
  "\<exists>res. fst (VerifyStake (Some (demo_ln [demo_channel ''a'' 99999, demo_channel ''b'' 250000])) demo_pk ''t1'' (empty_world 0)) = Inr res
     \<and> OK res"
proof -
  let ?cs = "[demo_channel ''a'' 99999, demo_channel ''b'' 250000]"
  have t: "TierMinimums ''t1'' = Some 100000" by (simp add: TierMinimums_def)
  have i: "\<forall>c\<in>set ?cs. in_int64 (LocalBalanceSats c)" by (simp add: demo_channel_def in_int_def)
  from verify_stake_correct [OF t, of "demo_ln ?cs" demo_pk "empty_world 0"] i show ?thesis
    unfolding demo_ln_simps(1) by (auto simp: demo_channel_def)
qed

text \<open>
  The stake bonus. For every 64-bit stake and positive minimum the bonus is a finite
  number between 1 and 2 in spite of rounding and of the subtraction's width; it is 1 up to
  the minimum, and a larger stake never has a smaller bonus.
\<close>

theorem bonus_bounded_and_monotone:
  assumes "in_int64 s" "in_int64 s'" "in_int64 m" "0 < m" "s \<le> s'"
  shows "(\<exists>b. computeBonus s m = Fin b \<and> 1 \<le> b \<and> b \<le> 2) \<and>
    flt_le (computeBonus s m) (computeBonus s' m) \<and> (s \<le> m \<longrightarrow> computeBonus s m = Fin 1)"
  using computeBonus_range [OF assms(1,3,4)] computeBonus_mono [OF assms]
  by (simp add: computeBonus_def)

theorem bonus_bounded_and_monotone_witness:
  "(\<exists>b. computeBonus 150000 100000 = Fin b \<and> 1 \<le> b \<and> b \<le> 2) \<and>
   flt_le (computeBonus 150000 100000) (computeBonus 9000000000000000000 100000)"
  using bonus_bounded_and_monotone [of 150000 9000000000000000000 100000] by (simp add: in_int_def)

text \<open>
  C32 (re-verification). With a working database and a Lightning client, the periodic re-verification
  moves exactly those nodes from active to degraded that have a stake record, whose channels could be
  listed and all of whose channels have a local balance below the tier's minimum, whatever their
  capacity; every other row, that of a node whose channels could not be listed included, is left
  as it was.
\<close>

theorem reverification_degrades_exactly_underfunded:
  assumes "healthy w" "nodes_ok (w_nodes w)"
  shows "w_nodes (snd (VerifyAllActive E (Some lnc) w)) =
    map (\<lambda>n. if Status n = ''active'' \<and> lookup st_node (NodeID n) (w_stakes w) \<noteq> None \<and> underfunded lnc n
             then n\<lparr>Status := ''degraded''\<rparr> else n) (w_nodes w)"
  using assms VerifyAllActive_nodes by (simp add: nodes_ok_def)

theorem reverification_degrades_exactly_underfunded_witness:
  "w_nodes (snd (VerifyAllActive demo_ext (Some (demo_ln [demo_channel ''a'' 99999])) (demo_staked ''t1'' ''active'' []))) =
     [demo_node ''t1''\<lparr>Status := ''degraded''\<rparr>]"
proof -
  have "nodes_ok (w_nodes (demo_staked ''t1'' ''active'' []))"
    by (simp add: nodes_ok_def keyed_def node_ok_def tiers_def node_statuses_def unit_flt_def)
  from reverification_degrades_exactly_underfunded [OF demo_staked_simps(7) this,
      of demo_ext "demo_ln [demo_channel ''a'' 99999]"]
  show ?thesis by (simp add: underfunded_def TierMinimums_def demo_channel_def)
qed



text \<open>
  C30 (the signal that slashes). With a working database, for a node in the table without open
  signals: signals about a node of tier 2 or 3 are only recorded. Signals about a tier 1 node are
  only recorded while no more than the configured number of them are open, and the signal after the
  configured number slashes, not the one that reaches it: the count the statement returns does not
  include the row it inserts.
\<close>

theorem slash_threshold:
  assumes "healthy w" "lookup NodeID nid (w_nodes w) \<noteq> None" "open_signals nid w = 0"
    and "tier = ''t1'' \<longrightarrow> int (length sigs) = T1AutoSlashSignals cfg"
  shows "w_nodes (signals cfg lnSlash nid tier sigs w) = w_nodes w \<and>
    open_signals nid (signals cfg lnSlash nid tier sigs w) = length sigs \<and>
    (tier = ''t1'' \<longrightarrow>
       RecordMisbehaviorSignal cfg lnSlash ev nid tier ty evid (signals cfg lnSlash nid tier sigs w) =
       Slash cfg lnSlash ev nid tier ty evid (int (length sigs))
         ((signals cfg lnSlash nid tier sigs w)\<lparr>w_signals := sql_insert
            \<lparr>sg_node = nid, sg_type = ty, sg_evidence = evid, sg_event = None\<rparr>
            (w_signals (signals cfg lnSlash nid tier sigs w))\<rparr>))"
proof -
  have eq: "signals cfg lnSlash nid tier sigs w = w\<lparr>w_signals := w_signals w @
      map (\<lambda>(ev, ty, evid). \<lparr>sg_node = nid, sg_type = ty, sg_evidence = evid, sg_event = None\<rparr>) sigs\<rparr>"
    using assms by (intro signals_below) auto
  then have cnt: "open_signals nid (signals cfg lnSlash nid tier sigs w) = length sigs"
    using assms(3) by (simp add: sql_count_def o_def case_prod_beta)
  have h: "healthy (signals cfg lnSlash nid tier sigs w)"
    "lookup NodeID nid (w_nodes (signals cfg lnSlash nid tier sigs w)) \<noteq> None"
    using eq assms(1,2) by (simp_all add: healthy_def)
  show ?thesis using eq cnt assms(4) RecordMisbehaviorSignal_reached [OF h] by auto
qed

theorem slash_threshold_witness:
  "w_nodes (signals \<lparr>T1AutoSlashSignals = 1, T2T3MaintainerAcks = 2, CooldownDuration = Hour\<rparr> None 7 ''t1''
      [(1, ''x'', ''y'')] (demo_staked ''t1'' ''active'' [])) = [demo_node ''t1''\<lparr>Status := ''active''\<rparr>]"
  using slash_threshold [of "demo_staked ''t1'' ''active'' []" 7 "''t1''" "[(1, ''x'', ''y'')]"
      "\<lparr>T1AutoSlashSignals = 1, T2T3MaintainerAcks = 2, CooldownDuration = Hour\<rparr>" None]
  by (simp add: sql_count_def)

text \<open>
  Slashing bypasses the gauge. Slashing an active node leaves the gauge
  \<open>owm_nodes_total\<close> as it was, so that it then counts one active node too many and one
  suspended node too few of that tier.
\<close>

theorem slash_drifts_gauge:
  assumes "healthy w" "nodes_ok (w_nodes w)" "lookup st_node nid (w_stakes w) = Some st"
    and "lookup NodeID nid (w_nodes w) = Some n" "lookup sl_id ev (w_slashings w) = None" "in_int32 k"
    and "ForceCloseChan lnc (st_channel_id st) = Inr ()" "Status n = ''active''"
  shows "gauge_drift (snd (Slash cfg (Some lnc) ev nid (Tier n) reason evid k w)) (Tier n) ''active'' =
      gauge_drift w (Tier n) ''active'' + 1 \<and>
    gauge_drift (snd (Slash cfg (Some lnc) ev nid (Tier n) reason evid k w)) (Tier n) ''suspended'' =
      gauge_drift w (Tier n) ''suspended'' - 1"
proof -
  have nn: "lookup NodeID nid (w_nodes w) \<noteq> None" using assms(4) by simp
  note eq = Slash_healthy [OF assms(1,3,7) nn assms(5,6), of cfg "Tier n" reason evid]
  have n: "n \<in> set (w_nodes w)" "nid = NodeID n" using lookup_Some [OF assms(4)] by auto
  have k: "keyed NodeID (w_nodes w)" using assms(2) by (simp add: nodes_ok_def)
  show ?thesis unfolding eq using assms(8)
    by (simp add: gauge_drift_def nodes_with_def n(2) sql_count_update_key [OF k n(1)])
qed

theorem slash_drifts_gauge_witness:
  "gauge_drift (snd (Slash \<lparr>T1AutoSlashSignals = 3, T2T3MaintainerAcks = 2, CooldownDuration = Hour\<rparr>
     (Some (demo_ln [])) 1 7 ''t1'' ''x'' ''y'' 3 (demo_staked ''t1'' ''active'' []))) ''t1'' ''suspended'' = -1"
proof -
  let ?w = "demo_staked ''t1'' ''active'' []" and ?n = "demo_node ''t1''\<lparr>Status := ''active''\<rparr>"
  have h: "healthy ?w" "nodes_ok (w_nodes ?w)" "lookup st_node 7 (w_stakes ?w) = Some (demo_stake ''c1'')"
    "lookup NodeID 7 (w_nodes ?w) = Some ?n" "lookup sl_id 1 (w_slashings ?w) = None" "in_int32 3"
    "ForceCloseChan (demo_ln []) (st_channel_id (demo_stake ''c1'')) = Inr ()" "Status ?n = ''active''"
    by (simp_all add: nodes_ok_def keyed_def node_ok_def tiers_def node_statuses_def unit_flt_def
        in_int_def lookup_def sql_row_def demo_stake_def)
  from slash_drifts_gauge [OF h, of "\<lparr>T1AutoSlashSignals = 3, T2T3MaintainerAcks = 2, CooldownDuration = Hour\<rparr>" "''x''" "''y''"]
  show ?thesis by (simp add: gauge_drift_def nodes_with_def sql_count_def)
qed

end
