(* ===== verification/Scheduler.thy ===== *)
theory Scheduler
  imports Registry
begin

text \<open>
  \<open>internal/scheduler/scheduler.go\<close>: which node gets a task, what the task earns, and the life
  of a task row. The random numbers that \<open>rng.Float64()\<close> returns and the state of the Redis
  connection are parameters.
\<close>

section \<open>Definitions\<close>

text \<open>The scheduler knows whether there is a Redis client; its random generator is a parameter of the operations.\<close>

record Scheduler =
  sc_rdb :: bool

definition scheduler_New :: "bool \<Rightarrow> Scheduler" where
  "scheduler_New rdb = \<lparr>sc_rdb = rdb\<rparr>"

definition taskMinTier :: "string \<Rightarrow> int" where
  "taskMinTier tt =
     (if tt = ''inference'' then 1 else if tt = ''fl_round'' then 1 else if tt = ''gradient_agg'' then 2
      else if tt = ''data_ingest'' then 2 else if tt = ''audit_repo'' then 1 else if tt = ''embed_data'' then 1
      else 0)"

definition taskWeights :: "string \<Rightarrow> flt" where
  "taskWeights tt =
     (if tt = ''inference'' then Fin 1 else if tt = ''fl_round'' then Fin 3 else if tt = ''gradient_agg'' then Fin 5
      else if tt = ''data_ingest'' then Fin 2 else if tt = ''audit_repo'' then Fin (3 / 2)
      else if tt = ''embed_data'' then Fin 1 else Fin 0)"

definition task_types :: "string list" where
  "task_types = [''inference'', ''fl_round'', ''gradient_agg'', ''data_ingest'', ''audit_repo'', ''embed_data'']"

definition baseRateSats :: int where "baseRateSats = 10"

definition tierNums :: "string \<Rightarrow> int" where
  "tierNums t = (if t = ''t1'' then 1 else if t = ''t2'' then 2 else if t = ''t3'' then 3 else 0)"

definition tierMult :: "string \<Rightarrow> flt" where
  "tierMult t = (if t = ''t1'' then Fin 1 else if t = ''t2'' then Fin (5 / 2) else if t = ''t3'' then Fin 8 else Fin 0)"

definition supportsTaskType :: "string list \<Rightarrow> string \<Rightarrow> bool" where
  "supportsTaskType supported taskType \<longleftrightarrow> supported = [] \<or> list_ex (\<lambda>tt. tt = taskType) supported"

definition filterEligible :: "node list \<Rightarrow> string \<Rightarrow> int \<Rightarrow> node list" where
  "filterEligible nodes taskType minTierNum =
     filter (\<lambda>n. \<not> tierNums (Tier n) < minTierNum \<and> supportsTaskType (SupportedTaskTypes n) taskType) nodes"

text \<open>The score of a node for one random number, and the loop that keeps the best so far.\<close>

definition jitter :: "flt \<Rightarrow> flt" where
  "jitter u = add64 (f64 (95 / 100)) (mul64 u (f64 (1 / 10)))"

definition score :: "node \<Rightarrow> flt \<Rightarrow> flt" where
  "score n u = mul64 (mul64 (Reliability n) (tierMult (Tier n))) (jitter u)"

fun select_loop :: "(nat \<Rightarrow> flt) \<Rightarrow> nat \<Rightarrow> node \<Rightarrow> flt \<Rightarrow> node list \<Rightarrow> node" where
  "select_loop rng i best bestScore [] = best"
| "select_loop rng i best bestScore (n # ns) =
     (let s = score n (rng i) in
      if flt_lt bestScore s then select_loop rng (Suc i) n s ns
      else select_loop rng (Suc i) best bestScore ns)"

text \<open>The source indexes \<open>nodes[0]\<close>, which panics on an empty slice; \<open>None\<close> is that panic.\<close>

definition selectNode :: "(nat \<Rightarrow> flt) \<Rightarrow> node list \<Rightarrow> node option" where
  "selectNode rng nodes = (case nodes of [] \<Rightarrow> None | n # _ \<Rightarrow> Some (select_loop rng 0 n (Fin (- 1)) nodes))"

definition reward_of :: "string \<Rightarrow> string \<Rightarrow> flt \<Rightarrow> int" where
  "reward_of tier taskType bonusMult =
     flt_to_int64 (mul64 (mul64 (mul64 (float64 baseRateSats) (tierMult tier)) (taskWeights taskType)) bonusMult)"

definition computeReward :: "node \<Rightarrow> string \<Rightarrow> world \<Rightarrow> int \<times> world" where
  "computeReward nd taskType w =
     (case db_query_row (\<lambda>w. map_option st_bonus (lookup st_node (NodeID nd) (w_stakes w))) w of
       (r, w) \<Rightarrow> (reward_of (Tier nd) taskType (case r of Inl _ \<Rightarrow> Fin 1 | Inr b \<Rightarrow> b), w))"

text \<open>
  \<open>redis\<close> is \<open>None\<close> for a nil client, and otherwise tells whether the publication succeeds; a
  failure to publish is only logged.
\<close>

definition assignment_row :: "Assignment \<Rightarrow> string \<Rightarrow> int \<Rightarrow> task_row" where
  "assignment_row a inputHash now =
     \<lparr>tk_id = a_TaskID a, tk_type = a_TaskType a, tk_assigned = Some (a_NodeID a), tk_ln_uri = Some (a_NodeLNURI a),
      tk_status = ''running'', tk_input_hash = inputHash, tk_output_hash = None, tk_reward = a_RewardSats a,
      tk_payment_status = ''pending'', tk_preimage = None, tk_submitted = now, tk_started = Some now,
      tk_completed = None, tk_timeout = a_TimeoutSecs a, tk_receipt_id = None\<rparr>"

definition insert_task :: "Assignment \<Rightarrow> string \<Rightarrow> world \<Rightarrow> unit result \<times> world" where
  "insert_task a inputHash = db_call (\<lambda>w.
     if lookup tk_id (a_TaskID a) (w_tasks w) \<noteq> None \<or> lookup NodeID (a_NodeID a) (w_nodes w) = None \<or>
        \<not> in_int32 (a_RewardSats a) \<or> \<not> in_int32 (a_TimeoutSecs a) then (Inl DbFailure, w)
     else (Inr (), w\<lparr>w_tasks := sql_insert (assignment_row a inputHash (w_now w)) (w_tasks w)\<rparr>))"

definition publish :: "string \<Rightarrow> string \<Rightarrow> world \<Rightarrow> world" where
  "publish ch payload w = w\<lparr>w_published := w_published w @ [(ch, payload)]\<rparr>"

definition persistAssignment :: "ext \<Rightarrow> bool option \<Rightarrow> Assignment \<Rightarrow> string \<Rightarrow> world \<Rightarrow> unit result \<times> world" where
  "persistAssignment E redis a inputHash w =
     (case insert_task a inputHash w of
       (Inl e, w) \<Rightarrow> (Inl e, w)
     | (Inr _, w) \<Rightarrow>
         let w = counter_inc ''owm_tasks_total'' [a_TaskType a, ''running''] w in
         (Inr (), if redis = Some True
                  then publish (''owm:tasks:'' @ uuid_String E (a_NodeID a)) (json_Assignment E a) w else w))"

text \<open>
  \<open>Schedule\<close>, over the registry operation it calls. \<open>fresh\<close> is the value of \<open>uuid.New()\<close>.
\<close>

definition schedule_over :: "(world \<Rightarrow> node list result \<times> world) \<Rightarrow> ext \<Rightarrow> (nat \<Rightarrow> flt) \<Rightarrow> bool option \<Rightarrow> uuid \<Rightarrow>
    string \<Rightarrow> string \<Rightarrow> int \<Rightarrow> world \<Rightarrow> Assignment result \<times> world" where
  "schedule_over list_active E rng redis fresh taskType inputHash timeoutSecs w =
     (case list_active w of
       (Inl e, w) \<Rightarrow> (Inl (Wrap ''listing active nodes'' e), w)
     | (Inr nodes, w) \<Rightarrow>
       (case selectNode rng (filterEligible nodes taskType (taskMinTier taskType)) of
         None \<Rightarrow> (Inl (Err (''no eligible nodes for task type '' @ taskType)), w)
       | Some nd \<Rightarrow>
         (case computeReward nd taskType w of (rewardSats, w) \<Rightarrow>
          let a = \<lparr>a_TaskID = fresh, a_NodeID = NodeID nd, a_NodeLNURI = LNNodeURI nd, a_TaskType = taskType,
                   a_RewardSats = rewardSats, a_TimeoutSecs = timeoutSecs, a_AssignedAt = w_now w\<rparr>
          in (case persistAssignment E redis a inputHash w of
               (Inl e, w) \<Rightarrow> (Inl (Wrap ''persisting assignment'' e), w)
             | (Inr _, w) \<Rightarrow> (Inr a, w)))))"

definition Schedule :: "ext \<Rightarrow> (nat \<Rightarrow> flt) \<Rightarrow> bool option \<Rightarrow> uuid \<Rightarrow> string \<Rightarrow> string \<Rightarrow> int \<Rightarrow>
    world \<Rightarrow> Assignment result \<times> world" where
  "Schedule = schedule_over ListActive"

definition task_type_of :: "uuid \<Rightarrow> world \<Rightarrow> string \<times> world" where
  "task_type_of taskID w =
     (case db_query_row (\<lambda>w. map_option tk_type (lookup tk_id taskID (w_tasks w))) w of
       (Inl _, w) \<Rightarrow> ([], w) | (Inr tt, w) \<Rightarrow> (tt, w))"

definition MarkComplete :: "uuid \<Rightarrow> string \<Rightarrow> world \<Rightarrow> unit result \<times> world" where
  "MarkComplete taskID outputHash w = (case task_type_of taskID w of (taskType, w) \<Rightarrow>
     (case db_exec (\<lambda>w. w\<lparr>w_tasks := sql_update (\<lambda>t. tk_id t = taskID)
         (\<lambda>t. t\<lparr>tk_status := ''completed'', tk_output_hash := Some outputHash, tk_completed := Some (w_now w)\<rparr>)
         (w_tasks w)\<rparr>) w of
       (Inl e, w) \<Rightarrow> (Inl e, w)
     | (Inr _, w) \<Rightarrow> (Inr (), if taskType \<noteq> [] then counter_inc ''owm_tasks_total'' [taskType, ''completed''] w else w)))"

definition MarkFailed :: "ext \<Rightarrow> uuid \<Rightarrow> uuid \<Rightarrow> world \<Rightarrow> unit result \<times> world" where
  "MarkFailed E taskID nodeID w = (case task_type_of taskID w of (taskType, w) \<Rightarrow>
     (case db_exec (\<lambda>w. w\<lparr>w_tasks := sql_update (\<lambda>t. tk_id t = taskID)
         (\<lambda>t. t\<lparr>tk_status := ''failed'', tk_completed := Some (w_now w)\<rparr>) (w_tasks w)\<rparr>) w of
       (Inl e, w) \<Rightarrow> (Inl e, w)
     | (Inr _, w) \<Rightarrow>
         UpdateReliability E nodeID False
           (if taskType \<noteq> [] then counter_inc ''owm_tasks_total'' [taskType, ''failed''] w else w)))"

definition timed_out :: "int \<Rightarrow> task_row \<Rightarrow> bool" where
  "timed_out now t \<longleftrightarrow> tk_status t = ''running'' \<and>
     (case tk_started t of None \<Rightarrow> False | Some s \<Rightarrow> s + tk_timeout t * Second < now)"

definition requeue :: "task_row \<Rightarrow> task_row" where
  "requeue t = t\<lparr>tk_status := ''pending'', tk_assigned := None, tk_started := None\<rparr>"

definition RequeueTimedOut :: "world \<Rightarrow> nat result \<times> world" where
  "RequeueTimedOut = db_call (\<lambda>w.
     (Inr (sql_count (timed_out (w_now w)) (w_tasks w)),
      w\<lparr>w_tasks := sql_update (timed_out (w_now w)) requeue (w_tasks w)\<rparr>))"

section \<open>The node source\<close>

text \<open>
  What the scheduler relies on of the registry: the list holds only active rows of the table,
  all of them when the database answers, and listing changes nothing.
\<close>

locale node_source =
  fixes list_active :: "world \<Rightarrow> node list result \<times> world"
  assumes list_world: "list_active w = (r, w') \<Longrightarrow> w' = w \<or> w' = db_tick w"
    and list_sound: "list_active w = (Inr ns, w') \<Longrightarrow> n \<in> set ns \<Longrightarrow> n \<in> set (w_nodes w) \<and> Status n = ''active''"
    and list_healthy: "healthy w \<Longrightarrow> \<exists>ns. list_active w = (Inr ns, w) \<and>
      {n \<in> set (w_nodes w). Status n = ''active''} \<subseteq> set ns"

definition eligible :: "string \<Rightarrow> node \<Rightarrow> bool" where
  "eligible tt n \<longleftrightarrow> taskMinTier tt \<le> tierNums (Tier n) \<and> supportsTaskType (SupportedTaskTypes n) tt"

lemma set_filterEligible: "set (filterEligible ns tt (taskMinTier tt)) = {n \<in> set ns. eligible tt n}"
  by (auto simp: filterEligible_def eligible_def not_less)

lemma select_loop_in: "select_loop rng i best s ns \<in> insert best (set ns)"
proof (induction ns arbitrary: i best s)
  case (Cons n ns)
  from Cons [of "Suc i" n "score n (rng i)"] Cons [of "Suc i" best s] show ?case by (auto simp: Let_def)
qed simp

lemma selectNode_in: "selectNode rng ns = Some n \<Longrightarrow> n \<in> set ns"
  using select_loop_in [of rng 0 "hd ns" "Fin (- 1)" ns]
  by (auto simp: selectNode_def split: list.splits)

lemma selectNode_None [simp]: "selectNode rng ns = None \<longleftrightarrow> ns = []"
  by (simp add: selectNode_def split: list.splits)

lemma computeReward_world: "computeReward nd tt w = (k, w') \<Longrightarrow> w' = w \<or> w' = db_tick w"
  by (auto simp: computeReward_def db_call_def split: prod.splits option.splits if_splits)

lemma insert_task_ok:
  assumes "insert_task a ih w = (Inr u, w')"
  shows "w' = (db_tick w)\<lparr>w_tasks := sql_insert (assignment_row a ih (w_now w)) (w_tasks w)\<rparr> \<and>
    lookup tk_id (a_TaskID a) (w_tasks w) = None \<and> in_int32 (a_RewardSats a)"
  using assms by (auto simp: insert_task_def db_call_def split: if_splits)

lemma insert_task_fail: "insert_task a ih w = (Inl e, w') \<Longrightarrow> w' = db_tick w"
  by (auto simp: insert_task_def db_call_def split: if_splits)

lemma publish_frame [simp, frame_simps]:
  "w_nodes (publish c p w) = w_nodes w" "w_tasks (publish c p w) = w_tasks w" "w_stakes (publish c p w) = w_stakes w"
  "w_gauge (publish c p w) = w_gauge w" "w_now (publish c p w) = w_now w" "w_faults (publish c p w) = w_faults w"
  "w_rounds (publish c p w) = w_rounds w" "w_participants (publish c p w) = w_participants w"
  "w_stamps (publish c p w) = w_stamps w" "w_receipts (publish c p w) = w_receipts w" "w_queue (publish c p w) = w_queue w" "w_sent (publish c p w) = w_sent w" "w_s3 (publish c p w) = w_s3 w"
  "w_next_round (publish c p w) = w_next_round w" "w_heartbeats (publish c p w) = w_heartbeats w"
  "w_slashings (publish c p w) = w_slashings w" "w_signals (publish c p w) = w_signals w"
  "w_paid_sats (publish c p w) = w_paid_sats w" "w_counters (publish c p w) = w_counters w"
  "w_published (publish c p w) = w_published w @ [(c, p)]"
  by (simp_all add: publish_def)

lemma persistAssignment_ok:
  assumes "persistAssignment E redis a ih w = (Inr u, w')"
  shows "w_tasks w' = sql_insert (assignment_row a ih (w_now w)) (w_tasks w) \<and> w_nodes w' = w_nodes w \<and>
    w_published w' = w_published w @ (if redis = Some True then
      [(''owm:tasks:'' @ uuid_String E (a_NodeID a), json_Assignment E a)] else []) \<and>
    lookup tk_id (a_TaskID a) (w_tasks w) = None \<and> in_int32 (a_RewardSats a)"
  using assms by (auto simp: persistAssignment_def Let_def split: prod.splits sum.splits dest!: insert_task_ok)

context node_source
begin

lemma over_sound:
  assumes "schedule_over list_active E rng redis fresh tt ih tmo w = (Inr a, w')"
  obtains n where "n \<in> set (w_nodes w)" "Status n = ''active''" "eligible tt n"
    "a_NodeID a = NodeID n" "a_NodeLNURI a = LNNodeURI n" "a_TaskID a = fresh" "a_TaskType a = tt"
    "a_TimeoutSecs a = tmo" "lookup tk_id fresh (w_tasks w) = None" "in_int32 (a_RewardSats a)"
    "w_tasks w' = sql_insert (assignment_row a ih (w_now w)) (w_tasks w)" "w_nodes w' = w_nodes w"
    "w_published w' = w_published w @ (if redis = Some True then
       [(''owm:tasks:'' @ uuid_String E (NodeID n), json_Assignment E a)] else [])"
    "healthy w \<Longrightarrow> a_RewardSats a = reward_of (Tier n) tt
       (case lookup st_node (NodeID n) (w_stakes w) of None \<Rightarrow> Fin 1 | Some s \<Rightarrow> st_bonus s)"
proof -
  obtain ns w1 n k w2 where l: "list_active w = (Inr ns, w1)"
    and n: "selectNode rng (filterEligible ns tt (taskMinTier tt)) = Some n"
    and k: "computeReward n tt w1 = (k, w2)"
    and a: "a = \<lparr>a_TaskID = fresh, a_NodeID = NodeID n, a_NodeLNURI = LNNodeURI n, a_TaskType = tt,
                   a_RewardSats = k, a_TimeoutSecs = tmo, a_AssignedAt = w_now w2\<rparr>"
    and p: "persistAssignment E redis a ih w2 = (Inr (), w')"
    using assms by (auto simp: schedule_over_def Let_def split: prod.splits sum.splits option.splits)
  have w: "w1 = w \<or> w1 = db_tick w" "w2 = w1 \<or> w2 = db_tick w1"
    using list_world [OF l] computeReward_world [OF k] by auto
  then have fr: "w_tasks w2 = w_tasks w" "w_nodes w2 = w_nodes w" "w_now w2 = w_now w" "w_published w2 = w_published w"
    by auto
  have n': "n \<in> set ns" "eligible tt n" using selectNode_in [OF n] by (auto simp: set_filterEligible)
  have rew: "a_RewardSats a = reward_of (Tier n) tt
       (case lookup st_node (NodeID n) (w_stakes w) of None \<Rightarrow> Fin 1 | Some s \<Rightarrow> st_bonus s)" if "healthy w"
  proof -
    have "w1 = w" using w(1) db_tick_healthy [OF that] by auto
    then show ?thesis using k a by (auto simp: computeReward_def db_call_healthy [OF that] split: option.splits)
  qed
  show thesis
    using persistAssignment_ok [OF p] list_sound [OF l n'(1)] n'(2) a fr rew
    by (intro that [of n]) simp_all
qed

lemma over_refuses:
  assumes "healthy w" "\<And>n. n \<in> set (w_nodes w) \<Longrightarrow> Status n = ''active'' \<Longrightarrow> \<not> eligible tt n"
  shows "schedule_over list_active E rng redis fresh tt ih tmo w =
    (Inl (Err (''no eligible nodes for task type '' @ tt)), w)"
proof -
  obtain ns where l: "list_active w = (Inr ns, w)" using list_healthy [OF assms(1)] by blast
  then have "set (filterEligible ns tt (taskMinTier tt)) = {}"
    using assms(2) list_sound [OF l] by (auto simp: set_filterEligible)
  then have "filterEligible ns tt (taskMinTier tt) = []" by simp
  then show ?thesis using l by (simp add: schedule_over_def selectNode_def)
qed

lemma schedule_fails:
  assumes "schedule_over list_active E rng redis fresh tt ih tmo w = (Inl e, w')"
  shows "w_tasks w' = w_tasks w \<and> w_nodes w' = w_nodes w \<and> w_published w' = w_published w"
proof -
  obtain r w1 where l: "list_active w = (r, w1)" by fastforce
  then have w1: "w1 = w \<or> w1 = db_tick w" by (rule list_world)
  show ?thesis
  proof (cases "\<exists>ns n. r = Inr ns \<and> selectNode rng (filterEligible ns tt (taskMinTier tt)) = Some n")
    case True
    then obtain ns n k w2 where n: "r = Inr ns" "selectNode rng (filterEligible ns tt (taskMinTier tt)) = Some n"
      and k: "computeReward n tt w1 = (k, w2)" by fastforce
    have w2: "w2 = w1 \<or> w2 = db_tick w1" by (rule computeReward_world [OF k])
    show ?thesis using assms l n k w1 w2
      by (auto simp: schedule_over_def persistAssignment_def Let_def split: prod.splits sum.splits dest!: insert_task_fail)
  next
    case False
    then show ?thesis using assms l w1
      by (cases r) (auto simp: schedule_over_def simp del: selectNode_None split: option.splits)
  qed
qed

lemma schedule_keeps_tasks_ok:
  assumes "tasks_ok (w_tasks w)"
  shows "tasks_ok (w_tasks (snd (schedule_over list_active E rng redis fresh tt ih tmo w)))"
proof -
  obtain r w' where s: "schedule_over list_active E rng redis fresh tt ih tmo w = (r, w')" by fastforce
  show ?thesis
  proof (cases r)
    case (Inl e)
    with s schedule_fails show ?thesis using assms by simp
  next
    case (Inr a)
    from s [unfolded Inr] have "w_tasks w' = sql_insert (assignment_row a ih (w_now w)) (w_tasks w)"
      "lookup tk_id (a_TaskID a) (w_tasks w) = None" "in_int32 (a_RewardSats a)"
      by (auto elim!: over_sound)
    with s assms show ?thesis
      by (auto simp: tasks_ok_def task_ok_def assignment_row_def task_statuses_def payment_statuses_def sql_insert_def
          keyed_insert [unfolded sql_insert_def])
  qed
qed

lemma schedule_nodes: "w_nodes (snd (schedule_over list_active E rng redis fresh tt ih tmo w)) = w_nodes w"
proof -
  obtain r w' where s: "schedule_over list_active E rng redis fresh tt ih tmo w = (r, w')" by fastforce
  then show ?thesis by (cases r) (auto dest: schedule_fails elim!: over_sound)
qed

end

lemma set_insert_desc: "set (insert_desc n ns) = insert n (set ns)"
  by (induction ns) auto

lemma set_order_by_reliability: "set (order_by_reliability ns) = set ns"
  by (induction ns rule: rev_induct) (auto simp: order_by_reliability_def set_insert_desc)

interpretation registry: node_source ListActive
proof
  fix w ns w' n
  show "w' = w \<or> w' = db_tick w" if "ListActive w = (r, w')" for r
    using that by (auto simp: ListActive_def db_call_def split: if_splits)
  show "n \<in> set (w_nodes w) \<and> Status n = ''active''" if "ListActive w = (Inr ns, w')" "n \<in> set ns"
    using that by (auto simp: ListActive_def db_call_def set_order_by_reliability sql_select_def split: if_splits)
  show "\<exists>ns. ListActive w = (Inr ns, w) \<and> {n \<in> set (w_nodes w). Status n = ''active''} \<subseteq> set ns" if "healthy w"
    by (auto simp: ListActive_def db_call_healthy [OF that] set_order_by_reliability sql_select_def)
qed

section \<open>The choice\<close>

lemma flt_le_trans: "flt_le a b \<Longrightarrow> flt_le b c \<Longrightarrow> flt_le a c"
  by (auto simp: flt_le_def dest: flt_lt_trans)

text \<open>The source's random numbers are finite and lie in \<open>[0, 1)\<close>.\<close>

definition unit_draws :: "(nat \<Rightarrow> flt) \<Rightarrow> bool" where
  "unit_draws rng \<longleftrightarrow> (\<forall>i. \<exists>x. rng i = Fin x \<and> 0 \<le> x \<and> x < 1)"

abbreviation jitter_min :: real where "jitter_min \<equiv> r64 (95 / 100)"
abbreviation jitter_max :: real where "jitter_max \<equiv> r64 (r64 (95 / 100) + r64 (1 / 10))"

text \<open>Tier multipliers and task weights are halves of small whole numbers.\<close>

lemma tierMult_half: "\<exists>k. tierMult t = Fin (of_int k / 2) \<and> 0 \<le> k \<and> k \<le> 16"
  by (auto simp: tierMult_def intro: exI [of _ 2] exI [of _ 5] exI [of _ 16] exI [of _ 0])

lemma taskWeights_half: "\<exists>k. taskWeights t = Fin (of_int k / 2) \<and> 0 \<le> k \<and> k \<le> 10"
  by (auto simp: taskWeights_def intro: exI [of _ 2] exI [of _ 6] exI [of _ 10] exI [of _ 4] exI [of _ 3] exI [of _ 0])

lemma r64_half_int: "\<bar>k\<bar> \<le> 2 ^ 53 \<Longrightarrow> r64 (of_int k / 2) = of_int k / 2"
  by (intro f64.exact representable_half_int) (simp_all add: binary64_def)

lemma jitter_value:
  assumes "0 \<le> x" "x < 1"
  shows "\<exists>j. jitter (Fin x) = Fin j \<and> jitter_min \<le> j \<and> j \<le> jitter_max \<and> 0 \<le> j \<and> j \<le> 2"
proof -
  have b: "0 \<le> r64 (95 / 100)" "r64 (95 / 100) \<le> 1" "0 \<le> r64 (1 / 10)" "r64 (1 / 10) \<le> 1"
    using f64.unit [of "95 / 100"] f64.unit [of "1 / 10"] by simp_all
  have x: "x * r64 (1 / 10) \<le> r64 (1 / 10)" "0 \<le> x * r64 (1 / 10)"
    using assms b mult_right_mono [of x 1 "r64 (1 / 10)"] by auto
  then have m: "0 \<le> r64 (x * r64 (1 / 10))" "r64 (x * r64 (1 / 10)) \<le> r64 (1 / 10)"
    using f64.mono [OF x(1)] by (auto intro: f64.nonneg)
  have j: "jitter (Fin x) = Fin (r64 (r64 (95 / 100) + r64 (x * r64 (1 / 10))))"
    using b x m by (simp add: jitter_def small_f64 small_fround small_def)
  have "jitter_min \<le> r64 (r64 (95 / 100) + r64 (x * r64 (1 / 10)))"
    using m f64.mono [of "r64 (95 / 100)" "r64 (95 / 100) + r64 (x * r64 (1 / 10))"] by simp
  moreover have "r64 (r64 (95 / 100) + r64 (x * r64 (1 / 10))) \<le> jitter_max"
    "0 \<le> r64 (r64 (95 / 100) + r64 (x * r64 (1 / 10)))"
    using m b by (auto intro!: f64.mono f64.nonneg)
  moreover have "r64 (r64 (95 / 100) + r64 (x * r64 (1 / 10))) \<le> 2"
    using f64.mono [of "r64 (95 / 100) + r64 (x * r64 (1 / 10))" 2] m b r64_half_int [of 4] by simp
  ultimately show ?thesis using j by auto
qed

definition base_score :: "node \<Rightarrow> flt" where
  "base_score n = mul64 (Reliability n) (tierMult (Tier n))"

lemma base_score_value:
  assumes "unit_flt (Reliability n)"
  shows "\<exists>b. base_score n = Fin b \<and> 0 \<le> b \<and> b \<le> 8"
proof -
  obtain x where x: "Reliability n = Fin x" "0 \<le> x" "x \<le> 1"
    using assms by (auto simp: unit_flt_def split: flt.splits)
  obtain k where k: "tierMult (Tier n) = Fin (of_int k / 2)" "0 \<le> k" "k \<le> 16" using tierMult_half by blast
  have le: "x * (of_int k / 2) \<le> 8" "0 \<le> x * (of_int k / 2)"
    using x k mult_mono [of x 1 "of_int k / 2" 8] by simp_all
  then have "r64 (x * (of_int k / 2)) \<le> 8" "0 \<le> r64 (x * (of_int k / 2))"
    using f64.mono [OF le(1)] f64.nonneg [OF le(2)] r64_numeral [of "num.Bit0 (num.Bit0 (num.Bit0 num.One))"] by simp_all
  then show ?thesis using x k le by (simp add: base_score_def small_fround small_def)
qed

lemma score_value:
  assumes "unit_flt (Reliability n)" "0 \<le> x" "x < 1"
  shows "\<exists>y. score n (Fin x) = Fin y \<and> 0 \<le> y \<and>
    flt_le (mul64 (base_score n) (Fin jitter_min)) (Fin y) \<and> flt_le (Fin y) (mul64 (base_score n) (Fin jitter_max))"
proof -
  obtain b where b: "base_score n = Fin b" "0 \<le> b" "b \<le> 8" using base_score_value [OF assms(1)] by blast
  obtain j where j: "jitter (Fin x) = Fin j" "jitter_min \<le> j" "j \<le> jitter_max" "0 \<le> j" "j \<le> 2"
    using jitter_value [OF assms(2,3)] by blast
  have jm: "0 \<le> jitter_min" "jitter_min \<le> 1" "0 \<le> jitter_max" "jitter_max \<le> 2"
    using f64.unit [of "95 / 100"] jitter_value [of 0] f64.unit [of "1 / 10"]
      f64.mono [of "r64 (95 / 100) + r64 (1 / 10)" 2] r64_half_int [of 4] by auto
  have sm: "small (b * j)" "small (b * jitter_min)" "small (b * jitter_max)"
    using b j jm mult_mono [of b 8 j 2] mult_mono [of b 8 jitter_min 1] mult_mono [of b 8 jitter_max 2]
    by (auto simp: small_def abs_mult)
  show ?thesis
    using b j jm sm by (auto simp: score_def base_score_def [symmetric] small_fround
        intro!: f64.mono f64.nonneg mult_left_mono)
qed

lemma select_loop_best:
  assumes "\<And>k. k < length ns \<Longrightarrow> \<exists>y. score (ns ! k) (rng (j + k)) = Fin y"
  shows "(select_loop rng j best (Fin s) ns = best \<and>
      (\<forall>k<length ns. flt_le (score (ns ! k) (rng (j + k))) (Fin s))) \<or>
    (\<exists>i<length ns. select_loop rng j best (Fin s) ns = ns ! i \<and> flt_lt (Fin s) (score (ns ! i) (rng (j + i))) \<and>
      (\<forall>k<length ns. flt_le (score (ns ! k) (rng (j + k))) (score (ns ! i) (rng (j + i)))))"
    (is "?P j best s ns")
  using assms
proof (induction ns arbitrary: j best s)
  case (Cons n ns)
  obtain y where y: "score n (rng j) = Fin y" using Cons.prems [of 0] by auto
  have fin: "\<exists>y. score (ns ! k) (rng (Suc j + k)) = Fin y" if "k < length ns" for k
    using Cons.prems [of "Suc k"] that by simp
  show ?case
  proof (cases "s < y")
    case True
    have "?P (Suc j) n y ns" using Cons.IH [of "Suc j" n y] fin by blast
    then show ?thesis
    proof (elim disjE exE conjE)
      assume "select_loop rng (Suc j) n (Fin y) ns = n"
        "\<forall>k<length ns. flt_le (score (ns ! k) (rng (Suc j + k))) (Fin y)"
      then show ?thesis using True y by (intro disjI2 exI [of _ 0]) (auto simp: less_Suc_eq_0_disj Let_def)
    next
      fix i assume i: "i < length ns" "select_loop rng (Suc j) n (Fin y) ns = ns ! i"
        "flt_lt (Fin y) (score (ns ! i) (rng (Suc j + i)))"
        "\<forall>k<length ns. flt_le (score (ns ! k) (rng (Suc j + k))) (score (ns ! i) (rng (Suc j + i)))"
      moreover obtain z where "score (ns ! i) (rng (Suc j + i)) = Fin z" using fin [OF i(1)] by blast
      ultimately show ?thesis using True y
        by (intro disjI2 exI [of _ "Suc i"]) (auto simp: less_Suc_eq_0_disj Let_def)
    qed
  next
    case False
    have "?P (Suc j) best s ns" using Cons.IH [of "Suc j" best s] fin by blast
    then show ?thesis
    proof (elim disjE exE conjE)
      assume "select_loop rng (Suc j) best (Fin s) ns = best"
        "\<forall>k<length ns. flt_le (score (ns ! k) (rng (Suc j + k))) (Fin s)"
      then show ?thesis using False y by (intro disjI1) (auto simp: less_Suc_eq_0_disj Let_def)
    next
      fix i assume i: "i < length ns" "select_loop rng (Suc j) best (Fin s) ns = ns ! i"
        "flt_lt (Fin s) (score (ns ! i) (rng (Suc j + i)))"
        "\<forall>k<length ns. flt_le (score (ns ! k) (rng (Suc j + k))) (score (ns ! i) (rng (Suc j + i)))"
      moreover obtain z where "score (ns ! i) (rng (Suc j + i)) = Fin z" using fin [OF i(1)] by blast
      ultimately show ?thesis using False y
        by (intro disjI2 exI [of _ "Suc i"]) (auto simp: less_Suc_eq_0_disj Let_def)
    qed
  qed
qed simp

lemma selectNode_best:
  assumes "ns \<noteq> []" "\<And>n. n \<in> set ns \<Longrightarrow> unit_flt (Reliability n)" "unit_draws rng"
  shows "\<exists>i<length ns. selectNode rng ns = Some (ns ! i) \<and>
    (\<forall>k<length ns. flt_le (score (ns ! k) (rng k)) (score (ns ! i) (rng i)))"
proof -
  have fin: "\<exists>y\<ge>0. score (ns ! k) (rng k) = Fin y" if "k < length ns" for k
    using score_value [of "ns ! k"] assms(2,3) that unfolding unit_draws_def by (metis nth_mem)
  obtain m ms where ns: "ns = m # ms" using assms(1) by (cases ns) auto
  have "\<not> (\<forall>k<length ns. flt_le (score (ns ! k) (rng (0 + k))) (Fin (- 1)))"
    using fin [of 0] ns by fastforce
  then show ?thesis
    using select_loop_best [of ns rng 0 m "- 1"] fin ns by (auto simp: selectNode_def simp del: select_loop.simps)
qed

section \<open>The reward\<close>

lemma in_int64_800: "0 \<le> x \<Longrightarrow> x \<le> 800 \<Longrightarrow> in_int64 x"
  by (simp add: in_int_def)

lemma reward_of_value:
  assumes "tierMult tier = Fin (of_int k / 2)" "taskWeights tt = Fin (of_int l / 2)"
    and "0 \<le> k" "k \<le> 16" "0 \<le> l" "l \<le> 10" "0 \<le> b" "b \<le> 2"
  shows "reward_of tier tt (Fin b) = \<lfloor>r64 (of_int (5 * k * l) / 2 * b)\<rfloor>"
    and "0 \<le> r64 (of_int (5 * k * l) / 2 * b)" "r64 (of_int (5 * k * l) / 2 * b) \<le> of_int (5 * k * l)"
proof -
  have kl: "0 \<le> k * l" "k * l \<le> 160" using assms mult_mono [of k 16 l 10] by auto
  have rkl: "0 \<le> real_of_int k * real_of_int l" "real_of_int k * real_of_int l \<le> 160"
    using assms(3,5) kl(2) of_int_le_iff [of "k * l" 160, where 'a = real] by simp_all
  have le: "of_int (5 * k * l) / 2 * b \<le> of_int (5 * k * l)" "0 \<le> of_int (5 * k * l) / 2 * b"
    using rkl assms(7,8) mult_left_mono [of b 2 "5 * (real_of_int k * real_of_int l) / 2"] by simp_all
  have ex: "r64 (of_int (5 * k * l)) = of_int (5 * k * l)" using kl by (intro r64_int) simp
  show r: "0 \<le> r64 (of_int (5 * k * l) / 2 * b)" "r64 (of_int (5 * k * l) / 2 * b) \<le> of_int (5 * k * l)"
    using f64.nonneg [OF le(2)] f64.mono [OF le(1)] ex by simp_all
  have a: "mul64 (float64 baseRateSats) (tierMult tier) = Fin (of_int (5 * k))"
    using assms(1,3,4) r64_int [of "5 * k"]
    by (simp add: baseRateSats_def float64_finite in_int_def r64_numeral small_fround small_def)
  have c: "mul64 (Fin (of_int (5 * k))) (taskWeights tt) = Fin (of_int (5 * k * l) / 2)"
    using kl rkl r64_half_int [of "5 * k * l"] assms(2)
    by (simp add: small_fround small_def mult.assoc)
  have d: "mul64 (Fin (of_int (5 * k * l) / 2)) (Fin b) = Fin (r64 (of_int (5 * k * l) / 2 * b))"
  proof -
    have "\<bar>of_int (5 * k * l) / 2 * b\<bar> \<le> 800" using le rkl by (simp add: abs_of_nonneg)
    then show ?thesis by (simp only: flt_mul.simps) (rule small_fround, simp add: small_def)
  qed
  have "\<lfloor>r64 (of_int (5 * k * l) / 2 * b)\<rfloor> \<le> 5 * k * l" "0 \<le> \<lfloor>r64 (of_int (5 * k * l) / 2 * b)\<rfloor>"
    using r by (simp_all add: floor_le_iff)
  then have "in_int64 \<lfloor>r64 (of_int (5 * k * l) / 2 * b)\<rfloor>"
    using kl by (intro in_int64_800) linarith+
  then show "reward_of tier tt (Fin b) = \<lfloor>r64 (of_int (5 * k * l) / 2 * b)\<rfloor>"
    unfolding reward_of_def a c d using r(1) by (simp add: flt_to_int64_def trunc_def)
qed

lemma reward_of_range:
  assumes "0 \<le> b" "b \<le> 2"
  shows "0 \<le> reward_of tier tt (Fin b) \<and> reward_of tier tt (Fin b) \<le> 800"
proof -
  obtain k where k: "tierMult tier = Fin (of_int k / 2)" "0 \<le> k" "k \<le> 16" using tierMult_half by blast
  obtain l where l: "taskWeights tt = Fin (of_int l / 2)" "0 \<le> l" "l \<le> 10" using taskWeights_half by blast
  have kl: "k * l \<le> 160" using k l mult_mono [of k 16 l 10] by auto
  note r = reward_of_value [OF k(1) l(1) k(2,3) l(2,3) assms]
  have "\<lfloor>r64 (of_int (5 * k * l) / 2 * b)\<rfloor> \<le> 5 * k * l" "0 \<le> \<lfloor>r64 (of_int (5 * k * l) / 2 * b)\<rfloor>"
    using r(2,3) by (simp_all add: floor_le_iff)
  then show ?thesis unfolding r(1) using kl by linarith
qed

lemma reward_of_mono:
  assumes "0 \<le> a" "a \<le> b" "b \<le> 2"
  shows "reward_of tier tt (Fin a) \<le> reward_of tier tt (Fin b)"
proof -
  obtain k where k: "tierMult tier = Fin (of_int k / 2)" "0 \<le> k" "k \<le> 16" using tierMult_half by blast
  obtain l where l: "taskWeights tt = Fin (of_int l / 2)" "0 \<le> l" "l \<le> 10" using taskWeights_half by blast
  have kl: "0 \<le> real_of_int (5 * k * l) / 2" using k l by simp
  have "\<lfloor>r64 (of_int (5 * k * l) / 2 * a)\<rfloor> \<le> \<lfloor>r64 (of_int (5 * k * l) / 2 * b)\<rfloor>"
    using kl assms by (intro floor_mono f64.mono mult_left_mono) auto
  then show ?thesis
    using reward_of_value(1) [OF k(1) l(1) k(2,3) l(2,3), of a] reward_of_value(1) [OF k(1) l(1) k(2,3) l(2,3), of b] assms by simp
qed

section \<open>The life of a task\<close>

lemma MarkComplete_tasks_ok [wf_intros]:
  "tasks_ok (w_tasks w) \<Longrightarrow> tasks_ok (w_tasks (snd (MarkComplete tid oh w)))"
  by (auto simp: MarkComplete_def task_type_of_def db_call_def split: world_splits intro!: tasks_ok_update)
    (auto simp: task_ok_def task_statuses_def)

lemma UpdateReliability_tasks [simp]: "w_tasks (snd (UpdateReliability E nid ok w)) = w_tasks w"
  using nodes_only_UpdateReliability [of w E nid ok] by (simp add: nodes_only_iff)

lemma MarkFailed_tasks_ok [wf_intros]:
  "tasks_ok (w_tasks w) \<Longrightarrow> tasks_ok (w_tasks (snd (MarkFailed E tid nid w)))"
  by (auto simp: MarkFailed_def task_type_of_def db_call_def split: world_splits intro!: tasks_ok_update)
    (auto simp: task_ok_def task_statuses_def)

lemma RequeueTimedOut_tasks_ok [wf_intros]:
  "tasks_ok (w_tasks w) \<Longrightarrow> tasks_ok (w_tasks (snd (RequeueTimedOut w)))"
  by (auto simp: RequeueTimedOut_def db_call_def requeue_def split: world_splits intro!: tasks_ok_update)
    (auto simp: task_ok_def task_statuses_def)

lemma Schedule_tasks_ok [wf_intros]:
  "tasks_ok (w_tasks w) \<Longrightarrow> tasks_ok (w_tasks (snd (Schedule E rng redis fresh tt ih tmo w)))"
  unfolding Schedule_def by (rule registry.schedule_keeps_tasks_ok)

lemma Schedule_nodes [simp]: "w_nodes (snd (Schedule E rng redis fresh tt ih tmo w)) = w_nodes w"
  unfolding Schedule_def by (rule registry.schedule_nodes)

lemma MarkComplete_healthy:
  assumes "healthy w"
  shows "fst (MarkComplete tid oh w) = Inr ()"
    and "w_tasks (snd (MarkComplete tid oh w)) = sql_update (\<lambda>t. tk_id t = tid)
      (\<lambda>t. t\<lparr>tk_status := ''completed'', tk_output_hash := Some oh, tk_completed := Some (w_now w)\<rparr>) (w_tasks w)"
  by (auto simp: MarkComplete_def task_type_of_def db_call_healthy [OF assms] split: option.splits)

section \<open>Concrete tasks\<close>

definition demo_active :: "string \<Rightarrow> world" where
  "demo_active t = (empty_world demo_now)\<lparr>w_nodes := [demo_node t\<lparr>Status := ''active''\<rparr>]\<rparr>"

lemma demo_active_simps [simp]: "w_nodes (demo_active t) = [demo_node t\<lparr>Status := ''active''\<rparr>]"
  "w_tasks (demo_active t) = []" "w_stakes (demo_active t) = []" "healthy (demo_active t)" "w_now (demo_active t) = demo_now"
  "w_published (demo_active t) = []"
  by (simp_all add: demo_active_def empty_world_def healthy_def)

lemma demo_Schedule:
  "\<exists>a w'. Schedule demo_ext (\<lambda>_. Fin 0) redis 1 ''inference'' ''h'' 30 (demo_active ''t1'') = (Inr a, w')"
proof -
  have k: "tierMult ''t1'' = Fin (of_int 2 / 2)" "taskWeights ''inference'' = Fin (of_int 2 / 2)"
    by (simp_all add: tierMult_def taskWeights_def)
  have r: "reward_of ''t1'' ''inference'' (Fin 1) = 10"
    using reward_of_value(1) [OF k, of 1] r64_numeral [of "num.Bit0 (num.Bit1 (num.Bit0 num.One))"] by simp
  show ?thesis
    by (auto simp: Schedule_def schedule_over_def ListActive_def db_call_healthy sql_select_def order_by_reliability_def
        filterEligible_def tierNums_def taskMinTier_def supportsTaskType_def selectNode_def Let_def
        computeReward_def lookup_def sql_row_def persistAssignment_def insert_task_def r in_int_def split: if_splits)
qed

section \<open>Properties\<close>

text \<open>
  C21 (scheduling). A task that was scheduled went to an active node of the task type's tier
  that supports it; the task table gained exactly one row, running, assigned to that node,
  under the new identifier and with the reward of the returned assignment, which fits its
  column; the assignment was published on that node's channel when Redis is available; and
  with a working database the reward is the formula's for the node's recorded stake bonus.
\<close>

theorem schedule_sound:
  assumes "Schedule E rng redis fresh tt ih tmo w = (Inr a, w')"
  shows "\<exists>n. n \<in> set (w_nodes w) \<and> Status n = ''active'' \<and> taskMinTier tt \<le> tierNums (Tier n) \<and>
      supportsTaskType (SupportedTaskTypes n) tt \<and> a_NodeID a = NodeID n \<and> a_TaskID a = fresh \<and>
      lookup tk_id fresh (w_tasks w) = None \<and> in_int32 (a_RewardSats a) \<and>
      w_tasks w' = w_tasks w @ [assignment_row a ih (w_now w)] \<and> w_nodes w' = w_nodes w \<and>
      w_published w' = w_published w @ (if redis = Some True then
        [(''owm:tasks:'' @ uuid_String E (NodeID n), json_Assignment E a)] else []) \<and>
      (healthy w \<longrightarrow> a_RewardSats a = reward_of (Tier n) tt
        (case lookup st_node (NodeID n) (w_stakes w) of None \<Rightarrow> Fin 1 | Some s \<Rightarrow> st_bonus s))"
  using assms unfolding Schedule_def
  by (rule registry.over_sound) (auto simp: eligible_def sql_insert_def)

theorem schedule_sound_witness:
  "\<exists>a w'. Schedule demo_ext (\<lambda>_. Fin 0) None 1 ''inference'' ''h'' 30 (demo_active ''t1'') = (Inr a, w') \<and>
     w_tasks w' = [assignment_row a ''h'' demo_now] \<and> a_NodeID a = 7"
proof -
  obtain a w' where s: "Schedule demo_ext (\<lambda>_. Fin 0) None 1 ''inference'' ''h'' 30 (demo_active ''t1'') = (Inr a, w')"
    using demo_Schedule [of None] by blast
  from schedule_sound [OF s] show ?thesis using s by auto
qed

text \<open>
  No eligible node. With a working database and no active node that is eligible, the
  request is refused with the error that says so, and nothing changes: in particular no task
  row is written and nothing is published.
\<close>

theorem schedule_refuses:
  assumes "healthy w" "\<forall>n\<in>set (w_nodes w). Status n = ''active'' \<longrightarrow> tierNums (Tier n) < taskMinTier tt \<or>
      \<not> supportsTaskType (SupportedTaskTypes n) tt"
  shows "Schedule E rng redis fresh tt ih tmo w = (Inl (Err (''no eligible nodes for task type '' @ tt)), w)"
  unfolding Schedule_def using assms by (intro registry.over_refuses) (auto simp: eligible_def)

theorem schedule_refuses_witness:
  "Schedule demo_ext (\<lambda>_. Fin 0) None 1 ''gradient_agg'' ''h'' 30 (demo_active ''t1'') =
     (Inl (Err ''no eligible nodes for task type gradient_agg''), demo_active ''t1'')"
  using schedule_refuses [of "demo_active ''t1''" "''gradient_agg''" demo_ext "\<lambda>_. Fin 0" None 1 "''h''" 30]
  by (simp add: tierNums_def taskMinTier_def)

text \<open>
  The best score wins. Among at least one candidate with a reliability between 0 and 1,
  and with random numbers in [0,1), the chosen node has the largest jittered score; the jitter
  can therefore only prefer it to nodes whose score at the lowest jitter factor (0.95) does not
  exceed its own at the highest (1.05).
\<close>

theorem select_node_best:
  assumes "ns \<noteq> []" "\<forall>n\<in>set ns. unit_flt (Reliability n)" "unit_draws rng"
  shows "\<exists>i<length ns. selectNode rng ns = Some (ns ! i) \<and>
    (\<forall>k<length ns. flt_le (score (ns ! k) (rng k)) (score (ns ! i) (rng i)) \<and>
      flt_le (mul64 (base_score (ns ! k)) (Fin jitter_min)) (mul64 (base_score (ns ! i)) (Fin jitter_max)))"
proof -
  obtain i where i: "i < length ns" "selectNode rng ns = Some (ns ! i)"
    "\<forall>k<length ns. flt_le (score (ns ! k) (rng k)) (score (ns ! i) (rng i))"
    using selectNode_best [OF assms(1) _ assms(3)] assms(2) by blast
  have v: "\<exists>y. score (ns ! k) (rng k) = Fin y \<and> flt_le (mul64 (base_score (ns ! k)) (Fin jitter_min)) (Fin y) \<and>
      flt_le (Fin y) (mul64 (base_score (ns ! k)) (Fin jitter_max))" if "k < length ns" for k
    using score_value [of "ns ! k"] assms(2,3) that unfolding unit_draws_def by (metis nth_mem)
  have "flt_le (mul64 (base_score (ns ! k)) (Fin jitter_min)) (mul64 (base_score (ns ! i)) (Fin jitter_max))"
    if "k < length ns" for k
    using v [OF that] v [OF i(1)] i(3) [rule_format, OF that] flt_le_trans by metis
  with i show ?thesis by blast
qed

theorem select_node_best_witness:
  "\<exists>i<2. selectNode (\<lambda>_. Fin 0) [demo_node ''t1'', demo_node ''t2''] = Some ([demo_node ''t1'', demo_node ''t2''] ! i)"
proof -
  have "unit_draws (\<lambda>_. Fin 0)" by (simp add: unit_draws_def)
  moreover have "\<forall>n\<in>set [demo_node ''t1'', demo_node ''t2'']. unit_flt (Reliability n)" by (simp add: unit_flt_def)
  ultimately show ?thesis
    using select_node_best [of "[demo_node ''t1'', demo_node ''t2'']" "\<lambda>_. Fin 0"]
    by (auto simp: numeral_2_eq_2)
qed

text \<open>
  The reward. For every stake bonus between 1 and 2 the reward is the product of the
  base rate, the tier's multiplier, the task's weight and the bonus, rounded and truncated: it
  lies between the product without bonus and twice that product, never falls when the bonus
  grows, and fits the 32-bit column it is stored in.
\<close>

theorem reward_bounds:
  assumes "tierMult tier = Fin m" "taskWeights tt = Fin wt" "1 \<le> b" "b \<le> b'" "b' \<le> 2"
  shows "\<lfloor>of_int baseRateSats * m * wt\<rfloor> \<le> reward_of tier tt (Fin b) \<and>
    reward_of tier tt (Fin b) \<le> reward_of tier tt (Fin b') \<and>
    of_int (reward_of tier tt (Fin b')) \<le> 2 * (of_int baseRateSats * m * wt) \<and>
    in_int32 (reward_of tier tt (Fin b'))"
proof -
  obtain k where k: "tierMult tier = Fin (of_int k / 2)" "0 \<le> k" "k \<le> 16" using tierMult_half by blast
  obtain l where l: "taskWeights tt = Fin (of_int l / 2)" "0 \<le> l" "l \<le> 10" using taskWeights_half by blast
  have kl: "0 \<le> k * l" "k * l \<le> 160" using k l mult_mono [of k 16 l 10] by auto
  have ml: "of_int baseRateSats * m * wt = of_int (5 * k * l) / 2"
    using assms(1,2) k(1) l(1) by (simp add: baseRateSats_def)
  note v = reward_of_value [OF k(1) l(1) k(2,3) l(2,3)]
  have "\<lfloor>real_of_int (5 * k * l) / 2\<rfloor> = reward_of tier tt (Fin 1)"
    using v(1) [of 1] r64_half_int [of "5 * k * l"] kl by (simp del: of_int_mult)
  moreover have "reward_of tier tt (Fin 1) \<le> reward_of tier tt (Fin b)"
    "reward_of tier tt (Fin b) \<le> reward_of tier tt (Fin b')" using assms(3-5) by (auto intro: reward_of_mono)
  moreover have "of_int (reward_of tier tt (Fin b')) \<le> real_of_int (5 * k * l)"
    using v(1,3) [of b'] assms(3-5) by (smt (verit) of_int_floor_le)
  moreover have "in_int32 (reward_of tier tt (Fin b'))"
    using reward_of_range [of b' tier tt] assms(3-5) by (auto simp: in_int_def)
  ultimately show ?thesis unfolding ml by simp
qed

theorem reward_bounds_witness:
  "37 \<le> reward_of ''t2'' ''audit_repo'' (Fin 1) \<and> of_int (reward_of ''t2'' ''audit_repo'' (Fin (3 / 2))) \<le> (75::real)"
proof -
  have t: "tierMult ''t2'' = Fin (5 / 2)" "taskWeights ''audit_repo'' = Fin (3 / 2)"
    by (simp_all add: tierMult_def taskWeights_def)
  from reward_bounds [OF t, of 1 "3 / 2"] show ?thesis by (simp add: baseRateSats_def)
qed

text \<open>
  Timeouts. With a working database, the timeout job turns exactly the running tasks
  whose deadline has passed into pending tasks without node and start time, reports how many
  they are, and leaves every other row alone.
\<close>

theorem requeue_exact:
  assumes "healthy w"
  shows "RequeueTimedOut w = (Inr (length (filter (timed_out (w_now w)) (w_tasks w))),
    w\<lparr>w_tasks := map (\<lambda>t. if tk_status t = ''running'' \<and> (\<exists>s. tk_started t = Some s \<and> s + tk_timeout t * Second < w_now w)
        then t\<lparr>tk_status := ''pending'', tk_assigned := None, tk_started := None\<rparr> else t) (w_tasks w)\<rparr>)"
  by (auto simp: RequeueTimedOut_def db_call_healthy [OF assms] sql_defs requeue_def timed_out_def
      intro!: arg_cong [where f = "\<lambda>ts. w\<lparr>w_tasks := ts\<rparr>"] map_cong split: option.splits)

theorem requeue_exact_witness:
  "fst (RequeueTimedOut ((empty_world demo_now)\<lparr>w_tasks := [assignment_row
      \<lparr>a_TaskID = 1, a_NodeID = 7, a_NodeLNURI = [], a_TaskType = ''inference'', a_RewardSats = 10, a_TimeoutSecs = 30,
       a_AssignedAt = 0\<rparr> ''h'' 0]\<rparr>)) = Inr 1"
proof -
  have "healthy ((empty_world demo_now)\<lparr>w_tasks := ts\<rparr>)" for ts by (simp add: healthy_def empty_world_def)
  note r = requeue_exact [OF this]
  show ?thesis unfolding r
    by (simp add: empty_world_def assignment_row_def timed_out_def demo_now_def time_Unix_def time_defs wrap_int_def)
qed

text \<open>
  Task rows stay well-formed. Scheduling, completing, failing and requeueing keep task
  identifiers unique, statuses within their checks, rewards within their column, and every
  running task with a node and a start time, whichever database calls fail.
\<close>

theorem scheduler_keeps_tasks_ok:
  assumes "tasks_ok (w_tasks w)"
  shows "tasks_ok (w_tasks (snd (Schedule E rng redis fresh tt ih tmo w))) \<and>
    tasks_ok (w_tasks (snd (MarkComplete tid oh w))) \<and> tasks_ok (w_tasks (snd (MarkFailed E tid nid w))) \<and>
    tasks_ok (w_tasks (snd (RequeueTimedOut w)))"
  using assms by (simp add: wf_intros)

theorem scheduler_keeps_tasks_ok_witness:
  "tasks_ok (w_tasks (snd (Schedule demo_ext (\<lambda>_. Fin 0) None 1 ''inference'' ''h'' 30 (demo_active ''t1''))))"
  using scheduler_keeps_tasks_ok [of "demo_active ''t1''"] by (simp add: tasks_ok_def)

end
