(* ===== verification/Go_Json.thy ===== *)
theory Go_Json
  imports Go_Strings "HOL-Library.Char_ord" "HOL-Library.List_Lexorder"
begin

text \<open>
  What the coordinator uses of \<open>encoding/json\<close>: the image of a string, on byte sequences that
  need not be valid UTF-8, and objects whose values are strings.
\<close>

section \<open>UTF-8\<close>

abbreviation byte :: "char \<Rightarrow> nat" where "byte c \<equiv> of_char c"

definition cont :: "char \<Rightarrow> bool" where "cont c \<longleftrightarrow> 128 \<le> byte c \<and> byte c \<le> 191"

text \<open>The length of the valid encoding at the head of a sequence, 0 when there is none (\<open>utf8.DecodeRune\<close>).\<close>

fun utf8_len :: "string \<Rightarrow> nat" where
  "utf8_len [] = 0"
| "utf8_len (a # s) = (let n = byte a in
     if n < 128 then 1
     else if 194 \<le> n \<and> n \<le> 223 then (case s of b # _ \<Rightarrow> if cont b then 2 else 0 | _ \<Rightarrow> 0)
     else if 224 \<le> n \<and> n \<le> 239 then
       (case s of b # c # _ \<Rightarrow>
          if cont b \<and> cont c \<and> (n = 224 \<longrightarrow> 160 \<le> byte b) \<and> (n = 237 \<longrightarrow> byte b \<le> 159) then 3 else 0
        | _ \<Rightarrow> 0)
     else if 240 \<le> n \<and> n \<le> 244 then
       (case s of b # c # d # _ \<Rightarrow>
          if cont b \<and> cont c \<and> cont d \<and> (n = 240 \<longrightarrow> 144 \<le> byte b) \<and> (n = 244 \<longrightarrow> byte b \<le> 143) then 4 else 0
        | _ \<Rightarrow> 0)
     else 0)"

section \<open>Strings\<close>

definition hex4 :: "nat \<Rightarrow> string" where
  "hex4 n = ''u00'' @ [hex_digit (n div 16), hex_digit (n mod 16)]"

definition backslash :: char where "backslash = CHR 0x5C"
definition dquote :: char where "dquote = CHR 0x22"

text \<open>One ASCII byte, escaped for HTML too, as \<open>json.Marshal\<close> does.\<close>

definition json_byte :: "char \<Rightarrow> string" where
  "json_byte c = (let n = byte c in
     if c = dquote \<or> c = backslash then [backslash, c]
     else if n = 8 then [backslash, CHR ''b''] else if n = 9 then [backslash, CHR ''t'']
     else if n = 10 then [backslash, CHR ''n''] else if n = 12 then [backslash, CHR ''f'']
     else if n = 13 then [backslash, CHR ''r'']
     else if n < 32 \<or> c = CHR ''<'' \<or> c = CHR ''>'' \<or> c = CHR ''&'' then backslash # hex4 n
     else [c])"

text \<open>U+2028 and U+2029 are escaped, bytes that are no encoding become U+FFFD, in either spelling.\<close>

function json_chars :: "string \<Rightarrow> string" where
  "json_chars [] = []"
| "json_chars (a # s) = (let k = utf8_len (a # s) in
     if k = 0 then backslash # ''ufffd'' @ json_chars s
     else if k = 1 then json_byte a @ json_chars s
     else if take k (a # s) = [CHR 0xE2, CHR 0x80, CHR 0xA8] then backslash # ''u2028'' @ json_chars (drop k (a # s))
     else if take k (a # s) = [CHR 0xE2, CHR 0x80, CHR 0xA9] then backslash # ''u2029'' @ json_chars (drop k (a # s))
     else take k (a # s) @ json_chars (drop k (a # s)))"
  by pat_completeness auto
termination by (relation "measure length") (auto simp: Let_def)

definition jsonString :: "string \<Rightarrow> string" where
  "jsonString s = dquote # json_chars s @ [dquote]"

text \<open>What is left of a string that goes through \<open>Marshal\<close> and \<open>Unmarshal\<close>: invalid bytes become U+FFFD.\<close>

function json_sanitize :: "string \<Rightarrow> string" where
  "json_sanitize [] = []"
| "json_sanitize (a # s) = (let k = utf8_len (a # s) in
     if k = 0 then [CHR 0xEF, CHR 0xBF, CHR 0xBD] @ json_sanitize s
     else take k (a # s) @ json_sanitize (drop k (a # s)))"
  by pat_completeness auto
termination by (relation "measure length") (auto simp: Let_def)

section \<open>Objects\<close>

fun json_members :: "(string \<times> string) list \<Rightarrow> string" where
  "json_members [] = []"
| "json_members [(k, v)] = jsonString k @ CHR '':'' # jsonString v"
| "json_members ((k, v) # m) = jsonString k @ CHR '':'' # jsonString v @ CHR '','' # json_members m"

definition json_object :: "(string \<times> string) list \<Rightarrow> string" where
  "json_object m = CHR ''{'' # json_members m @ ''}''"

section \<open>Reading back\<close>

text \<open>The next character of a string image, for ASCII strings: what makes the images unambiguous.\<close>

fun json_next :: "string \<Rightarrow> (char \<times> string) option" where
  "json_next [] = None"
| "json_next (c # s) =
     (if c = dquote then None
      else if c \<noteq> backslash then Some (c, s)
      else case s of [] \<Rightarrow> None | e # s \<Rightarrow>
        (if e = CHR ''u'' then
           (case s of a # b # d # f # s \<Rightarrow>
              (case (fromHexChar d, fromHexChar f) of (Some x, Some y) \<Rightarrow> Some (char_of (16 * x + y), s) | _ \<Rightarrow> None)
            | _ \<Rightarrow> None)
         else if e = CHR ''b'' then Some (char_of (8::nat), s) else if e = CHR ''t'' then Some (char_of (9::nat), s)
         else if e = CHR ''n'' then Some (char_of (10::nat), s) else if e = CHR ''f'' then Some (char_of (12::nat), s)
         else if e = CHR ''r'' then Some (char_of (13::nat), s) else Some (e, s)))"

definition ascii :: "string \<Rightarrow> bool" where
  "ascii s \<longleftrightarrow> list_all (\<lambda>c. byte c < 128) s"

lemma char_of_eq: "byte c = n \<Longrightarrow> char_of n = c"
  by auto

lemma json_next_byte: "json_next (json_byte c @ r) = Some (c, r)"
proof -
  have h: "fromHexChar (hex_digit (byte c div 16)) = Some (byte c div 16)"
    "fromHexChar (hex_digit (byte c mod 16)) = Some (byte c mod 16)"
    by (simp_all add: fromHexChar_hex_digit nibble_less)
  show ?thesis
    by (simp add: json_byte_def Let_def hex4_def h dquote_def backslash_def char_of_eq)
qed

lemma json_chars_ascii: "ascii s \<Longrightarrow> json_chars s = concat (map json_byte s)"
  by (induction s) (auto simp: ascii_def Let_def)

lemma json_sanitize_ascii: "ascii s \<Longrightarrow> json_sanitize s = s"
  by (induction s) (auto simp: ascii_def Let_def)

lemma json_next_dquote: "json_next (dquote # r) = None"
  by simp

lemma jsonString_prefix:
  assumes "ascii s" "ascii t" "jsonString s @ r = jsonString t @ q"
  shows "s = t \<and> r = q"
proof -
  have "concat (map json_byte s) @ dquote # r = concat (map json_byte t) @ dquote # q \<Longrightarrow> s = t \<and> r = q"
  proof (induction s arbitrary: t)
    case Nil
    then show ?case
      by (cases t) (auto simp del: json_next.simps dest: arg_cong [where f = json_next] simp: json_next_dquote json_next_byte)
  next
    case (Cons c s)
    note IH = Cons.IH
    show ?case
    proof (cases t)
      case Nil
      then show ?thesis using Cons.prems json_next_byte [of c "concat (map json_byte s) @ dquote # r"]
        by (simp add: json_next_dquote)
    next
      case (Cons d t')
      with Cons.prems have "json_next (json_byte c @ concat (map json_byte s) @ dquote # r) =
        json_next (json_byte d @ concat (map json_byte t') @ dquote # q)" by simp
      then have "c = d" "concat (map json_byte s) @ dquote # r = concat (map json_byte t') @ dquote # q"
        by (simp_all add: json_next_byte del: json_next.simps)
      then show ?thesis using Cons IH by simp
    qed
  qed
  then show ?thesis using assms by (simp add: jsonString_def json_chars_ascii)
qed

lemma json_members_inj:
  assumes "map fst m = map fst m'" "\<And>v. v \<in> snd ` set m \<union> snd ` set m' \<Longrightarrow> ascii v"
    and "json_members m @ r = json_members m' @ q"
  shows "m = m' \<and> r = q"
  using assms
proof (induction m arbitrary: m' rule: json_members.induct)
  case 1
  then show ?case by simp
next
  case (2 k v)
  then obtain v' where m': "m' = [(k, v')]" by (cases m') auto
  have "jsonString v @ r = jsonString v' @ q" using 2(3) m' by simp
  then have "v = v' \<and> r = q" by (rule jsonString_prefix [rotated 2]) (use 2(2) m' in auto)
  then show ?case using m' by simp
next
  case (3 k v kv m)
  then obtain v' kv' m2 where m': "m' = (k, v') # kv' # m2" by (cases m'; cases "tl m'") auto
  have "jsonString v @ CHR '','' # json_members (kv # m) @ r = jsonString v' @ CHR '','' # json_members (kv' # m2) @ q"
    using 3(4) m' by simp
  moreover have "ascii v" "ascii v'" using 3(3) m' by auto
  ultimately have "v = v'" "json_members (kv # m) @ r = json_members (kv' # m2) @ q"
    using jsonString_prefix by blast+
  moreover have "kv # m = kv' # m2 \<and> r = q"
    using 3(2,3) m' calculation(2) by (intro 3(1)) auto
  ultimately show ?case using m' by simp
qed

end
