(* ===== verification/Observer.thy ===== *)
theory Observer
  imports World Go_Json
begin

text \<open>
  \<open>internal/observer\<close>: payment receipts, their canonical JSON, hash and signature
  (\<open>receipt.go\<close>), and the client that reads the signing key and submits receipts
  (\<open>client.go\<close>). SHA-256 and Ed25519 are parameters, as are PEM decoding and HTTP.
\<close>

section \<open>Receipts\<close>

definition PaymentRailLightning :: string where "PaymentRailLightning = ''lightning''"

definition amountBucketRanges :: "(string \<times> int) list" where
  "amountBucketRanges = [(''1-100'', 100), (''101-1000'', 1000), (''1001-10000'', 10000), (''10001+'', - 1)]"

definition AmountBucket :: "int \<Rightarrow> string" where
  "AmountBucket sats =
     (if sats < 1 then ''0''
      else case find (\<lambda>(lab, mx). mx < 0 \<or> sats \<le> mx) amountBucketRanges of
        Some (lab, _) \<Rightarrow> lab | None \<Rightarrow> ''10001+'')"

record Receipt =
  PaymentRail :: string
  SettlementReference :: string
  SenderPublicKeyHash :: string
  ReceiverPublicKeyHash :: string
  rc_AmountBucket :: string
  ReceiptHash :: string
  Signature :: string

definition receiptFieldsForHash :: "Receipt \<Rightarrow> (string \<times> string) list" where
  "receiptFieldsForHash r =
     [(''payment_rail'', PaymentRail r), (''settlement_reference'', SettlementReference r),
      (''sender_public_key_hash'', SenderPublicKeyHash r), (''receiver_public_key_hash'', ReceiverPublicKeyHash r),
      (''amount_bucket'', rc_AmountBucket r)]"

definition structToMap :: "(string \<times> string) list \<Rightarrow> (string \<times> string) list" where
  "structToMap fs = map (\<lambda>(k, v). (k, json_sanitize v)) fs"

definition marshalMapSorted :: "(string \<times> string) list \<Rightarrow> bytes" where
  "marshalMapSorted m = json_object (sort_key fst m)"

definition canonicalJSON :: "(string \<times> string) list \<Rightarrow> bytes" where
  "canonicalJSON v = marshalMapSorted (structToMap v)"

definition ComputeReceiptHash :: "ext \<Rightarrow> Receipt \<Rightarrow> string" where
  "ComputeReceiptHash E r = hex_EncodeToString (sha256_Sum256 E (canonicalJSON (receiptFieldsForHash r)))"

definition SignReceipt :: "ext \<Rightarrow> bytes \<Rightarrow> Receipt \<Rightarrow> Receipt result" where
  "SignReceipt E privateKey r =
     (if length privateKey \<noteq> 64
      then Inl (Err (''observer: invalid ed25519 key size '' @ dec (int (length privateKey))))
      else let r = r\<lparr>ReceiptHash := ComputeReceiptHash E r\<rparr> in
        (case hex_DecodeString (ReceiptHash r) of
          None \<Rightarrow> Inl (Err ''observer: decode receipt_hash'')
        | Some hashBytes \<Rightarrow> Inr (r\<lparr>Signature := hex_EncodeToString (ed25519_Sign E privateKey hashBytes)\<rparr>)))"

definition PubkeyHashHex :: "ext \<Rightarrow> string \<Rightarrow> string" where
  "PubkeyHashHex E pubkeyHex =
     (case hex_DecodeString (TrimSpace pubkeyHex) of
       None \<Rightarrow> []
     | Some raw \<Rightarrow> if length raw = 0 then [] else hex_EncodeToString (sha256_Sum256 E raw))"

definition VerifySignature :: "ext \<Rightarrow> Receipt \<Rightarrow> bytes \<Rightarrow> bool" where
  "VerifySignature E r publicKey =
     (case hex_DecodeString (ReceiptHash r) of
       None \<Rightarrow> False
     | Some hashBytes \<Rightarrow>
       if length hashBytes \<noteq> 32 then False
       else case hex_DecodeString (Signature r) of
         None \<Rightarrow> False
       | Some sigBytes \<Rightarrow>
         if length sigBytes \<noteq> 64 then False else ed25519_Verify E publicKey hashBytes sigBytes)"

section \<open>The signing key\<close>

definition hexEncoded :: "bytes \<Rightarrow> bool" where
  "hexEncoded b = list_all (\<lambda>ch. \<not> ((byte ch < 48 \<or> 57 < byte ch) \<and> (byte ch < 97 \<or> 102 < byte ch) \<and>
     (byte ch < 65 \<or> 70 < byte ch))) b"

text \<open>\<open>newKeyFromSeed\<close> is \<open>ed25519.NewKeyFromSeed\<close>.\<close>

definition normalizeToFullPrivateKey :: "(bytes \<Rightarrow> bytes) \<Rightarrow> bytes \<Rightarrow> bytes result" where
  "normalizeToFullPrivateKey newKeyFromSeed key =
     (if length key = 64 then Inr key
      else if length key = 32 then Inr (newKeyFromSeed key)
      else Inl (Err (''invalid key length '' @ dec (int (length key)) @ '' (need 32 or 64 bytes)'')))"

text \<open>
  \<open>pemDecode\<close> is \<open>pem.Decode\<close>; \<open>parsePKCS8\<close> is \<open>x509.ParsePKCS8PrivateKey\<close>, whose result is an
  Ed25519 key or a key of another kind.
\<close>

definition decodePEMEd25519PrivateKey :: "(bytes \<Rightarrow> bytes option) \<Rightarrow> (bytes \<Rightarrow> bytes option result) \<Rightarrow>
    bytes \<Rightarrow> bytes result" where
  "decodePEMEd25519PrivateKey pemDecode parsePKCS8 data =
     (case pemDecode data of
       None \<Rightarrow> Inl (Err ''no PEM block found'')
     | Some block \<Rightarrow>
       (case parsePKCS8 block of
         Inl e \<Rightarrow> Inl (Wrap ''parse PKCS8'' e)
       | Inr None \<Rightarrow> Inl (Err ''private key is not Ed25519'')
       | Inr (Some k) \<Rightarrow> Inr k))"

definition decodeSigningKey :: "(bytes \<Rightarrow> bytes) \<Rightarrow> (bytes \<Rightarrow> bytes option) \<Rightarrow> (bytes \<Rightarrow> bytes option result) \<Rightarrow>
    bytes \<Rightarrow> bytes result" where
  "decodeSigningKey newKeyFromSeed pemDecode parsePKCS8 data =
     (if (length data = 32 \<or> length data = 64) \<and> \<not> hexEncoded data
      then normalizeToFullPrivateKey newKeyFromSeed data
      else let data = TrimSpace data in
        if 64 \<le> length data \<and> length data mod 2 = 0 \<and> hexEncoded data then
          (case hex_DecodeString data of
            None \<Rightarrow> Inl (Err ''encoding/hex: invalid byte'')
          | Some decoded \<Rightarrow> normalizeToFullPrivateKey newKeyFromSeed decoded)
        else if sublist ''PRIVATE KEY'' data then decodePEMEd25519PrivateKey pemDecode parsePKCS8 data
        else Inl (Err ''invalid key format: need 32- or 64-byte raw, 64- or 128-char hex, or PEM''))"

section \<open>The client\<close>

record ClientConfig =
  APIEndpoint :: string
  SigningKeyPEMOrHex :: bytes

record observer_Client =
  apiEndpoint :: string
  senderPubkeyHash :: string
  signingKey :: bytes

definition observer_NewClient :: "(bytes \<Rightarrow> bytes) \<Rightarrow> (bytes \<Rightarrow> bytes option) \<Rightarrow> (bytes \<Rightarrow> bytes option result) \<Rightarrow>
    ClientConfig \<Rightarrow> observer_Client result" where
  "observer_NewClient newKeyFromSeed pemDecode parsePKCS8 cfg =
     (case decodeSigningKey newKeyFromSeed pemDecode parsePKCS8 (SigningKeyPEMOrHex cfg) of
       Inl e \<Rightarrow> Inl (Wrap ''observer: signing key'' e)
     | Inr key \<Rightarrow>
       if length key \<noteq> 64
       then Inl (Err (''observer: signing key: invalid length '' @ dec (int (length key)) @ '' (need 64)''))
       else Inr \<lparr>apiEndpoint = TrimRight (APIEndpoint cfg) (CHR ''/''), senderPubkeyHash = [], signingKey = key\<rparr>)"

definition SetSenderPubkeyHash :: "string \<Rightarrow> observer_Client \<Rightarrow> observer_Client" where
  "SetSenderPubkeyHash hashHex c = c\<lparr>senderPubkeyHash := TrimSpace hashHex\<rparr>"

definition receipt_json :: "Receipt \<Rightarrow> string" where
  "receipt_json r = json_object (receiptFieldsForHash r @ [(''receipt_hash'', ReceiptHash r), (''signature'', Signature r)])"

definition excerpt :: "bytes \<Rightarrow> string" where
  "excerpt body = (if 200 < length body then take 200 body @ ''...'' else body)"

text \<open>
  \<open>newRequest\<close> is \<open>http.NewRequestWithContext\<close> on the URL, \<open>post\<close> the round trip that gives
  status and body, \<open>unmarshal\<close> the fields \<open>receipt_id\<close> and \<open>id\<close> of a JSON body.
\<close>

definition Submit :: "ext \<Rightarrow> (string \<Rightarrow> unit result) \<Rightarrow> (string \<Rightarrow> string \<Rightarrow> (nat \<times> bytes) result) \<Rightarrow>
    (bytes \<Rightarrow> (string \<times> string) result) \<Rightarrow> observer_Client \<Rightarrow> Receipt \<Rightarrow> string result" where
  "Submit E newRequest post unmarshal c r =
     (let r = r\<lparr>SenderPublicKeyHash := senderPubkeyHash c\<rparr>; url = apiEndpoint c @ ''/v1/receipts'' in
      if SenderPublicKeyHash r = []
      then Inl (Err ''observer: sender_public_key_hash not set (call SetSenderPubkeyHash first)'')
      else case SignReceipt E (signingKey c) r of
        Inl e \<Rightarrow> Inl e
      | Inr r \<Rightarrow>
        (case newRequest url of
          Inl e \<Rightarrow> Inl e
        | Inr _ \<Rightarrow>
          (case post url (receipt_json r) of
            Inl e \<Rightarrow> Inl (Wrap ''observer: POST receipts'' e)
          | Inr (status, respBody) \<Rightarrow>
            if status \<noteq> 200 \<and> status \<noteq> 201
            then Inl (Err (''observer: API returned '' @ dec (int status) @ '': '' @ respBody))
            else case unmarshal respBody of
              Inl e \<Rightarrow> Inl (Err (''observer: API '' @ dec (int status) @ '' response JSON invalid: '' @ Error e @ '' (body: '' @ excerpt respBody @ '')''))
            | Inr (receiptID, ident) \<Rightarrow>
              if receiptID \<noteq> [] then Inr receiptID
              else if ident \<noteq> [] then Inr ident
              else Inl (Err (''observer: API '' @ dec (int status) @
                '' success but no receipt_id or id in response (body: '' @ excerpt respBody @ '')'')))))"

section \<open>Lemmas\<close>

lemma hexEncoded_iff: "hexEncoded b \<longleftrightarrow> (\<forall>c\<in>set b. hex_char c)"
  by (auto simp: hexEncoded_def list_all_iff hex_char_def fromHexChar_def Let_def split: if_splits)

lemma sorted_fields:
  "sort_key fst (structToMap (receiptFieldsForHash r)) =
     [(''amount_bucket'', json_sanitize (rc_AmountBucket r)), (''payment_rail'', json_sanitize (PaymentRail r)),
      (''receiver_public_key_hash'', json_sanitize (ReceiverPublicKeyHash r)),
      (''sender_public_key_hash'', json_sanitize (SenderPublicKeyHash r)),
      (''settlement_reference'', json_sanitize (SettlementReference r))]"
  by (simp add: structToMap_def receiptFieldsForHash_def)

definition receipt_ascii :: "Receipt \<Rightarrow> bool" where
  "receipt_ascii r \<longleftrightarrow> ascii (PaymentRail r) \<and> ascii (SettlementReference r) \<and> ascii (SenderPublicKeyHash r) \<and>
     ascii (ReceiverPublicKeyHash r) \<and> ascii (rc_AmountBucket r)"

lemma canonicalJSON_inj:
  assumes "receipt_ascii r" "receipt_ascii s"
    and "canonicalJSON (receiptFieldsForHash r) = canonicalJSON (receiptFieldsForHash s)"
  shows "PaymentRail r = PaymentRail s \<and> SettlementReference r = SettlementReference s \<and>
    SenderPublicKeyHash r = SenderPublicKeyHash s \<and> ReceiverPublicKeyHash r = ReceiverPublicKeyHash s \<and>
    rc_AmountBucket r = rc_AmountBucket s"
proof -
  have e: "json_members (sort_key fst (structToMap (receiptFieldsForHash r))) @ ''}'' =
    json_members (sort_key fst (structToMap (receiptFieldsForHash s))) @ ''}''"
    using assms(3) by (simp add: canonicalJSON_def marshalMapSorted_def json_object_def)
  have "sort_key fst (structToMap (receiptFieldsForHash r)) = sort_key fst (structToMap (receiptFieldsForHash s)) \<and> ''}'' = ''}''"
    by (rule json_members_inj [OF _ _ e])
      (use assms(1,2) in \<open>auto simp: sorted_fields receipt_ascii_def json_sanitize_ascii\<close>)
  then show ?thesis using assms(1,2) by (simp add: sorted_fields receipt_ascii_def json_sanitize_ascii)
qed

lemma SignReceipt_ok:
  assumes "length sk = 64"
  shows "SignReceipt E sk r = Inr (r\<lparr>ReceiptHash := ComputeReceiptHash E r,
    Signature := hex_EncodeToString (ed25519_Sign E sk (sha256_Sum256 E (canonicalJSON (receiptFieldsForHash r))))\<rparr>)"
  using assms by (simp add: SignReceipt_def Let_def ComputeReceiptHash_def hex_decode_encode)

lemma SignReceipt_fields:
  "SignReceipt E sk r = Inr r' \<Longrightarrow> receiptFieldsForHash r' = receiptFieldsForHash r \<and> length sk = 64"
  by (auto simp: SignReceipt_def Let_def receiptFieldsForHash_def split: if_splits option.splits)

lemma dropWhile_all_append:
  "(\<And>c. c \<in> set ws \<Longrightarrow> P c) \<Longrightarrow> dropWhile P (ws @ s) = dropWhile P s"
  by (induction ws) auto

lemma TrimSpace_pad:
  assumes "\<And>c. c \<in> set s \<Longrightarrow> \<not> is_space c" "\<And>c. c \<in> set ws \<union> set ws' \<Longrightarrow> is_space c"
  shows "TrimSpace (ws @ s @ ws') = s"
proof (cases s)
  case Nil
  have "dropWhile is_space (ws @ s @ ws') = dropWhile is_space ws'"
    using Nil assms(2) by (simp add: dropWhile_all_append del: dropWhile_append)
  also have "\<dots> = []" using assms(2) by (metis Un_iff dropWhile_eq_Nil_conv)
  finally show ?thesis unfolding TrimSpace_def using Nil by (simp only:) simp
next
  case (Cons c t)
  then have "dropWhile is_space (ws @ s @ ws') = s @ ws'" using assms by (simp add: dropWhile_all_append)
  moreover have "dropWhile is_space (rev ws' @ rev s) = rev s"
  proof -
    have "dropWhile is_space (rev ws' @ rev s) = dropWhile is_space (rev s)"
      using assms(2) by (intro dropWhile_all_append) auto
    also have "\<dots> = rev s"
      using assms(1) [OF last_in_set] Cons hd_rev [of s] by (simp only: dropWhile_eq_self_iff) simp
    finally show ?thesis .
  qed
  ultimately show ?thesis by (simp add: TrimSpace_def)
qed

lemma hex_char_not_space: "hex_char c \<Longrightarrow> \<not> is_space c"
  by (auto simp: hex_char_def fromHexChar_def is_space_def Let_def)

lemma decodeSigningKey_hex:
  assumes "length key = 32 \<or> length key = 64" "\<And>c. c \<in> set ws \<union> set ws' \<Longrightarrow> is_space c"
  shows "decodeSigningKey seed pem p8 (ws @ hex_EncodeToString key @ ws') = normalizeToFullPrivateKey seed key"
proof -
  let ?d = "ws @ hex_EncodeToString key @ ws'"
  have h: "hexEncoded (hex_EncodeToString key)" by (auto simp: hexEncoded_iff dest: hex_EncodeToString_chars)
  have t: "TrimSpace ?d = hex_EncodeToString key"
    using assms(2) by (intro TrimSpace_pad) (auto dest: hex_EncodeToString_chars hex_char_not_space)
  have "\<not> ((length ?d = 32 \<or> length ?d = 64) \<and> \<not> hexEncoded ?d)"
  proof
    assume a: "(length ?d = 32 \<or> length ?d = 64) \<and> \<not> hexEncoded ?d"
    then have "ws = []" "ws' = []" using assms(1) by auto
    with a h show False by simp
  qed
  then show ?thesis using h assms(1) by (auto simp: decodeSigningKey_def t Let_def hex_decode_encode)
qed

section \<open>Properties\<close>

text \<open>
  C36 (receipts are bound by their hash). Two receipts of ASCII fields with the same hash have
  the same rail, settlement reference, sender, receiver and amount bucket, unless their
  canonical JSON texts are a SHA-256 collision: the canonical form loses no field.
\<close>

theorem receipt_hash_binds:
  assumes "receipt_ascii r" "receipt_ascii s" "ComputeReceiptHash E r = ComputeReceiptHash E s"
  shows "receiptFieldsForHash r = receiptFieldsForHash s \<or>
    (canonicalJSON (receiptFieldsForHash r) \<noteq> canonicalJSON (receiptFieldsForHash s) \<and>
     sha256_Sum256 E (canonicalJSON (receiptFieldsForHash r)) = sha256_Sum256 E (canonicalJSON (receiptFieldsForHash s)))"
  using canonicalJSON_inj [OF assms(1,2)] hex_EncodeToString_inj assms(3)
  by (auto simp: ComputeReceiptHash_def receiptFieldsForHash_def)

definition demo_receipt :: "int \<Rightarrow> Receipt" where
  "demo_receipt sats = \<lparr>PaymentRail = PaymentRailLightning, SettlementReference = ''00ff'', SenderPublicKeyHash = ''aa'',
     ReceiverPublicKeyHash = ''bb'', rc_AmountBucket = AmountBucket sats, ReceiptHash = [], Signature = []\<rparr>"

lemma demo_receipt_ascii: "receipt_ascii (demo_receipt 50)"
  by (simp add: receipt_ascii_def demo_receipt_def ascii_def PaymentRailLightning_def AmountBucket_def amountBucketRanges_def)

theorem receipt_hash_binds_witness:
  "receipt_ascii (demo_receipt 50) \<and> receiptFieldsForHash (demo_receipt 50) = receiptFieldsForHash (demo_receipt 50)"
  using receipt_hash_binds [OF demo_receipt_ascii demo_receipt_ascii refl, of demo_ext] demo_receipt_ascii by blast

text \<open>
  With a signature scheme that accepts its own signatures, a
  receipt signed with the coordinator's key verifies under the matching public key, and
  signing changes none of the fields that are signed.
\<close>

theorem sign_verify:
  assumes "\<forall>m. ed25519_Verify E pk m (ed25519_Sign E sk m)" "\<forall>m. length (ed25519_Sign E sk m) = 64"
    and "\<forall>m. length (sha256_Sum256 E m) = 32" "length sk = 64"
  shows "\<exists>r'. SignReceipt E sk r = Inr r' \<and> VerifySignature E r' pk \<and>
    receiptFieldsForHash r' = receiptFieldsForHash r \<and> ReceiptHash r' = ComputeReceiptHash E r'"
  using assms unfolding SignReceipt_ok [OF assms(4)]
  by (simp add: VerifySignature_def ComputeReceiptHash_def hex_decode_encode receiptFieldsForHash_def)

text \<open>An instance of the scheme's laws: the signature is the public key, or the message cut and padded to 32 bytes after it.\<close>

definition fixed_ext :: ext where
  "fixed_ext = demo_ext\<lparr>ed25519_Verify := (\<lambda>k m s. s = k @ take 32 (m @ replicate 32 (CHR ''0''))),
     ed25519_Sign := (\<lambda>k m. drop 32 k @ take 32 (m @ replicate 32 (CHR ''0'')))\<rparr>"

theorem sign_verify_witness:
  "\<exists>r'. SignReceipt fixed_ext (replicate 64 (CHR ''k'')) (demo_receipt 50) = Inr r' \<and>
     VerifySignature fixed_ext r' (replicate 32 (CHR ''k''))"
proof -
  have "\<forall>m. ed25519_Verify fixed_ext (replicate 32 (CHR ''k'')) m (ed25519_Sign fixed_ext (replicate 64 (CHR ''k'')) m)"
    "\<forall>m. length (ed25519_Sign fixed_ext (replicate 64 (CHR ''k'')) m) = 64"
    "\<forall>m. length (sha256_Sum256 fixed_ext m) = 32" "length (replicate 64 (CHR ''k'')) = 64"
    by (auto simp: fixed_ext_def demo_ext_def min_def)
  from sign_verify [OF this, of "demo_receipt 50"] show ?thesis by blast
qed

text \<open>
  Signing key formats. A 32-byte seed or a 64-byte key, written in hex and surrounded by
  any ASCII white space, is read as the same bytes given raw, unless every byte of the raw key
  is itself the code of a hex digit.
\<close>

theorem signing_key_formats:
  assumes "length key = 32 \<or> length key = 64" "\<forall>c\<in>set ws \<union> set ws'. is_space c" "\<not> hexEncoded key"
  shows "decodeSigningKey seed pem p8 (ws @ hex_EncodeToString key @ ws') = decodeSigningKey seed pem p8 key \<and>
    decodeSigningKey seed pem p8 key = Inr (if length key = 64 then key else seed key)"
  using decodeSigningKey_hex [OF assms(1), of ws ws'] assms
  by (auto simp: decodeSigningKey_def normalizeToFullPrivateKey_def)

theorem signing_key_formats_witness:
  "decodeSigningKey (\<lambda>s. s @ s) (\<lambda>_. None) (\<lambda>_. Inr None) ('' '' @ hex_EncodeToString (replicate 32 (CHR 0x00)) @ [CHR 0x0A]) =
   Inr (replicate 64 (CHR 0x00))"
proof -
  have "\<not> hexEncoded (replicate 32 (CHR 0x00))" by (simp add: hexEncoded_def list_all_iff)
  moreover have "\<forall>c\<in>set '' '' \<union> set [CHR 0x0A]. is_space c" by (simp add: is_space_def)
  ultimately show ?thesis
    using signing_key_formats [of "replicate 32 (CHR 0x00)" "'' ''" "[CHR 0x0A]" "\<lambda>s. s @ s" "\<lambda>_. None" "\<lambda>_. Inr None"]
    by (simp flip: replicate_add)
qed

text \<open>
  Amount buckets. Every amount of at least one satoshi falls into exactly the bucket
  whose bounds contain it, and everything below into bucket 0.
\<close>

theorem amount_bucket_correct:
  "(AmountBucket sats = ''0'' \<longleftrightarrow> sats < 1) \<and>
   (AmountBucket sats = ''1-100'' \<longleftrightarrow> 1 \<le> sats \<and> sats \<le> 100) \<and>
   (AmountBucket sats = ''101-1000'' \<longleftrightarrow> 101 \<le> sats \<and> sats \<le> 1000) \<and>
   (AmountBucket sats = ''1001-10000'' \<longleftrightarrow> 1001 \<le> sats \<and> sats \<le> 10000) \<and>
   (AmountBucket sats = ''10001+'' \<longleftrightarrow> 10001 \<le> sats)"
  by (auto simp: AmountBucket_def amountBucketRanges_def)

text \<open>
  Submission. A submission returns an identifier only when the sender's hash was set,
  the registry answered 200 or 201 to a request with the signed receipt, and the identifier
  it returns is not empty.
\<close>

theorem submit_sound:
  assumes "Submit E newRequest post unmarshal c r = Inr i"
  shows "i \<noteq> [] \<and> senderPubkeyHash c \<noteq> [] \<and>
    (\<exists>r' st body a b. SignReceipt E (signingKey c) (r\<lparr>SenderPublicKeyHash := senderPubkeyHash c\<rparr>) = Inr r' \<and>
      post (apiEndpoint c @ ''/v1/receipts'') (receipt_json r') = Inr (st, body) \<and> (st = 200 \<or> st = 201) \<and>
      unmarshal body = Inr (a, b) \<and> (i = a \<or> a = [] \<and> i = b))"
  using assms by (auto simp: Submit_def Let_def split: if_splits sum.splits prod.splits)

theorem submit_sound_witness:
  "\<exists>r'. SignReceipt demo_ext (replicate 64 (CHR ''k'')) (demo_receipt 50\<lparr>SenderPublicKeyHash := ''aa''\<rparr>) = Inr r'"
proof -
  let ?c = "\<lparr>apiEndpoint = ''https://o'', senderPubkeyHash = ''aa'', signingKey = replicate 64 (CHR ''k'')\<rparr>"
  have "Submit demo_ext (\<lambda>_. Inr ()) (\<lambda>_ _. Inr (201, [])) (\<lambda>_. Inr (''rid'', [])) ?c (demo_receipt 50) = Inr ''rid''"
    by (simp add: Submit_def Let_def SignReceipt_ok)
  from submit_sound [OF this] show ?thesis by auto
qed

end
