(* ===== verification/Payment.thy ===== *)
theory Payment
  imports Lightning Observer
begin

text \<open>
  \<open>internal/payment/dispatcher.go\<close>: the bounded queue of reward payments, its recovery at start,
  the worker that pays with retries, and the submission of observer receipts. A job is
  processed in one step; the goroutine that \<open>process\<close> starts for the receipt is an entry of
  \<open>w_receipts\<close> and a step of its own. \<open>w_sent\<close> is the log of the requests made to the Lightning
  node, and the number of a request selects the node's answer.
\<close>

section \<open>Definitions\<close>

definition queueSize :: nat where "queueSize = 1000"

text \<open>
  The dispatcher and its constructor. \<open>SubmitFn\<close> overrides the client in tests only. The queue that
  \<open>New\<close> makes is empty; the queue of the running dispatcher is the field \<open>w_queue\<close> of the world.
\<close>

record Dispatcher =
  dp_ln :: "Client option"
  dp_rdb :: bool
  dp_observer :: "observer_Client option"
  dp_SubmitFn :: "(Receipt \<Rightarrow> string result) option"
  dp_queue :: "paymentJob list"

definition dispatcher_New :: "Client option \<Rightarrow> bool \<Rightarrow> observer_Client option \<Rightarrow> Dispatcher" where
  "dispatcher_New lnc rdb obs = \<lparr>dp_ln = lnc, dp_rdb = rdb, dp_observer = obs, dp_SubmitFn = None, dp_queue = []\<rparr>"

text \<open>Whether a settled payment starts a goroutine for its receipt.\<close>

definition sends_receipts :: "Dispatcher \<Rightarrow> bool" where
  "sends_receipts d \<longleftrightarrow> dp_observer d \<noteq> None \<or> dp_SubmitFn d \<noteq> None"

definition parsePubkeyFromLNURI :: "string \<Rightarrow> string" where
  "parsePubkeyFromLNURI lnURI = TrimSpace (before (CHR ''@'') lnURI)"

text \<open>The non-blocking send on the channel: a full queue drops the job.\<close>

definition enqueue_job :: "paymentJob \<Rightarrow> paymentJob list \<Rightarrow> paymentJob list" where
  "enqueue_job j q = (if length q < queueSize then q @ [j] else q)"

definition Enqueue :: "uuid \<Rightarrow> string \<Rightarrow> int \<Rightarrow> world \<Rightarrow> world" where
  "Enqueue taskID nodeLNURI amountSats w =
     w\<lparr>w_queue := enqueue_job \<lparr>j_TaskID = taskID, j_NodeLNURI = nodeLNURI, j_AmountSats = amountSats\<rparr> (w_queue w)\<rparr>"

text \<open>
  A row whose \<open>node_ln_uri\<close> is NULL does not scan into a string. The driver closes a result as
  soon as a row does not scan, so the recovery ends there and the rows behind are not seen.
\<close>

definition recovery_job :: "task_row \<Rightarrow> paymentJob option" where
  "recovery_job t = map_option (\<lambda>uri. \<lparr>j_TaskID = tk_id t, j_NodeLNURI = uri, j_AmountSats = tk_reward t\<rparr>) (tk_ln_uri t)"

definition Start :: "world \<Rightarrow> world" where
  "Start w =
     (case db_query (\<lambda>w. sql_select (\<lambda>t. tk_payment_status t = ''pending'' \<and> tk_status t = ''completed'') (w_tasks w)) w of
       (Inl _, w) \<Rightarrow> w
     | (Inr rows, w) \<Rightarrow> w\<lparr>w_queue := foldl (\<lambda>q t. case recovery_job t of None \<Rightarrow> q | Some j \<Rightarrow> enqueue_job j q)
         (w_queue w) (takeWhile (\<lambda>t. tk_ln_uri t \<noteq> None) rows)\<rparr>)"

datatype pay_outcome = Paid string | Cancelled | GaveUp

definition payment_request :: "paymentJob \<Rightarrow> SendPaymentRequest" where
  "payment_request job = \<lparr>DestPubkeyHex = parsePubkeyFromLNURI (j_NodeLNURI job), AmountSats = j_AmountSats job,
     Memo = [], TimeoutSecs = 60\<rparr>"

text \<open>
  The loop over the attempts. \<open>done k\<close> tells whether the context ends during the wait before
  attempt \<open>k\<close>; there is no wait before the first.
\<close>

fun attempt_loop :: "Client \<Rightarrow> (nat \<Rightarrow> bool) \<Rightarrow> SendPaymentRequest \<Rightarrow> nat list \<Rightarrow> world \<Rightarrow> pay_outcome \<times> world" where
  "attempt_loop lnc ctx_done req [] w = (GaveUp, w)"
| "attempt_loop lnc ctx_done req (attempt # rest) w =
     (if 0 < attempt \<and> ctx_done attempt then (Cancelled, w)
      else let res = SendPayment lnc (length (w_sent w)) req; w = w\<lparr>w_sent := w_sent w @ [req]\<rparr> in
        (case res of
          Inl _ \<Rightarrow> attempt_loop lnc ctx_done req rest w
        | Inr None \<Rightarrow> attempt_loop lnc ctx_done req rest w
        | Inr (Some r) \<Rightarrow>
            if pr_Status r = ''SUCCEEDED'' then (Paid (Preimage r), w)
            else attempt_loop lnc ctx_done req rest w))"

text \<open>\<open>obs\<close> tells whether an observer client or a submit function is configured.\<close>

definition process :: "Client \<Rightarrow> bool \<Rightarrow> (nat \<Rightarrow> bool) \<Rightarrow> paymentJob \<Rightarrow> world \<Rightarrow> world" where
  "process lnc obs ctx_done job w =
     (case attempt_loop lnc ctx_done (payment_request job) [0, 1, 2, 3] w of
       (Cancelled, w) \<Rightarrow> w
     | (Paid preimage, w) \<Rightarrow>
         (case db_exec (\<lambda>w. w\<lparr>w_tasks := sql_update (\<lambda>t. tk_id t = j_TaskID job \<and> tk_payment_status t = ''pending'')
             (\<lambda>t. t\<lparr>tk_payment_status := ''paid'', tk_preimage := Some preimage\<rparr>) (w_tasks w)\<rparr>) w of
           (Inl _, w) \<Rightarrow> w
         | (Inr _, w) \<Rightarrow>
             let w = counter_inc ''owm_payments_total'' [''paid''] w;
                 w = w\<lparr>w_paid_sats := w_paid_sats w + j_AmountSats job\<rparr>
             in if obs then w\<lparr>w_receipts := w_receipts w @ [(job, preimage)]\<rparr> else w)
     | (GaveUp, w) \<Rightarrow>
         counter_inc ''owm_payments_total'' [''failed'']
           (snd (db_exec (\<lambda>w. w\<lparr>w_tasks := sql_update (\<lambda>t. tk_id t = j_TaskID job \<and> tk_payment_status t = ''pending'')
              (\<lambda>t. t\<lparr>tk_payment_status := ''failed''\<rparr>) (w_tasks w)\<rparr>) w)))"

text \<open>One turn of \<open>worker\<close> that takes a job.\<close>

definition worker :: "Client \<Rightarrow> bool \<Rightarrow> (nat \<Rightarrow> bool) \<Rightarrow> world \<Rightarrow> world" where
  "worker lnc obs ctx_done w = (case w_queue w of
     [] \<Rightarrow> w | job # q \<Rightarrow> process lnc obs ctx_done job (w\<lparr>w_queue := q\<rparr>))"

definition job_receipt :: "ext \<Rightarrow> paymentJob \<Rightarrow> string \<Rightarrow> Receipt" where
  "job_receipt E job preimage =
     \<lparr>PaymentRail = PaymentRailLightning, SettlementReference = preimage, SenderPublicKeyHash = [],
      ReceiverPublicKeyHash = PubkeyHashHex E (parsePubkeyFromLNURI (j_NodeLNURI job)),
      rc_AmountBucket = AmountBucket (j_AmountSats job), ReceiptHash = [], Signature = []\<rparr>"

abbreviation observer_count :: "string \<Rightarrow> world \<Rightarrow> world" where
  "observer_count r \<equiv> counter_inc ''owm_observer_receipts_total'' [r]"

definition submitObserverReceipt :: "ext \<Rightarrow> (Receipt \<Rightarrow> string result) option \<Rightarrow> paymentJob \<Rightarrow> string \<Rightarrow> world \<Rightarrow> world" where
  "submitObserverReceipt E submitFn job preimage w =
     (case db_query_row (\<lambda>w. case lookup tk_id (j_TaskID job) (w_tasks w) of None \<Rightarrow> None | Some t \<Rightarrow> tk_receipt_id t) w of
       (r, w) \<Rightarrow>
        if (case r of Inr existingID \<Rightarrow> existingID \<noteq> [] | Inl _ \<Rightarrow> False) then observer_count ''skipped'' w
        else case submitFn of
          None \<Rightarrow> w
        | Some submit \<Rightarrow>
          (case submit (job_receipt E job preimage) of
            Inl _ \<Rightarrow> observer_count ''failure'' w
          | Inr receiptID \<Rightarrow>
            if receiptID = [] then observer_count ''failure'' w
            else case db_call (\<lambda>w. (Inr (sql_count (\<lambda>t. tk_id t = j_TaskID job) (w_tasks w)),
                w\<lparr>w_tasks := sql_update (\<lambda>t. tk_id t = j_TaskID job) (\<lambda>t. t\<lparr>tk_receipt_id := Some receiptID\<rparr>) (w_tasks w)\<rparr>)) w of
              (Inl _, w) \<Rightarrow> observer_count ''failure'' w
            | (Inr rowsAffected, w) \<Rightarrow>
              if rowsAffected \<noteq> 1 then observer_count ''not_persisted'' w else observer_count ''success'' w))"

section \<open>The queue\<close>

text \<open>
  A bounded queue with a non-blocking send: what a send does to the sequence of waiting
  elements. A sequence of sends then keeps the first ones that fit, in order.
\<close>

locale bounded_queue =
  fixes enq :: "'a \<Rightarrow> 'q \<Rightarrow> 'q"
    and items :: "'q \<Rightarrow> 'a list"
    and cap :: nat
  assumes enq_items: "length (items q) \<le> cap \<Longrightarrow> items (enq a q) = take cap (items q @ [a])"
begin

lemma enq_bound: "length (items q) \<le> cap \<Longrightarrow> length (items (enq a q)) \<le> cap"
  by (simp add: enq_items)

lemma enq_all:
  "length (items q) \<le> cap \<Longrightarrow> items (foldl (\<lambda>q a. enq a q) q as) = take cap (items q @ as)"
proof (induction as arbitrary: q)
  case (Cons a as)
  from Cons.IH [OF enq_bound [OF Cons.prems, of a]] show ?case
    using Cons.prems by (cases "length (items q) = cap") (simp_all add: enq_items)
qed simp

end

interpretation jobs: bounded_queue enqueue_job "\<lambda>q. q" queueSize
  by unfold_locales (auto simp: enqueue_job_def)

lemma recovery_fold:
  "foldl (\<lambda>q t. case recovery_job t of None \<Rightarrow> q | Some j \<Rightarrow> enqueue_job j q) q rows =
   foldl (\<lambda>q j. enqueue_job j q) q (List.map_filter recovery_job rows)"
  by (induction rows arbitrary: q) (auto simp: List.map_filter_simps split: option.splits)

lemma Start_queue:
  assumes "length (w_queue w) \<le> queueSize"
  shows "w_queue (Start w) = (if db_down w then w_queue w else take queueSize (w_queue w @ List.map_filter recovery_job
    (takeWhile (\<lambda>t. tk_ln_uri t \<noteq> None) (sql_select (\<lambda>t. tk_payment_status t = ''pending'' \<and> tk_status t = ''completed'') (w_tasks w)))))"
  using jobs.enq_all [OF assms] by (simp add: Start_def db_call_def recovery_fold)

section \<open>Paying\<close>

text \<open>The preimage of an answer that settles a payment.\<close>

definition settled :: "PaymentResult option result \<Rightarrow> string option" where
  "settled res = (case res of
     Inr (Some r) \<Rightarrow> if pr_Status r = ''SUCCEEDED'' then Some (Preimage r) else None | _ \<Rightarrow> None)"

lemma attempt_step:
  "attempt_loop lnc d req (a # as) w =
    (if 0 < a \<and> d a then (Cancelled, w)
     else case settled (SendPayment lnc (length (w_sent w)) req) of
       Some p \<Rightarrow> (Paid p, w\<lparr>w_sent := w_sent w @ [req]\<rparr>)
     | None \<Rightarrow> attempt_loop lnc d req as (w\<lparr>w_sent := w_sent w @ [req]\<rparr>))"
  by (auto simp: settled_def Let_def split: sum.splits option.splits)

text \<open>
  What \<open>k\<close> requests out of at most \<open>len\<close> say about the node's answers: none before the last one
  settled the payment, and the last one did exactly when the outcome is \<open>Paid\<close>.
\<close>

definition tries :: "(nat \<Rightarrow> string option) \<Rightarrow> pay_outcome \<Rightarrow> nat \<Rightarrow> nat \<Rightarrow> bool" where
  "tries ans out len k \<longleftrightarrow> k \<le> len \<and> (\<forall>i. i + 1 < k \<longrightarrow> ans i = None) \<and>
     (case out of Paid p \<Rightarrow> 0 < k \<and> ans (k - 1) = Some p
      | Cancelled \<Rightarrow> (\<forall>i<k. ans i = None) | GaveUp \<Rightarrow> k = len \<and> (\<forall>i<k. ans i = None))"

lemma tries_Suc:
  assumes "ans 0 = None" "tries (\<lambda>i. ans (Suc i)) out len k"
  shows "tries ans out (Suc len) (Suc k)"
proof -
  have a: "\<forall>i. i + 1 < Suc k \<longrightarrow> ans i = None"
  proof (intro allI impI)
    fix i assume "i + 1 < Suc k"
    then show "ans i = None" using assms by (cases i) (auto simp: tries_def)
  qed
  have b: "\<forall>i<Suc k. ans i = None" if "\<forall>i<k. ans (Suc i) = None"
    using assms(1) that less_Suc_eq_0_disj by auto
  show ?thesis
  proof (cases out)
    case (Paid p)
    then have k: "0 < k" "ans (Suc (k - 1)) = Some p" "k \<le> len" using assms(2) by (auto simp: tries_def)
    moreover have "Suc (k - 1) = k" using k(1) by simp
    ultimately show ?thesis using a Paid by (simp add: tries_def)
  qed (use a b assms(2) in \<open>simp_all add: tries_def\<close>)
qed

definition answers :: "Client \<Rightarrow> SendPaymentRequest \<Rightarrow> world \<Rightarrow> nat \<Rightarrow> string option" where
  "answers lnc req w i = settled (SendPayment lnc (length (w_sent w) + i) req)"

lemma answers_Suc: "answers lnc req (w\<lparr>w_sent := w_sent w @ [req]\<rparr>) = (\<lambda>i. answers lnc req w (Suc i))"
  by (simp add: answers_def fun_eq_iff)

lemma attempt_loop_spec:
  "attempt_loop lnc d req as w = (out, w') \<Longrightarrow>
   \<exists>k. w' = w\<lparr>w_sent := w_sent w @ replicate k req\<rparr> \<and> tries (answers lnc req w) out (length as) k"
proof (induction as arbitrary: w)
  case Nil
  then show ?case by (intro exI [of _ 0]) (auto simp: tries_def)
next
  case (Cons a as)
  note pr = Cons.prems [unfolded attempt_step]
  consider "0 < a \<and> d a" | p where "\<not> (0 < a \<and> d a)" "answers lnc req w 0 = Some p"
    | "\<not> (0 < a \<and> d a)" "answers lnc req w 0 = None" by (metis option.exhaust)
  then show ?case
  proof cases
    case 1
    with pr show ?thesis by (intro exI [of _ 0]) (auto simp: tries_def)
  next
    case 2
    with pr show ?thesis by (intro exI [of _ 1]) (auto simp: tries_def answers_def)
  next
    case 3
    then have "attempt_loop lnc d req as (w\<lparr>w_sent := w_sent w @ [req]\<rparr>) = (out, w')"
      using pr by (simp add: answers_def split: if_splits)
    from Cons.IH [OF this] obtain k where k: "w' = w\<lparr>w_sent := (w_sent w @ [req]) @ replicate k req\<rparr>"
      "tries (answers lnc req (w\<lparr>w_sent := w_sent w @ [req]\<rparr>)) out (length as) k" by auto
    show ?thesis
      using k(1) tries_Suc [OF 3(2) k(2) [unfolded answers_Suc]] by (intro exI [of _ "Suc k"]) simp
  qed
qed

lemma attempt_four:
  assumes "attempt_loop lnc d req [0, 1, 2, 3] w = (out, w')"
  obtains k where "w' = w\<lparr>w_sent := w_sent w @ replicate k req\<rparr>" "tries (answers lnc req w) out 4 k"
proof -
  have "length [0, 1, 2, 3 :: nat] = 4" by simp
  then show thesis using attempt_loop_spec [OF assms] that by metis
qed

text \<open>What a settled job does to the tables, and what a failed one does.\<close>

definition mark_paid :: "paymentJob \<Rightarrow> string \<Rightarrow> task_row list \<Rightarrow> task_row list" where
  "mark_paid job p = sql_update (\<lambda>t. tk_id t = j_TaskID job \<and> tk_payment_status t = ''pending'')
     (\<lambda>t. t\<lparr>tk_payment_status := ''paid'', tk_preimage := Some p\<rparr>)"

definition mark_failed :: "paymentJob \<Rightarrow> task_row list \<Rightarrow> task_row list" where
  "mark_failed job = sql_update (\<lambda>t. tk_id t = j_TaskID job \<and> tk_payment_status t = ''pending'')
     (\<lambda>t. t\<lparr>tk_payment_status := ''failed''\<rparr>)"

lemma mark_paid_twice: "mark_paid job q (mark_paid job p ts) = mark_paid job p ts"
  by (auto simp: mark_paid_def sql_update_def)

lemma process_effect:
  "\<exists>out k. tries (answers lnc (payment_request job) w) out 4 k \<and>
    w_sent (process lnc obs d job w) = w_sent w @ replicate k (payment_request job) \<and>
    (w_tasks (process lnc obs d job w) = w_tasks w \<or>
     (\<exists>p. out = Paid p \<and> w_tasks (process lnc obs d job w) = mark_paid job p (w_tasks w)) \<or>
     (out = GaveUp \<and> w_tasks (process lnc obs d job w) = mark_failed job (w_tasks w)))"
proof -
  obtain out w1 where l: "attempt_loop lnc d (payment_request job) [0, 1, 2, 3] w = (out, w1)" by fastforce
  obtain k where k: "w1 = w\<lparr>w_sent := w_sent w @ replicate k (payment_request job)\<rparr>"
    "tries (answers lnc (payment_request job) w) out 4 k" using attempt_four [OF l] .
  show ?thesis
    using k unfolding process_def l
    by (intro exI [of _ out] exI [of _ k])
      (cases out; auto simp: db_call_def Let_def mark_paid_def mark_failed_def)
qed

lemma tries_first:
  assumes "tries ans out len k" "\<And>i. i < m \<Longrightarrow> ans i = None" "ans m = Some p" "m < len" "out \<noteq> Cancelled"
  shows "out = Paid p \<and> k = Suc m"
proof -
  have "\<not> m + 1 < k" using assms(1,3) by (auto simp: tries_def)
  then show ?thesis using assms
    by (cases out; cases "k = Suc m") (auto simp: tries_def less_Suc_eq)
qed

lemma attempt_not_cancelled:
  "(\<And>k. \<not> d k) \<Longrightarrow> attempt_loop lnc d req as w \<noteq> (Cancelled, w')"
  by (induction as arbitrary: w) (auto simp: attempt_step simp del: attempt_loop.simps(2) split: option.splits)

text \<open>With a working database and no shutdown: the first settled answer within four attempts decides.\<close>

lemma process_paid:
  assumes "healthy w" "\<And>k. \<not> d k" "m < 4" "\<And>i. i < m \<Longrightarrow> answers lnc (payment_request job) w i = None"
    and "answers lnc (payment_request job) w m = Some p"
  shows "process lnc obs d job w = (let w' = counter_inc ''owm_payments_total'' [''paid'']
      (w\<lparr>w_sent := w_sent w @ replicate (Suc m) (payment_request job), w_tasks := mark_paid job p (w_tasks w)\<rparr>);
      w' = w'\<lparr>w_paid_sats := w_paid_sats w + j_AmountSats job\<rparr>
    in if obs then w'\<lparr>w_receipts := w_receipts w @ [(job, p)]\<rparr> else w')"
proof -
  obtain out w1 where l: "attempt_loop lnc d (payment_request job) [0, 1, 2, 3] w = (out, w1)" by fastforce
  have "out \<noteq> Cancelled" using attempt_not_cancelled [of d lnc "payment_request job" "[0, 1, 2, 3]" w w1] l assms(2) by auto
  moreover obtain k where k: "w1 = w\<lparr>w_sent := w_sent w @ replicate k (payment_request job)\<rparr>"
    "tries (answers lnc (payment_request job) w) out 4 k" using attempt_four [OF l] .
  ultimately have o: "out = Paid p" "k = Suc m" using tries_first [OF k(2) assms(4,5,3)] by auto
  have h: "healthy (w\<lparr>w_sent := x\<rparr>)" for x using assms(1) by (simp add: healthy_def)
  show ?thesis unfolding process_def l o k(1)
    by (simp add: db_call_healthy [OF h] mark_paid_def Let_def)
qed

lemma process_failed:
  assumes "healthy w" "\<And>k. \<not> d k" "\<And>i. i < 4 \<Longrightarrow> answers lnc (payment_request job) w i = None"
  shows "process lnc obs d job w = counter_inc ''owm_payments_total'' [''failed'']
    (w\<lparr>w_sent := w_sent w @ replicate 4 (payment_request job), w_tasks := mark_failed job (w_tasks w)\<rparr>)"
proof -
  obtain out w1 where l: "attempt_loop lnc d (payment_request job) [0, 1, 2, 3] w = (out, w1)" by fastforce
  have "out \<noteq> Cancelled" using attempt_not_cancelled [of d lnc "payment_request job" "[0, 1, 2, 3]" w w1] l assms(2) by auto
  moreover obtain k where k: "w1 = w\<lparr>w_sent := w_sent w @ replicate k (payment_request job)\<rparr>"
    "tries (answers lnc (payment_request job) w) out 4 k" using attempt_four [OF l] .
  ultimately have o: "out = GaveUp" "k = 4" using assms(3) by (cases out; auto simp: tries_def)+
  have h: "healthy (w\<lparr>w_sent := x\<rparr>)" for x using assms(1) by (simp add: healthy_def)
  show ?thesis unfolding process_def l o k(1)
    by (simp add: db_call_healthy [OF h] mark_failed_def)
qed

lemma mark_paid_ok [wf_intros]: "tasks_ok ts \<Longrightarrow> tasks_ok (mark_paid job p ts)"
  unfolding mark_paid_def by (rule tasks_ok_update) (auto simp: task_ok_def payment_statuses_def)

lemma mark_failed_ok [wf_intros]: "tasks_ok ts \<Longrightarrow> tasks_ok (mark_failed job ts)"
  unfolding mark_failed_def by (rule tasks_ok_update) (auto simp: task_ok_def payment_statuses_def)

lemma process_tasks_ok [wf_intros]: "tasks_ok (w_tasks w) \<Longrightarrow> tasks_ok (w_tasks (process lnc obs d job w))"
  using process_effect [of lnc job w obs d] by (auto intro: wf_intros)

lemma submitObserverReceipt_tasks_ok [wf_intros]:
  "tasks_ok (w_tasks w) \<Longrightarrow> tasks_ok (w_tasks (submitObserverReceipt E f job p w))"
  by (auto simp: submitObserverReceipt_def db_call_def Let_def split: option.splits sum.splits prod.splits if_splits
      intro!: tasks_ok_update) (auto simp: task_ok_def)

lemma lookup_mark_paid:
  "lookup tk_id i (mark_paid job p ts) = map_option (\<lambda>t. if i = j_TaskID job \<and> tk_payment_status t = ''pending''
     then t\<lparr>tk_payment_status := ''paid'', tk_preimage := Some p\<rparr> else t) (lookup tk_id i ts)"
  by (cases "lookup tk_id i ts") (auto simp: mark_paid_def lookup_update dest!: lookup_Some)

lemma lookup_mark_failed:
  "lookup tk_id i (mark_failed job ts) = map_option (\<lambda>t. if i = j_TaskID job \<and> tk_payment_status t = ''pending''
     then t\<lparr>tk_payment_status := ''failed''\<rparr> else t) (lookup tk_id i ts)"
  by (cases "lookup tk_id i ts") (auto simp: mark_failed_def lookup_update dest!: lookup_Some)

lemma sql_count_key: "keyed key rows \<Longrightarrow> r \<in> set rows \<Longrightarrow> sql_count (\<lambda>s. key s = key r) rows = 1"
proof (induction rows)
  case (Cons s rows)
  show ?case
  proof (cases "s = r")
    case True
    with Cons.prems have "\<forall>t\<in>set rows. key t \<noteq> key r" by (auto simp: keyed_def image_iff)
    then show ?thesis using True sql_count_0 [of "\<lambda>s. key s = key r" rows] by (simp add: sql_count_def)
  next
    case False
    with Cons.prems have "key s \<noteq> key r" by (metis keyed_unique list.set_intros(1))
    with False Cons show ?thesis by (auto simp: sql_count_def keyed_def)
  qed
qed simp

section \<open>A concrete payment\<close>

definition demo_task :: "string \<Rightarrow> string \<Rightarrow> task_row" where
  "demo_task st pst = \<lparr>tk_id = 1, tk_type = ''inference'', tk_assigned = Some 7, tk_ln_uri = Some ''02ab@host:9735'',
     tk_status = st, tk_input_hash = ''h'', tk_output_hash = None, tk_reward = 10, tk_payment_status = pst,
     tk_preimage = None, tk_submitted = 0, tk_started = Some 0, tk_completed = None, tk_timeout = 30, tk_receipt_id = None\<rparr>"

definition demo_job :: paymentJob where
  "demo_job = \<lparr>j_TaskID = 1, j_NodeLNURI = ''02ab@host:9735'', j_AmountSats = 10\<rparr>"

definition demo_pay_world :: "task_row list \<Rightarrow> world" where
  "demo_pay_world ts = (empty_world 0)\<lparr>w_tasks := ts\<rparr>"

lemma demo_pay_world_simps [simp]: "healthy (demo_pay_world ts)" "w_tasks (demo_pay_world ts) = ts"
  "w_sent (demo_pay_world ts) = []" "w_paid_sats (demo_pay_world ts) = 0" "w_receipts (demo_pay_world ts) = []"
  "w_queue (demo_pay_world ts) = []" "\<not> db_down (demo_pay_world ts)"
  by (simp_all add: demo_pay_world_def empty_world_def healthy_def db_down_def)

lemma demo_task_simps [simp]: "tk_id (demo_task st pst) = 1" "tk_status (demo_task st pst) = st"
  "tk_payment_status (demo_task st pst) = pst" "tk_reward (demo_task st pst) = 10"
  "tk_ln_uri (demo_task st pst) = Some ''02ab@host:9735''" "tk_receipt_id (demo_task st pst) = None"
  by (simp_all add: demo_task_def)

lemma demo_job_simps [simp]: "j_TaskID demo_job = 1" "j_AmountSats demo_job = 10"
  by (simp_all add: demo_job_def)

definition demo_payer :: Client where "demo_payer = mock_Client mock_New"

lemma demo_payer_answers: "answers demo_payer req w i = Some ''mock-preimage''"
  by (simp add: answers_def settled_def demo_payer_def mock_Client_def mock_SendPayment_def mock_New_def)

section \<open>Properties\<close>

text \<open>
  C3 (payments are safe). Whatever the node answers, whichever database calls fail and
  whenever the coordinator shuts down: a job makes at most four payment requests, all of them
  for the job's node and amount; no request follows one that settled; and the only change to
  the task table is that the job's pending row becomes paid with the preimage of the answer
  that settled, or failed when none of four answers did.
\<close>

theorem payment_safe:
  "\<exists>k\<le>4. w_sent (process lnc obs d job w) = w_sent w @ replicate k
      \<lparr>DestPubkeyHex = parsePubkeyFromLNURI (j_NodeLNURI job), AmountSats = j_AmountSats job, Memo = [], TimeoutSecs = 60\<rparr> \<and>
    (\<forall>i. i + 1 < k \<longrightarrow> answers lnc (payment_request job) w i = None) \<and>
    (w_tasks (process lnc obs d job w) = w_tasks w \<or>
     (\<exists>p. 0 < k \<and> answers lnc (payment_request job) w (k - 1) = Some p \<and>
        w_tasks (process lnc obs d job w) = mark_paid job p (w_tasks w)) \<or>
     (k = 4 \<and> (\<forall>i<4. answers lnc (payment_request job) w i = None) \<and>
        w_tasks (process lnc obs d job w) = mark_failed job (w_tasks w)))"
proof -
  obtain out k where k: "tries (answers lnc (payment_request job) w) out 4 k"
    "w_sent (process lnc obs d job w) = w_sent w @ replicate k (payment_request job)"
    "w_tasks (process lnc obs d job w) = w_tasks w \<or>
     (\<exists>p. out = Paid p \<and> w_tasks (process lnc obs d job w) = mark_paid job p (w_tasks w)) \<or>
     (out = GaveUp \<and> w_tasks (process lnc obs d job w) = mark_failed job (w_tasks w))"
    using process_effect [of lnc job w obs d] by blast
  show ?thesis unfolding payment_request_def [symmetric]
    by (rule exI [of _ k]) (use k in \<open>auto simp: tries_def\<close>)
qed

theorem payment_safe_witness:
  "\<exists>k\<le>4. w_sent (process demo_payer False (\<lambda>_. False) demo_job (demo_pay_world [demo_task ''completed'' ''pending''])) =
     replicate k \<lparr>DestPubkeyHex = ''02ab'', AmountSats = 10, Memo = [], TimeoutSecs = 60\<rparr>"
proof -
  have "parsePubkeyFromLNURI (j_NodeLNURI demo_job) = ''02ab''"
    by (simp add: parsePubkeyFromLNURI_def demo_job_def before_def TrimSpace_def is_space_def)
  then show ?thesis
    using payment_safe [of demo_payer False "\<lambda>_. False" demo_job "demo_pay_world [demo_task ''completed'' ''pending'']"] by auto
qed

text \<open>
  With a working database and no shutdown, a pending task is paid when
  one of the first four answers settles: its row then holds that answer's preimage, the amount
  is counted once and a receipt is due when an observer is configured. It is marked failed
  after four requests when none does, an answer that is merely in flight included.
\<close>

theorem payment_outcome:
  assumes "healthy w" "\<forall>k. \<not> d k" "lookup tk_id (j_TaskID job) (w_tasks w) = Some t" "tk_payment_status t = ''pending''"
  shows "(\<forall>m p. m < 4 \<and> (\<forall>i<m. answers lnc (payment_request job) w i = None) \<and>
        answers lnc (payment_request job) w m = Some p \<longrightarrow>
      (let w' = process lnc obs d job w in
        lookup tk_id (j_TaskID job) (w_tasks w') = Some (t\<lparr>tk_payment_status := ''paid'', tk_preimage := Some p\<rparr>) \<and>
        length (w_sent w') = length (w_sent w) + m + 1 \<and> w_paid_sats w' = w_paid_sats w + j_AmountSats job \<and>
        w_receipts w' = w_receipts w @ (if obs then [(job, p)] else []))) \<and>
    ((\<forall>i<4. answers lnc (payment_request job) w i = None) \<longrightarrow>
      (let w' = process lnc obs d job w in
        lookup tk_id (j_TaskID job) (w_tasks w') = Some (t\<lparr>tk_payment_status := ''failed''\<rparr>) \<and>
        length (w_sent w') = length (w_sent w) + 4 \<and> w_paid_sats w' = w_paid_sats w \<and> w_receipts w' = w_receipts w))"
proof (intro conjI allI impI)
  fix m p assume "m < 4 \<and> (\<forall>i<m. answers lnc (payment_request job) w i = None) \<and>
        answers lnc (payment_request job) w m = Some p"
  then have eq: "process lnc obs d job w = (let w' = counter_inc ''owm_payments_total'' [''paid'']
      (w\<lparr>w_sent := w_sent w @ replicate (Suc m) (payment_request job), w_tasks := mark_paid job p (w_tasks w)\<rparr>);
      w' = w'\<lparr>w_paid_sats := w_paid_sats w + j_AmountSats job\<rparr>
    in if obs then w'\<lparr>w_receipts := w_receipts w @ [(job, p)]\<rparr> else w')"
    using assms(1,2) by (intro process_paid) auto
  show "let w' = process lnc obs d job w in
        lookup tk_id (j_TaskID job) (w_tasks w') = Some (t\<lparr>tk_payment_status := ''paid'', tk_preimage := Some p\<rparr>) \<and>
        length (w_sent w') = length (w_sent w) + m + 1 \<and> w_paid_sats w' = w_paid_sats w + j_AmountSats job \<and>
        w_receipts w' = w_receipts w @ (if obs then [(job, p)] else [])"
    using assms(3,4) by (simp add: eq Let_def lookup_mark_paid)
next
  assume "\<forall>i<4. answers lnc (payment_request job) w i = None"
  then have eq: "process lnc obs d job w = counter_inc ''owm_payments_total'' [''failed'']
    (w\<lparr>w_sent := w_sent w @ replicate 4 (payment_request job), w_tasks := mark_failed job (w_tasks w)\<rparr>)"
    using assms(1,2) by (intro process_failed) auto
  show "let w' = process lnc obs d job w in
        lookup tk_id (j_TaskID job) (w_tasks w') = Some (t\<lparr>tk_payment_status := ''failed''\<rparr>) \<and>
        length (w_sent w') = length (w_sent w) + 4 \<and> w_paid_sats w' = w_paid_sats w \<and> w_receipts w' = w_receipts w"
    using assms(3,4) by (simp add: eq lookup_mark_failed)
qed

theorem payment_outcome_witness:
  "w_paid_sats (process demo_payer True (\<lambda>_. False) demo_job (demo_pay_world [demo_task ''completed'' ''pending''])) = 10"
proof -
  let ?w = "demo_pay_world [demo_task ''completed'' ''pending'']"
  have "lookup tk_id (j_TaskID demo_job) (w_tasks ?w) = Some (demo_task ''completed'' ''pending'')"
    by (simp add: lookup_def sql_row_def)
  note payment_outcome [OF demo_pay_world_simps(1) _ this, of "\<lambda>_. False" demo_payer True, THEN conjunct1, rule_format, of 0 "''mock-preimage''"]
  then show ?thesis by (simp add: demo_payer_answers Let_def)
qed

text \<open>
  A task can be paid twice. The dispatcher does not look at the task before it pays:
  when the same job is processed twice and the node settles both, two payments of the full
  amount are made, while the task row shows the first only.
\<close>

theorem duplicate_job_pays_twice:
  assumes "healthy w" "\<forall>k. \<not> d k" "\<forall>w i. answers lnc (payment_request job) w i \<noteq> None"
  shows "w_sent (process lnc obs d job (process lnc obs d job w)) = w_sent w @ [payment_request job, payment_request job] \<and>
    w_paid_sats (process lnc obs d job (process lnc obs d job w)) = w_paid_sats w + 2 * j_AmountSats job \<and>
    w_tasks (process lnc obs d job (process lnc obs d job w)) = w_tasks (process lnc obs d job w)"
proof -
  let ?w1 = "process lnc obs d job w"
  obtain p where p: "answers lnc (payment_request job) w 0 = Some p" using assms(3) by blast
  have h: "healthy ?w1" and s: "w_sent ?w1 = w_sent w @ [payment_request job]"
    "w_paid_sats ?w1 = w_paid_sats w + j_AmountSats job" "w_tasks ?w1 = mark_paid job p (w_tasks w)"
    using assms(1,2) process_paid [OF assms(1) _ _ _ p, of d obs] by (auto simp: Let_def healthy_def)
  obtain q where q: "answers lnc (payment_request job) ?w1 0 = Some q" using assms(3) by blast
  show ?thesis
    using assms(2) process_paid [OF h _ _ _ q, of d obs] s by (auto simp: Let_def mark_paid_twice)
qed

theorem duplicate_job_pays_twice_witness:
  "w_paid_sats (process demo_payer False (\<lambda>_. False) demo_job (process demo_payer False (\<lambda>_. False) demo_job
     (demo_pay_world [demo_task ''completed'' ''pending'']))) = 20"
  using duplicate_job_pays_twice [of "demo_pay_world [demo_task ''completed'' ''pending'']" "\<lambda>_. False" demo_payer demo_job False]
  by (simp add: demo_payer_answers)

text \<open>
  C35 (queue and recovery). No operation lets the queue grow beyond 1000 jobs; a job is
  appended when there is room and dropped otherwise; and at start, with a working database,
  the queue receives, in table order and up to its size, the jobs of the completed tasks whose
  payment is pending, up to the first whose node address is missing.
\<close>

theorem queue_bounded_recovery:
  assumes "length (w_queue w) \<le> 1000"
  shows "length (w_queue (Enqueue tid uri amt w)) \<le> 1000 \<and> length (w_queue (Start w)) \<le> 1000 \<and>
    w_queue (Enqueue tid uri amt w) = w_queue w @
      (if length (w_queue w) < 1000 then [\<lparr>j_TaskID = tid, j_NodeLNURI = uri, j_AmountSats = amt\<rparr>] else []) \<and>
    (\<not> db_down w \<longrightarrow> w_queue (Start w) = take 1000 (w_queue w @ List.map_filter recovery_job
      (takeWhile (\<lambda>t. tk_ln_uri t \<noteq> None)
        (filter (\<lambda>t. tk_payment_status t = ''pending'' \<and> tk_status t = ''completed'') (w_tasks w)))))"
  using assms Start_queue [of w] by (auto simp: Enqueue_def enqueue_job_def queueSize_def sql_select_def)

theorem queue_bounded_recovery_witness:
  "w_queue (Start (demo_pay_world [demo_task ''completed'' ''paid'', demo_task ''completed'' ''pending''])) =
     [\<lparr>j_TaskID = 1, j_NodeLNURI = ''02ab@host:9735'', j_AmountSats = 10\<rparr>]"
  using queue_bounded_recovery [of "demo_pay_world [demo_task ''completed'' ''paid'', demo_task ''completed'' ''pending'']"]
  by (simp add: List.map_filter_simps recovery_job_def)

text \<open>
  A receipt is submitted once. A task that already has a receipt identifier is left
  alone: the registry is not called and the row is unchanged. Otherwise an identifier that the
  registry returns is stored in the row, which keeps its payment status and preimage.
\<close>

theorem receipt_once:
  assumes "healthy w" "tasks_ok (w_tasks w)" "lookup tk_id (j_TaskID job) (w_tasks w) = Some t"
  shows "(\<forall>i. tk_receipt_id t = Some i \<and> i \<noteq> [] \<longrightarrow>
      submitObserverReceipt E f job p w = observer_count ''skipped'' w) \<and>
    (\<forall>submit i. (tk_receipt_id t = None \<or> tk_receipt_id t = Some []) \<and> f = Some submit \<and>
        submit (job_receipt E job p) = Inr i \<and> i \<noteq> [] \<longrightarrow>
      submitObserverReceipt E f job p w = observer_count ''success''
        (w\<lparr>w_tasks := sql_update (\<lambda>t. tk_id t = j_TaskID job) (\<lambda>t. t\<lparr>tk_receipt_id := Some i\<rparr>) (w_tasks w)\<rparr>))"
proof -
  have t: "t \<in> set (w_tasks w)" "j_TaskID job = tk_id t" "keyed tk_id (w_tasks w)"
    using lookup_Some [OF assms(3)] assms(2) by (auto simp: tasks_ok_def)
  have "sql_count (\<lambda>s. tk_id s = j_TaskID job) (w_tasks w) = 1"
    unfolding t(2) by (rule sql_count_key [OF t(3,1)])
  then show ?thesis
    using assms(3) by (auto simp: submitObserverReceipt_def db_call_healthy [OF assms(1)] split: option.splits)
qed

theorem receipt_once_witness:
  "w_tasks (submitObserverReceipt demo_ext (Some (\<lambda>_. Inr ''rid'')) demo_job ''pp'' (demo_pay_world [demo_task ''completed'' ''paid''\<lparr>tk_preimage := Some ''pp''\<rparr>])) =
     [demo_task ''completed'' ''paid''\<lparr>tk_preimage := Some ''pp'', tk_receipt_id := Some ''rid''\<rparr>]"
proof -
  let ?t = "demo_task ''completed'' ''paid''\<lparr>tk_preimage := Some ''pp''\<rparr>"
  let ?w = "demo_pay_world [?t]"
  have "tasks_ok (w_tasks ?w)" "lookup tk_id (j_TaskID demo_job) (w_tasks ?w) = Some ?t"
    by (simp_all add: tasks_ok_def keyed_def task_ok_def task_statuses_def payment_statuses_def in_int_def lookup_def sql_row_def)
  from receipt_once [OF demo_pay_world_simps(1) this, of demo_ext "Some (\<lambda>_. Inr ''rid'')" "''pp''"]
  show ?thesis by (simp add: sql_update_def)
qed

end
