(* ===== verification/Fl_Math.thy ===== *)
theory Fl_Math
  imports Go_Float
begin

text \<open>
  The arithmetic of \<open>internal/fl/rounds.go\<close>: norms, median, deviation, clipping and weighted
  averages of gradients. A Go map is the association list of its entries in the order in
  which \<open>range\<close> visits them; Go leaves that order open, and every theorem is about all orders.
\<close>

section \<open>Definitions\<close>

text \<open>What the decoder puts into an \<open>interface{}\<close>, as far as the type switches tell it apart.\<close>

datatype iface = Float64 flt | Float32 flt | GoInt int | GoInt32 int | Array "iface list" | Other

type_synonym raw_map = "(string \<times> iface) list"
type_synonym grad_map = "(string \<times> flt list) list"

fun toFloat64 :: "iface \<Rightarrow> flt option" where
  "toFloat64 (Float64 v) = Some v"
| "toFloat64 (Float32 v) = Some (flt_conv binary64 v)"
| "toFloat64 (GoInt v) = Some (float64 v)"
| "toFloat64 (GoInt32 v) = Some (float64 v)"
| "toFloat64 _ = None"

definition add_square :: "flt \<Rightarrow> flt \<Rightarrow> flt" where
  "add_square acc f = add64 acc (mul64 f f)"

text \<open>The numbers that a gradient map's arrays hold, in the order of the visit.\<close>

fun iface_floats :: "iface \<Rightarrow> flt list" where
  "iface_floats (Array arr) = List.map_filter toFloat64 arr"
| "iface_floats _ = []"

definition l2NormFromMap :: "raw_map \<Rightarrow> flt" where
  "l2NormFromMap m = sqrt64 (foldl (\<lambda>acc (k, v). foldl add_square acc (iface_floats v)) (Fin 0) m)"

definition exchange :: "flt list \<Rightarrow> nat \<Rightarrow> nat \<Rightarrow> flt list" where
  "exchange b i j = (if flt_lt (b ! j) (b ! i) then b[i := b ! j, j := b ! i] else b)"

definition exchange_sort :: "flt list \<Rightarrow> flt list" where
  "exchange_sort b = foldl (\<lambda>b i. foldl (\<lambda>b j. exchange b i j) b [Suc i..<length b]) b [0..<length b]"

definition medianFloat64 :: "flt list \<Rightarrow> flt" where
  "medianFloat64 a =
     (if length a = 0 then Fin 0
      else let b = exchange_sort a; mid = length b div 2 in
        if length b mod 2 = 1 then b ! mid else div64 (add64 (b ! (mid - 1)) (b ! mid)) (Fin 2))"

definition stddevFloat64 :: "flt list \<Rightarrow> flt \<Rightarrow> flt" where
  "stddevFloat64 a mean =
     (if length a < 2 then Fin 0
      else sqrt64 (div64 (foldl (\<lambda>acc x. add_square acc (sub64 x mean)) (Fin 0) a) (float64 (int (length a) - 1))))"

definition toGradMap :: "raw_map \<Rightarrow> grad_map" where
  "toGradMap raw = List.map_filter (\<lambda>(k, v). case v of
     Array arr \<Rightarrow> Some (k, map (\<lambda>x. case toFloat64 x of Some f \<Rightarrow> float32 f | None \<Rightarrow> Fin 0) arr)
   | _ \<Rightarrow> None) raw"

definition grad_norm :: "grad_map \<Rightarrow> flt" where
  "grad_norm m = sqrt64 (foldl (\<lambda>acc (k, arr). foldl add_square acc arr) (Fin 0) m)"

definition clipL2 :: "flt \<Rightarrow> grad_map \<Rightarrow> grad_map" where
  "clipL2 maxNorm m =
     (let norm = grad_norm m in
      if flt_le norm maxNorm \<or> flt_eq norm (Fin 0) then m
      else let scale = div64 maxNorm norm in map (\<lambda>(k, arr). (k, map (\<lambda>v. float32 (mul64 v scale)) arr)) m)"

text \<open>
  \<open>sum[j] += float32(w) * arr[j]\<close> for the positions that both arrays have; the conversion
  rounds the weight, and product and sum are \<open>float32\<close> operations.
\<close>

definition accumulate :: "flt \<Rightarrow> flt list \<Rightarrow> flt list \<Rightarrow> flt list" where
  "accumulate wgt acc arr = map (\<lambda>j. if j < length arr
     then flt_add binary32 (acc ! j) (flt_mul binary32 (float32 wgt) (arr ! j)) else acc ! j) [0..<length acc]"

fun average_key :: "string \<Rightarrow> flt \<Rightarrow> flt list option \<Rightarrow> (grad_map \<times> flt) list \<Rightarrow> flt list option" where
  "average_key key totalWeight acc [] = acc"
| "average_key key totalWeight acc ((g, wgt) # gs) =
     (case map_of g key of
       None \<Rightarrow> average_key key totalWeight acc gs
     | Some arr \<Rightarrow>
         average_key key totalWeight
           (Some (accumulate (div64 wgt totalWeight) (case acc of None \<Rightarrow> replicate (length arr) (Fin 0) | Some s \<Rightarrow> s) arr)) gs)"

definition keysSeen :: "grad_map list \<Rightarrow> string list" where
  "keysSeen grads = remdups (concat (map (map fst) grads))"

definition weightedAverage :: "grad_map list \<Rightarrow> flt list \<Rightarrow> flt \<Rightarrow> grad_map" where
  "weightedAverage grads weights totalWeight =
     List.map_filter (\<lambda>key. map_option (Pair key) (average_key key totalWeight None (zip grads weights))) (keysSeen grads)"

section \<open>The exchange sort\<close>

lemma length_exchange [simp]: "length (exchange b i j) = length b"
  by (simp add: exchange_def)

lemma mset_exchange: "i < length b \<Longrightarrow> j < length b \<Longrightarrow> mset (exchange b i j) = mset b"
  by (simp add: exchange_def mset_swap)

lemma length_inner [simp]: "length (foldl (\<lambda>b j. exchange b i j) b js) = length b"
  by (induction js arbitrary: b) simp_all

lemma mset_inner:
  "i < length b \<Longrightarrow> (\<And>j. j \<in> set js \<Longrightarrow> j < length b) \<Longrightarrow> mset (foldl (\<lambda>b j. exchange b i j) b js) = mset b"
  by (induction js arbitrary: b) (simp_all add: mset_exchange)

lemma exchange_before: "k < i \<Longrightarrow> i < j \<Longrightarrow> exchange b i j ! k = b ! k"
  by (simp add: exchange_def)

lemma inner_before:
  "(\<And>j. j \<in> set js \<Longrightarrow> i < j) \<Longrightarrow> k < i \<Longrightarrow> foldl (\<lambda>b j. exchange b i j) b js ! k = b ! k"
  by (induction js arbitrary: b) (simp_all add: exchange_before)

text \<open>Without NaN the order is total, and the first positions hold the smallest values in order.\<close>

lemma flt_le_total: "a \<noteq> NaN \<Longrightarrow> b \<noteq> NaN \<Longrightarrow> \<not> flt_lt a b \<Longrightarrow> flt_le b a"
  by (cases a; cases b) (auto simp: flt_le_def)

lemma flt_le_refl: "a \<noteq> NaN \<Longrightarrow> flt_le a a"
  by (simp add: flt_le_def)

lemma flt_le_trans': "flt_le a b \<Longrightarrow> flt_le b c \<Longrightarrow> flt_le a c"
  by (auto simp: flt_le_def dest: flt_lt_trans)

lemma flt_lt_le: "flt_lt a b \<Longrightarrow> flt_le a b"
  by (simp add: flt_le_def)

definition settled_to :: "nat \<Rightarrow> flt list \<Rightarrow> bool" where
  "settled_to i b \<longleftrightarrow> (\<forall>k<i. \<forall>l<length b. k < l \<longrightarrow> flt_le (b ! k) (b ! l))"

lemma exchange_nth:
  assumes "i < j" "j < length b" "l < length b"
  shows "exchange b i j ! l = (if flt_lt (b ! j) (b ! i) then if l = i then b ! j else if l = j then b ! i else b ! l else b ! l)"
  using assms by (auto simp: exchange_def nth_list_update)

lemma exchange_settled:
  assumes "settled_to i b" "i < j" "j < length b"
  shows "settled_to i (exchange b i j)"
  using assms by (auto simp: settled_to_def exchange_nth)

lemma NaN_exchange: "i < length b \<Longrightarrow> j < length b \<Longrightarrow> NaN \<notin> set b \<Longrightarrow> NaN \<notin> set (exchange b i j)"
  using mset_exchange mset_eq_setD by metis

lemma inner_settled:
  assumes "settled_to i b" "NaN \<notin> set b" "i < m" "m \<le> length b"
  shows "settled_to i (foldl (\<lambda>b j. exchange b i j) b [Suc i..<m]) \<and>
    NaN \<notin> set (foldl (\<lambda>b j. exchange b i j) b [Suc i..<m]) \<and>
    (\<forall>l. i < l \<and> l < m \<longrightarrow> flt_le (foldl (\<lambda>b j. exchange b i j) b [Suc i..<m] ! i)
      (foldl (\<lambda>b j. exchange b i j) b [Suc i..<m] ! l))"
  using Suc_leI [OF assms(3)] assms(4)
proof (induction m rule: dec_induct)
  case base
  then show ?case using assms(1,2) by (auto simp: less_Suc_eq)
next
  case (step m)
  let ?c = "foldl (\<lambda>b j. exchange b i j) b [Suc i..<m]"
  have c: "settled_to i ?c" "NaN \<notin> set ?c" "\<And>l. i < l \<Longrightarrow> l < m \<Longrightarrow> flt_le (?c ! i) (?c ! l)"
    using step by auto
  have m: "m < length ?c" "i < m" using step by auto
  have e: "foldl (\<lambda>b j. exchange b i j) b [Suc i..<Suc m] = exchange ?c i m"
    using step by simp
  have nn: "?c ! i \<noteq> NaN" "?c ! m \<noteq> NaN" using c(2) m by (metis less_trans nth_mem)+
  have "flt_le (exchange ?c i m ! i) (exchange ?c i m ! l)" if l: "i < l" "l < Suc m" for l
  proof (cases "flt_lt (?c ! m) (?c ! i)")
    case True
    then show ?thesis using l m c(3) [of l]
      by (auto simp: exchange_nth less_Suc_eq intro: flt_le_trans' flt_lt_le)
  next
    case False
    then show ?thesis using l m c(3) [of l] flt_le_total [OF nn(2,1)]
      by (auto simp: exchange_nth less_Suc_eq)
  qed
  then show ?case unfolding e using exchange_settled [OF c(1) m(2,1)] NaN_exchange [of i ?c m] c(2) m by auto
qed

lemma outer_settled:
  assumes "NaN \<notin> set b" "i \<le> length b"
  shows "settled_to i (foldl (\<lambda>b i. foldl (\<lambda>b j. exchange b i j) b [Suc i..<length b]) b [0..<i]) \<and>
    NaN \<notin> set (foldl (\<lambda>b i. foldl (\<lambda>b j. exchange b i j) b [Suc i..<length b]) b [0..<i]) \<and>
    mset (foldl (\<lambda>b i. foldl (\<lambda>b j. exchange b i j) b [Suc i..<length b]) b [0..<i]) = mset b"
  using assms(2)
proof (induction i)
  case 0
  then show ?case using assms(1) by (simp add: settled_to_def)
next
  case (Suc i)
  let ?c = "foldl (\<lambda>b i. foldl (\<lambda>b j. exchange b i j) b [Suc i..<length b]) b [0..<i]"
  have c: "settled_to i ?c" "NaN \<notin> set ?c" "mset ?c = mset b" using Suc by auto
  have n: "length ?c = length b" using c(3) by (rule mset_eq_length)
  let ?d = "foldl (\<lambda>b j. exchange b i j) ?c [Suc i..<length ?c]"
  have d: "settled_to i ?d" "NaN \<notin> set ?d" "\<forall>l. i < l \<and> l < length ?c \<longrightarrow> flt_le (?d ! i) (?d ! l)"
    using inner_settled [OF c(1,2), of "length ?c"] Suc.prems n by auto
  have "mset ?d = mset ?c" using Suc.prems n by (intro mset_inner) auto
  moreover have "settled_to (Suc i) ?d" using d by (auto simp: settled_to_def less_Suc_eq)
  ultimately show ?case using d(2) c(3) n by simp
qed

lemma exchange_sort_spec:
  assumes "NaN \<notin> set b"
  shows "sorted_wrt flt_le (exchange_sort b)" "mset (exchange_sort b) = mset b" "NaN \<notin> set (exchange_sort b)"
proof -
  note o = outer_settled [OF assms, of "length b", folded exchange_sort_def]
  have "length (exchange_sort b) = length b" using o mset_eq_length by blast
  then show "sorted_wrt flt_le (exchange_sort b)" using o by (auto simp: sorted_wrt_iff_nth_less settled_to_def)
  show "mset (exchange_sort b) = mset b" "NaN \<notin> set (exchange_sort b)" using o by auto
qed

lemma exchange_sort_finite: "exchange_sort (map Fin xs) = map Fin (sort xs)"
proof -
  have n: "NaN \<notin> set (map Fin xs)" by auto
  obtain ys where ys: "exchange_sort (map Fin xs) = map Fin ys"
  proof -
    have "set (exchange_sort (map Fin xs)) \<subseteq> range Fin"
      using exchange_sort_spec(2) [OF n, THEN mset_eq_setD] by auto
    then have "\<forall>y\<in>set (exchange_sort (map Fin xs)). \<exists>x. y = Fin x" by blast
    then obtain ys where "exchange_sort (map Fin xs) = map Fin ys" unfolding ex_map_conv [symmetric] by blast
    then show thesis by (rule that)
  qed
  have "sorted ys" using exchange_sort_spec(1) [OF n] unfolding ys by (simp add: sorted_wrt_map)
  moreover have "mset ys = mset xs"
  proof -
    have "image_mset (case_flt id 0 0 0) (mset (map Fin ys)) = image_mset (case_flt id 0 0 0) (mset (map Fin xs))"
      using exchange_sort_spec(2) [OF n] unfolding ys by (rule arg_cong)
    then show ?thesis by (simp add: multiset.map_comp o_def)
  qed
  ultimately show ?thesis unfolding ys using properties_for_sort [of ys xs] by simp
qed

section \<open>The median\<close>

lemma representable_double: "representable F x \<Longrightarrow> representable F (2 * x)"
proof -
  assume "representable F x"
  then obtain m e where "x = of_int m * 2 powi e" "\<bar>m\<bar> \<le> 2 ^ prec F" "emin F \<le> e" by (auto simp: representable_def)
  then show ?thesis unfolding representable_def
    by (intro exI [of _ m] exI [of _ "e + 1"]) (simp add: power_int_add)
qed

lemma midpoint:
  assumes "x \<le> y" "representable binary64 x" "representable binary64 y" "\<bar>x\<bar> \<le> 2 ^ 199" "\<bar>y\<bar> \<le> 2 ^ 199"
  shows "\<exists>m. div64 (add64 (Fin x) (Fin y)) (Fin 2) = Fin m \<and> x \<le> m \<and> m \<le> y"
proof -
  define s where "s = r64 (x + y)"
  have a: "add64 (Fin x) (Fin y) = Fin s" using assms(4,5) by (simp add: small_fround small_def s_def)
  have "2 * x \<le> s" "s \<le> 2 * y" unfolding s_def using assms(1-3) representable_double
    by (auto intro!: f64.lower f64.upper)
  then have b: "x \<le> s / 2" "s / 2 \<le> y" by simp_all
  then have "\<bar>s / 2\<bar> \<le> 2 ^ 199" using assms(4,5) by linarith
  then have "div64 (Fin s) (Fin 2) = Fin (r64 (s / 2))" by (simp add: small_fround small_def)
  moreover have "x \<le> r64 (s / 2)" "r64 (s / 2) \<le> y" using b assms(2,3) by (auto intro: f64.lower f64.upper)
  ultimately show ?thesis using a by simp
qed

lemma median_bounds:
  assumes "xs \<noteq> []" "\<And>x. x \<in> set xs \<Longrightarrow> representable binary64 x \<and> \<bar>x\<bar> \<le> 2 ^ 199"
  shows "\<exists>m. medianFloat64 (map Fin xs) = Fin m \<and>
    (odd (length xs) \<longrightarrow> m = sort xs ! (length xs div 2)) \<and>
    sort xs ! ((length xs - 1) div 2) \<le> m \<and> m \<le> sort xs ! (length xs div 2)"
proof -
  define n where "n = length xs"
  have n: "0 < n" using assms(1) by (simp add: n_def)
  have r: "representable binary64 (sort xs ! k) \<and> \<bar>sort xs ! k\<bar> \<le> 2 ^ 199" if "k < n" for k
    using that assms(2) nth_mem [of k "sort xs"] by (simp add: n_def)
  show ?thesis
  proof (cases "odd n")
    case True
    then have "(n - 1) div 2 = n div 2" "n div 2 < n" using n by (auto elim!: oddE)
    then show ?thesis using True n assms(1)
      by (simp add: medianFloat64_def exchange_sort_finite n_def Let_def odd_iff_mod_2_eq_one)
  next
    case False
    then have k: "(n - 1) div 2 = n div 2 - 1" "n div 2 < n" "n div 2 - 1 < n" "n mod 2 = 0" using n by (auto elim!: evenE)
    have "sort xs ! (n div 2 - 1) \<le> sort xs ! (n div 2)"
      using k by (intro sorted_nth_mono) (simp_all add: n_def)
    from midpoint [OF this] r [OF k(2)] r [OF k(3)] show ?thesis
      using False k n assms(1) by (simp add: medianFloat64_def exchange_sort_finite n_def Let_def)
  qed
qed

section \<open>Clipping\<close>

text \<open>A \<open>float32\<close> value, and one that is at most as far from zero as another.\<close>

definition f32_finite :: "flt \<Rightarrow> bool" where
  "f32_finite a \<longleftrightarrow> (case a of Fin x \<Rightarrow> representable binary32 x \<and> \<bar>x\<bar> < 2 ^ 128 | _ \<Rightarrow> False)"

definition shrunk :: "flt \<Rightarrow> flt \<Rightarrow> bool" where
  "shrunk a b \<longleftrightarrow> (case (a, b) of (Fin x, Fin y) \<Rightarrow> \<bar>y\<bar> \<le> \<bar>x\<bar> | _ \<Rightarrow> False)"

lemma representable_32_64: "representable binary32 x \<Longrightarrow> representable binary64 x"
  unfolding representable_def binary32_def binary64_def by force

lemma representable_abs: "representable F x \<Longrightarrow> representable F \<bar>x\<bar>"
proof -
  assume "representable F x"
  then obtain m e where "x = of_int m * 2 powi e" "\<bar>m\<bar> \<le> 2 ^ prec F" "emin F \<le> e" by (auto simp: representable_def)
  then show ?thesis unfolding representable_def
    by (intro exI [of _ "\<bar>m\<bar>"] exI [of _ e]) (simp add: abs_mult)
qed

lemma scale_shrinks:
  assumes "f32_finite v" "0 \<le> s" "s \<le> 1"
  shows "shrunk v (float32 (mul64 v (Fin s)))"
proof -
  obtain x where x: "v = Fin x" "representable binary32 x" "\<bar>x\<bar> < 2 ^ 128"
    using assms(1) by (auto simp: f32_finite_def split: flt.splits)
  have a: "\<bar>x * s\<bar> \<le> \<bar>x\<bar>" using assms(2,3) by (simp add: abs_mult mult_left_le)
  then have b: "\<bar>r64 (x * s)\<bar> \<le> \<bar>x\<bar>" using x(2) representable_32_64 representable_abs by (intro f64.abs_upper) auto
  then have c: "\<bar>r32 (r64 (x * s))\<bar> \<le> \<bar>x\<bar>" using x(2) representable_abs by (intro f32.abs_upper) auto
  have "mul64 v (Fin s) = Fin (r64 (x * s))" using a x by (simp add: small_fround small_def)
  moreover have "fround binary32 (r64 (x * s)) = Fin (r32 (r64 (x * s)))"
    using c x(3) by (auto simp: fround_def Let_def binary32_def)
  ultimately show ?thesis using c x(1) by (simp add: shrunk_def)
qed

lemma div64_scale:
  assumes "0 < c" "\<not> flt_le n (Fin c)" "n \<noteq> NaN"
  shows "\<exists>s. div64 (Fin c) n = Fin s \<and> 0 \<le> s \<and> s \<le> 1"
proof (cases n)
  case (Fin y)
  then have "c < y" using assms(2) by simp
  then have q: "0 \<le> c / y" "c / y \<le> 1" using assms(1) by simp_all
  then have "small (c / y)" by (simp add: small_def)
  then show ?thesis using Fin \<open>c < y\<close> assms(1) f64.unit [OF q] by (simp add: small_fround)
qed (use assms in auto)

lemma clipL2_shrinks:
  assumes "0 < c" "grad_norm m \<noteq> NaN" "\<And>k arr v. (k, arr) \<in> set m \<Longrightarrow> v \<in> set arr \<Longrightarrow> f32_finite v"
  shows "list_all2 (\<lambda>(k, arr) (k', arr'). k = k' \<and> list_all2 shrunk arr arr') m (clipL2 (Fin c) m)"
proof (cases "flt_le (grad_norm m) (Fin c) \<or> flt_eq (grad_norm m) (Fin 0)")
  case True
  have "shrunk v v" if "f32_finite v" for v using that by (auto simp: f32_finite_def shrunk_def split: flt.splits)
  then show ?thesis using True assms(3) by (auto simp: clipL2_def Let_def intro!: list.rel_refl_strong)
next
  case False
  obtain s where s: "div64 (Fin c) (grad_norm m) = Fin s" "0 \<le> s" "s \<le> 1"
    using div64_scale [OF assms(1) _ assms(2)] False by blast
  show ?thesis
    using False assms(3) s scale_shrinks
    by (auto simp: clipL2_def Let_def list_all2_conv_all_nth split: prod.splits) (metis nth_mem)
qed

section \<open>Not-a-number gradients\<close>

lemma add_square_NaN: "foldl add_square NaN xs = NaN"
  by (induction xs) (simp_all add: add_square_def)

lemma add_square_NaN_in: "NaN \<in> set xs \<Longrightarrow> foldl add_square a xs = NaN"
  by (induction xs arbitrary: a) (auto simp: add_square_def add_square_NaN)

lemma norm_fold_NaN: "foldl (\<lambda>acc (k, arr). foldl add_square acc arr) NaN m = NaN"
  by (induction m) (auto simp: add_square_NaN)

lemma grad_norm_NaN:
  assumes "(k, arr) \<in> set m" "NaN \<in> set arr"
  shows "grad_norm m = NaN"
proof -
  have "foldl (\<lambda>acc (k, arr). foldl add_square acc arr) a m = NaN" for a
    using assms by (induction m arbitrary: a) (auto simp: add_square_NaN_in norm_fold_NaN)
  then show ?thesis by (simp add: grad_norm_def)
qed

lemma clipL2_NaN:
  assumes "(k, arr) \<in> set m" "NaN \<in> set arr"
  shows "clipL2 c m = map (\<lambda>(k, arr). (k, map (\<lambda>_. NaN) arr)) m"
  using grad_norm_NaN [OF assms] by (simp add: clipL2_def Let_def flt_eq_def)

lemma length_accumulate [simp]: "length (accumulate wgt acc arr) = length acc"
  by (simp add: accumulate_def)

lemma accumulate_NaN:
  "j < length acc \<Longrightarrow> acc ! j = NaN \<or> (j < length arr \<and> arr ! j = NaN) \<Longrightarrow> accumulate wgt acc arr ! j = NaN"
  by (auto simp: accumulate_def)

lemma average_key_NaN:
  assumes "average_key key t (Some acc) gs = Some out" "j < length acc" "acc ! j = NaN"
  shows "length out = length acc \<and> out ! j = NaN"
  using assms
  by (induction gs arbitrary: acc) (fastforce simp: accumulate_NaN split: option.splits)+

lemma average_key_length:
  "average_key key t (Some acc) gs = Some out \<Longrightarrow> length out = length acc"
  by (induction gs arbitrary: acc) (auto split: option.splits)

lemma average_key_poisoned:
  assumes "average_key key t acc gs = Some out" "(g, wgt) \<in> set gs" "map_of g key = Some arr"
    and "j < length arr" "arr ! j = NaN" "j < length out"
  shows "out ! j = NaN"
  using assms
proof (induction gs arbitrary: acc)
  case (Cons gw gs)
  obtain g' w' where gw: "gw = (g', w')" by fastforce
  show ?case
  proof (cases "gw = (g, wgt)")
    case True
    let ?a = "case acc of None \<Rightarrow> replicate (length arr) (Fin 0) | Some s \<Rightarrow> s"
    have o: "average_key key t (Some (accumulate (div64 wgt t) ?a arr)) gs = Some out"
      using Cons.prems(1,3) True by simp
    have "j < length ?a" using average_key_length [OF o] Cons.prems(6) by simp
    then show ?thesis using average_key_NaN [OF o] accumulate_NaN Cons.prems(4,5) by simp
  next
    case False
    then show ?thesis using Cons gw by (auto split: option.splits)
  qed
qed simp

lemma map_of_map_snd: "map_of (map (\<lambda>(k, v). (k, f v)) m) key = map_option f (map_of m key)"
  by (induction m) auto

lemma weightedAverage_lookup:
  "map_of (weightedAverage grads weights t) key =
    (if key \<in> set (keysSeen grads) then average_key key t None (zip grads weights) else None)"
proof -
  have "map_of (List.map_filter (\<lambda>key. map_option (Pair key) (f key)) ks) key = (if key \<in> set ks then f key else None)"
    for f :: "string \<Rightarrow> flt list option" and ks
    by (induction ks) (auto simp: List.map_filter_simps split: option.splits)
  then show ?thesis by (simp add: weightedAverage_def)
qed

section \<open>Properties\<close>

text \<open>
  The median. The exchange sort computes the sorted permutation of every list of finite
  values, and the median of values that are at most \<open>2 ^ 199\<close> in magnitude is the middle
  element for odd lengths and lies between the two middle elements for even ones, in spite of
  the rounding of their sum.
\<close>

theorem median_correct:
  assumes "xs \<noteq> []" "\<forall>x\<in>set xs. representable binary64 x \<and> \<bar>x\<bar> \<le> 2 ^ 199"
  shows "exchange_sort (map Fin xs) = map Fin (sort xs) \<and>
    (\<exists>m. medianFloat64 (map Fin xs) = Fin m \<and>
      (odd (length xs) \<longrightarrow> m = sort xs ! (length xs div 2)) \<and>
      sort xs ! ((length xs - 1) div 2) \<le> m \<and> m \<le> sort xs ! (length xs div 2))"
  using exchange_sort_finite median_bounds [OF assms(1)] assms(2) by blast

theorem median_correct_witness:
  "medianFloat64 (map Fin [3, 1, 2]) = Fin 2"
proof -
  have "representable binary64 3" "representable binary64 1" "representable binary64 2"
    using representable_int [of 3 binary64] representable_int [of 1 binary64] representable_int [of 2 binary64]
    by (simp_all add: binary64_def)
  then have "\<forall>x\<in>set [3, 1, 2]. representable binary64 x \<and> \<bar>x\<bar> \<le> 2 ^ 199" by simp
  from median_correct [OF _ this] show ?thesis by simp
qed

text \<open>
  Clipping. Clipping to a positive norm keeps the keys and lengths of a gradient of finite
  \<open>float32\<close> values, leaves it alone when its norm does not exceed the bound, and never moves a
  component further away from zero.
\<close>

theorem clip_shrinks:
  assumes "0 < c" "grad_norm m \<noteq> NaN" "\<forall>(k, arr)\<in>set m. \<forall>v\<in>set arr. f32_finite v"
  shows "list_all2 (\<lambda>(k, arr) (k', arr'). k = k' \<and> list_all2 shrunk arr arr') m (clipL2 (Fin c) m) \<and>
    (flt_le (grad_norm m) (Fin c) \<longrightarrow> clipL2 (Fin c) m = m)"
proof
  show "list_all2 (\<lambda>(k, arr) (k', arr'). k = k' \<and> list_all2 shrunk arr arr') m (clipL2 (Fin c) m)"
    by (rule clipL2_shrinks [OF assms(1,2)]) (use assms(3) in blast)
qed (simp add: clipL2_def)

theorem clip_shrinks_witness:
  "length (clipL2 (Fin 1) [(''w'', [Fin 3, Fin 4])]) = 1"
proof -
  have r: "f32_finite (Fin 3)" "f32_finite (Fin 4)"
    using representable_int [of 3 binary32] representable_int [of 4 binary32]
    by (simp_all add: f32_finite_def binary32_def)
  have s: "r64 9 = 9" "r64 16 = 16" "r64 25 = 25"
    using r64_numeral [of "num.Bit1 (num.Bit0 (num.Bit0 num.One))"] r64_numeral [of "num.Bit0 (num.Bit0 (num.Bit0 (num.Bit0 num.One)))"]
      r64_numeral [of "num.Bit1 (num.Bit0 (num.Bit0 (num.Bit1 num.One)))"] by simp_all
  have "sqrt 25 = 5" by (rule real_sqrt_unique) simp_all
  then have "grad_norm [(''w'', [Fin 3, Fin 4])] \<noteq> NaN"
    using s by (simp add: grad_norm_def add_square_def small_fround small_def)
  from clip_shrinks [OF _ this, of 1] r show ?thesis by (auto dest: list_all2_lengthD)
qed

text \<open>
  A NaN component reaches every component. When one submitted gradient has a NaN anywhere,
  clipping turns all its components into NaN, and the weighted average then has NaN at every
  position that this gradient has, for each of its keys.
\<close>

theorem nan_poisons_average:
  assumes "m \<in> set ms" "(k0, arr0) \<in> set m" "NaN \<in> set arr0" "length weights = length ms"
    and "map_of m key = Some arr" "map_of (weightedAverage (map (clipL2 c) ms) weights t) key = Some out"
    and "j < length arr" "j < length out"
  shows "out ! j = NaN"
proof -
  let ?grads = "map (clipL2 c) ms"
  have "clipL2 c m \<in> set ?grads" using assms(1) by simp
  then obtain i where i: "i < length ms" "?grads ! i = clipL2 c m" by (auto simp: in_set_conv_nth)
  then have z: "(clipL2 c m, weights ! i) \<in> set (zip ?grads weights)"
    using assms(4) by (auto simp: in_set_zip intro!: exI [of _ i])
  have arr: "map_of (clipL2 c m) key = Some (map (\<lambda>_. NaN) arr)"
    using assms(5) by (simp add: clipL2_NaN [OF assms(2,3)] map_of_map_snd)
  have "average_key key t None (zip ?grads weights) = Some out"
    using assms(6) by (simp add: weightedAverage_lookup split: if_splits)
  from average_key_poisoned [OF this z arr, of j] show ?thesis using assms(7,8) by simp
qed

theorem nan_poisons_average_witness:
  "\<exists>out. map_of (weightedAverage (map (clipL2 (Fin 1)) [[(''w'', [NaN, Fin 1])], [(''w'', [Fin 0, Fin 0])]]) [Fin 1, Fin 1] (Fin 2))
     ''w'' = Some out \<and> out ! 1 = NaN"
proof -
  let ?ms = "[[(''w'', [NaN, Fin 1])], [(''w'', [Fin 0, Fin 0])]]"
  obtain out where o: "map_of (weightedAverage (map (clipL2 (Fin 1)) ?ms) [Fin 1, Fin 1] (Fin 2)) ''w'' = Some out" "length out = 2"
    by (simp add: weightedAverage_lookup keysSeen_def clipL2_NaN [of "''w''" "[NaN, Fin 1]"] clipL2_def [of _ "[(''w'', [Fin 0, Fin 0])]"]
        grad_norm_def add_square_def small_fround small_def Let_def)
  have "out ! 1 = NaN"
    by (rule nan_poisons_average [OF _ _ _ _ _ o(1), of "[(''w'', [NaN, Fin 1])]" "''w''" "[NaN, Fin 1]"]) (use o(2) in auto)
  with o(1) show ?thesis by blast
qed

end
