(* ===== verification/Config.thy ===== *)
theory Config
  imports Prelude Go_Strings Go_Float
begin

text \<open>
  \<open>internal/config/config.go\<close>: the configuration, its defaults and its validation. Viper, which
  merges defaults, file and environment, is a parameter. Messages end where the source prints
  an offending floating-point number.
\<close>

section \<open>Data\<close>

record ServerConfig =
  GRPCAddr :: string
  HTTPAddr :: string
  TLSCertFile :: string
  TLSKeyFile :: string
  CACertFile :: string
  ShutdownTimeout :: int

record DatabaseConfig =
  DSN :: string
  MaxOpenConns :: int
  MaxIdleConns :: int
  MigrationsDir :: string

record RedisConfig =
  Addr :: string
  Password :: string
  RedisDB :: int

record CLNConfig =
  BaseURL :: string
  APIKey :: string

record LightningConfig =
  Backend :: string
  LNDHost :: string
  PaymentMacaroonPath :: string
  ReadonlyMacaroonPath :: string
  SlashingMacaroonPath :: string
  TLSCertPath :: string
  CLN :: CLNConfig

record S3Config =
  Endpoint :: string
  Bucket :: string
  AccessKey :: string
  SecretKey :: string
  Region :: string

record FLConfig =
  RoundIntervalMinutes :: int
  fc_MinParticipants :: int
  fc_GradientL2ClipNorm :: flt
  fc_AnomalyStdDevThreshold :: flt
  TopKSparsificationPct :: flt

record StakeConfig =
  tier_minimum_sats :: "string \<rightharpoonup> int"
  VerifyIntervalHours :: int
  DegradedGracePeriodHours :: int
  SlashCooldownDays :: int
  sc_T1AutoSlashSignals :: int
  sc_T2T3MaintainerAcks :: int

record TorConfig =
  tor_Enabled :: bool
  LocalBindAddr :: string
  SOCKS5Addr :: string
  HiddenServiceDir :: string

record ObserverConfig =
  obs_Enabled :: bool
  oc_APIEndpoint :: string
  SigningKeyPath :: string

record LogConfig =
  Level :: string
  LogFormat :: string

record Config =
  DevMode :: bool
  Server :: ServerConfig
  Database :: DatabaseConfig
  Redis :: RedisConfig
  Lightning :: LightningConfig
  S3 :: S3Config
  FL :: FLConfig
  Stake_cfg :: StakeConfig
  Tor :: TorConfig
  Observer_cfg :: ObserverConfig
  Log :: LogConfig

section \<open>Loading\<close>

definition defaults :: Config where
  "defaults = \<lparr>DevMode = False,
     Server = \<lparr>GRPCAddr = '':9000'', HTTPAddr = '':9001'', TLSCertFile = [], TLSKeyFile = [], CACertFile = [],
       ShutdownTimeout = 30 * 10 ^ 9\<rparr>,
     Database = \<lparr>DSN = [], MaxOpenConns = 25, MaxIdleConns = 5, MigrationsDir = ''migrations''\<rparr>,
     Redis = \<lparr>Addr = [], Password = [], RedisDB = 0\<rparr>,
     Lightning = \<lparr>Backend = ''lnd'', LNDHost = [], PaymentMacaroonPath = [], ReadonlyMacaroonPath = [],
       SlashingMacaroonPath = [], TLSCertPath = [], CLN = \<lparr>BaseURL = [], APIKey = []\<rparr>\<rparr>,
     S3 = \<lparr>Endpoint = [], Bucket = [], AccessKey = [], SecretKey = [], Region = []\<rparr>,
     FL = \<lparr>RoundIntervalMinutes = 60, fc_MinParticipants = 3, fc_GradientL2ClipNorm = Fin 1,
       fc_AnomalyStdDevThreshold = Fin 3, TopKSparsificationPct = f64 (1 / 10)\<rparr>,
     Stake_cfg = \<lparr>tier_minimum_sats = [''t1'' \<mapsto> 100000, ''t2'' \<mapsto> 500000, ''t3'' \<mapsto> 2000000], VerifyIntervalHours = 6,
       DegradedGracePeriodHours = 24, SlashCooldownDays = 30, sc_T1AutoSlashSignals = 3, sc_T2T3MaintainerAcks = 2\<rparr>,
     Tor = \<lparr>tor_Enabled = False, LocalBindAddr = ''127.0.0.1:9002'', SOCKS5Addr = ''127.0.0.1:9050'',
       HiddenServiceDir = ''/var/lib/tor/owm-coordinator''\<rparr>,
     Observer_cfg = \<lparr>obs_Enabled = False, oc_APIEndpoint = ''https://api.observerprotocol.org'', SigningKeyPath = []\<rparr>,
     Log = \<lparr>Level = ''info'', LogFormat = ''json''\<rparr>\<rparr>"

text \<open>The early returns of \<open>validate\<close>: the message of the first check that fails.\<close>

fun first_error :: "(bool \<times> string) list \<Rightarrow> string option" where
  "first_error [] = None"
| "first_error ((failed, msg) # cs) = (if failed then Some msg else first_error cs)"

definition tier_min :: "StakeConfig \<Rightarrow> string \<Rightarrow> int" where
  "tier_min s t = (case tier_minimum_sats s t of None \<Rightarrow> 0 | Some v \<Rightarrow> v)"

definition normalized_backend :: "Config \<Rightarrow> string" where
  "normalized_backend c = (let b = ToLower (TrimSpace (Backend (Lightning c))) in if b = [] then ''lnd'' else b)"

text \<open>The signs of the messages in UTF-8, and their common form.\<close>

definition ge_sign :: string where "ge_sign = [CHR 0xE2, CHR 0x89, CHR 0xA5]"
definition le_sign :: string where "le_sign = [CHR 0xE2, CHR 0x89, CHR 0xA4]"

definition must_be :: "string \<Rightarrow> string \<Rightarrow> int \<Rightarrow> string" where
  "must_be key bound v = key @ '' must be '' @ ge_sign @ '' '' @ bound @ '', got '' @ dec v"

definition quoted :: "string \<Rightarrow> string" where
  "quoted s = CHR 0x27 # s @ [CHR 0x27]"

text \<open>
  The verb \<open>%q\<close>: a string in double quotes, with the escapes of \<open>strconv.Quote\<close>. A byte above 127 is
  left as it is, as in a printable character in UTF-8. The messages about fractions end with the number
  in the form of \<open>%g\<close>, which is left out below.
\<close>

definition quote_char :: "char \<Rightarrow> string" where
  "quote_char c = (let n = of_char c :: nat in
     if c = CHR 0x22 \<or> c = CHR 0x5C then [CHR 0x5C, c]
     else if n = 7 then [CHR 0x5C, CHR ''a''] else if n = 8 then [CHR 0x5C, CHR ''b'']
     else if n = 9 then [CHR 0x5C, CHR ''t''] else if n = 10 then [CHR 0x5C, CHR ''n'']
     else if n = 11 then [CHR 0x5C, CHR ''v''] else if n = 12 then [CHR 0x5C, CHR ''f'']
     else if n = 13 then [CHR 0x5C, CHR ''r'']
     else if n < 32 \<or> n = 127 then [CHR 0x5C, CHR ''x''] @ hex_EncodeToString [c]
     else [c])"

definition strconv_Quote :: "string \<Rightarrow> string" where
  "strconv_Quote s = CHR 0x22 # concat (map quote_char s) @ [CHR 0x22]"

definition lightning_checks :: "LightningConfig \<Rightarrow> (bool \<times> string) list" where
  "lightning_checks l =
     (if Backend l = ''lnd'' then
        [(LNDHost l = [], ''lightning.lnd_host (OWM_LIGHTNING_LND_HOST) is required for backend lnd (set OWM_DEV_MODE=true to use mock)''),
         (TLSCertPath l = [], ''lightning.tls_cert_path (OWM_LIGHTNING_TLS_CERT_PATH) is required for backend lnd when dev_mode is false: LND macaroon auth must use TLS to the node''),
         (PaymentMacaroonPath l = [], ''lightning.payment_macaroon_path is required for backend lnd''),
         (ReadonlyMacaroonPath l = [], ''lightning.readonly_macaroon_path is required for backend lnd''),
         (SlashingMacaroonPath l = [], ''lightning.slashing_macaroon_path is required for backend lnd'')]
      else if Backend l = ''cln'' then
        [(BaseURL (CLN l) = [], ''lightning.cln.base_url is required for backend cln''),
         (APIKey (CLN l) = [], ''lightning.cln.api_key is required for backend cln'')]
      else [(True, ''lightning.backend must be '' @ quoted ''lnd'' @ '' or '' @ quoted ''cln'' @ '', got '' @ strconv_Quote (Backend l))])"

definition tierFloors :: "(string \<times> int) list" where
  "tierFloors = [(''t1'', 100000), (''t2'', 500000), (''t3'', 2000000)]"

definition stake_checks :: "StakeConfig \<Rightarrow> (bool \<times> string) list" where
  "stake_checks s =
     map (\<lambda>(key, floor). (tier_min s key < floor, ''stake.tier_minimum_sats.'' @ key @ '' must be '' @ ge_sign @ '' '' @ dec floor @ '' sats (BRS-POS-02), got '' @ dec (tier_min s key))) tierFloors @
     [(tier_min s ''t2'' < tier_min s ''t1'' \<or> tier_min s ''t3'' < tier_min s ''t2'', ''stake tier minimums must be ordered t1 '' @ le_sign @ '' t2 '' @ le_sign @ '' t3 (got t1='' @ dec (tier_min s ''t1'') @ '' t2='' @ dec (tier_min s ''t2'') @ '' t3='' @ dec (tier_min s ''t3'') @ '')''),
      (VerifyIntervalHours s < 1, must_be ''stake.verify_interval_hours'' ''1'' (VerifyIntervalHours s)),
      (DegradedGracePeriodHours s < 1, must_be ''stake.degraded_grace_period_hours'' ''1'' (DegradedGracePeriodHours s)),
      (SlashCooldownDays s < 1, must_be ''stake.slash_cooldown_days'' ''1'' (SlashCooldownDays s)),
      (sc_T1AutoSlashSignals s < 3, must_be ''stake.t1_auto_slash_signals'' ''3 (SRS-STAKE-04)'' (sc_T1AutoSlashSignals s)),
      (sc_T2T3MaintainerAcks s < 2, must_be ''stake.t2t3_maintainer_acks'' ''2 (SRS-STAKE-04)'' (sc_T2T3MaintainerAcks s))]"

definition fl_checks :: "FLConfig \<Rightarrow> (bool \<times> string) list" where
  "fl_checks f =
     [(fc_MinParticipants f < 2, must_be ''fl.min_participants'' ''2'' (fc_MinParticipants f)),
      (flt_le (fc_GradientL2ClipNorm f) (Fin 0), ''fl.gradient_l2_clip_norm must be > 0''),
      (flt_le (fc_AnomalyStdDevThreshold f) (Fin 0), ''fl.anomaly_std_dev_threshold must be > 0''),
      (RoundIntervalMinutes f < 1, must_be ''fl.round_interval_minutes'' ''1'' (RoundIntervalMinutes f)),
      (flt_lt (TopKSparsificationPct f) (Fin 0) \<or> flt_lt (Fin 1) (TopKSparsificationPct f),
       ''fl.top_k_sparsification_pct must be in [0, 1]'')]"

definition s3_count :: "S3Config \<Rightarrow> nat" where
  "s3_count s = length (filter (\<lambda>v. v \<noteq> []) [Endpoint s, Bucket s, AccessKey s, SecretKey s])"

definition validate :: "Config \<Rightarrow> Config result" where
  "validate c =
     (if DSN (Database c) = [] then Inl (Err ''database.dsn (OWM_DATABASE_DSN) is required'')
      else let c = c\<lparr>Lightning := (Lightning c)\<lparr>Backend := normalized_backend c\<rparr>\<rparr> in
        (case first_error (
            (if DevMode c then [] else lightning_checks (Lightning c)) @
            [(TLSCertFile (Server c) \<noteq> [] \<and> \<not> DevMode c \<and> CACertFile (Server c) = [],
              ''server.ca_cert_file is required when TLS is enabled and dev_mode is false (mTLS enforcement)''),
             (obs_Enabled (Observer_cfg c) \<and> SigningKeyPath (Observer_cfg c) = [],
              ''observer.signing_key_path is required when observer.enabled is true''),
             (obs_Enabled (Observer_cfg c) \<and> TrimSpace (oc_APIEndpoint (Observer_cfg c)) = [],
              ''observer.api_endpoint is required when observer.enabled is true'')] @
            stake_checks (Stake_cfg c) @ fl_checks (FL c) @
            [(0 < s3_count (S3 c) \<and> s3_count (S3 c) < 4,
              ''s3 is partially configured: endpoint, bucket, access_key, and secret_key must all be set together (or all left empty)'')]) of
          Some msg \<Rightarrow> Inl (Err msg)
        | None \<Rightarrow> Inr c))"

text \<open>\<open>viper\<close> gives the configuration made of the defaults, the file (or none) and the environment.\<close>

definition Load :: "(string \<Rightarrow> Config \<Rightarrow> Config result) \<Rightarrow> string \<Rightarrow> Config result" where
  "Load viper cfgFile = (case viper cfgFile defaults of
     Inl e \<Rightarrow> Inl e
   | Inr cfg \<Rightarrow> (case validate cfg of Inl e \<Rightarrow> Inl (Wrap ''invalid config'' e) | Inr cfg \<Rightarrow> Inr cfg))"

section \<open>What a validated configuration has\<close>

lemma first_error_None: "first_error cs = None \<longleftrightarrow> list_all (\<lambda>(f, m). \<not> f) cs"
  by (induction cs rule: first_error.induct) simp_all

lemma first_error_passes: "(case first_error cs of Some msg \<Rightarrow> Inl (Err msg) | None \<Rightarrow> Inr d) = Inr c \<longleftrightarrow>
    c = d \<and> list_all (\<lambda>(f, m). \<not> f) cs"
  using first_error_None [of cs] by (cases "first_error cs") auto

lemma validate_iff:
  "validate c0 = Inr c \<longleftrightarrow>
     c = c0\<lparr>Lightning := (Lightning c0)\<lparr>Backend := normalized_backend c0\<rparr>\<rparr> \<and> DSN (Database c) \<noteq> [] \<and>
     (DevMode c \<or> list_all (\<lambda>(f, m). \<not> f) (lightning_checks (Lightning c))) \<and>
     (TLSCertFile (Server c) \<noteq> [] \<longrightarrow> \<not> DevMode c \<longrightarrow> CACertFile (Server c) \<noteq> []) \<and>
     (obs_Enabled (Observer_cfg c) \<longrightarrow> SigningKeyPath (Observer_cfg c) \<noteq> [] \<and> TrimSpace (oc_APIEndpoint (Observer_cfg c)) \<noteq> []) \<and>
     list_all (\<lambda>(f, m). \<not> f) (stake_checks (Stake_cfg c)) \<and> list_all (\<lambda>(f, m). \<not> f) (fl_checks (FL c)) \<and>
     \<not> (0 < s3_count (S3 c) \<and> s3_count (S3 c) < 4)"
proof -
  obtain d where d: "d = c0\<lparr>Lightning := (Lightning c0)\<lparr>Backend := normalized_backend c0\<rparr>\<rparr>" by simp
  have db: "Database c0 = Database d" by (simp add: d)
  show ?thesis
  proof (cases "DSN (Database d) = []")
    case True
    then show ?thesis by (simp add: validate_def db flip: d)
  next
    case False
    then have "validate c0 = Inr c \<longleftrightarrow> c = d \<and> list_all (\<lambda>(f, m). \<not> f) (if DevMode d then [] else lightning_checks (Lightning d)) \<and>
        \<not> (TLSCertFile (Server d) \<noteq> [] \<and> \<not> DevMode d \<and> CACertFile (Server d) = []) \<and>
        \<not> (obs_Enabled (Observer_cfg d) \<and> SigningKeyPath (Observer_cfg d) = []) \<and>
        \<not> (obs_Enabled (Observer_cfg d) \<and> TrimSpace (oc_APIEndpoint (Observer_cfg d)) = []) \<and>
        list_all (\<lambda>(f, m). \<not> f) (stake_checks (Stake_cfg d)) \<and> list_all (\<lambda>(f, m). \<not> f) (fl_checks (FL d)) \<and>
        \<not> (0 < s3_count (S3 d) \<and> s3_count (S3 d) < 4)"
      by (simp only: validate_def Let_def db if_False first_error_passes list_all_append list.pred_inject prod.case simp_thms flip: d) blast
    then show ?thesis unfolding d [symmetric] using False by (cases "c = d"; cases "DevMode d"; simp; blast)
  qed
qed

lemma stake_checks_pass:
  "list_all (\<lambda>(f, m). \<not> f) (stake_checks s) \<longleftrightarrow>
   100000 \<le> tier_min s ''t1'' \<and> 500000 \<le> tier_min s ''t2'' \<and> 2000000 \<le> tier_min s ''t3'' \<and>
   tier_min s ''t1'' \<le> tier_min s ''t2'' \<and> tier_min s ''t2'' \<le> tier_min s ''t3'' \<and>
   1 \<le> VerifyIntervalHours s \<and> 1 \<le> DegradedGracePeriodHours s \<and> 1 \<le> SlashCooldownDays s \<and>
   3 \<le> sc_T1AutoSlashSignals s \<and> 2 \<le> sc_T2T3MaintainerAcks s"
  by (auto simp: stake_checks_def tierFloors_def)

lemma fl_checks_pass:
  "list_all (\<lambda>(f, m). \<not> f) (fl_checks f) \<longleftrightarrow>
   2 \<le> fc_MinParticipants f \<and> \<not> flt_le (fc_GradientL2ClipNorm f) (Fin 0) \<and> \<not> flt_le (fc_AnomalyStdDevThreshold f) (Fin 0) \<and>
   1 \<le> RoundIntervalMinutes f \<and> \<not> flt_lt (TopKSparsificationPct f) (Fin 0) \<and> \<not> flt_lt (Fin 1) (TopKSparsificationPct f)"
  by (auto simp: fl_checks_def)

lemma lightning_checks_pass:
  "list_all (\<lambda>(f, m). \<not> f) (lightning_checks l) \<longleftrightarrow>
   (Backend l = ''lnd'' \<and> LNDHost l \<noteq> [] \<and> TLSCertPath l \<noteq> [] \<and> PaymentMacaroonPath l \<noteq> [] \<and>
      ReadonlyMacaroonPath l \<noteq> [] \<and> SlashingMacaroonPath l \<noteq> []) \<or>
   (Backend l = ''cln'' \<and> BaseURL (CLN l) \<noteq> [] \<and> APIKey (CLN l) \<noteq> [])"
  by (auto simp: lightning_checks_def)

lemma s3_all_or_none: "\<not> (0 < s3_count s \<and> s3_count s < 4) \<longleftrightarrow>
   (Endpoint s = [] \<and> Bucket s = [] \<and> AccessKey s = [] \<and> SecretKey s = []) \<or>
   (Endpoint s \<noteq> [] \<and> Bucket s \<noteq> [] \<and> AccessKey s \<noteq> [] \<and> SecretKey s \<noteq> [])"
  by (auto simp: s3_count_def)

lemma Load_iff: "Load viper file = Inr c \<longleftrightarrow> (\<exists>c0. viper file defaults = Inr c0 \<and> validate c0 = Inr c)"
  by (auto simp: Load_def split: sum.splits)

section \<open>Properties\<close>

text \<open>
  C37 (validation). A configuration loads exactly when it passes every check of \<open>validate\<close>: it has a
  database; outside of development mode the complete credentials of a known Lightning backend, all
  three macaroons for LND, and a CA certificate whenever there is a server certificate; an enabled
  observer with a key and an endpoint; stake minimums at or above the floors and in tier order, positive
  intervals, grace period and cooldown, at least three signals and two acknowledgements; bounds of
  federated learning that are not violated (a NaN violates none); and all or none of the S3 settings.
  Loading changes nothing but the spelling of the backend.
\<close>

theorem load_validated:
  "Load viper file = Inr c \<longleftrightarrow>
     (\<exists>c0. viper file defaults = Inr c0 \<and> c = c0\<lparr>Lightning := (Lightning c0)\<lparr>Backend := normalized_backend c0\<rparr>\<rparr> \<and>
       DSN (Database c) \<noteq> [] \<and>
       (\<not> DevMode c \<longrightarrow>
         (Backend (Lightning c) = ''lnd'' \<and> LNDHost (Lightning c) \<noteq> [] \<and> TLSCertPath (Lightning c) \<noteq> [] \<and>
           PaymentMacaroonPath (Lightning c) \<noteq> [] \<and> ReadonlyMacaroonPath (Lightning c) \<noteq> [] \<and> SlashingMacaroonPath (Lightning c) \<noteq> []) \<or>
         (Backend (Lightning c) = ''cln'' \<and> BaseURL (CLN (Lightning c)) \<noteq> [] \<and> APIKey (CLN (Lightning c)) \<noteq> [])) \<and>
       (TLSCertFile (Server c) \<noteq> [] \<longrightarrow> \<not> DevMode c \<longrightarrow> CACertFile (Server c) \<noteq> []) \<and>
       (obs_Enabled (Observer_cfg c) \<longrightarrow> SigningKeyPath (Observer_cfg c) \<noteq> [] \<and> TrimSpace (oc_APIEndpoint (Observer_cfg c)) \<noteq> []) \<and>
       100000 \<le> tier_min (Stake_cfg c) ''t1'' \<and> 500000 \<le> tier_min (Stake_cfg c) ''t2'' \<and> 2000000 \<le> tier_min (Stake_cfg c) ''t3'' \<and>
       tier_min (Stake_cfg c) ''t1'' \<le> tier_min (Stake_cfg c) ''t2'' \<and> tier_min (Stake_cfg c) ''t2'' \<le> tier_min (Stake_cfg c) ''t3'' \<and>
       1 \<le> VerifyIntervalHours (Stake_cfg c) \<and> 1 \<le> DegradedGracePeriodHours (Stake_cfg c) \<and> 1 \<le> SlashCooldownDays (Stake_cfg c) \<and>
       3 \<le> sc_T1AutoSlashSignals (Stake_cfg c) \<and> 2 \<le> sc_T2T3MaintainerAcks (Stake_cfg c) \<and>
       2 \<le> fc_MinParticipants (FL c) \<and> \<not> flt_le (fc_GradientL2ClipNorm (FL c)) (Fin 0) \<and> \<not> flt_le (fc_AnomalyStdDevThreshold (FL c)) (Fin 0) \<and>
       1 \<le> RoundIntervalMinutes (FL c) \<and> \<not> flt_lt (TopKSparsificationPct (FL c)) (Fin 0) \<and> \<not> flt_lt (Fin 1) (TopKSparsificationPct (FL c)) \<and>
       ((Endpoint (S3 c) = [] \<and> Bucket (S3 c) = [] \<and> AccessKey (S3 c) = [] \<and> SecretKey (S3 c) = []) \<or>
        (Endpoint (S3 c) \<noteq> [] \<and> Bucket (S3 c) \<noteq> [] \<and> AccessKey (S3 c) \<noteq> [] \<and> SecretKey (S3 c) \<noteq> [])))"
  unfolding Load_iff validate_iff stake_checks_pass fl_checks_pass lightning_checks_pass s3_all_or_none
  by (intro iff_exI) blast

theorem load_validated_witness:
  "\<exists>c. Load (\<lambda>_ c. Inr (c\<lparr>DevMode := True, Database := (Database c)\<lparr>DSN := ''postgres://''\<rparr>\<rparr>)) [] = Inr c \<and>
     3 \<le> sc_T1AutoSlashSignals (Stake_cfg c)"
proof -
  let ?viper = "\<lambda>_ c. Inr (c\<lparr>DevMode := True, Database := (Database c)\<lparr>DSN := ''postgres://''\<rparr>\<rparr>)"
  have "\<exists>c. Load ?viper [] = Inr c"
    by (simp add: Load_def validate_def defaults_def Let_def stake_checks_def fl_checks_def tierFloors_def tier_min_def
        s3_count_def small_f64 small_def)
      (use f64.unit [of "1 / 10"] in simp)
  then obtain c where c: "Load ?viper [] = Inr c" by blast
  from load_validated [of ?viper "[]" c, THEN iffD1, OF c] have "3 \<le> sc_T1AutoSlashSignals (Stake_cfg c)" by blast
  with c show ?thesis by blast
qed

end
