(* ===== verification/Storage.thy ===== *)
theory Storage
  imports World Config
begin

text \<open>
  \<open>internal/storage/s3.go\<close>: the object store. The bucket is the map \<open>w_s3\<close>; the AWS client is
  the settings it was made with, and \<open>s3_ok key\<close> tells whether a call about \<open>key\<close> goes through.
\<close>

record S3Client =
  bucket :: string
  region :: string
  credentials :: "(string \<times> string) option"
  baseEndpoint :: "string option"

definition NewS3Client :: "S3Config \<Rightarrow> S3Client result" where
  "NewS3Client cfg =
     (if Bucket cfg = [] then Inl (Err ''storage: bucket is required'')
      else Inr \<lparr>bucket = Bucket cfg, region = (if Region cfg = [] then ''us-east-1'' else Region cfg),
        credentials = (if AccessKey cfg \<noteq> [] \<and> SecretKey cfg \<noteq> [] then Some (AccessKey cfg, SecretKey cfg) else None),
        baseEndpoint = (if Endpoint cfg \<noteq> [] then Some (Endpoint cfg) else None)\<rparr>)"

definition GetObject :: "(string \<Rightarrow> bool) \<Rightarrow> string \<Rightarrow> world \<Rightarrow> bytes result" where
  "GetObject s3_ok key w =
     (if \<not> s3_ok key then Inl (Err ''s3: request failed'')
      else case w_s3 w key of None \<Rightarrow> Inl (Err ''s3: NoSuchKey'') | Some b \<Rightarrow> Inr b)"

text \<open>The ETag of the source's result is not used by any caller.\<close>

definition PutObject :: "(string \<Rightarrow> bool) \<Rightarrow> string \<Rightarrow> bytes \<Rightarrow> world \<Rightarrow> unit result \<times> world" where
  "PutObject s3_ok key data w =
     (if \<not> s3_ok key then (Inl (Err ''s3: request failed''), w)
      else (Inr (), w\<lparr>w_s3 := (w_s3 w)(key \<mapsto> data)\<rparr>))"

lemma put_get: "PutObject s3_ok key data w = (Inr (), w') \<Longrightarrow> GetObject s3_ok key w' = Inr data"
  by (auto simp: PutObject_def GetObject_def split: if_splits)

lemma put_get_other: "PutObject s3_ok key data w = (r, w') \<Longrightarrow> k \<noteq> key \<Longrightarrow> GetObject s3_ok k w' = GetObject s3_ok k w"
  by (auto simp: PutObject_def GetObject_def split: if_splits)

lemma PutObject_frame [simp, frame_simps]:
  "w_nodes (snd (PutObject ok key d w)) = w_nodes w" "w_tasks (snd (PutObject ok key d w)) = w_tasks w"
  "w_stakes (snd (PutObject ok key d w)) = w_stakes w" "w_rounds (snd (PutObject ok key d w)) = w_rounds w"
  "w_participants (snd (PutObject ok key d w)) = w_participants w" "w_faults (snd (PutObject ok key d w)) = w_faults w"
  "w_now (snd (PutObject ok key d w)) = w_now w" "w_gauge (snd (PutObject ok key d w)) = w_gauge w"
  "w_queue (snd (PutObject ok key d w)) = w_queue w" "w_stamps (snd (PutObject ok key d w)) = w_stamps w"
  "w_next_round (snd (PutObject ok key d w)) = w_next_round w"
  by (simp_all add: PutObject_def)

end
