(* ===== verification/Fl.thy ===== *)
theory Fl
  imports Storage Fl_Math
begin

text \<open>
  \<open>internal/fl/rounds.go\<close>: the life of a federated-learning round over the tables \<open>fl_rounds\<close>
  and \<open>fl_participants\<close>, the anomaly filter, the aggregation and the OpenTimestamps proof. The
  msgpack codec, PostgreSQL's product of numerics and the answers of the calendars are
  parameters. The goroutine that stamps a checkpoint is an entry of \<open>w_stamps\<close>.
\<close>

section \<open>Configuration\<close>

record fl_env =
  msgpack_Unmarshal :: "bytes \<Rightarrow> raw_map result"
  msgpack_Marshal :: "grad_map \<Rightarrow> bytes result"
  numeric_mul :: "flt \<Rightarrow> flt \<Rightarrow> flt"
  s3_up :: "string \<Rightarrow> bool"

record OrchestratorConfig =
  GradientL2ClipNorm :: flt
  AnomalyStdDevThreshold :: flt
  OTSCalendars :: "string list"

record Orchestrator =
  has_storage :: bool
  minParticipants :: int
  roundDurationSecs :: int
  gradientL2ClipNorm :: flt
  anomalyStdDevThreshold :: flt
  otsCalendars :: "string list"

definition defaultOTSCalendars :: "string list" where
  "defaultOTSCalendars = [''https://a.pool.opentimestamps.org/digest'', ''https://b.pool.opentimestamps.org/digest'',
     ''https://c.pool.opentimestamps.org/digest'']"

definition NewWithConfig :: "bool \<Rightarrow> OrchestratorConfig option \<Rightarrow> Orchestrator" where
  "NewWithConfig storage flCfg =
     \<lparr>has_storage = storage, minParticipants = 3, roundDurationSecs = 3600,
      gradientL2ClipNorm = (case flCfg of Some c \<Rightarrow> if flt_lt (Fin 0) (GradientL2ClipNorm c) then GradientL2ClipNorm c else Fin 1 | None \<Rightarrow> Fin 1),
      anomalyStdDevThreshold = (case flCfg of Some c \<Rightarrow> if flt_lt (Fin 0) (AnomalyStdDevThreshold c) then AnomalyStdDevThreshold c else Fin 3 | None \<Rightarrow> Fin 3),
      otsCalendars = (case flCfg of Some c \<Rightarrow> if 0 < length (OTSCalendars c) then OTSCalendars c else defaultOTSCalendars | None \<Rightarrow> defaultOTSCalendars)\<rparr>"

definition orchestrator_New :: "bool \<Rightarrow> Orchestrator" where
  "orchestrator_New storage = NewWithConfig storage None"

section \<open>Opening and submitting\<close>

text \<open>The field \<open>GradientData\<close> of a submission is not read and is left out.\<close>

record GradientSubmission =
  gs_NodeID :: uuid
  gs_RoundID :: int
  gs_GradientHash :: string
  gs_S3URL :: string

text \<open>Both sequences of \<open>fl_rounds\<close> advance with every row; the columns are 32 bits wide.\<close>

definition OpenRound :: "string \<Rightarrow> world \<Rightarrow> int result \<times> world" where
  "OpenRound modelVersionID w =
     (case db_call (\<lambda>w. if \<not> in_int32 (w_next_round w) then (Inl DbFailure, w)
          else (Inr (w_next_round w), w\<lparr>w_next_round := w_next_round w + 1, w_rounds := sql_insert
            \<lparr>rd_id = w_next_round w, rd_number = w_next_round w, rd_status = ''open'', rd_model_version = modelVersionID,
             rd_checkpoint = None, rd_ots = None, rd_started = w_now w, rd_completed = None\<rparr> (w_rounds w)\<rparr>)) w of
       (Inl e, w) \<Rightarrow> (Inl (Wrap ''opening FL round'' e), w)
     | (Inr n, w) \<Rightarrow> (Inr n, w))"

text \<open>The upsert of a participant; the referenced round and node must exist.\<close>

definition upsert_participant :: "int \<Rightarrow> GradientSubmission \<Rightarrow> world \<Rightarrow> unit result \<times> world" where
  "upsert_participant roundID sub = db_call (\<lambda>w.
     if lookup rd_id roundID (w_rounds w) = None \<or> lookup NodeID (gs_NodeID sub) (w_nodes w) = None then (Inl DbFailure, w)
     else (case lookup (\<lambda>p. (pt_round p, pt_node p)) (roundID, gs_NodeID sub) (w_participants w) of
       Some _ \<Rightarrow> (Inr (), w\<lparr>w_participants := sql_update (\<lambda>p. (pt_round p, pt_node p) = (roundID, gs_NodeID sub))
           (\<lambda>p. p\<lparr>pt_hash := gs_GradientHash sub, pt_s3_url := gs_S3URL sub\<rparr>) (w_participants w)\<rparr>)
     | None \<Rightarrow> (Inr (), w\<lparr>w_participants := sql_insert \<lparr>pt_round = roundID, pt_node = gs_NodeID sub,
           pt_hash = gs_GradientHash sub, pt_s3_url = gs_S3URL sub, pt_flagged = False\<rparr> (w_participants w)\<rparr>)))"

definition SubmitGradient :: "GradientSubmission \<Rightarrow> world \<Rightarrow> unit result \<times> world" where
  "SubmitGradient sub w =
     (case db_query_row (\<lambda>w. map_option (\<lambda>r. (rd_id r, rd_status r)) (lookup rd_number (gs_RoundID sub) (w_rounds w))) w of
       (Inl e, w) \<Rightarrow> (Inl (Wrap (''fetching round '' @ dec (gs_RoundID sub)) e), w)
     | (Inr (roundID, status), w) \<Rightarrow>
       if status \<noteq> ''open''
       then (Inl (Err (''round '' @ dec (gs_RoundID sub) @ '' is not open (status: '' @ status @ '')'')), w)
       else (case upsert_participant roundID sub w of
         (Inl e, w) \<Rightarrow> (Inl (Wrap ''recording gradient submission'' e), w)
       | (Inr _, w) \<Rightarrow> (Inr (), w)))"

section \<open>Filtering\<close>

record gradientRecord =
  gr_NodeID :: uuid
  gr_Hash :: string
  gr_S3URL :: string

definition fetchGradientHashes :: "int \<Rightarrow> world \<Rightarrow> gradientRecord list result \<times> world" where
  "fetchGradientHashes roundID = db_query (\<lambda>w.
     map (\<lambda>p. \<lparr>gr_NodeID = pt_node p, gr_Hash = pt_hash p, gr_S3URL = pt_s3_url p\<rparr>)
       (sql_select (\<lambda>p. pt_round p = roundID) (w_participants w)))"

text \<open>The norm of a record's gradient, when the object can be fetched and decoded.\<close>

definition record_norm :: "fl_env \<Rightarrow> world \<Rightarrow> gradientRecord \<Rightarrow> flt option" where
  "record_norm M w r =
     (if gr_S3URL r = [] then None
      else case GetObject (s3_up M) (gr_S3URL r) w of
        Inl _ \<Rightarrow> None
      | Inr blob \<Rightarrow> (case msgpack_Unmarshal M blob of Inl _ \<Rightarrow> None | Inr m \<Rightarrow> Some (l2NormFromMap m)))"

definition anomaly_threshold :: "Orchestrator \<Rightarrow> flt list \<Rightarrow> flt" where
  "anomaly_threshold orc norms = (let median = medianFloat64 norms in
     add64 median (mul64 (anomalyStdDevThreshold orc) (stddevFloat64 norms median)))"

definition flag_participant :: "int \<Rightarrow> uuid \<Rightarrow> world \<Rightarrow> world" where
  "flag_participant roundID nid w = snd (db_exec (\<lambda>w. w\<lparr>w_participants :=
     sql_update (\<lambda>p. pt_round p = roundID \<and> pt_node p = nid) (\<lambda>p. p\<lparr>pt_flagged := True\<rparr>) (w_participants w)\<rparr>) w)"

text \<open>The second loop: records above the threshold are flagged and dropped, the others kept in order.\<close>

fun filter_loop :: "int \<Rightarrow> (uuid \<rightharpoonup> flt) \<Rightarrow> flt \<Rightarrow> gradientRecord list \<Rightarrow> world \<Rightarrow> gradientRecord list \<times> world" where
  "filter_loop roundID normByNode threshold [] w = ([], w)"
| "filter_loop roundID normByNode threshold (r # rs) w =
     (if (case normByNode (gr_NodeID r) of None \<Rightarrow> False | Some n \<Rightarrow> flt_lt threshold n)
      then filter_loop roundID normByNode threshold rs (flag_participant roundID (gr_NodeID r) w)
      else (case filter_loop roundID normByNode threshold rs w of (acc, w) \<Rightarrow> (r # acc, w)))"

definition norms_by_node :: "fl_env \<Rightarrow> world \<Rightarrow> gradientRecord list \<Rightarrow> (uuid \<rightharpoonup> flt)" where
  "norms_by_node M w records =
     foldl (\<lambda>m r. case record_norm M w r of None \<Rightarrow> m | Some n \<Rightarrow> m(gr_NodeID r \<mapsto> n)) Map.empty records"

definition anomalyFilter :: "fl_env \<Rightarrow> Orchestrator \<Rightarrow> int \<Rightarrow> gradientRecord list \<Rightarrow> world \<Rightarrow> gradientRecord list \<times> world" where
  "anomalyFilter M orc roundID records w =
     (if \<not> has_storage orc then (records, w)
      else let norms = List.map_filter (record_norm M w) records in
        if length norms < 2 then (records, w)
        else filter_loop roundID (norms_by_node M w records) (anomaly_threshold orc norms) records w)"

section \<open>Aggregating\<close>

definition tier_weight :: "string \<Rightarrow> flt" where
  "tier_weight t = (if t = ''t2'' then Fin (5 / 2) else if t = ''t3'' then Fin 8 else Fin 1)"

definition node_weight :: "fl_env \<Rightarrow> uuid \<Rightarrow> world \<Rightarrow> flt \<times> world" where
  "node_weight M nid w =
     (case db_query_row (\<lambda>w. map_option (\<lambda>n. numeric_mul M
          (case lookup st_node nid (w_stakes w) of None \<Rightarrow> Fin 1 | Some s \<Rightarrow> st_bonus s) (tier_weight (Tier n)))
          (lookup NodeID nid (w_nodes w))) w of
       (Inl _, w) \<Rightarrow> (Fin 1, w) | (Inr x, w) \<Rightarrow> (x, w))"

fun collect_gradients :: "fl_env \<Rightarrow> flt \<Rightarrow> gradientRecord list \<Rightarrow> world \<Rightarrow> (grad_map \<times> flt) list result \<times> world" where
  "collect_gradients M clipNorm [] w = (Inr [], w)"
| "collect_gradients M clipNorm (r # rs) w =
     (case GetObject (s3_up M) (gr_S3URL r) w of
       Inl e \<Rightarrow> (Inl (Wrap (''fetch gradient '' @ gr_S3URL r) e), w)
     | Inr blob \<Rightarrow>
       (case msgpack_Unmarshal M blob of
         Inl e \<Rightarrow> (Inl (Wrap ''decode msgpack'' e), w)
       | Inr raw \<Rightarrow>
         (case node_weight M (gr_NodeID r) w of (x, w) \<Rightarrow>
         (case collect_gradients M clipNorm rs w of
           (Inl e, w) \<Rightarrow> (Inl e, w)
         | (Inr gs, w) \<Rightarrow> (Inr ((clipL2 clipNorm (toGradMap raw), x) # gs), w)))))"

definition fedAvg :: "ext \<Rightarrow> fl_env \<Rightarrow> Orchestrator \<Rightarrow> int \<Rightarrow> gradientRecord list \<Rightarrow> world \<Rightarrow> string result \<times> world" where
  "fedAvg E M orc roundNumber records w =
     (if \<not> has_storage orc then (Inr (''fedavg-placeholder-round-'' @ dec roundNumber), w)
      else let clipNorm = (if flt_le (gradientL2ClipNorm orc) (Fin 0) then Fin 1 else gradientL2ClipNorm orc) in
        (case collect_gradients M clipNorm records w of
          (Inl e, w) \<Rightarrow> (Inl e, w)
        | (Inr gs, w) \<Rightarrow>
          let total = foldl add64 (Fin 0) (map snd gs); total = (if flt_le total (Fin 0) then Fin 1 else total) in
          (case msgpack_Marshal M (weightedAverage (map fst gs) (map snd gs) total) of
            Inl e \<Rightarrow> (Inl e, w)
          | Inr checkpointBytes \<Rightarrow>
            (case PutObject (s3_up M) (''models/owm-v'' @ dec roundNumber @ ''.bin'') checkpointBytes w of
              (Inl e, w) \<Rightarrow> (Inl (Wrap ''upload checkpoint'' e), w)
            | (Inr _, w) \<Rightarrow> (Inr (hex_EncodeToString (sha256_Sum256 E checkpointBytes)), w)))))"

definition completeRound :: "int \<Rightarrow> string \<Rightarrow> world \<Rightarrow> unit result \<times> world" where
  "completeRound roundNumber aggHash w =
     (case db_exec (\<lambda>w. w\<lparr>w_rounds := sql_update (\<lambda>r. rd_number r = roundNumber)
         (\<lambda>r. r\<lparr>rd_status := ''complete'', rd_checkpoint := Some aggHash, rd_completed := Some (w_now w)\<rparr>) (w_rounds w)\<rparr>) w of
       (Inl e, w) \<Rightarrow> (Inl e, w)
     | (Inr _, w) \<Rightarrow> (Inr (), counter_inc ''owm_fl_rounds_total'' [''complete''] w))"

definition failRound :: "int \<Rightarrow> world \<Rightarrow> unit result \<times> world" where
  "failRound roundNumber w =
     (case db_exec (\<lambda>w. w\<lparr>w_rounds := sql_update (\<lambda>r. rd_number r = roundNumber)
         (\<lambda>r. r\<lparr>rd_status := ''failed''\<rparr>) (w_rounds w)\<rparr>) w of
       (Inl e, w) \<Rightarrow> (Inl e, w)
     | (Inr _, w) \<Rightarrow> (Inr (), counter_inc ''owm_fl_rounds_total'' [''failed''] w))"

record RoundSummary =
  rs_RoundID :: int
  ParticipantCount :: int
  AggregatedHash :: string
  OTSPending :: bool
  CompletedAt :: int

definition cas_aggregating :: "int \<Rightarrow> world \<Rightarrow> nat result \<times> world" where
  "cas_aggregating roundNumber = db_call (\<lambda>w.
     (Inr (sql_count (\<lambda>r. rd_number r = roundNumber \<and> rd_status r = ''open'') (w_rounds w)),
      w\<lparr>w_rounds := sql_update (\<lambda>r. rd_number r = roundNumber \<and> rd_status r = ''open'')
          (\<lambda>r. r\<lparr>rd_status := ''aggregating''\<rparr>) (w_rounds w)\<rparr>))"

text \<open>What follows the transition to \<open>aggregating\<close>.\<close>

definition aggregate :: "ext \<Rightarrow> fl_env \<Rightarrow> Orchestrator \<Rightarrow> int \<Rightarrow> int \<Rightarrow> int \<Rightarrow> world \<Rightarrow> RoundSummary option result \<times> world" where
  "aggregate E M orc roundID roundNumber cnt w =
     (case fetchGradientHashes roundID w of
       (Inl e, w) \<Rightarrow> (Inl (Wrap ''fetching gradient hashes'' e), snd (failRound roundNumber w))
     | (Inr gradHashes, w) \<Rightarrow>
       (case anomalyFilter M orc roundID gradHashes w of (accepted, w) \<Rightarrow>
        if int (length accepted) < minParticipants orc
        then (Inl (Err (''round '' @ dec roundNumber @ '' failed anomaly filter: only '' @ dec (int (length accepted)) @
                ''/'' @ dec cnt @ '' accepted'')), snd (failRound roundNumber w))
        else (case fedAvg E M orc roundNumber accepted w of
          (Inl e, w) \<Rightarrow> (Inl (Wrap ''fedAvg'' e), snd (failRound roundNumber w))
        | (Inr aggHash, w) \<Rightarrow>
          (case completeRound roundNumber aggHash w of
            (Inl e, w) \<Rightarrow> (Inl (Wrap ''completing round'' e), w)
          | (Inr _, w) \<Rightarrow>
              (Inr (Some \<lparr>rs_RoundID = roundNumber, ParticipantCount = int (length accepted), AggregatedHash = aggHash,
                 OTSPending = True, CompletedAt = w_now w\<rparr>),
               w\<lparr>w_stamps := w_stamps w @ [(aggHash, roundNumber)]\<rparr>)))))"

definition TryAggregate :: "ext \<Rightarrow> fl_env \<Rightarrow> Orchestrator \<Rightarrow> int \<Rightarrow> world \<Rightarrow> RoundSummary option result \<times> world" where
  "TryAggregate E M orc roundNumber w =
     (case db_query_row (\<lambda>w. map_option rd_id (lookup rd_number roundNumber (w_rounds w))) w of
       (Inl e, w) \<Rightarrow> (Inl (Wrap ''resolving round'' e), w)
     | (Inr roundID, w) \<Rightarrow>
       (case db_query (\<lambda>w. int (sql_count (\<lambda>p. pt_round p = roundID) (w_participants w))) w of
         (Inl e, w) \<Rightarrow> (Inl (Wrap ''counting participants'' e), w)
       | (Inr cnt, w) \<Rightarrow>
         if cnt < minParticipants orc then (Inr None, w)
         else (case cas_aggregating roundNumber w of
           (Inl e, w) \<Rightarrow> (Inl (Wrap ''transitioning round to aggregating'' e), w)
         | (Inr rowsAffected, w) \<Rightarrow>
             if rowsAffected = 0 then (Inr None, w) else aggregate E M orc roundID roundNumber cnt w)))"

section \<open>Closing\<close>

definition expired :: "Orchestrator \<Rightarrow> int \<Rightarrow> round_row \<Rightarrow> bool" where
  "expired orc now r \<longleftrightarrow> rd_status r = ''open'' \<and> rd_started r + roundDurationSecs orc * Second < now"

text \<open>
  The query of \<open>CloseExpired\<close> passes the duration, a Go \<open>int\<close>, for the parameter of
  \<open>($1 || ' seconds')::INTERVAL\<close>, to which PostgreSQL gives the type \<open>text\<close>. The driver prepares the
  statement first, and encodes the arguments then.
\<close>

definition scan_expired :: "ext \<Rightarrow> Orchestrator \<Rightarrow> world \<Rightarrow> int list result \<times> world" where
  "scan_expired E orc = db_call (\<lambda>w.
     (case pgx_int_as_text E (roundDurationSecs orc) of
       Some e \<Rightarrow> (Inl e, w)
     | None \<Rightarrow> (Inr (map rd_number (sql_select (expired orc (w_now w)) (w_rounds w))), w)))"

definition close_round :: "ext \<Rightarrow> fl_env \<Rightarrow> Orchestrator \<Rightarrow> nat \<times> world \<Rightarrow> int \<Rightarrow> nat \<times> world" where
  "close_round E M orc st rn = (case st of (nclosed, w) \<Rightarrow>
     (case TryAggregate E M orc rn w of
       (Inr (Some _), w) \<Rightarrow> (nclosed, w)
     | (_, w) \<Rightarrow> (Suc nclosed, snd (failRound rn w))))"

definition CloseExpired :: "ext \<Rightarrow> fl_env \<Rightarrow> Orchestrator \<Rightarrow> world \<Rightarrow> nat result \<times> world" where
  "CloseExpired E M orc w =
     (case scan_expired E orc w of
       (Inl e, w) \<Rightarrow> (Inl (Wrap ''querying expired rounds'' e), w)
     | (Inr rns, w) \<Rightarrow> (case foldl (close_round E M orc) (0, w) rns of (nclosed, w) \<Rightarrow> (Inr nclosed, w)))"

definition GetRoundStatus :: "int \<Rightarrow> world \<Rightarrow> string result \<times> world" where
  "GetRoundStatus roundNumber w =
     (case db_query_row (\<lambda>w. map_option rd_status (lookup rd_number roundNumber (w_rounds w))) w of
       (Inl e, w) \<Rightarrow> (Inl (Wrap ''fetching round status'' e), w)
     | (Inr st, w) \<Rightarrow> (Inr st, w))"

section \<open>Timestamps\<close>

text \<open>\<open>post\<close> is the HTTP request to a calendar: the status code, status line and body of the answer.\<close>

definition submitToOTSCalendar :: "(string \<Rightarrow> bytes \<Rightarrow> (nat \<times> string \<times> bytes) result) \<Rightarrow> string \<Rightarrow> bytes \<Rightarrow> bytes result" where
  "submitToOTSCalendar post calURL hashBytes =
     (case post calURL hashBytes of
       Inl e \<Rightarrow> Inl e
     | Inr (status, status_line, body) \<Rightarrow>
       if status \<noteq> 200 then Inl (Err (''HTTP '' @ status_line))
       else let proof_bytes = take (64 * 1024) body in
         if proof_bytes = [] then Inl (Err ''empty proof body'') else Inr proof_bytes)"

text \<open>
  The answers of the calendars arrive in any order: \<open>order\<close> lists the calendars in the order
  of arrival.
\<close>

definition stampOTS :: "fl_env \<Rightarrow> (string \<Rightarrow> bytes \<Rightarrow> (nat \<times> string \<times> bytes) result) \<Rightarrow> string list \<Rightarrow> Orchestrator \<Rightarrow>
    string \<Rightarrow> int \<Rightarrow> world \<Rightarrow> world" where
  "stampOTS M post order orc hashHex roundNumber w =
     (case hex_DecodeString hashHex of
       None \<Rightarrow> w
     | Some hashBytes \<Rightarrow>
       if length hashBytes \<noteq> 32 then w
       else if otsCalendars orc = [] then w
       else let proofs = List.map_filter (\<lambda>url. case submitToOTSCalendar post url hashBytes of Inl _ \<Rightarrow> None | Inr p \<Rightarrow> Some p) order
         in (case proofs of
           [] \<Rightarrow> w
         | proofBytes # _ \<Rightarrow>
           let s3Key = ''ots/round-'' @ dec roundNumber @ ''.ots'';
               w = (if has_storage orc then snd (PutObject (s3_up M) s3Key proofBytes w) else w)
           in snd (db_exec (\<lambda>w. w\<lparr>w_rounds := sql_update (\<lambda>r. rd_number r = roundNumber)
                (\<lambda>r. r\<lparr>rd_ots := Some s3Key\<rparr>) (w_rounds w)\<rparr>) w)))"

section \<open>Frames\<close>

text \<open>What the filter and the aggregation leave alone: everything about the rounds themselves.\<close>

definition same_rounds :: "world \<Rightarrow> world \<Rightarrow> bool" where
  "same_rounds w w' \<longleftrightarrow> w_rounds w' = w_rounds w \<and> w_next_round w' = w_next_round w \<and> w_now w' = w_now w \<and>
     w_stamps w' = w_stamps w \<and> w_nodes w' = w_nodes w \<and> w_tasks w' = w_tasks w \<and> w_queue w' = w_queue w \<and>
     (healthy w \<longrightarrow> healthy w') \<and>
     map (\<lambda>p. (pt_round p, pt_node p)) (w_participants w') = map (\<lambda>p. (pt_round p, pt_node p)) (w_participants w)"

lemma same_rounds_refl [simp]: "same_rounds w w"
  by (simp add: same_rounds_def)

lemma same_rounds_trans: "same_rounds w w1 \<Longrightarrow> same_rounds w1 w2 \<Longrightarrow> same_rounds w w2"
  by (simp add: same_rounds_def)

lemma healthy_tick: "healthy w \<Longrightarrow> healthy (db_tick w)"
  by (simp add: db_tick_healthy)

lemma same_rounds_tick [simp]: "same_rounds w (db_tick w)"
  by (simp add: same_rounds_def healthy_tick)

lemma flag_participant_same: "same_rounds w (flag_participant rid nid w)"
  by (auto simp: flag_participant_def db_call_def same_rounds_def healthy_tick)
    (simp_all add: healthy_def db_tick_def)

lemma flag_participant_s3 [simp]: "w_s3 (flag_participant rid nid w) = w_s3 w"
  by (simp add: flag_participant_def db_call_def)

lemma filter_loop_spec:
  "fst (filter_loop rid nm th rs w) =
     filter (\<lambda>r. \<not> (case nm (gr_NodeID r) of None \<Rightarrow> False | Some n \<Rightarrow> flt_lt th n)) rs \<and>
   same_rounds w (snd (filter_loop rid nm th rs w)) \<and> w_s3 (snd (filter_loop rid nm th rs w)) = w_s3 w"
proof (induction rs arbitrary: w)
  case (Cons r rs)
  show ?case
    using Cons [of w] Cons [of "flag_participant rid (gr_NodeID r) w"] flag_participant_same [of w rid "gr_NodeID r"]
    by (auto simp: case_prod_beta intro: same_rounds_trans)
qed simp

lemma anomalyFilter_world: "same_rounds w (snd (anomalyFilter M orc rid rs w)) \<and> w_s3 (snd (anomalyFilter M orc rid rs w)) = w_s3 w"
  by (simp add: anomalyFilter_def Let_def filter_loop_spec)

lemma anomalyFilter_subset: "set (fst (anomalyFilter M orc rid rs w)) \<subseteq> set rs"
  by (auto simp: anomalyFilter_def Let_def filter_loop_spec)

lemma node_weight_world: "same_rounds w (snd (node_weight M nid w)) \<and> w_s3 (snd (node_weight M nid w)) = w_s3 w"
  by (auto simp: node_weight_def db_call_def split: option.splits)

lemma GetObject_cong: "w_s3 w' = w_s3 w \<Longrightarrow> GetObject ok k w' = GetObject ok k w"
  by (simp add: GetObject_def)

lemma collect_gradients_world:
  "same_rounds w (snd (collect_gradients M c rs w)) \<and> w_s3 (snd (collect_gradients M c rs w)) = w_s3 w"
proof (induction rs arbitrary: w)
  case (Cons r rs)
  show ?case
    using Cons [of "snd (node_weight M (gr_NodeID r) w)"] node_weight_world [of w M "gr_NodeID r"]
    by (auto simp: case_prod_beta split: sum.splits prod.splits intro: same_rounds_trans)
qed simp

text \<open>An object that is missing makes the collection fail.\<close>

lemma collect_gradients_missing:
  assumes "r \<in> set rs" "w_s3 w (gr_S3URL r) = None"
  shows "\<exists>e. fst (collect_gradients M c rs w) = Inl e"
  using assms
proof (induction rs arbitrary: w)
  case (Cons r' rs)
  show ?case
  proof (cases "r' = r")
    case True
    then show ?thesis using Cons.prems(2) by (simp add: GetObject_def)
  next
    case False
    let ?w1 = "snd (node_weight M (gr_NodeID r') w)"
    have "\<exists>e. fst (collect_gradients M c rs ?w1) = Inl e"
      using Cons.IH [of ?w1] Cons.prems False node_weight_world [of w M "gr_NodeID r'"] by auto
    then show ?thesis by (auto simp: case_prod_beta split: sum.splits prod.splits)
  qed
qed simp

lemma PutObject_same: "same_rounds w (snd (PutObject ok k d w))"
  by (simp add: same_rounds_def healthy_def)

lemma fedAvg_spec:
  assumes "fedAvg E M orc rn rs w = (r, w')"
  shows "same_rounds w w' \<and> (\<forall>h. r = Inr h \<longrightarrow> has_storage orc \<longrightarrow>
    (\<exists>cb. w_s3 w' (''models/owm-v'' @ dec rn @ ''.bin'') = Some cb \<and> h = hex_EncodeToString (sha256_Sum256 E cb)))"
proof (cases "has_storage orc")
  case True
  let ?c = "if flt_le (gradientL2ClipNorm orc) (Fin 0) then Fin 1 else gradientL2ClipNorm orc"
  obtain gs w1 where c: "collect_gradients M ?c rs w = (gs, w1)" by fastforce
  have w1: "same_rounds w w1" using collect_gradients_world [of w M ?c rs] c by simp
  have p: "same_rounds w w2 \<and> (x = Inr u \<longrightarrow> w_s3 w2 k = Some d)" if "PutObject ok k d w1 = (x, w2)" for ok k d x u w2
    using that same_rounds_trans [OF w1 PutObject_same [of w1 ok k d]] by (auto simp: PutObject_def split: if_splits)
  show ?thesis
  proof (cases gs)
    case (Inl e)
    then show ?thesis using assms True c w1 by (auto simp: fedAvg_def Let_def)
  next
    case (Inr g)
    define avg where "avg = weightedAverage (map fst g) (map snd g)
      (let t = foldl add64 (Fin 0) (map snd g) in if flt_le t (Fin 0) then Fin 1 else t)"
    have f: "fedAvg E M orc rn rs w = (case msgpack_Marshal M avg of Inl e \<Rightarrow> (Inl e, w1)
      | Inr cb \<Rightarrow> (case PutObject (s3_up M) (''models/owm-v'' @ dec rn @ ''.bin'') cb w1 of
          (Inl e, w) \<Rightarrow> (Inl (Wrap ''upload checkpoint'' e), w)
        | (Inr _, w) \<Rightarrow> (Inr (hex_EncodeToString (sha256_Sum256 E cb)), w)))"
      using True c Inr by (simp add: fedAvg_def Let_def avg_def)
    show ?thesis
    proof (cases "msgpack_Marshal M avg")
      case Inl
      then show ?thesis using assms f w1 by auto
    next
      case (Inr cb)
      obtain x w2 where x: "PutObject (s3_up M) (''models/owm-v'' @ dec rn @ ''.bin'') cb w1 = (x, w2)" by fastforce
      then show ?thesis using assms f Inr p [OF x] by (cases x) auto
    qed
  qed
qed (use assms in \<open>simp add: fedAvg_def\<close>)

section \<open>Rounds\<close>

definition round_statuses :: "string list" where
  "round_statuses = [''open'', ''aggregating'', ''complete'', ''failed'']"

text \<open>
  The invariant of the round tables: numbers and participants are unique and below the
  sequence's next value, statuses within their check, and a complete round has a checkpoint.
\<close>

definition round_ok :: "int \<Rightarrow> round_row \<Rightarrow> bool" where
  "round_ok nxt r \<longleftrightarrow> rd_status r \<in> set round_statuses \<and> rd_id r < nxt \<and> rd_number r < nxt \<and>
     (rd_status r = ''complete'' \<longrightarrow> rd_checkpoint r \<noteq> None)"

definition fl_ok :: "world \<Rightarrow> bool" where
  "fl_ok w \<longleftrightarrow> keyed rd_id (w_rounds w) \<and> keyed rd_number (w_rounds w) \<and> list_all (round_ok (w_next_round w)) (w_rounds w) \<and>
     keyed (\<lambda>p. (pt_round p, pt_node p)) (w_participants w)"

lemma same_rounds_fl_ok: "same_rounds w w' \<Longrightarrow> fl_ok w \<Longrightarrow> fl_ok w'"
  by (simp add: same_rounds_def fl_ok_def keyed_def)

lemma fl_ok_update:
  assumes "fl_ok w" "\<And>r. rd_id (f r) = rd_id r" "\<And>r. rd_number (f r) = rd_number r"
    and "\<And>r. round_ok (w_next_round w) r \<Longrightarrow> P r \<Longrightarrow> round_ok (w_next_round w) (f r)"
  shows "fl_ok (w\<lparr>w_rounds := sql_update P f (w_rounds w)\<rparr>)"
  using assms by (auto simp: fl_ok_def intro!: list_all_sql_update)

lemma fl_ok_counter [simp]: "fl_ok (counter_inc m ls w) = fl_ok w"
  by (simp add: fl_ok_def)

lemma fl_ok_tick [simp]: "fl_ok (db_tick w) = fl_ok w"
  by (simp add: fl_ok_def)

lemma fl_ok_stamps [simp]: "fl_ok (w\<lparr>w_stamps := x\<rparr>) = fl_ok w"
  by (simp add: fl_ok_def)

lemma failRound_fl_ok [wf_intros]: "fl_ok w \<Longrightarrow> fl_ok (snd (failRound rn w))"
  using fl_ok_update [of "db_tick w"] by (auto simp: failRound_def db_call_def round_ok_def round_statuses_def)

lemma completeRound_fl_ok [wf_intros]: "fl_ok w \<Longrightarrow> fl_ok (snd (completeRound rn h w))"
  using fl_ok_update [of "db_tick w"] by (auto simp: completeRound_def db_call_def round_ok_def round_statuses_def)

lemma OpenRound_fl_ok [wf_intros]:
  assumes "fl_ok w"
  shows "fl_ok (snd (OpenRound v w))"
proof -
  have mono: "list_all (round_ok (n + 1)) rs" if "list_all (round_ok n) rs" for n :: int and rs
    using that by (auto simp: list_all_iff round_ok_def)
  have new: "lookup rd_id n rs = None" "lookup rd_number n rs = None" if "list_all (round_ok n) rs" for n :: int and rs
    using that by (auto simp: list_all_iff round_ok_def lookup_None)
  show ?thesis using assms mono new
    by (auto simp: OpenRound_def db_call_def fl_ok_def) (auto simp: sql_insert_def round_ok_def round_statuses_def)
qed

lemma upsert_participant_fl_ok: "fl_ok w \<Longrightarrow> fl_ok (snd (upsert_participant rid sub w))"
  by (auto simp: upsert_participant_def db_call_def fl_ok_def split: option.splits)

lemma SubmitGradient_fl_ok [wf_intros]: "fl_ok w \<Longrightarrow> fl_ok (snd (SubmitGradient sub w))"
  using upsert_participant_fl_ok [of "db_tick w" _ sub]
  by (auto simp: SubmitGradient_def db_call_def split: option.splits sum.splits prod.splits if_splits)
    (metis snd_conv)+

section \<open>Aggregation\<close>

lemma failRound_healthy:
  "healthy w \<Longrightarrow> failRound rn w = (Inr (), counter_inc ''owm_fl_rounds_total'' [''failed'']
     (w\<lparr>w_rounds := sql_update (\<lambda>r. rd_number r = rn) (\<lambda>r. r\<lparr>rd_status := ''failed''\<rparr>) (w_rounds w)\<rparr>))"
  by (simp add: failRound_def db_call_healthy)

text \<open>How an aggregation ends: the round is marked failed, it cannot be marked complete, or it is complete.\<close>

lemma aggregate_cases:
  assumes "aggregate E M orc rid rn cnt w = (res, w')"
  obtains (failed) e w1 where "same_rounds w w1" "res = Inl e" "w' = snd (failRound rn w1)"
    | (stuck) e h w1 where "same_rounds w w1" "completeRound rn h w1 = (Inl e, w')" "res = Inl (Wrap ''completing round'' e)"
    | (finished) h n w1 w2 where "same_rounds w w1" "completeRound rn h w1 = (Inr (), w2)" "minParticipants orc \<le> n"
      "res = Inr (Some \<lparr>rs_RoundID = rn, ParticipantCount = n, AggregatedHash = h, OTSPending = True, CompletedAt = w_now w2\<rparr>)"
      "w' = w2\<lparr>w_stamps := w_stamps w2 @ [(h, rn)]\<rparr>"
      "has_storage orc \<longrightarrow> (\<exists>cb. w_s3 w1 (''models/owm-v'' @ dec rn @ ''.bin'') = Some cb \<and> h = hex_EncodeToString (sha256_Sum256 E cb))"
proof -
  obtain gh w1 where g: "fetchGradientHashes rid w = (gh, w1)" by fastforce
  have w1: "same_rounds w w1"
    using g by (auto simp: fetchGradientHashes_def db_call_def split: if_splits)
  show thesis
  proof (cases gh)
    case (Inl e)
    then show thesis using assms g w1 failed [of w1] by (auto simp: aggregate_def)
  next
    case (Inr hs)
    obtain acc w2 where a: "anomalyFilter M orc rid hs w1 = (acc, w2)" by fastforce
    have w2: "same_rounds w w2" using anomalyFilter_world [of w1 M orc rid hs] a same_rounds_trans [OF w1] by auto
    obtain h w3 where f: "fedAvg E M orc rn acc w2 = (h, w3)" by fastforce
    have w3: "same_rounds w w3" using fedAvg_spec [OF f] same_rounds_trans [OF w2] by blast
    show thesis
    proof (cases "int (length acc) < minParticipants orc")
      case True
      then show thesis using assms g Inr a w2 failed [of w2] by (auto simp: aggregate_def)
    next
      case n: False
      show thesis
      proof (cases h)
        case (Inl e)
        then show thesis using assms g Inr a f n w3 failed [of w3] by (auto simp: aggregate_def)
      next
        case (Inr hash)
        obtain c w4 where c: "completeRound rn hash w3 = (c, w4)" by fastforce
        show thesis
        proof (cases c)
          case (Inl e)
          then show thesis using assms g \<open>gh = Inr hs\<close> a f n Inr c w3 stuck [of w3 hash e] by (auto simp: aggregate_def)
        next
          case (Inr u)
          have "has_storage orc \<longrightarrow> (\<exists>cb. w_s3 w3 (''models/owm-v'' @ dec rn @ ''.bin'') = Some cb \<and> hash = hex_EncodeToString (sha256_Sum256 E cb))"
            using fedAvg_spec [OF f] \<open>h = Inr hash\<close> by blast
          then show thesis using assms g \<open>gh = Inr hs\<close> a f n \<open>h = Inr hash\<close> Inr c w3 finished [of w3 hash w4 "int (length acc)"]
            by (auto simp: aggregate_def)
        qed
      qed
    qed
  qed
qed

lemma completeRound_ok:
  "completeRound rn h w = (Inr (), w') \<Longrightarrow>
   w' = counter_inc ''owm_fl_rounds_total'' [''complete''] ((db_tick w)\<lparr>w_rounds := sql_update (\<lambda>r. rd_number r = rn)
     (\<lambda>r. r\<lparr>rd_status := ''complete'', rd_checkpoint := Some h, rd_completed := Some (w_now w)\<rparr>) (w_rounds w)\<rparr>)"
  by (auto simp: completeRound_def db_call_def split: if_splits)

lemma completeRound_fail: "completeRound rn h w = (Inl e, w') \<Longrightarrow> db_down w \<and> w' = db_tick w"
  by (auto simp: completeRound_def db_call_def split: if_splits)

lemma healthy_not_down: "healthy w \<Longrightarrow> \<not> db_down w"
  by (simp add: healthy_def db_down_def)

lemma aggregate_fl_ok: "aggregate E M orc rid rn cnt w = (res, w') \<Longrightarrow> fl_ok w \<Longrightarrow> fl_ok w'"
proof (erule aggregate_cases)
  fix e w1 assume "same_rounds w w1" "w' = snd (failRound rn w1)" "fl_ok w"
  then show "fl_ok w'" using same_rounds_fl_ok failRound_fl_ok by blast
next
  fix e h w1 assume "same_rounds w w1" "completeRound rn h w1 = (Inl e, w')" "fl_ok w"
  then show "fl_ok w'" using same_rounds_fl_ok completeRound_fail by fastforce
next
  fix h n w1 w2 assume "same_rounds w w1" "completeRound rn h w1 = (Inr (), w2)" "w' = w2\<lparr>w_stamps := w_stamps w2 @ [(h, rn)]\<rparr>" "fl_ok w"
  then show "fl_ok w'" using same_rounds_fl_ok completeRound_fl_ok [of w1 rn h] by fastforce
qed

lemma aggregate_error_healthy:
  assumes "aggregate E M orc rid rn cnt w = (Inl e, w')" "healthy w"
  shows "healthy w' \<and> w_now w' = w_now w \<and>
    w_rounds w' = sql_update (\<lambda>r. rd_number r = rn) (\<lambda>r. r\<lparr>rd_status := ''failed''\<rparr>) (w_rounds w)"
  using assms(1)
proof (cases rule: aggregate_cases)
  case (failed e w1)
  then show ?thesis using assms(2) by (auto simp: same_rounds_def failRound_healthy) (simp add: healthy_def)
next
  case (stuck e h w1)
  then have "healthy w1" using assms(2) by (simp add: same_rounds_def)
  then show ?thesis using completeRound_fail [OF stuck(2)] healthy_not_down by blast
next
  case (finished h n w1 w2)
  then show ?thesis by simp
qed

lemma aggregate_ok:
  assumes "aggregate E M orc rid rn cnt w = (Inr s, w')"
  obtains h n where "s = Some \<lparr>rs_RoundID = rn, ParticipantCount = n, AggregatedHash = h, OTSPending = True, CompletedAt = w_now w\<rparr>"
    "minParticipants orc \<le> n" "w_stamps w' = w_stamps w @ [(h, rn)]" "healthy w \<longrightarrow> healthy w'" "w_now w' = w_now w"
    "w_rounds w' = sql_update (\<lambda>r. rd_number r = rn) (\<lambda>r. r\<lparr>rd_status := ''complete'', rd_checkpoint := Some h,
       rd_completed := Some (w_now w)\<rparr>) (w_rounds w)"
    "has_storage orc \<longrightarrow> (\<exists>cb. w_s3 w' (''models/owm-v'' @ dec rn @ ''.bin'') = Some cb \<and> h = hex_EncodeToString (sha256_Sum256 E cb))"
  using assms
proof (cases rule: aggregate_cases)
  case (finished h n w1 w2)
  note w2 = completeRound_ok [OF finished(2)]
  have "healthy w1 \<longrightarrow> healthy w'" unfolding finished(5) w2 by (simp add: healthy_def db_tick_def)
  then show thesis using finished w2 by (intro that [of n h]) (auto simp: same_rounds_def)
qed simp_all

lemma sql_update_after_cas [simp]:
  "sql_update (\<lambda>r. rd_number r = rn) (\<lambda>r. r\<lparr>rd_status := s\<rparr>)
     (sql_update (\<lambda>r. rd_number r = rn \<and> rd_status r = ''open'') (\<lambda>r. r\<lparr>rd_status := ''aggregating''\<rparr>) rs) =
   sql_update (\<lambda>r. rd_number r = rn) (\<lambda>r. r\<lparr>rd_status := s\<rparr>) rs"
  "sql_update (\<lambda>r. rd_number r = rn) (\<lambda>r. r\<lparr>rd_status := s, rd_checkpoint := c, rd_completed := t\<rparr>)
     (sql_update (\<lambda>r. rd_number r = rn \<and> rd_status r = ''open'') (\<lambda>r. r\<lparr>rd_status := ''aggregating''\<rparr>) rs) =
   sql_update (\<lambda>r. rd_number r = rn) (\<lambda>r. r\<lparr>rd_status := s, rd_checkpoint := c, rd_completed := t\<rparr>) rs"
  by (auto simp: sql_update_def)

lemma cas_cases:
  assumes "cas_aggregating rn w = (c, w')"
  obtains (down) "db_down w" "c = Inl DbFailure" "w' = db_tick w"
    | (none) "c = Inr 0" "w' = db_tick w"
    | (taken) k where "c = Inr k" "k \<noteq> 0" "\<exists>r\<in>set (w_rounds w). rd_number r = rn \<and> rd_status r = ''open''"
      "w' = (db_tick w)\<lparr>w_rounds := sql_update (\<lambda>r. rd_number r = rn \<and> rd_status r = ''open'')
          (\<lambda>r. r\<lparr>rd_status := ''aggregating''\<rparr>) (w_rounds w)\<rparr>"
proof (cases "db_down w")
  case True
  then show thesis using assms down by (simp add: cas_aggregating_def db_call_def)
next
  case False
  let ?k = "sql_count (\<lambda>r. rd_number r = rn \<and> rd_status r = ''open'') (w_rounds w)"
  have c: "c = Inr ?k" "w' = (db_tick w)\<lparr>w_rounds := sql_update (\<lambda>r. rd_number r = rn \<and> rd_status r = ''open'')
          (\<lambda>r. r\<lparr>rd_status := ''aggregating''\<rparr>) (w_rounds w)\<rparr>"
    using assms False by (auto simp: cas_aggregating_def db_call_def)
  show thesis
  proof (cases "?k = 0")
    case True
    then have "sql_update (\<lambda>r. rd_number r = rn \<and> rd_status r = ''open'') (\<lambda>r. r\<lparr>rd_status := ''aggregating''\<rparr>) (w_rounds w) = w_rounds w"
      by (intro sql_update_no_match) (simp add: sql_count_0)
    then show thesis using c True none by simp
  next
    case False
    then show thesis using c taken [OF c(1) False _ c(2)] by (auto simp: sql_count_0)
  qed
qed

lemma TryAggregate_cases:
  assumes "TryAggregate E M orc rn w = (res, w')"
  obtains (idle) "same_rounds w w'" "w_s3 w' = w_s3 w" "res = Inr None \<or> \<not> healthy w \<and> (\<exists>e. res = Inl e) \<or>
        lookup rd_number rn (w_rounds w) = None \<and> (\<exists>e. res = Inl e)"
    | (ran) r wc where "lookup rd_number rn (w_rounds w) = Some r"
      "minParticipants orc \<le> int (sql_count (\<lambda>p. pt_round p = rd_id r) (w_participants w))"
      "\<exists>r\<in>set (w_rounds w). rd_number r = rn \<and> rd_status r = ''open''" "same_rounds w (wc\<lparr>w_rounds := w_rounds w\<rparr>)"
      "w_rounds wc = sql_update (\<lambda>r. rd_number r = rn \<and> rd_status r = ''open'') (\<lambda>r. r\<lparr>rd_status := ''aggregating''\<rparr>) (w_rounds w)"
      "w_s3 wc = w_s3 w" "w_participants wc = w_participants w"
      "aggregate E M orc (rd_id r) rn (int (sql_count (\<lambda>p. pt_round p = rd_id r) (w_participants w))) wc = (res, w')"
proof -
  have tick2: "same_rounds w (db_tick (db_tick w))" "same_rounds w (db_tick (db_tick (db_tick w)))"
    using same_rounds_tick same_rounds_trans by blast+
  show thesis
  proof (cases "db_down w \<or> lookup rd_number rn (w_rounds w) = None \<or> db_down (db_tick w)")
    case True
    moreover have "db_down w \<or> db_down (db_tick w) \<longrightarrow> \<not> healthy w"
      using healthy_not_down healthy_tick by blast
    ultimately show thesis using assms tick2 by (intro idle) (auto simp: TryAggregate_def db_call_def split: option.splits if_splits)
  next
    case False
    then obtain r where r: "lookup rd_number rn (w_rounds w) = Some r" by auto
    let ?n = "int (sql_count (\<lambda>p. pt_round p = rd_id r) (w_participants w))"
    let ?w2 = "db_tick (db_tick w)"
    have t: "TryAggregate E M orc rn w = (if ?n < minParticipants orc then (Inr None, ?w2)
        else (case cas_aggregating rn ?w2 of
           (Inl e, w) \<Rightarrow> (Inl (Wrap ''transitioning round to aggregating'' e), w)
         | (Inr rowsAffected, w) \<Rightarrow> if rowsAffected = 0 then (Inr None, w) else aggregate E M orc (rd_id r) rn ?n w))"
      using False r by (simp add: TryAggregate_def db_call_def)
    show thesis
    proof (cases "?n < minParticipants orc")
      case True
      then show thesis using assms t tick2 idle by auto
    next
      case n: False
      obtain c w3 where c: "cas_aggregating rn ?w2 = (c, w3)" by fastforce
      then show thesis
      proof (cases rule: cas_cases)
        case down
        have "\<not> healthy w" using down(1) healthy_not_down healthy_tick by blast
        then show thesis using assms t n c down tick2 by (intro idle) auto
      next
        case none
        then show thesis using assms t n c tick2 by (intro idle) auto
      next
        case (taken k)
        have "same_rounds w (w3\<lparr>w_rounds := w_rounds w\<rparr>)"
          using tick2(2) unfolding taken(4) by (auto simp: same_rounds_def) (simp add: healthy_def)
        then show thesis using assms t n c taken r by (intro ran [of r w3]) auto
      qed
    qed
  qed
qed

lemma TryAggregate_fl_ok [wf_intros]:
  assumes "fl_ok w"
  shows "fl_ok (snd (TryAggregate E M orc rn w))"
proof -
  obtain res w' where t: "TryAggregate E M orc rn w = (res, w')" by fastforce
  then show ?thesis
  proof (cases rule: TryAggregate_cases)
    case idle
    then show ?thesis using assms same_rounds_fl_ok t by auto
  next
    case (ran r wc)
    have "fl_ok (wc\<lparr>w_rounds := w_rounds w\<rparr>)" using same_rounds_fl_ok [OF ran(4) assms] .
    then have "fl_ok (wc\<lparr>w_rounds := sql_update (\<lambda>r. rd_number r = rn \<and> rd_status r = ''open'')
        (\<lambda>r. r\<lparr>rd_status := ''aggregating''\<rparr>) (w_rounds w)\<rparr>)"
      using fl_ok_update [of "wc\<lparr>w_rounds := w_rounds w\<rparr>"] by (auto simp: round_ok_def round_statuses_def)
    moreover have "wc = wc\<lparr>w_rounds := sql_update (\<lambda>r. rd_number r = rn \<and> rd_status r = ''open'')
        (\<lambda>r. r\<lparr>rd_status := ''aggregating''\<rparr>) (w_rounds w)\<rparr>" using ran(5) by simp
    ultimately have "fl_ok wc" by metis
    then show ?thesis using aggregate_fl_ok [OF ran(8)] t by simp
  qed
qed

text \<open>With a working database, an attempt leaves the round as it was, complete, or failed.\<close>

lemma TryAggregate_healthy:
  assumes "TryAggregate E M orc rn w = (res, w')" "healthy w" "lookup rd_number rn (w_rounds w) = Some r"
  shows "healthy w' \<and> w_now w' = w_now w \<and>
    (case res of
      Inr None \<Rightarrow> w_rounds w' = w_rounds w
    | Inr (Some s) \<Rightarrow> w_rounds w' = sql_update (\<lambda>r. rd_number r = rn) (\<lambda>r. r\<lparr>rd_status := ''complete'',
        rd_checkpoint := Some (AggregatedHash s), rd_completed := Some (w_now w)\<rparr>) (w_rounds w)
    | Inl e \<Rightarrow> w_rounds w' = sql_update (\<lambda>r. rd_number r = rn) (\<lambda>r. r\<lparr>rd_status := ''failed''\<rparr>) (w_rounds w))"
  using assms(1)
proof (cases rule: TryAggregate_cases)
  case idle
  then show ?thesis using assms(2,3) by (auto simp: same_rounds_def)
next
  case (ran r wc)
  have h: "healthy wc" "w_now wc = w_now w" using ran(4) assms(2) by (auto simp: same_rounds_def healthy_def)
  show ?thesis
  proof (cases res)
    case (Inl e)
    then show ?thesis using aggregate_error_healthy [OF ran(8) [unfolded Inl] h(1)] h ran(5) by simp
  next
    case (Inr s)
    from ran(8) [unfolded Inr] show ?thesis using h ran(5) Inr by (elim aggregate_ok) simp
  qed
qed

section \<open>Expired rounds\<close>

lemma close_round_healthy:
  assumes "close_round E M orc (n, w) rn = (n', w')" "healthy w" "lookup rd_number rn (w_rounds w) \<noteq> None"
  shows "healthy w' \<and> w_now w' = w_now w \<and>
    (\<exists>f. w_rounds w' = sql_update (\<lambda>r. rd_number r = rn) f (w_rounds w) \<and>
      (\<forall>r. rd_number (f r) = rd_number r \<and> rd_status (f r) \<in> {''complete'', ''failed''}))"
proof -
  obtain res w1 where t: "TryAggregate E M orc rn w = (res, w1)" by fastforce
  obtain r where r: "lookup rd_number rn (w_rounds w) = Some r" using assms(3) by auto
  note h = TryAggregate_healthy [OF t assms(2) r]
  have upd: "sql_update P (\<lambda>r. r\<lparr>rd_status := s\<rparr>) (sql_update P (\<lambda>r. r\<lparr>rd_status := s'\<rparr>) rs) = sql_update P (\<lambda>r. r\<lparr>rd_status := s\<rparr>) rs"
    if "P = (\<lambda>r. rd_number r = rn)" for P s s' rs using that by (auto simp: sql_update_def)
  show ?thesis
  proof (cases res)
    case (Inl e)
    then have "w' = snd (failRound rn w1)" using assms(1) t by (simp add: close_round_def)
    then show ?thesis using h Inl upd [OF refl]
      by (auto simp: failRound_healthy intro!: exI [of _ "\<lambda>r. r\<lparr>rd_status := ''failed''\<rparr>"]) (simp add: healthy_def)
  next
    case (Inr s)
    show ?thesis
    proof (cases s)
      case None
      then have "w' = snd (failRound rn w1)" using assms(1) t Inr by (simp add: close_round_def)
      then show ?thesis using h Inr None
        by (auto simp: failRound_healthy intro!: exI [of _ "\<lambda>r. r\<lparr>rd_status := ''failed''\<rparr>"]) (simp add: healthy_def)
    next
      case (Some x)
      then have "w' = w1" using assms(1) t Inr by (simp add: close_round_def)
      then show ?thesis using h Inr Some
        by (intro conjI exI [of _ "\<lambda>r. r\<lparr>rd_status := ''complete'', rd_checkpoint := Some (AggregatedHash x), rd_completed := Some (w_now w)\<rparr>"])
          simp_all
    qed
  qed
qed

lemma close_loop:
  assumes "healthy w" "\<And>rn. rn \<in> set rns \<Longrightarrow> lookup rd_number rn (w_rounds w) \<noteq> None"
  shows "case foldl (close_round E M orc) (n, w) rns of (n', w') \<Rightarrow>
    healthy w' \<and> map rd_number (w_rounds w') = map rd_number (w_rounds w) \<and>
    (\<forall>i<length (w_rounds w). if rd_number (w_rounds w ! i) \<in> set rns
      then rd_status (w_rounds w' ! i) \<in> {''complete'', ''failed''} else w_rounds w' ! i = w_rounds w ! i)"
  using assms
proof (induction rns arbitrary: n w)
  case (Cons rn rns)
  obtain n1 w1 where c: "close_round E M orc (n, w) rn = (n1, w1)" by fastforce
  obtain f where f: "healthy w1" "w_rounds w1 = sql_update (\<lambda>r. rd_number r = rn) f (w_rounds w)"
    "\<And>r. rd_number (f r) = rd_number r" "\<And>r. rd_status (f r) \<in> {''complete'', ''failed''}"
    using close_round_healthy [OF c Cons.prems(1)] Cons.prems(2) [of rn] by auto
  have m: "map rd_number (w_rounds w1) = map rd_number (w_rounds w)" using f(2,3) by simp
  have l: "lookup rd_number k (w_rounds w1) \<noteq> None" if "k \<in> set rns" for k
    using Cons.prems(2) [of k] that f(2,3) by (simp add: lookup_update)
  have nth: "w_rounds w1 ! i = (if rd_number (w_rounds w ! i) = rn then f (w_rounds w ! i) else w_rounds w ! i)"
    "rd_number (w_rounds w1 ! i) = rd_number (w_rounds w ! i)" if "i < length (w_rounds w)" for i
    using that f(2,3) by (simp_all add: sql_update_def)
  have len: "length (w_rounds w1) = length (w_rounds w)" using f(2) by simp
  obtain n' w' where e: "foldl (close_round E M orc) (n1, w1) rns = (n', w')" by fastforce
  have IH: "healthy w'" "map rd_number (w_rounds w') = map rd_number (w_rounds w1)"
    "\<And>i. i < length (w_rounds w) \<Longrightarrow> if rd_number (w_rounds w ! i) \<in> set rns
      then rd_status (w_rounds w' ! i) \<in> {''complete'', ''failed''} else w_rounds w' ! i = w_rounds w1 ! i"
    using Cons.IH [OF f(1) l, of n1] e len nth(2) by auto
  have a: "if rd_number (w_rounds w ! i) \<in> set (rn # rns)
      then rd_status (w_rounds w' ! i) \<in> {''complete'', ''failed''} else w_rounds w' ! i = w_rounds w ! i"
    if "i < length (w_rounds w)" for i
    using IH(3) [OF that] nth(1) [OF that] f(4) [of "w_rounds w ! i"] by (simp split: if_splits)
  show ?case unfolding foldl.simps c e prod.case
    using IH(1) trans [OF IH(2) m] a by (intro conjI allI impI)
qed simp

lemma scan_expired_cases:
  assumes "scan_expired E orc w = (res, w')"
  shows "w' = db_tick w \<and> (res = Inr (map rd_number (sql_select (expired orc (w_now w)) (w_rounds w))) \<or>
    (\<exists>e. res = Inl e \<and> (e = DbFailure \<or> pgx_int_as_text E (roundDurationSecs orc) = Some e)))"
  using assms by (auto simp: scan_expired_def db_call_def split: if_splits option.splits)

lemma CloseExpired_world:
  "snd (CloseExpired E M orc w) \<in> {db_tick w, snd (foldl (close_round E M orc) (0, db_tick w)
     (map rd_number (sql_select (expired orc (w_now w)) (w_rounds w))))}"
proof -
  obtain res w1 where s: "scan_expired E orc w = (res, w1)" by fastforce
  from scan_expired_cases [OF s] show ?thesis by (auto simp: CloseExpired_def s split: prod.split)
qed

lemma scan_refused: "refuses_int E \<Longrightarrow> \<exists>e. scan_expired E orc w = (Inl e, db_tick w)"
proof -
  assume "refuses_int E"
  then obtain e where "pgx_int_as_text E (roundDurationSecs orc) = Some e" unfolding refuses_int_def by blast
  then show ?thesis by (simp add: scan_expired_def db_call_def)
qed

text \<open>A driver that took the argument would let the periodic job settle every expired round.\<close>

lemma CloseExpired_healthy:
  assumes "healthy w" "fl_ok w" "pgx_int_as_text E (roundDurationSecs orc) = None"
  shows "\<exists>n w'. CloseExpired E M orc w = (Inr n, w') \<and> healthy w' \<and> map rd_number (w_rounds w') = map rd_number (w_rounds w) \<and>
    (\<forall>i<length (w_rounds w). if expired orc (w_now w) (w_rounds w ! i)
      then rd_status (w_rounds w' ! i) \<in> {''complete'', ''failed''} else w_rounds w' ! i = w_rounds w ! i)"
proof -
  let ?rns = "map rd_number (sql_select (expired orc (w_now w)) (w_rounds w))"
  have k: "keyed rd_number (w_rounds w)" using assms(2) by (simp add: fl_ok_def)
  have look: "lookup rd_number rn (w_rounds w) \<noteq> None" if "rn \<in> set ?rns" for rn
    using that by (auto simp: sql_select_def lookup_None)
  obtain n w' where f: "foldl (close_round E M orc) (0, w) ?rns = (n, w')" by fastforce
  have mem: "rd_number (w_rounds w ! i) \<in> set ?rns \<longleftrightarrow> expired orc (w_now w) (w_rounds w ! i)" if i: "i < length (w_rounds w)" for i
  proof
    assume "rd_number (w_rounds w ! i) \<in> set ?rns"
    then obtain r where "r \<in> set (w_rounds w)" "expired orc (w_now w) r" "rd_number r = rd_number (w_rounds w ! i)"
      by (auto simp: sql_select_def)
    then show "expired orc (w_now w) (w_rounds w ! i)" using keyed_unique [OF k _ nth_mem [OF i]] by metis
  qed (use i in \<open>auto simp: sql_select_def\<close>)
  have "CloseExpired E M orc w = (Inr n, w')" using f by (simp add: CloseExpired_def scan_expired_def assms(3) db_call_healthy [OF assms(1)])
  then show ?thesis using close_loop [of w ?rns E M orc 0, OF assms(1) look] mem unfolding f by auto
qed

section \<open>Submissions\<close>

text \<open>
  A submission is accepted only for an open round and an existing node; the node's entry of that
  round then holds the submitted hash and object key, replacing an earlier one, and every other
  entry is unchanged.
\<close>

lemma SubmitGradient_accepted:
  assumes "SubmitGradient sub w = (Inr u, w')" "fl_ok w"
  shows "\<exists>r. lookup rd_number (gs_RoundID sub) (w_rounds w) = Some r \<and> rd_status r = ''open'' \<and>
    lookup NodeID (gs_NodeID sub) (w_nodes w) \<noteq> None \<and> w_rounds w' = w_rounds w \<and>
    map_option (\<lambda>p. (pt_hash p, pt_s3_url p)) (lookup (\<lambda>p. (pt_round p, pt_node p)) (rd_id r, gs_NodeID sub) (w_participants w')) =
      Some (gs_GradientHash sub, gs_S3URL sub) \<and>
    (\<forall>k. k \<noteq> (rd_id r, gs_NodeID sub) \<longrightarrow>
      lookup (\<lambda>p. (pt_round p, pt_node p)) k (w_participants w') = lookup (\<lambda>p. (pt_round p, pt_node p)) k (w_participants w))"
proof -
  let ?key = "\<lambda>p. (pt_round p, pt_node p)"
  obtain r where r: "lookup rd_number (gs_RoundID sub) (w_rounds w) = Some r" "rd_status r = ''open''"
    "upsert_participant (rd_id r) sub (db_tick w) = (Inr (), w')"
    using assms(1) by (auto simp: SubmitGradient_def db_call_def split: option.splits sum.splits prod.splits if_splits)
  let ?k = "(rd_id r, gs_NodeID sub)"
  have n: "lookup NodeID (gs_NodeID sub) (w_nodes w) \<noteq> None" "w_rounds w' = w_rounds w"
    using r(3) by (auto simp: upsert_participant_def db_call_def split: option.splits if_splits)
  have p: "w_participants w' = (case lookup ?key ?k (w_participants w) of
      Some _ \<Rightarrow> sql_update (\<lambda>p. ?key p = ?k) (\<lambda>p. p\<lparr>pt_hash := gs_GradientHash sub, pt_s3_url := gs_S3URL sub\<rparr>) (w_participants w)
    | None \<Rightarrow> sql_insert \<lparr>pt_round = rd_id r, pt_node = gs_NodeID sub, pt_hash = gs_GradientHash sub, pt_s3_url = gs_S3URL sub,
        pt_flagged = False\<rparr> (w_participants w))"
    using r(3) by (auto simp: upsert_participant_def db_call_def split: option.splits if_splits)
  have "map_option (\<lambda>p. (pt_hash p, pt_s3_url p)) (lookup ?key ?k (w_participants w')) = Some (gs_GradientHash sub, gs_S3URL sub)"
    using p by (cases "lookup ?key ?k (w_participants w)") (auto simp: lookup_update lookup_insert dest: lookup_Some)
  moreover have "lookup ?key k (w_participants w') = lookup ?key k (w_participants w)" if "k \<noteq> ?k" for k
    using p that by (cases "lookup ?key ?k (w_participants w)"; cases "lookup ?key k (w_participants w)")
      (auto simp: lookup_update lookup_insert dest: lookup_Some)
  ultimately show ?thesis using r n by (intro exI [of _ r]) blast
qed

section \<open>Unreadable gradients\<close>

lemma norms_by_node_Some:
  "norms_by_node M w rs nid = Some n \<Longrightarrow> \<exists>r\<in>set rs. gr_NodeID r = nid \<and> record_norm M w r \<noteq> None"
proof (induction rs arbitrary: n rule: rev_induct)
  case (snoc r rs)
  show ?case
  proof (cases "record_norm M w r")
    case None
    then show ?thesis using snoc by (auto simp: norms_by_node_def)
  next
    case (Some m)
    then show ?thesis using snoc by (cases "gr_NodeID r = nid") (auto simp: norms_by_node_def)
  qed
qed (simp add: norms_by_node_def)

text \<open>A record without a norm is never dropped, when it is its node's only record.\<close>

lemma anomalyFilter_keeps_unreadable:
  assumes "r \<in> set rs" "record_norm M w r = None" "\<And>r'. r' \<in> set rs \<Longrightarrow> gr_NodeID r' = gr_NodeID r \<Longrightarrow> r' = r"
  shows "r \<in> set (fst (anomalyFilter M orc rid rs w))"
proof -
  have "norms_by_node M w rs (gr_NodeID r) = None"
    using norms_by_node_Some [of M w rs "gr_NodeID r"] assms(2,3) by (metis not_None_eq)
  then show ?thesis using assms(1) by (simp add: anomalyFilter_def Let_def filter_loop_spec)
qed

lemma aggregate_unreadable:
  assumes "healthy w" "has_storage orc" "keyed (\<lambda>p. (pt_round p, pt_node p)) (w_participants w)"
    and "p \<in> set (w_participants w)" "pt_round p = rid" "w_s3 w (pt_s3_url p) = None"
  shows "\<exists>e. fst (aggregate E M orc rid rn cnt w) = Inl e"
proof -
  let ?rec = "\<lambda>p. \<lparr>gr_NodeID = pt_node p, gr_Hash = pt_hash p, gr_S3URL = pt_s3_url p\<rparr>"
  let ?hs = "map ?rec (sql_select (\<lambda>p. pt_round p = rid) (w_participants w))"
  have f: "fetchGradientHashes rid w = (Inr ?hs, w)" by (simp add: fetchGradientHashes_def db_call_healthy [OF assms(1)])
  obtain acc w2 where a: "anomalyFilter M orc rid ?hs w = (acc, w2)" by fastforce
  have s3: "w_s3 w2 = w_s3 w" using anomalyFilter_world [of w M orc rid ?hs] a by simp
  have "?rec p \<in> set (fst (anomalyFilter M orc rid ?hs w))"
  proof (rule anomalyFilter_keeps_unreadable)
    show "?rec p \<in> set ?hs" using assms(4,5) by (auto simp: sql_select_def)
    show "record_norm M w (?rec p) = None" using assms(6) by (simp add: record_norm_def GetObject_def)
    fix r' assume "r' \<in> set ?hs" "gr_NodeID r' = gr_NodeID (?rec p)"
    then obtain q where "q \<in> set (w_participants w)" "(pt_round q, pt_node q) = (pt_round p, pt_node p)" "r' = ?rec q"
      using assms(5) by (auto simp: sql_select_def)
    then show "r' = ?rec p" using keyed_unique [OF assms(3) _ assms(4), of q] by simp
  qed
  then have p: "?rec p \<in> set acc" using a by simp
  let ?c = "if flt_le (gradientL2ClipNorm orc) (Fin 0) then Fin 1 else gradientL2ClipNorm orc"
  obtain e where e: "fst (collect_gradients M ?c acc w2) = Inl e"
    using collect_gradients_missing [OF p, of w2 M ?c] s3 assms(6) by auto
  have fa: "\<exists>e w3. fedAvg E M orc rn acc w2 = (Inl e, w3)"
    using e assms(2) by (cases "collect_gradients M ?c acc w2") (auto simp: fedAvg_def Let_def)
  show ?thesis
  proof (cases "int (length acc) < minParticipants orc")
    case True
    then show ?thesis by (simp add: aggregate_def f a)
  next
    case False
    then show ?thesis using fa by (auto simp: aggregate_def f a)
  qed
qed

section \<open>A concrete round\<close>

definition demo_round :: "string \<Rightarrow> round_row" where
  "demo_round st = \<lparr>rd_id = 1, rd_number = 1, rd_status = st, rd_model_version = ''v'', rd_checkpoint = None,
     rd_ots = None, rd_started = 0, rd_completed = None\<rparr>"

definition demo_participant :: "uuid \<Rightarrow> participant_row" where
  "demo_participant nid = \<lparr>pt_round = 1, pt_node = nid, pt_hash = ''h'', pt_s3_url = ''gradients/1/x'', pt_flagged = False\<rparr>"

definition demo_time0 :: int where "demo_time0 = 10000 * Second"

definition demo_fl :: "string \<Rightarrow> uuid list \<Rightarrow> world" where
  "demo_fl st nids = (empty_world demo_time0)\<lparr>w_rounds := [demo_round st], w_participants := map demo_participant nids, w_next_round := 2\<rparr>"

definition demo_env :: fl_env where
  "demo_env = \<lparr>msgpack_Unmarshal = (\<lambda>_. Inr []), msgpack_Marshal = (\<lambda>_. Inr []), numeric_mul = (\<lambda>a b. a), s3_up = (\<lambda>_. True)\<rparr>"

lemma demo_fl_simps [simp]: "w_rounds (demo_fl st nids) = [demo_round st]" "w_participants (demo_fl st nids) = map demo_participant nids"
  "healthy (demo_fl st nids)" "w_nodes (demo_fl st nids) = []" "w_s3 (demo_fl st nids) = Map.empty" "w_now (demo_fl st nids) = demo_time0"
  by (simp_all add: demo_fl_def empty_world_def healthy_def)

lemma demo_fl_ok: "distinct nids \<Longrightarrow> st \<in> {''open'', ''aggregating'', ''failed''} \<Longrightarrow> fl_ok (demo_fl st nids)"
  by (auto simp: fl_ok_def demo_fl_def demo_round_def round_ok_def round_statuses_def keyed_def demo_participant_def
      distinct_map o_def inj_on_def)

lemma demo_round_simps [simp]: "rd_id (demo_round st) = 1" "rd_number (demo_round st) = 1" "rd_status (demo_round st) = st"
  "rd_started (demo_round st) = 0" by (simp_all add: demo_round_def)

lemma demo_participant_simps [simp]: "pt_round (demo_participant n) = 1" "pt_node (demo_participant n) = n"
  "pt_s3_url (demo_participant n) = ''gradients/1/x''" by (simp_all add: demo_participant_def)

lemma demo_lookup [simp]: "lookup rd_number 1 [demo_round st] = Some (demo_round st)"
  by (simp add: lookup_def sql_row_def)

lemma demo_TryAggregate:
  "\<exists>s w'. TryAggregate demo_ext demo_env (NewWithConfig False None) 1 (demo_fl ''open'' [1, 2, 3]) = (Inr (Some s), w')"
proof -
  have h: "healthy ((demo_fl st nids)\<lparr>w_rounds := x\<rparr>)" for st nids x by (simp add: healthy_def demo_fl_def empty_world_def)
  show ?thesis
    by (simp add: TryAggregate_def db_call_healthy sql_count_def cas_aggregating_def aggregate_def fetchGradientHashes_def
        db_call_healthy [OF h] sql_select_def anomalyFilter_def NewWithConfig_def fedAvg_def completeRound_def)
qed

section \<open>Properties\<close>

text \<open>
  C8 (aggregation is sound). When an attempt to aggregate returns a summary, the round was open
  and had at least the minimum of submissions; at least the minimum was accepted; the round is
  now complete with the summary's checkpoint hash, which is the hash of the stored checkpoint
  object when there is storage; and exactly this checkpoint is due to be timestamped.
\<close>

theorem aggregation_sound:
  assumes "TryAggregate E M orc rn w = (Inr (Some s), w')" "fl_ok w"
  shows "\<exists>r. lookup rd_number rn (w_rounds w) = Some r \<and> rd_status r = ''open'' \<and>
    minParticipants orc \<le> int (sql_count (\<lambda>p. pt_round p = rd_id r) (w_participants w)) \<and>
    rs_RoundID s = rn \<and> minParticipants orc \<le> ParticipantCount s \<and>
    lookup rd_number rn (w_rounds w') = Some (r\<lparr>rd_status := ''complete'', rd_checkpoint := Some (AggregatedHash s),
      rd_completed := Some (w_now w)\<rparr>) \<and>
    w_stamps w' = w_stamps w @ [(AggregatedHash s, rn)] \<and>
    (has_storage orc \<longrightarrow> (\<exists>cb. w_s3 w' (''models/owm-v'' @ dec rn @ ''.bin'') = Some cb \<and>
      AggregatedHash s = hex_EncodeToString (sha256_Sum256 E cb)))"
  using assms(1)
proof (cases rule: TryAggregate_cases)
  case (ran r wc)
  have now: "w_now wc = w_now w" "w_stamps wc = w_stamps w" using ran(4) by (simp_all add: same_rounds_def)
  have r: "rd_status r = ''open''" "rd_number r = rn"
  proof -
    obtain q where q: "q \<in> set (w_rounds w)" "rd_number q = rn" "rd_status q = ''open''" using ran(3) by blast
    have "keyed rd_number (w_rounds w)" using assms(2) by (simp add: fl_ok_def)
    then have "q = r" using keyed_unique q lookup_Some [OF ran(1)] by metis
    then show "rd_status r = ''open''" "rd_number r = rn" using q by auto
  qed
  from ran(8) show ?thesis
  proof (rule aggregate_ok)
    fix h n
    assume a: "Some s = Some \<lparr>rs_RoundID = rn, ParticipantCount = n, AggregatedHash = h, OTSPending = True, CompletedAt = w_now wc\<rparr>"
      "minParticipants orc \<le> n" "w_stamps w' = w_stamps wc @ [(h, rn)]"
      "w_rounds w' = sql_update (\<lambda>r. rd_number r = rn) (\<lambda>r. r\<lparr>rd_status := ''complete'', rd_checkpoint := Some h,
         rd_completed := Some (w_now wc)\<rparr>) (w_rounds wc)"
      "has_storage orc \<longrightarrow> (\<exists>cb. w_s3 w' (''models/owm-v'' @ dec rn @ ''.bin'') = Some cb \<and> h = hex_EncodeToString (sha256_Sum256 E cb))"
    have "lookup rd_number rn (w_rounds w') = Some (r\<lparr>rd_status := ''complete'', rd_checkpoint := Some h, rd_completed := Some (w_now w)\<rparr>)"
      using a(4) ran(1,5) r(2) now by (simp add: lookup_update)
    then show ?thesis using a ran(1,2) r(1) now by (intro exI [of _ r]) simp
  qed
qed simp

theorem aggregation_sound_witness:
  "\<exists>s w'. TryAggregate demo_ext demo_env (NewWithConfig False None) 1 (demo_fl ''open'' [1, 2, 3]) = (Inr (Some s), w') \<and>
     rs_RoundID s = 1 \<and> 3 \<le> ParticipantCount s"
proof -
  obtain s w' where t: "TryAggregate demo_ext demo_env (NewWithConfig False None) 1 (demo_fl ''open'' [1, 2, 3]) = (Inr (Some s), w')"
    using demo_TryAggregate by blast
  have "fl_ok (demo_fl ''open'' [1, 2, 3])" by (rule demo_fl_ok) simp_all
  from aggregation_sound [OF t this] t show ?thesis by (auto simp: NewWithConfig_def)
qed

text \<open>
  C29 (aggregation does not get stuck). With a working database an attempt to aggregate an
  existing round has one of three results, and the answer tells which: nothing changed, the
  round is complete, or an error is returned and the round has failed. It is never left in
  the state \<open>aggregating\<close> by an attempt that took it from the state \<open>open\<close>.
\<close>

theorem aggregation_outcome:
  assumes "TryAggregate E M orc rn w = (res, w')" "healthy w" "lookup rd_number rn (w_rounds w) = Some r"
  shows "(case res of
      Inr None \<Rightarrow> lookup rd_number rn (w_rounds w') = Some r
    | Inr (Some s) \<Rightarrow> lookup rd_number rn (w_rounds w') = Some (r\<lparr>rd_status := ''complete'',
        rd_checkpoint := Some (AggregatedHash s), rd_completed := Some (w_now w)\<rparr>)
    | Inl e \<Rightarrow> lookup rd_number rn (w_rounds w') = Some (r\<lparr>rd_status := ''failed''\<rparr>)) \<and>
    (\<forall>k. k \<noteq> rn \<longrightarrow> lookup rd_number k (w_rounds w') = lookup rd_number k (w_rounds w))"
proof -
  note h = TryAggregate_healthy [OF assms]
  have rn: "rd_number r = rn" using lookup_Some [OF assms(3)] by simp
  have other: "map_option (\<lambda>r. if rd_number r = n then f r else r) (lookup rd_number k rs) = lookup rd_number k rs"
    if "k \<noteq> n" for k n f rs
    using that by (cases "lookup rd_number k rs") (auto dest: lookup_Some)
  show ?thesis using h assms(3) rn by (auto simp: lookup_update other split: sum.splits option.splits)
qed

theorem aggregation_outcome_witness:
  "lookup rd_number 1 (w_rounds (snd (TryAggregate demo_ext demo_env (NewWithConfig True None) 1 (demo_fl ''aggregating'' [1, 2, 3])))) =
     Some (demo_round ''aggregating'')"
proof -
  have t: "TryAggregate demo_ext demo_env (NewWithConfig True None) 1 (demo_fl ''aggregating'' [1, 2, 3]) = (Inr None, demo_fl ''aggregating'' [1, 2, 3])"
    by (simp add: TryAggregate_def db_call_healthy sql_count_def cas_aggregating_def NewWithConfig_def sql_update_def)
  from aggregation_outcome [OF t, of "demo_round ''aggregating''"] show ?thesis unfolding t by simp
qed

text \<open>
  One unreadable gradient fails the round. A participant whose object cannot be read is
  not dropped by the anomaly filter, which keeps every record it has no norm for; the
  aggregation then fails on that object. So one submission that names a missing object makes
  an open round with enough participants fail, whatever the others submitted.
\<close>

theorem unreadable_gradient_fails_round:
  assumes "healthy w" "fl_ok w" "has_storage orc" "lookup rd_number rn (w_rounds w) = Some r" "rd_status r = ''open''"
    and "minParticipants orc \<le> int (sql_count (\<lambda>p. pt_round p = rd_id r) (w_participants w))"
    and "p \<in> set (w_participants w)" "pt_round p = rd_id r" "w_s3 w (pt_s3_url p) = None"
  shows "\<exists>e w'. TryAggregate E M orc rn w = (Inl e, w') \<and>
    lookup rd_number rn (w_rounds w') = Some (r\<lparr>rd_status := ''failed''\<rparr>)"
proof -
  have rn: "rd_number r = rn" "r \<in> set (w_rounds w)" using lookup_Some [OF assms(4)] by auto
  let ?rs = "sql_update (\<lambda>r. rd_number r = rn \<and> rd_status r = ''open'') (\<lambda>r. r\<lparr>rd_status := ''aggregating''\<rparr>) (w_rounds w)"
  let ?wc = "w\<lparr>w_rounds := ?rs\<rparr>" and ?n = "int (sql_count (\<lambda>p. pt_round p = rd_id r) (w_participants w))"
  have "sql_count (\<lambda>r. rd_number r = rn \<and> rd_status r = ''open'') (w_rounds w) \<noteq> 0"
    using rn assms(5) by (auto simp: sql_count_0)
  then have t: "TryAggregate E M orc rn w = aggregate E M orc (rd_id r) rn ?n ?wc"
    using assms(4,6) by (simp add: TryAggregate_def db_call_healthy [OF assms(1)] cas_aggregating_def)
  have hc: "healthy ?wc" "keyed (\<lambda>p. (pt_round p, pt_node p)) (w_participants ?wc)" "p \<in> set (w_participants ?wc)"
    "w_s3 ?wc (pt_s3_url p) = None" using assms(1,2,7,9) by (simp_all add: healthy_def fl_ok_def)
  obtain e where "fst (aggregate E M orc (rd_id r) rn ?n ?wc) = Inl e"
    using aggregate_unreadable [OF hc(1) assms(3) hc(2,3) assms(8) hc(4)] by blast
  then obtain w' where a: "aggregate E M orc (rd_id r) rn ?n ?wc = (Inl e, w')"
    by (cases "aggregate E M orc (rd_id r) rn ?n ?wc") simp
  from aggregate_error_healthy [OF a hc(1)] have "w_rounds w' = sql_update (\<lambda>r. rd_number r = rn) (\<lambda>r. r\<lparr>rd_status := ''failed''\<rparr>) (w_rounds w)"
    by simp
  then show ?thesis using t a assms(4) rn by (simp add: lookup_update)
qed

theorem unreadable_gradient_fails_round_witness:
  "\<exists>e w'. TryAggregate demo_ext demo_env (NewWithConfig True None) 1 (demo_fl ''open'' [1, 2, 3]) = (Inl e, w') \<and>
     rd_status (the (lookup rd_number 1 (w_rounds w'))) = ''failed''"
proof -
  let ?w = "demo_fl ''open'' [1, 2, 3]" and ?o = "NewWithConfig True None"
  have h: "fl_ok ?w" "has_storage ?o" "lookup rd_number 1 (w_rounds ?w) = Some (demo_round ''open'')" "rd_status (demo_round ''open'') = ''open''"
    "minParticipants ?o \<le> int (sql_count (\<lambda>p. pt_round p = rd_id (demo_round ''open'')) (w_participants ?w))"
    "demo_participant 1 \<in> set (w_participants ?w)" "pt_round (demo_participant 1) = rd_id (demo_round ''open'')"
    "w_s3 ?w (pt_s3_url (demo_participant 1)) = None"
    by (auto simp: demo_fl_ok NewWithConfig_def sql_count_def)
  from unreadable_gradient_fails_round [OF demo_fl_simps(3) h, of demo_ext demo_env] show ?thesis by auto
qed

end
