(* ===== verification/Rpc.thy ===== *)
theory Rpc
  imports Stake Scheduler Payment Fl
begin

text \<open>
  \<open>internal/rpc/server.go\<close>: the handlers of the gRPC service, which bind registry, stake
  verifier, scheduler, payment dispatcher and federated learning together. A handler runs at one
  instant of the clock. Where the source prints an error of the \<open>uuid\<close> package, the message of
  the model ends before it.
\<close>

section \<open>Replies and helpers\<close>

datatype code = InvalidArgument | PermissionDenied | NotFound | Internal

text \<open>A gRPC status with its message, or the response.\<close>

type_synonym 'a reply = "(code \<times> string) + 'a"

text \<open>What the struct \<open>Server\<close> holds beside the database: the external code, the clients, and whether Redis and the dispatcher are there.\<close>

record Server_rpc =
  sv_ext :: ext
  sv_lnReadonly :: "Client option"
  sv_rdb :: bool
  sv_disp :: bool

text \<open>
  The constructor. Of its parts the handlers use the read-only client of the verifier, and whether
  there are a dispatcher and a Redis client.
\<close>

definition server_New :: "ext \<Rightarrow> Verifier \<Rightarrow> Dispatcher option \<Rightarrow> bool \<Rightarrow> Server_rpc" where
  "server_New E verif disp rdb = \<lparr>sv_ext = E, sv_lnReadonly = vf_lnReadonly verif, sv_rdb = rdb, sv_disp = (disp \<noteq> None)\<rparr>"

definition coordinatorVersion :: string where "coordinatorVersion = ''0.1.0''"

definition antiReplayWindow :: int where "antiReplayWindow = 5 * Minute"

text \<open>\<open>Duration.Round(time.Second)\<close> and \<open>Duration.String\<close>, for durations of a second and more.\<close>

definition Round_Second :: "int \<Rightarrow> int" where
  "Round_Second d = (let r = d mod Second in
     if r + r < Second then d - r
     else if d + (Second - r) \<le> maxDuration then d + (Second - r) else maxDuration)"

definition fraction_digits :: "nat \<Rightarrow> string" where
  "fraction_digits f = (if f = 0 then [] else
     let ds = dec_nat f in CHR ''.'' # TrimRight (replicate (9 - length ds) (CHR ''0'') @ ds) (CHR ''0''))"

definition Duration_String :: "int \<Rightarrow> string" where
  "Duration_String d =
     (let u = nat d; s = u div 10 ^ 9; m = s div 60; h = m div 60
      in (if 0 < h then dec_nat h @ ''h'' else []) @ (if 0 < m then dec_nat (m mod 60) @ ''m'' else []) @
         dec_nat (s mod 60) @ fraction_digits (u mod 10 ^ 9) @ ''s'')"

definition validateTimestamp :: "int \<Rightarrow> world \<Rightarrow> unit result" where
  "validateTimestamp ts w =
     (let t = time_Unix ts; now = w_now w in
      if antiReplayWindow < time_Sub now t
      then Inl (Err (''timestamp too old ('' @ Duration_String (Round_Second (time_Sub now t)) @ '' ago)''))
      else if 30 * Second < time_Sub t now then Inl (Err ''timestamp too far in the future'')
      else Inr ())"

definition stakeMinSats :: "string \<Rightarrow> int" where
  "stakeMinSats tier = (if tier = ''t2'' then 500000 else if tier = ''t3'' then 2000000 else 100000)"

definition canonicalTaskResultMessage :: "string \<Rightarrow> string \<Rightarrow> bytes" where
  "canonicalTaskResultMessage taskID outputHashHex = ''owm-task-result|'' @ taskID @ ''|'' @ outputHashHex"

definition verifyTaskResultSig :: "ext \<Rightarrow> string \<Rightarrow> string \<Rightarrow> bytes \<Rightarrow> bytes \<Rightarrow> unit result" where
  "verifyTaskResultSig E pubKeyHex taskID outputHash sig =
     (if sig = [] then Inl (Err ''signature is required'')
      else case hex_DecodeString pubKeyHex of
        None \<Rightarrow> Inl (Err ''invalid node public key'')
      | Some pubKeyBytes \<Rightarrow>
        if length pubKeyBytes \<noteq> 32 then Inl (Err ''invalid node public key'')
        else if \<not> ed25519_Verify E pubKeyBytes (canonicalTaskResultMessage taskID (hex_EncodeToString outputHash)) sig
        then Inl (Err ''signature mismatch'')
        else Inr ())"

section \<open>Node lifecycle\<close>

record RegisterNodeRequest =
  rq_PublicKey :: string
  rq_LnNodeUri :: string
  rq_Capabilities :: "NodeCapabilities option"
  rq_Signature :: bytes
  rq_Timestamp :: int
  rq_OnionAddress :: string

record RegisterNodeResponse =
  rs_NodeId :: string
  rs_Status :: string
  rs_Message :: string
  rs_StakeSats :: int
  rs_BonusMult :: flt
  rs_ErrorCode :: string

text \<open>The \<open>float\<close> fields of the request are widened to \<open>float64\<close>.\<close>

definition request_caps :: "NodeCapabilities \<Rightarrow> NodeCapabilities" where
  "request_caps c = c\<lparr>cap_VRAMGB := flt_conv binary64 (cap_VRAMGB c), cap_RAMGB := flt_conv binary64 (cap_RAMGB c),
     cap_BandwidthMbps := flt_conv binary64 (cap_BandwidthMbps c)\<rparr>"

text \<open>\<open>fresh\<close> is the identifier that \<open>uuid.New()\<close> gives inside \<open>Register\<close>.\<close>

definition RegisterNode :: "Server_rpc \<Rightarrow> uuid \<Rightarrow> RegisterNodeRequest \<Rightarrow> world \<Rightarrow> RegisterNodeResponse reply \<times> world" where
  "RegisterNode S fresh req w =
     (case validateTimestamp (rq_Timestamp req) w of
       Inl e \<Rightarrow> (Inl (InvalidArgument, ''timestamp: '' @ Error e), w)
     | Inr _ \<Rightarrow>
       if rq_PublicKey req = [] \<or> rq_LnNodeUri req = [] \<or> rq_Capabilities req = None
       then (Inl (InvalidArgument, ''public_key, ln_node_uri, and capabilities are required''), w)
       else let caps = request_caps (the (rq_Capabilities req)) in
         (case Register (sv_ext S) fresh (rq_PublicKey req) (rq_LnNodeUri req) (rq_OnionAddress req) caps
                 (rq_Signature req) (rq_Timestamp req) w of
           (Inl e, w) \<Rightarrow> (Inl (PermissionDenied, ''registration failed: '' @ Error e), w)
         | (Inr node, w) \<Rightarrow>
           (case VerifyStake (sv_lnReadonly S) (rq_PublicKey req) (cap_Tier caps) w of
             (Inl _, w) \<Rightarrow>
               (Inr \<lparr>rs_NodeId = uuid_String (sv_ext S) (NodeID node), rs_Status = ''pending'',
                     rs_Message = ''open a Lightning channel to the treasury (min '' @ dec (stakeMinSats (cap_Tier caps)) @
                       '' sats for '' @ cap_Tier caps @ '')'',
                     rs_StakeSats = 0, rs_BonusMult = Fin 0, rs_ErrorCode = ''INSUFFICIENT_STAKE''\<rparr>, w)
           | (Inr stakeResult, w) \<Rightarrow>
             let w = snd (PersistStake (sv_ext S) (NodeID node) stakeResult w) in
             (case Activate (NodeID node) w of
               (Inl e, w) \<Rightarrow> (Inl (Internal, ''activating node: '' @ Error e), w)
             | (Inr _, w) \<Rightarrow>
               (Inr \<lparr>rs_NodeId = uuid_String (sv_ext S) (NodeID node), rs_Status = ''active'',
                     rs_Message = ''node activated'', rs_StakeSats = sr_CapacitySats stakeResult,
                     rs_BonusMult = float32 (BonusMultiplier stakeResult), rs_ErrorCode = []\<rparr>, w)))))"

record NodeMetrics =
  nm_GpuUtilizationPct :: flt
  nm_VramUsedGb :: flt
  nm_ActiveTasks :: int
  nm_UptimeHours :: flt

record HeartbeatRequest =
  hb_NodeId :: string
  hb_Signature :: bytes
  hb_Timestamp :: int
  hb_Metrics :: "NodeMetrics option"

record HeartbeatResponse =
  hr_PendingTasks :: int
  hr_CoordinatorVersion :: string
  hr_UpdateAvailable :: bool

text \<open>The handler reads none of the metrics, and the count of pending tasks that it gets back is dropped.\<close>

definition Heartbeat :: "Server_rpc \<Rightarrow> HeartbeatRequest \<Rightarrow> world \<Rightarrow> HeartbeatResponse reply \<times> world" where
  "Heartbeat S req w =
     (case validateTimestamp (hb_Timestamp req) w of
       Inl e \<Rightarrow> (Inl (InvalidArgument, ''timestamp: '' @ Error e), w)
     | Inr _ \<Rightarrow>
       (case uuid_Parse (sv_ext S) (hb_NodeId req) of
         None \<Rightarrow> (Inl (InvalidArgument, ''invalid node_id: ''), w)
       | Some nodeID \<Rightarrow>
         (case RecordHeartbeat nodeID w of
           (Inl e, w) \<Rightarrow> (Inl (Internal, ''recording heartbeat: '' @ Error e), w)
         | (Inr _, w) \<Rightarrow> (Inr \<lparr>hr_PendingTasks = 0, hr_CoordinatorVersion = coordinatorVersion, hr_UpdateAvailable = False\<rparr>, w))))"

record DeregisterNodeRequest =
  dr_NodeId :: string
  dr_Signature :: bytes
  dr_Timestamp :: int
  dr_Reason :: string

record DeregisterNodeResponse =
  dn_Success :: bool
  dn_Message :: string

definition DeregisterNode :: "Server_rpc \<Rightarrow> DeregisterNodeRequest \<Rightarrow> world \<Rightarrow> DeregisterNodeResponse reply \<times> world" where
  "DeregisterNode S req w =
     (case validateTimestamp (dr_Timestamp req) w of
       Inl e \<Rightarrow> (Inl (InvalidArgument, ''timestamp: '' @ Error e), w)
     | Inr _ \<Rightarrow>
       (case uuid_Parse (sv_ext S) (dr_NodeId req) of
         None \<Rightarrow> (Inl (InvalidArgument, ''invalid node_id: ''), w)
       | Some nodeID \<Rightarrow>
         (case UpdateStatus nodeID ''suspended'' w of
           (Inl e, w) \<Rightarrow> (Inl (Internal, ''deregistering node: '' @ Error e), w)
         | (Inr _, w) \<Rightarrow> (Inr \<lparr>dn_Success = True, dn_Message = ''node deregistered''\<rparr>, w))))"

section \<open>Tasks\<close>

record streamTaskPayload =
  sp_TaskID :: string
  sp_NodeID :: string
  sp_TaskType :: string
  sp_RewardSats :: int
  sp_TimeoutSecs :: int

record Task =
  t_TaskId :: string
  t_TaskType :: string
  t_EncryptedPayload :: bytes
  t_TimeoutSeconds :: int
  t_RewardSats :: int
  t_ModelVersion :: string
  t_CoordinatorSig :: bytes

text \<open>Four of the seven fields are set.\<close>

definition stream_task :: "streamTaskPayload \<Rightarrow> Task" where
  "stream_task p = \<lparr>t_TaskId = sp_TaskID p, t_TaskType = sp_TaskType p, t_EncryptedPayload = [],
     t_TimeoutSeconds = int32 (sp_TimeoutSecs p), t_RewardSats = sp_RewardSats p, t_ModelVersion = [], t_CoordinatorSig = []\<rparr>"

text \<open>
  What the \<open>select\<close> of \<open>StreamTasks\<close> may receive: the end of the stream's context, the end of
  the subscription, or a message with its payload and the answer of \<open>stream.Send\<close>. The loop
  gives the tasks sent, and its result once it returns.
\<close>

datatype stream_event = CtxDone | ChannelClosed | Message string "go_error option"

fun stream_loop :: "(string \<Rightarrow> streamTaskPayload option) \<Rightarrow> stream_event list \<Rightarrow> Task list \<times> unit result option" where
  "stream_loop unmarshal [] = ([], None)"
| "stream_loop unmarshal (CtxDone # evs) = ([], Some (Inr ()))"
| "stream_loop unmarshal (ChannelClosed # evs) = ([], Some (Inr ()))"
| "stream_loop unmarshal (Message payload send_err # evs) =
     (case unmarshal payload of
       None \<Rightarrow> stream_loop unmarshal evs
     | Some p \<Rightarrow>
       (case send_err of
         Some e \<Rightarrow> ([], Some (Inl e))
       | None \<Rightarrow> let (ts, r) = stream_loop unmarshal evs in (stream_task p # ts, r)))"

text \<open>
  \<open>StreamTasks\<close>: the channel that is subscribed to, and the loop over its events. Without Redis
  the handler waits for the end of the context.
\<close>

definition stream_channel :: "string \<Rightarrow> string" where
  "stream_channel nodeID = ''owm:tasks:'' @ nodeID"

definition StreamTasks :: "Server_rpc \<Rightarrow> (string \<Rightarrow> streamTaskPayload option) \<Rightarrow> HeartbeatRequest \<Rightarrow>
    (string \<Rightarrow> stream_event list) \<Rightarrow> ((code \<times> string) + Task list \<times> unit result option)" where
  "StreamTasks S unmarshal req events =
     (if uuid_Parse (sv_ext S) (hb_NodeId req) = None then Inl (InvalidArgument, ''invalid node_id: '')
      else if \<not> sv_rdb S then Inr ([], if CtxDone \<in> set (events (stream_channel (hb_NodeId req))) then Some (Inr ()) else None)
      else Inr (stream_loop unmarshal (events (stream_channel (hb_NodeId req)))))"

record TaskResult =
  tr_TaskId :: string
  tr_NodeId :: string
  tr_OutputHash :: bytes
  tr_Output :: bytes
  tr_ExecMs :: int
  tr_Signature :: bytes

record TaskResultAck =
  ack_Accepted :: bool
  ack_RejectionReason :: string
  ack_PaymentStatus :: string

text \<open>
  The lookup of address and reward and the enqueueing of the payment; a task without a row or
  whose address is NULL does not scan. Of the histogram \<open>owm_task_duration_seconds\<close> the model
  keeps the number of observations.
\<close>

definition enqueue_payment :: "bool \<Rightarrow> uuid \<Rightarrow> world \<Rightarrow> string \<times> world" where
  "enqueue_payment disp taskID w =
     (if \<not> disp then (''queued'', w)
      else case db_query_row (\<lambda>w. case lookup tk_id taskID (w_tasks w) of
          None \<Rightarrow> None | Some t \<Rightarrow> map_option (\<lambda>uri. (uri, tk_reward t)) (tk_ln_uri t)) w of
        (Inl _, w) \<Rightarrow> (''failed'', w)
      | (Inr (nodeLNURI, rewardSats), w) \<Rightarrow>
          if nodeLNURI = [] then (''failed'', w) else (''queued'', Enqueue taskID nodeLNURI rewardSats w))"

text \<open>What follows the check of the signature.\<close>

definition accept_result :: "Server_rpc \<Rightarrow> TaskResult \<Rightarrow> uuid \<Rightarrow> uuid \<Rightarrow> world \<Rightarrow> TaskResultAck reply \<times> world" where
  "accept_result S req tid nid w = (case MarkComplete tid (hex_EncodeToString (tr_OutputHash req)) w of
     (Inl _, w) \<Rightarrow> (Inr \<lparr>ack_Accepted = False, ack_RejectionReason = ''internal error recording completion'',
        ack_PaymentStatus = ''failed''\<rparr>, w)
   | (Inr _, w) \<Rightarrow>
       let w = snd (UpdateReliability (sv_ext S) nid True w); (paymentStatus, w) = enqueue_payment (sv_disp S) tid w;
           w = counter_inc ''owm_task_duration_seconds_count'' [] w
       in (Inr \<lparr>ack_Accepted = True, ack_RejectionReason = [], ack_PaymentStatus = paymentStatus\<rparr>, w))"

definition SubmitTaskResult :: "Server_rpc \<Rightarrow> TaskResult \<Rightarrow> world \<Rightarrow> TaskResultAck reply \<times> world" where
  "SubmitTaskResult S req w =
     (case uuid_Parse (sv_ext S) (tr_TaskId req) of
       None \<Rightarrow> (Inl (InvalidArgument, ''invalid task_id: ''), w)
     | Some taskID \<Rightarrow>
       (case uuid_Parse (sv_ext S) (tr_NodeId req) of
         None \<Rightarrow> (Inl (InvalidArgument, ''invalid node_id: ''), w)
       | Some nodeID \<Rightarrow>
         if tr_Signature req = [] then (Inl (InvalidArgument, ''SIGNATURE_REQUIRED''), w)
         else (case db_query_row (\<lambda>w. map_option PublicKey (lookup NodeID nodeID (w_nodes w))) w of
           (Inl _, w) \<Rightarrow> (Inl (PermissionDenied, ''node not found''), w)
         | (Inr pubKeyHex, w) \<Rightarrow>
           (case verifyTaskResultSig (sv_ext S) pubKeyHex (tr_TaskId req) (tr_OutputHash req) (tr_Signature req) of
             Inl _ \<Rightarrow>
               (Inl (PermissionDenied, ''INVALID_SIGNATURE''), snd (UpdateReliability (sv_ext S) nodeID False w))
           | Inr _ \<Rightarrow>
             accept_result S req taskID nodeID w))))"

section \<open>Models and stakes\<close>

text \<open>
  Three handlers read columns by name; PostgreSQL refuses a statement that names a column the
  table does not have. The columns are those of the migrations.
\<close>

definition model_versions_columns :: "string list" where
  "model_versions_columns = [''version_id'', ''round_number'', ''created_at'', ''sub_model_hashes'', ''ots_proof_paths'',
     ''btc_block'', ''coordinator_sig'', ''is_current'']"

definition node_stakes_columns :: "string list" where
  "node_stakes_columns = [''node_id'', ''channel_id'', ''channel_capacity'', ''local_balance'', ''tier_minimum'',
     ''bonus_multiplier'', ''stake_status'', ''opened_at'', ''last_verified_at'', ''degraded_since'']"

definition columns_exist :: "string list \<Rightarrow> string list \<Rightarrow> bool" where
  "columns_exist cols table \<longleftrightarrow> list_all (\<lambda>c. c \<in> set table) cols"

definition model_query_columns :: "string list" where
  "model_query_columns = [''version_id'', ''round_number'', ''created_at'', ''btc_block'', ''ots_verified'', ''coordinator_sig'']"

record GetModelRequest =
  gm_SubModelId :: string

record ModelVersion =
  mv_VersionId :: string
  mv_RoundNumber :: int
  mv_CreatedAt :: int
  mv_SubModelHashes :: "string \<rightharpoonup> string"
  mv_OtsProofUrls :: "string \<rightharpoonup> string"
  mv_BtcBlock :: int
  mv_OtsVerified :: bool
  mv_CoordinatorSig :: string

record ListModelsRequest =
  lm_Limit :: int
  lm_Offset :: int

record ListModelsResponse =
  lm_Versions :: "ModelVersion list"
  lm_Total :: int

text \<open>
  \<open>stored\<close> are the rows of \<open>model_versions\<close>, which no part of the coordinator writes: the number of
  the round, and the row when it scans (a NULL does not scan into a plain field). The two maps of a
  \<open>ModelVersion\<close> are not scanned and stay empty; the request of \<open>GetCurrentModel\<close> is not read.
\<close>

type_synonym model_rows = "(int \<times> ModelVersion option) list"

definition query_models :: "model_rows \<Rightarrow> int \<Rightarrow> int \<Rightarrow> world \<Rightarrow> ModelVersion option list result \<times> world" where
  "query_models stored limit offset = db_call (\<lambda>w.
     if \<not> columns_exist model_query_columns model_versions_columns \<or> limit < 0 \<or> offset < 0 then (Inl DbFailure, w)
     else (Inr (map (map_option (\<lambda>mv. mv\<lparr>mv_SubModelHashes := Map.empty, mv_OtsProofUrls := Map.empty\<rparr>))
       (take (nat limit) (drop (nat offset) (map snd (rev (sort_key fst stored)))))), w))"

definition GetCurrentModel :: "model_rows \<Rightarrow> GetModelRequest \<Rightarrow> world \<Rightarrow> ModelVersion reply \<times> world" where
  "GetCurrentModel stored req w =
     (case query_models stored 1 0 w of
       (Inr (Some mv # _), w) \<Rightarrow> (Inr mv, w)
     | (_, w) \<Rightarrow> (Inl (NotFound, ''no model versions found''), w))"

definition ListModelVersions :: "model_rows \<Rightarrow> ListModelsRequest \<Rightarrow> world \<Rightarrow> ListModelsResponse reply \<times> world" where
  "ListModelVersions stored req w =
     (let limit = (if lm_Limit req \<le> 0 \<or> 100 < lm_Limit req then 20 else lm_Limit req) in
      (case query_models stored limit (lm_Offset req) w of
        (Inl e, w) \<Rightarrow> (Inl (Internal, ''querying model versions: '' @ Error e), w)
      | (Inr rows, w) \<Rightarrow>
        if None \<in> set rows then (Inl (Internal, ''scanning model version: ''), w)
        else (case db_query (\<lambda>w. int (length stored)) w of
          (Inl _, w) \<Rightarrow> (Inr \<lparr>lm_Versions = map the rows, lm_Total = 0\<rparr>, w)
        | (Inr n, w) \<Rightarrow> (Inr \<lparr>lm_Versions = map the rows, lm_Total = (if in_int32 n then n else 0)\<rparr>, w))))"

record GetStakeRequest =
  gk_NodeId :: string

record StakeStatus =
  ss_ChannelId :: string
  ss_CapacitySats :: int
  ss_LocalBalance :: int
  ss_TierMinimum :: int
  ss_BonusMultiplier :: flt
  ss_Status :: string
  ss_LastVerifiedAt :: int

text \<open>
  The join of \<open>node_stakes\<close> and \<open>nodes\<close>. Its last column, the text \<open>n.tier\<close>, is scanned into the
  \<open>int64\<close> field \<open>TierMinimum\<close>, which the driver refuses for a text column: \<open>scan_tier\<close> is always an
  error.
\<close>

definition scan_tier :: "string \<Rightarrow> int result" where
  "scan_tier tier = Inl DbFailure"

definition GetStakeStatus :: "Server_rpc \<Rightarrow> GetStakeRequest \<Rightarrow> world \<Rightarrow> StakeStatus reply \<times> world" where
  "GetStakeStatus S req w =
     (case uuid_Parse (sv_ext S) (gk_NodeId req) of
       None \<Rightarrow> (Inl (InvalidArgument, ''invalid node_id: ''), w)
     | Some nodeID \<Rightarrow>
       (case db_call (\<lambda>w.
           if \<not> columns_exist [''channel_id'', ''capacity_sats'', ''local_balance_sats'', ''bonus_multiplier'', ''status'',
                ''last_verified_at''] node_stakes_columns then (Inl DbFailure, w)
           else (case (lookup st_node nodeID (w_stakes w), lookup NodeID nodeID (w_nodes w)) of
             (Some s, Some n) \<Rightarrow>
               (case scan_tier (Tier n) of
                 Inl e \<Rightarrow> (Inl e, w)
               | Inr tm \<Rightarrow>
                 (Inr \<lparr>ss_ChannelId = st_channel_id s, ss_CapacitySats = st_capacity s, ss_LocalBalance = st_local_balance s,
                   ss_TierMinimum = tm, ss_BonusMultiplier = float32 (st_bonus s), ss_Status = st_status s,
                   ss_LastVerifiedAt = unix_seconds (st_last_verified s)\<rparr>, w))
           | _ \<Rightarrow> (Inl NoRows, w))) w of
         (Inl _, w) \<Rightarrow> (Inl (NotFound, ''stake record not found for node '' @ gk_NodeId req), w)
       | (Inr ss, w) \<Rightarrow> (Inr ss, w)))"

section \<open>Gradients\<close>

text \<open>The regular expression \<open>^gradients/[0-9]+/[0-9a-f-]{36}\.bin$\<close>.\<close>

definition uuid_char :: "char \<Rightarrow> bool" where
  "uuid_char c \<longleftrightarrow> is_digit c \<or> 97 \<le> (of_char c :: nat) \<and> (of_char c :: nat) \<le> 102 \<or> c = CHR ''-''"

definition gradientS3KeyRegex :: "string \<Rightarrow> bool" where
  "gradientS3KeyRegex key \<longleftrightarrow> prefix ''gradients/'' key \<and>
     (let r = drop 10 key; ds = takeWhile is_digit r; r = dropWhile is_digit r in
      ds \<noteq> [] \<and> prefix ''/'' r \<and> length r = 41 \<and> list_all uuid_char (take 36 (drop 1 r)) \<and> drop 37 r = ''.bin'')"

record GradientUpdate =
  gu_NodeId :: string
  gu_RoundNumber :: int
  gu_GradientData :: bytes
  gu_GradientHash :: string
  gu_Signature :: bytes
  gu_S3Url :: string

record GradientAck =
  ga_Accepted :: bool
  ga_RejectionReason :: string
  ga_RewardSats :: int

definition expectedKey :: "GradientUpdate \<Rightarrow> string" where
  "expectedKey grad = ''gradients/'' @ dec (gu_RoundNumber grad) @ ''/'' @ gu_NodeId grad @ ''.bin''"

text \<open>\<open>url_Path\<close> is the path of a URL that \<open>url.Parse\<close> accepts.\<close>

definition gradient_key :: "(string \<Rightarrow> string option) \<Rightarrow> GradientUpdate \<Rightarrow> string option" where
  "gradient_key url_Path grad =
     (if gu_S3Url grad = [] then None
      else case url_Path (gu_S3Url grad) of
        None \<Rightarrow> None
      | Some path \<Rightarrow>
        let key = TrimPrefix path ''/''; key = (if key = [] then gu_S3Url grad else key) in
        if \<not> gradientS3KeyRegex key then None
        else if key \<noteq> expectedKey grad then None
        else Some key)"

definition SubmitGradient_rpc :: "Server_rpc \<Rightarrow> (string \<Rightarrow> string option) \<Rightarrow> GradientUpdate \<Rightarrow> world \<Rightarrow> GradientAck reply \<times> world" where
  "SubmitGradient_rpc S url_Path grad w =
     (case uuid_Parse (sv_ext S) (gu_NodeId grad) of
       None \<Rightarrow> (Inl (InvalidArgument, ''invalid node_id: ''), w)
     | Some nodeID \<Rightarrow>
       (case gradient_key url_Path grad of
         None \<Rightarrow> (Inl (InvalidArgument, if gu_S3Url grad = [] then ''GRADIENT_S3_URL_REQUIRED'' else ''GRADIENT_S3_URL_INVALID_FORMAT''), w)
       | Some key \<Rightarrow>
         (case SubmitGradient \<lparr>gs_NodeID = nodeID, gs_RoundID = gu_RoundNumber grad, gs_GradientHash = gu_GradientHash grad,
                 gs_S3URL = key\<rparr> w of
           (Inl e, w) \<Rightarrow> (Inr \<lparr>ga_Accepted = False, ga_RejectionReason = Error e, ga_RewardSats = 0\<rparr>, w)
         | (Inr _, w) \<Rightarrow> (Inr \<lparr>ga_Accepted = True, ga_RejectionReason = [], ga_RewardSats = 0\<rparr>, w))))"

section \<open>Lemmas\<close>

lemma validateTimestamp_ok:
  "validateTimestamp ts w = Inr u \<longleftrightarrow>
     time_Sub (w_now w) (time_Unix ts) \<le> 5 * Minute \<and> time_Sub (time_Unix ts) (w_now w) \<le> 30 * Second"
  by (auto simp: validateTimestamp_def antiReplayWindow_def Let_def)

lemma validateTimestamp_iff: "is_ok (validateTimestamp ts w) \<longleftrightarrow>
     time_Sub (w_now w) (time_Unix ts) \<le> 5 * Minute \<and> time_Sub (time_Unix ts) (w_now w) \<le> 30 * Second"
  by (auto simp: validateTimestamp_def antiReplayWindow_def Let_def)

lemma request_caps_tier [simp]: "cap_Tier (request_caps c) = cap_Tier c"
  by (simp add: request_caps_def)

lemma Register_healthy: "healthy w \<Longrightarrow> healthy (snd (Register E fresh pk uri onion caps sig ts w))"
  by (auto simp: Register_def upsert_node_def db_call_healthy healthy_def Let_def split: world_splits)

lemma VerifyStake_healthy: "healthy w \<Longrightarrow> healthy (snd (VerifyStake l pk tier w))"
  by (simp add: healthy_def)

lemma VerifyStake_answer:
  assumes "t \<in> set tiers"
  shows "is_ok (fst (VerifyStake l pk t w)) \<longleftrightarrow> (\<forall>lnc. l = Some lnc \<longrightarrow> is_ok (ListChannels lnc pk))"
  using assms TierMinimums_dom [of t] by (auto simp: VerifyStake_def split: option.splits sum.splits)

lemma Activate_pending:
  assumes "healthy w" "n \<in> set (w_nodes w)" "Status n = ''pending''"
  shows "fst (Activate (NodeID n) w) = Inr ()"
    and "w_nodes (snd (Activate (NodeID n) w)) =
      sql_update (\<lambda>m. NodeID m = NodeID n \<and> Status m = ''pending'') (\<lambda>m. m\<lparr>Status := ''active''\<rparr>) (w_nodes w)"
  using assms
  by (auto simp: Activate_def activate_row_def db_call_healthy sql_row_None split: option.splits)

text \<open>The three ways in which a registration is answered without an error status.\<close>

lemma RegisterNode_cases:
  assumes "RegisterNode S fresh req w = (Inr resp, w')" "rq_Capabilities req = Some c"
  obtains node w1 where
    "time_Sub (w_now w) (time_Unix (rq_Timestamp req)) \<le> 5 * Minute"
    "time_Sub (time_Unix (rq_Timestamp req)) (w_now w) \<le> 30 * Second"
    "Register (sv_ext S) fresh (rq_PublicKey req) (rq_LnNodeUri req) (rq_OnionAddress req) (request_caps c)
       (rq_Signature req) (rq_Timestamp req) w = (Inr node, w1)"
    "(\<exists>e. VerifyStake (sv_lnReadonly S) (rq_PublicKey req) (cap_Tier c) w1 = (Inl e, w')) \<and>
       rs_Status resp = ''pending'' \<and> rs_ErrorCode resp = ''INSUFFICIENT_STAKE'' \<or>
     (\<exists>res w2. VerifyStake (sv_lnReadonly S) (rq_PublicKey req) (cap_Tier c) w1 = (Inr res, w2) \<and>
       Activate (NodeID node) (snd (PersistStake (sv_ext S) (NodeID node) res w2)) = (Inr (), w') \<and>
       rs_Status resp = ''active'' \<and> rs_ErrorCode resp = [])"
proof -
  have ts: "validateTimestamp (rq_Timestamp req) w = Inr ()"
    using assms by (auto simp: RegisterNode_def split: sum.splits)
  obtain node w1 where reg: "Register (sv_ext S) fresh (rq_PublicKey req) (rq_LnNodeUri req) (rq_OnionAddress req)
      (request_caps c) (rq_Signature req) (rq_Timestamp req) w = (Inr node, w1)"
    using assms ts by (auto simp: RegisterNode_def Let_def split: sum.splits if_splits prod.splits)
  show thesis
    by (rule that [OF _ _ reg])
      (use assms ts reg in \<open>auto simp: validateTimestamp_ok RegisterNode_def Let_def split: sum.splits if_splits prod.splits\<close>)
qed

text \<open>The row of the registered key, before and after activation.\<close>

lemma RegisterNode_row:
  assumes "RegisterNode S fresh req w = (Inr resp, w')" "rq_Capabilities req = Some c"
    and "healthy w" "nodes_ok (w_nodes w)" "numeric_rounds (sv_ext S)"
  obtains key n where "hex_DecodeString (rq_PublicKey req) = Some key" "length key = 32" "cap_Tier c \<in> set tiers"
    "ed25519_Verify (sv_ext S) key
       (canonicalRegisterMessage (rq_PublicKey req) (rq_LnNodeUri req) (cap_Tier c) (rq_Timestamp req)) (rq_Signature req)"
    "lookup PublicKey (rq_PublicKey req) (w_nodes w') = Some n" "Tier n = cap_Tier c" "Status n = rs_Status resp"
proof -
  from assms(1,2) obtain node w1 where reg: "Register (sv_ext S) fresh (rq_PublicKey req) (rq_LnNodeUri req)
      (rq_OnionAddress req) (request_caps c) (rq_Signature req) (rq_Timestamp req) w = (Inr node, w1)"
    and out: "(\<exists>e. VerifyStake (sv_lnReadonly S) (rq_PublicKey req) (cap_Tier c) w1 = (Inl e, w')) \<and> rs_Status resp = ''pending'' \<or>
     (\<exists>res w2. VerifyStake (sv_lnReadonly S) (rq_PublicKey req) (cap_Tier c) w1 = (Inr res, w2) \<and>
       Activate (NodeID node) (snd (PersistStake (sv_ext S) (NodeID node) res w2)) = (Inr (), w') \<and> rs_Status resp = ''active'')"
    by (rule RegisterNode_cases) auto
  from reg obtain key r where key: "hex_DecodeString (rq_PublicKey req) = Some key" "length key = 32" "cap_Tier c \<in> set tiers"
    "ed25519_Verify (sv_ext S) key
       (canonicalRegisterMessage (rq_PublicKey req) (rq_LnNodeUri req) (cap_Tier c) (rq_Timestamp req)) (rq_Signature req)"
    and r: "r \<in> set (w_nodes w1)" "NodeID r = NodeID node" "PublicKey r = rq_PublicKey req" "Tier r = cap_Tier c" "Status r = ''pending''"
    by (rule Register_ok_cases) auto
  have h1: "healthy w1" using Register_healthy [OF assms(3)] reg by (metis snd_conv)
  have ok1: "nodes_ok (w_nodes w1)" using Register_nodes_ok [OF assms(4,5)] reg by (metis snd_conv)
  have l1: "lookup PublicKey (rq_PublicKey req) (w_nodes w1) = Some r"
    using lookup_in [of PublicKey "w_nodes w1" r] ok1 r by (simp add: nodes_ok_def)
  from out show thesis
  proof (elim disjE conjE exE)
    fix e assume v: "VerifyStake (sv_lnReadonly S) (rq_PublicKey req) (cap_Tier c) w1 = (Inl e, w')" "rs_Status resp = ''pending''"
    then have "w_nodes w' = w_nodes w1" using VerifyStake_simps(1) by (metis snd_conv)
    with l1 r v show thesis by (intro that [OF key]) auto
  next
    fix res w2
    assume v: "VerifyStake (sv_lnReadonly S) (rq_PublicKey req) (cap_Tier c) w1 = (Inr res, w2)" "rs_Status resp = ''active''"
      and act: "Activate (NodeID node) (snd (PersistStake (sv_ext S) (NodeID node) res w2)) = (Inr (), w')"
    let ?w3 = "snd (PersistStake (sv_ext S) (NodeID node) res w2)"
    have w2: "w_nodes ?w3 = w_nodes w1" "healthy ?w3"
      using v VerifyStake_simps(1) VerifyStake_healthy [OF h1] PersistStake_healthy by (metis PersistStake_nodes snd_conv)+
    have "w_nodes w' = sql_update (\<lambda>m. NodeID m = NodeID r \<and> Status m = ''pending'') (\<lambda>m. m\<lparr>Status := ''active''\<rparr>) (w_nodes w1)"
      using Activate_pending(2) [OF w2(2), of r] act w2 r by simp
    then have "lookup PublicKey (rq_PublicKey req) (w_nodes w') = Some (r\<lparr>Status := ''active''\<rparr>)"
      using l1 r by (simp add: lookup_update)
    with r v show thesis by (intro that [OF key, of "r\<lparr>Status := ''active''\<rparr>"]) auto
  qed
qed

subsection \<open>Task results\<close>

text \<open>The request names a task and a registered node, and carries that node's signature over the task and the output hash.\<close>

definition result_authentic :: "Server_rpc \<Rightarrow> TaskResult \<Rightarrow> world \<Rightarrow> uuid \<Rightarrow> uuid \<Rightarrow> bool" where
  "result_authentic S req w tid nid \<longleftrightarrow>
     uuid_Parse (sv_ext S) (tr_TaskId req) = Some tid \<and> uuid_Parse (sv_ext S) (tr_NodeId req) = Some nid \<and> tr_Signature req \<noteq> [] \<and>
     (case lookup NodeID nid (w_nodes w) of None \<Rightarrow> False | Some n \<Rightarrow>
       (case hex_DecodeString (PublicKey n) of None \<Rightarrow> False | Some key \<Rightarrow>
          length key = 32 \<and> ed25519_Verify (sv_ext S) key
            (canonicalTaskResultMessage (tr_TaskId req) (hex_EncodeToString (tr_OutputHash req))) (tr_Signature req)))"

text \<open>What is signed determines the task and the hash: the hash is hexadecimal, so the last separator is the one before it.\<close>

lemma canonicalTaskResultMessage_inj:
  assumes "canonicalTaskResultMessage t (hex_EncodeToString h) = canonicalTaskResultMessage t' (hex_EncodeToString h')"
  shows "t = t' \<and> h = h'"
proof -
  have "t @ CHR ''|'' # hex_EncodeToString h = t' @ CHR ''|'' # hex_EncodeToString h'"
    using assms by (simp add: canonicalTaskResultMessage_def)
  moreover have "CHR ''|'' \<notin> set (hex_EncodeToString b)" for b
    using hex_EncodeToString_chars hex_char_not_sep by blast
  ultimately show ?thesis
    using sep_unique_last hex_EncodeToString_inj by blast
qed

lemma verifyTaskResultSig_ok:
  "is_ok (verifyTaskResultSig E pk t h sig) \<longleftrightarrow> sig \<noteq> [] \<and>
     (\<exists>key. hex_DecodeString pk = Some key \<and> length key = 32 \<and>
       ed25519_Verify E key (canonicalTaskResultMessage t (hex_EncodeToString h)) sig)"
  by (auto simp: verifyTaskResultSig_def split: option.splits)

lemma UpdateReliability_frame [simp, frame_simps]:
  "w_queue (snd (UpdateReliability E nid ok w)) = w_queue w" "w_stakes (snd (UpdateReliability E nid ok w)) = w_stakes w"
  "w_rounds (snd (UpdateReliability E nid ok w)) = w_rounds w" "w_now (snd (UpdateReliability E nid ok w)) = w_now w"
  "w_participants (snd (UpdateReliability E nid ok w)) = w_participants w"
  "w_next_round (snd (UpdateReliability E nid ok w)) = w_next_round w"
  "w_heartbeats (snd (UpdateReliability E nid ok w)) = w_heartbeats w"
  "w_sent (snd (UpdateReliability E nid ok w)) = w_sent w" "w_receipts (snd (UpdateReliability E nid ok w)) = w_receipts w"
  "w_stamps (snd (UpdateReliability E nid ok w)) = w_stamps w"
  using nodes_only_UpdateReliability [of w E nid ok] by (simp_all add: nodes_only_iff)

lemma UpdateReliability_healthy: "healthy w \<Longrightarrow> healthy (snd (UpdateReliability E nid ok w))"
  by (auto simp: UpdateReliability_def db_call_healthy healthy_def Let_def split: world_splits)

lemma MarkComplete_frame [simp, frame_simps]:
  "w_queue (snd (MarkComplete tid oh w)) = w_queue w" "w_nodes (snd (MarkComplete tid oh w)) = w_nodes w"
  "w_stakes (snd (MarkComplete tid oh w)) = w_stakes w" "w_rounds (snd (MarkComplete tid oh w)) = w_rounds w"
  "w_now (snd (MarkComplete tid oh w)) = w_now w" "w_heartbeats (snd (MarkComplete tid oh w)) = w_heartbeats w"
  "w_participants (snd (MarkComplete tid oh w)) = w_participants w" "w_sent (snd (MarkComplete tid oh w)) = w_sent w"
  "w_next_round (snd (MarkComplete tid oh w)) = w_next_round w" "w_receipts (snd (MarkComplete tid oh w)) = w_receipts w"
  "w_stamps (snd (MarkComplete tid oh w)) = w_stamps w"
  by (auto simp: MarkComplete_def task_type_of_def db_call_def split: world_splits)

lemma MarkComplete_is_healthy: "healthy w \<Longrightarrow> healthy (snd (MarkComplete tid oh w))"
  by (auto simp: MarkComplete_def task_type_of_def db_call_healthy healthy_def split: world_splits)

definition complete_task :: "uuid \<Rightarrow> string \<Rightarrow> int \<Rightarrow> task_row list \<Rightarrow> task_row list" where
  "complete_task tid oh now = sql_update (\<lambda>t. tk_id t = tid)
     (\<lambda>t. t\<lparr>tk_status := ''completed'', tk_output_hash := Some oh, tk_completed := Some now\<rparr>)"

lemma MarkComplete_tasks:
  "w_tasks (snd (MarkComplete tid oh w)) \<in> {w_tasks w, complete_task tid oh (w_now w) (w_tasks w)}"
  by (auto simp: MarkComplete_def task_type_of_def db_call_def complete_task_def split: world_splits)

lemma lookup_complete_task:
  "lookup tk_id k (complete_task tid oh now ts) = map_option (\<lambda>t. if tk_id t = tid
     then t\<lparr>tk_status := ''completed'', tk_output_hash := Some oh, tk_completed := Some now\<rparr> else t) (lookup tk_id k ts)"
  by (simp add: complete_task_def lookup_update)

lemma enqueue_payment_frame [simp, frame_simps]:
  "w_tasks (snd (enqueue_payment d tid w)) = w_tasks w" "w_nodes (snd (enqueue_payment d tid w)) = w_nodes w"
  "w_stakes (snd (enqueue_payment d tid w)) = w_stakes w" "w_rounds (snd (enqueue_payment d tid w)) = w_rounds w"
  "w_now (snd (enqueue_payment d tid w)) = w_now w" "w_heartbeats (snd (enqueue_payment d tid w)) = w_heartbeats w"
  "w_participants (snd (enqueue_payment d tid w)) = w_participants w"
  "w_next_round (snd (enqueue_payment d tid w)) = w_next_round w"
  "w_sent (snd (enqueue_payment d tid w)) = w_sent w" "w_receipts (snd (enqueue_payment d tid w)) = w_receipts w"
  "w_stamps (snd (enqueue_payment d tid w)) = w_stamps w"
  by (auto simp: enqueue_payment_def db_call_def Enqueue_def split: world_splits)

definition task_job :: "task_row \<Rightarrow> string \<Rightarrow> paymentJob" where
  "task_job t uri = \<lparr>j_TaskID = tk_id t, j_NodeLNURI = uri, j_AmountSats = tk_reward t\<rparr>"

lemma enqueue_payment_queue:
  "w_queue (snd (enqueue_payment d tid w)) = w_queue w \<or>
   (\<exists>t uri. lookup tk_id tid (w_tasks w) = Some t \<and> tk_ln_uri t = Some uri \<and> uri \<noteq> [] \<and>
      w_queue (snd (enqueue_payment d tid w)) = enqueue_job (task_job t uri) (w_queue w))"
proof (cases "\<not> d \<or> db_down w")
  case True
  then show ?thesis by (auto simp: enqueue_payment_def db_call_def)
next
  case False
  show ?thesis
  proof (cases "lookup tk_id tid (w_tasks w)")
    case None
    with False show ?thesis by (simp add: enqueue_payment_def db_call_def)
  next
    case (Some t)
    then have "tk_id t = tid" by (auto dest: lookup_Some)
    with False Some show ?thesis
      by (cases "tk_ln_uri t") (auto simp: enqueue_payment_def db_call_def Enqueue_def task_job_def)
  qed
qed

lemma SubmitTaskResult_authentic:
  assumes "result_authentic S req w tid nid"
  shows "SubmitTaskResult S req w = (if db_down w then (Inl (PermissionDenied, ''node not found''), db_tick w)
     else accept_result S req tid nid (db_tick w))"
proof -
  from assms obtain n where n: "lookup NodeID nid (w_nodes w) = Some n"
    "is_ok (verifyTaskResultSig (sv_ext S) (PublicKey n) (tr_TaskId req) (tr_OutputHash req) (tr_Signature req))"
    by (auto simp: result_authentic_def verifyTaskResultSig_ok split: option.splits)
  then have v: "verifyTaskResultSig (sv_ext S) (PublicKey n) (tr_TaskId req) (tr_OutputHash req) (tr_Signature req) = Inr ()"
    by (cases "verifyTaskResultSig (sv_ext S) (PublicKey n) (tr_TaskId req) (tr_OutputHash req) (tr_Signature req)") auto
  show ?thesis
    using assms n(1) v by (simp add: SubmitTaskResult_def result_authentic_def db_call_def accept_result_def)
qed

lemma SubmitTaskResult_refused:
  assumes "\<nexists>tid nid. result_authentic S req w tid nid"
  shows "(\<exists>e. fst (SubmitTaskResult S req w) = Inl e) \<and>
    (snd (SubmitTaskResult S req w) \<in> {w, db_tick w} \<or>
     (\<exists>nid. snd (SubmitTaskResult S req w) = snd (UpdateReliability (sv_ext S) nid False (db_tick w))))"
proof (cases "uuid_Parse (sv_ext S) (tr_TaskId req) = None \<or> uuid_Parse (sv_ext S) (tr_NodeId req) = None \<or> tr_Signature req = []")
  case True
  then show ?thesis by (auto simp: SubmitTaskResult_def split: option.splits)
next
  case False
  then obtain tid nid where p: "uuid_Parse (sv_ext S) (tr_TaskId req) = Some tid"
    "uuid_Parse (sv_ext S) (tr_NodeId req) = Some nid" "tr_Signature req \<noteq> []" by auto
  show ?thesis
  proof (cases "lookup NodeID nid (w_nodes w)")
    case None
    with p show ?thesis by (auto simp: SubmitTaskResult_def db_call_def)
  next
    case (Some n)
    from assms p Some have "\<not> is_ok (verifyTaskResultSig (sv_ext S) (PublicKey n) (tr_TaskId req) (tr_OutputHash req) (tr_Signature req))"
      by (auto simp: result_authentic_def verifyTaskResultSig_ok)
    then obtain e where "verifyTaskResultSig (sv_ext S) (PublicKey n) (tr_TaskId req) (tr_OutputHash req) (tr_Signature req) = Inl e"
      by (cases "verifyTaskResultSig (sv_ext S) (PublicKey n) (tr_TaskId req) (tr_OutputHash req) (tr_Signature req)") auto
    with p Some show ?thesis by (auto simp: SubmitTaskResult_def db_call_def)
  qed
qed

lemma accept_result_effect:
  assumes "accept_result S req tid nid w = (res, w')"
  shows "w_tasks w' \<in> {w_tasks w, complete_task tid (hex_EncodeToString (tr_OutputHash req)) (w_now w) (w_tasks w)}"
    and "w_queue w' = w_queue w \<or> (\<exists>t uri. lookup tk_id tid (w_tasks w') = Some t \<and> tk_ln_uri t = Some uri \<and> uri \<noteq> [] \<and>
      w_queue w' = enqueue_job (task_job t uri) (w_queue w))"
proof -
  obtain r w1 where m: "MarkComplete tid (hex_EncodeToString (tr_OutputHash req)) w = (r, w1)" by fastforce
  then have t: "w_tasks w1 \<in> {w_tasks w, complete_task tid (hex_EncodeToString (tr_OutputHash req)) (w_now w) (w_tasks w)}"
    "w_queue w1 = w_queue w"
    using MarkComplete_tasks [of tid "hex_EncodeToString (tr_OutputHash req)" w]
      MarkComplete_frame(1) [of tid "hex_EncodeToString (tr_OutputHash req)" w] by simp_all
  show "w_tasks w' \<in> {w_tasks w, complete_task tid (hex_EncodeToString (tr_OutputHash req)) (w_now w) (w_tasks w)}"
    using assms m t by (cases r) (auto simp: accept_result_def Let_def split: prod.splits dest!: arg_cong [of _ _ snd])
  show "w_queue w' = w_queue w \<or> (\<exists>t uri. lookup tk_id tid (w_tasks w') = Some t \<and> tk_ln_uri t = Some uri \<and> uri \<noteq> [] \<and>
      w_queue w' = enqueue_job (task_job t uri) (w_queue w))"
  proof (cases r)
    case (Inl e)
    with assms m t show ?thesis by (simp add: accept_result_def)
  next
    case (Inr u)
    let ?w2 = "snd (UpdateReliability (sv_ext S) nid True w1)"
    have w': "w' = counter_inc ''owm_task_duration_seconds_count'' [] (snd (enqueue_payment (sv_disp S) tid ?w2))"
      using assms m Inr by (auto simp: accept_result_def Let_def split: prod.splits)
    have "w_tasks w' = w_tasks ?w2" "w_queue w' = w_queue (snd (enqueue_payment (sv_disp S) tid ?w2))"
      by (simp_all add: w')
    with enqueue_payment_queue [of "sv_disp S" tid ?w2] t show ?thesis by simp
  qed
qed

lemma accept_result_healthy:
  assumes "healthy w" "sv_disp S" "lookup tk_id tid (w_tasks w) = Some t" "tk_ln_uri t = Some uri" "uri \<noteq> []"
    and "accept_result S req tid nid w = (res, w')"
  shows "res = Inr \<lparr>ack_Accepted = True, ack_RejectionReason = [], ack_PaymentStatus = ''queued''\<rparr>"
    "w_tasks w' = complete_task tid (hex_EncodeToString (tr_OutputHash req)) (w_now w) (w_tasks w)"
    "w_queue w' = enqueue_job (task_job t uri) (w_queue w)" "healthy w'" "w_now w' = w_now w"
    "map (\<lambda>n. (NodeID n, PublicKey n)) (w_nodes w') = map (\<lambda>n. (NodeID n, PublicKey n)) (w_nodes w)"
proof -
  let ?oh = "hex_EncodeToString (tr_OutputHash req)"
  obtain w1 where m: "MarkComplete tid ?oh w = (Inr (), w1)"
    using MarkComplete_healthy(1) [OF assms(1)] by (metis prod.collapse)
  have w1: "w_tasks w1 = complete_task tid ?oh (w_now w) (w_tasks w)" "healthy w1"
    "w_queue w1 = w_queue w" "w_now w1 = w_now w" "w_nodes w1 = w_nodes w"
    using MarkComplete_healthy(2) [OF assms(1), of tid ?oh] MarkComplete_is_healthy [OF assms(1), of tid ?oh]
      MarkComplete_frame [of tid ?oh w] m by (simp_all add: complete_task_def)
  let ?w2 = "snd (UpdateReliability (sv_ext S) nid True w1)"
  have h2: "healthy ?w2" using UpdateReliability_healthy [OF w1(2)] .
  have keys: "map (\<lambda>n. (NodeID n, PublicKey n)) (w_nodes ?w2) = map (\<lambda>n. (NodeID n, PublicKey n)) (w_nodes w1)"
    by (auto simp: UpdateReliability_def db_call_def Let_def split: world_splits)
  have t: "tk_id t = tid" using lookup_Some [OF assms(3)] by simp
  have l: "lookup tk_id tid (w_tasks ?w2) = Some (t\<lparr>tk_status := ''completed'', tk_output_hash := Some ?oh, tk_completed := Some (w_now w)\<rparr>)"
    using w1(1) assms(3) t by (simp add: lookup_complete_task)
  have q: "enqueue_payment (sv_disp S) tid ?w2 = (''queued'', Enqueue tid uri (tk_reward t) ?w2)"
    using assms(2,4,5) l h2 by (simp add: enqueue_payment_def db_call_healthy)
  have r: "res = Inr \<lparr>ack_Accepted = True, ack_RejectionReason = [], ack_PaymentStatus = ''queued''\<rparr>"
    "w' = counter_inc ''owm_task_duration_seconds_count'' [] (Enqueue tid uri (tk_reward t) ?w2)"
    using assms(6) m q by (simp_all add: accept_result_def Let_def)
  show "res = Inr \<lparr>ack_Accepted = True, ack_RejectionReason = [], ack_PaymentStatus = ''queued''\<rparr>" by (fact r(1))
  show "w_tasks w' = complete_task tid ?oh (w_now w) (w_tasks w)" "w_queue w' = enqueue_job (task_job t uri) (w_queue w)"
    "healthy w'" "w_now w' = w_now w"
    "map (\<lambda>n. (NodeID n, PublicKey n)) (w_nodes w') = map (\<lambda>n. (NodeID n, PublicKey n)) (w_nodes w)"
    using r(2) w1 h2 t keys by (simp_all add: Enqueue_def task_job_def healthy_def)
qed

text \<open>Authenticity depends on the node table only through the registered keys.\<close>

lemma lookup_keys:
  fixes ms ns :: "node list"
  assumes "map (\<lambda>n. (NodeID n, PublicKey n)) ms = map (\<lambda>n. (NodeID n, PublicKey n)) ns"
  shows "map_option PublicKey (lookup NodeID nid ms) = map_option PublicKey (lookup NodeID nid ns)"
  using assms
proof (induction ms arbitrary: ns)
  case (Cons m ms)
  then show ?case by (cases ns) (auto simp: lookup_def sql_row_def)
qed simp

lemma result_authentic_cong:
  assumes "map (\<lambda>n. (NodeID n, PublicKey n)) (w_nodes w') = map (\<lambda>n. (NodeID n, PublicKey n)) (w_nodes w)"
  shows "result_authentic S req w' tid nid = result_authentic S req w tid nid"
  using lookup_keys [OF assms, of nid] unfolding result_authentic_def
  by (cases "lookup NodeID nid (w_nodes w')"; cases "lookup NodeID nid (w_nodes w)") auto

subsection \<open>Gradient keys\<close>

lemma takeWhile_digits:
  assumes "list_all is_digit ds" "\<not> is_digit c"
  shows "takeWhile is_digit (ds @ c # r) = ds" "dropWhile is_digit (ds @ c # r) = c # r"
  using assms by (auto simp: takeWhile_append dropWhile_append list_all_iff)

text \<open>The matcher accepts exactly the language of the regular expression.\<close>

lemma gradientS3KeyRegex_iff:
  "gradientS3KeyRegex key \<longleftrightarrow> (\<exists>ds u. key = ''gradients/'' @ ds @ ''/'' @ u @ ''.bin'' \<and>
     ds \<noteq> [] \<and> list_all is_digit ds \<and> length u = 36 \<and> list_all uuid_char u)"
proof
  assume m: "gradientS3KeyRegex key"
  define r where "r = drop 10 key"
  define q where "q = dropWhile is_digit r"
  have p: "prefix ''gradients/'' key" "takeWhile is_digit r \<noteq> []" "prefix ''/'' q" "length q = 41"
    "list_all uuid_char (take 36 (drop 1 q))" "drop 37 q = ''.bin''"
    using m by (simp_all add: gradientS3KeyRegex_def Let_def r_def q_def)
  from p(1) have "key = ''gradients/'' @ r" by (auto simp: prefix_def r_def)
  moreover have "r = takeWhile is_digit r @ q" by (simp add: q_def)
  moreover obtain q' where q': "q = CHR ''/'' # q'" using p(3) by (auto simp: prefix_def)
  moreover have "q' = take 36 q' @ ''.bin''" using p(6) q' append_take_drop_id [of 36 q'] by simp
  ultimately have "key = ''gradients/'' @ takeWhile is_digit r @ ''/'' @ take 36 q' @ ''.bin''" by simp
  moreover have "length (take 36 q') = 36" using p(4) q' by simp
  moreover have "list_all is_digit (takeWhile is_digit r)" by (auto simp: list_all_iff dest: set_takeWhileD)
  moreover have "list_all uuid_char (take 36 q')" using p(5) q' by simp
  ultimately show "\<exists>ds u. key = ''gradients/'' @ ds @ ''/'' @ u @ ''.bin'' \<and>
     ds \<noteq> [] \<and> list_all is_digit ds \<and> length u = 36 \<and> list_all uuid_char u"
    using p(2) by blast
next
  assume "\<exists>ds u. key = ''gradients/'' @ ds @ ''/'' @ u @ ''.bin'' \<and>
     ds \<noteq> [] \<and> list_all is_digit ds \<and> length u = 36 \<and> list_all uuid_char u"
  then obtain ds u where k: "key = ''gradients/'' @ ds @ CHR ''/'' # u @ ''.bin''" "ds \<noteq> []" "list_all is_digit ds"
    "length u = 36" "list_all uuid_char u" by auto
  have "\<not> is_digit (CHR ''/'')" by (simp add: is_digit_def)
  from takeWhile_digits [OF k(3) this] k show "gradientS3KeyRegex key"
    by (simp add: gradientS3KeyRegex_def Let_def)
qed

text \<open>A key that passes and equals the expected one: the round is not negative, the node is written in lower case.\<close>

lemma expectedKey_regex:
  assumes "gradientS3KeyRegex (expectedKey grad)"
  shows "0 \<le> gu_RoundNumber grad \<and> length (gu_NodeId grad) = 36 \<and> list_all uuid_char (gu_NodeId grad)"
proof -
  obtain ds u where k: "expectedKey grad = ''gradients/'' @ ds @ ''/'' @ u @ ''.bin''" "ds \<noteq> []"
    "list_all is_digit ds" "length u = 36" "list_all uuid_char u"
    using assms by (auto simp: gradientS3KeyRegex_iff)
  from k(1) have e: "dec (gu_RoundNumber grad) @ CHR ''/'' # gu_NodeId grad @ ''.bin'' = ds @ CHR ''/'' # u @ ''.bin''"
    by (simp add: expectedKey_def)
  have "CHR ''/'' \<notin> set (dec (gu_RoundNumber grad))" using dec_chars is_digit_not_sep by fastforce
  moreover have "CHR ''/'' \<notin> set ds" using k(3) is_digit_not_sep by (auto simp: list_all_iff)
  ultimately have "dec (gu_RoundNumber grad) = ds" "gu_NodeId grad = u"
    using sep_unique [OF _ _ e] by auto
  with k show ?thesis by (auto simp: dec_def list_all_iff is_digit_def split: if_splits)
qed

lemma gradient_key_Some: "gradient_key url_Path grad = Some key \<Longrightarrow> key = expectedKey grad \<and> gradientS3KeyRegex key"
  by (auto simp: gradient_key_def Let_def split: option.splits if_splits)

lemma SubmitGradient_rpc_accepted:
  assumes "SubmitGradient_rpc S url_Path grad w = (Inr a, w')" "ga_Accepted a"
  obtains nid where "uuid_Parse (sv_ext S) (gu_NodeId grad) = Some nid" "gradient_key url_Path grad = Some (expectedKey grad)"
    "SubmitGradient \<lparr>gs_NodeID = nid, gs_RoundID = gu_RoundNumber grad, gs_GradientHash = gu_GradientHash grad,
       gs_S3URL = expectedKey grad\<rparr> w = (Inr (), w')"
  using assms
  by (auto simp: SubmitGradient_rpc_def split: option.splits sum.splits prod.splits dest: gradient_key_Some)

subsection \<open>Streams\<close>

lemma Schedule_timeout: "Schedule E rng redis fresh tt ih tmo w = (Inr a, w') \<Longrightarrow> in_int32 (a_TimeoutSecs a)"
  by (auto simp: Schedule_def schedule_over_def persistAssignment_def insert_task_def db_call_def Let_def split: world_splits)

text \<open>The messages that reach the node, when every one is sent: those that decode, in order.\<close>

lemma stream_loop_messages:
  "stream_loop unmarshal (map (\<lambda>p. Message p None) payloads) = (map stream_task (List.map_filter unmarshal payloads), None)"
  by (induction payloads) (auto simp: List.map_filter_simps split: option.splits)

section \<open>Concrete requests\<close>

definition demo_server :: "Client option \<Rightarrow> Server_rpc" where
  "demo_server l = \<lparr>sv_ext = demo_ext, sv_lnReadonly = l, sv_rdb = False, sv_disp = True\<rparr>"

lemma demo_server_simps [simp]: "sv_ext (demo_server l) = demo_ext" "sv_lnReadonly (demo_server l) = l" "sv_disp (demo_server l)"
  by (simp_all add: demo_server_def)

definition demo_register :: "string \<Rightarrow> RegisterNodeRequest" where
  "demo_register t = \<lparr>rq_PublicKey = demo_pk, rq_LnNodeUri = demo_uri, rq_Capabilities = Some (demo_caps t),
     rq_Signature = demo_sig t, rq_Timestamp = 1000, rq_OnionAddress = []\<rparr>"

lemma demo_request_caps: "request_caps (demo_caps t) = demo_caps t"
  by (simp add: request_caps_def demo_caps_def small_fround small_def r64_numeral)

lemma demo_RegisterNode:
  assumes "t \<in> set tiers"
  shows "\<exists>resp w'. RegisterNode (demo_server (Some (demo_ln cs))) 7 (demo_register t) (empty_world demo_now) = (Inr resp, w')"
proof -
  let ?w = "empty_world demo_now"
  let ?w1 = "nodes_gauge_add t ''pending'' 1 (?w\<lparr>w_nodes := [demo_node t]\<rparr>)"
  have v: "validateTimestamp 1000 ?w = Inr ()"
    by (simp add: validateTimestamp_ok empty_world_def demo_now_def time_Sub_def time_defs)
  have ne: "demo_pk \<noteq> []" "demo_uri \<noteq> []" by (simp_all add: demo_pk_def demo_uri_def)
  have h: "healthy ?w1" by (simp add: healthy_def empty_world_def)
  obtain res w2 where s: "VerifyStake (Some (demo_ln cs)) demo_pk t ?w1 = (Inr res, w2)"
    using VerifyStake_answer [OF assms, of "Some (demo_ln cs)" demo_pk ?w1]
    by (cases "VerifyStake (Some (demo_ln cs)) demo_pk t ?w1"; cases "fst (VerifyStake (Some (demo_ln cs)) demo_pk t ?w1)") auto
  let ?w3 = "snd (PersistStake demo_ext 7 res w2)"
  have w3: "w_nodes ?w3 = [demo_node t]" "healthy ?w3"
    using s VerifyStake_simps(1) [of "Some (demo_ln cs)" demo_pk t ?w1] VerifyStake_healthy [OF h, of "Some (demo_ln cs)" demo_pk t]
    by (simp_all add: PersistStake_healthy)
  obtain w4 where "Activate 7 ?w3 = (Inr (), w4)"
    using Activate_pending(1) [OF w3(2), of "demo_node t"] w3(1) by (cases "Activate 7 ?w3") auto
  then show ?thesis
    using v ne s demo_Register [OF assms]
    by (simp add: RegisterNode_def demo_register_def demo_request_caps Let_def) (simp add: demo_caps_def)
qed

definition demo_tid :: string where "demo_tid = replicate 35 (CHR ''0'') @ ''1''"
definition demo_nid :: string where "demo_nid = replicate 35 (CHR ''0'') @ ''7''"

lemma demo_uuids [simp]: "uuid_Parse demo_ext demo_tid = Some 1" "uuid_Parse demo_ext demo_nid = Some 7"
  unfolding demo_tid_def demo_nid_def by (simp_all add: demo_ext_def demo_uuid_Parse_def is_digit_def digits_value_def numeral_eq_Suc)

definition demo_result :: TaskResult where
  "demo_result = \<lparr>tr_TaskId = demo_tid, tr_NodeId = demo_nid, tr_OutputHash = ''ab'', tr_Output = [], tr_ExecMs = 0,
     tr_Signature = demo_key @ canonicalTaskResultMessage demo_tid (hex_EncodeToString ''ab'')\<rparr>"

definition demo_result_world :: world where
  "demo_result_world = (empty_world demo_now)\<lparr>w_nodes := [demo_node ''t1''\<lparr>Status := ''active''\<rparr>],
     w_tasks := [demo_task ''running'' ''pending'']\<rparr>"

lemma demo_result_world_simps [simp]: "healthy demo_result_world" "w_tasks demo_result_world = [demo_task ''running'' ''pending'']"
  "w_queue demo_result_world = []" "w_nodes demo_result_world = [demo_node ''t1''\<lparr>Status := ''active''\<rparr>]" "w_now demo_result_world = demo_now"
  "\<not> db_down demo_result_world"
  by (simp_all add: demo_result_world_def healthy_def empty_world_def db_down_def)

lemma demo_task_lookup: "lookup tk_id 1 [demo_task st pst] = Some (demo_task st pst)"
  by (simp add: lookup_def sql_row_def)

lemma demo_result_authentic: "result_authentic (demo_server l) demo_result demo_result_world 1 7"
proof -
  have k: "tr_Signature demo_result \<noteq> []" "length demo_key = 32" by (simp_all add: demo_result_def demo_key_def)
  have u: "uuid_Parse demo_ext (tr_TaskId demo_result) = Some 1" "uuid_Parse demo_ext (tr_NodeId demo_result) = Some 7"
    by (simp_all add: demo_result_def)
  have "ed25519_Verify demo_ext demo_key
      (canonicalTaskResultMessage (tr_TaskId demo_result) (hex_EncodeToString (tr_OutputHash demo_result))) (tr_Signature demo_result)"
    by (simp add: demo_result_def demo_ext_def)
  with k u show ?thesis by (simp add: result_authentic_def demo_pk_decode)
qed

definition demo_gradient :: GradientUpdate where
  "demo_gradient = \<lparr>gu_NodeId = demo_nid, gu_RoundNumber = 1, gu_GradientData = [], gu_GradientHash = ''h'', gu_Signature = [],
     gu_S3Url = ''/gradients/1/'' @ demo_nid @ ''.bin''\<rparr>"

definition demo_gradient_world :: world where
  "demo_gradient_world = (demo_fl ''open'' [])\<lparr>w_nodes := [demo_node ''t1'']\<rparr>"

lemma demo_gradient_world_simps [simp]: "w_nodes demo_gradient_world = [demo_node ''t1'']"
  "w_rounds demo_gradient_world = [demo_round ''open'']" "w_participants demo_gradient_world = []"
  by (simp_all add: demo_gradient_world_def)

lemma demo_dec_1: "dec 1 = ''1''"
  by code_simp

lemma demo_gradient_key: "gradient_key Some demo_gradient = Some (expectedKey demo_gradient)"
proof -
  have e: "expectedKey demo_gradient = ''gradients/'' @ ''1'' @ ''/'' @ demo_nid @ ''.bin''"
    by (simp add: expectedKey_def demo_gradient_def demo_dec_1)
  have "length demo_nid = 36" "list_all uuid_char demo_nid" "list_all is_digit ''1''"
    by (simp_all add: demo_nid_def uuid_char_def is_digit_def list_all_iff)
  then have "gradientS3KeyRegex (expectedKey demo_gradient)"
    unfolding gradientS3KeyRegex_iff e by (intro exI [of _ "''1''"] exI [of _ demo_nid]) simp
  moreover have "gu_S3Url demo_gradient = CHR ''/'' # expectedKey demo_gradient"
    unfolding e by (simp add: demo_gradient_def)
  ultimately show ?thesis by (simp add: gradient_key_def TrimPrefix_def expectedKey_def)
qed

lemma demo_SubmitGradient_rpc:
  "\<exists>a w'. SubmitGradient_rpc (demo_server None) Some demo_gradient demo_gradient_world = (Inr a, w') \<and> ga_Accepted a"
proof -
  have h: "healthy demo_gradient_world" by (simp add: healthy_def demo_gradient_world_def demo_fl_def empty_world_def)
  have "\<exists>w'. SubmitGradient \<lparr>gs_NodeID = 7, gs_RoundID = 1, gs_GradientHash = ''h'', gs_S3URL = k\<rparr> demo_gradient_world = (Inr (), w')" for k
    by (simp add: SubmitGradient_def upsert_participant_def db_call_healthy [OF h]) (simp add: lookup_def sql_row_def)
  then obtain w' where "SubmitGradient \<lparr>gs_NodeID = 7, gs_RoundID = gu_RoundNumber demo_gradient,
      gs_GradientHash = gu_GradientHash demo_gradient, gs_S3URL = expectedKey demo_gradient\<rparr> demo_gradient_world = (Inr (), w')"
    by (auto simp: demo_gradient_def)
  moreover have "uuid_Parse demo_ext (gu_NodeId demo_gradient) = Some 7" by (simp add: demo_gradient_def)
  ultimately show ?thesis by (simp add: SubmitGradient_rpc_def demo_gradient_key)
qed

section \<open>Properties\<close>

text \<open>
  C7 (the registration endpoint). With a working database, a registration that is answered
  without an error was signed by the key it registers, over the address, tier and time of the
  request, which lies at most five minutes back and thirty seconds ahead; the key then has a
  row with that tier, and its status is the answered one. The status is active whenever the
  Lightning node could be asked (or none is configured), and pending with the code for a
  missing stake exactly when it could not.
\<close>

theorem register_endpoint:
  assumes "RegisterNode S fresh req w = (Inr resp, w')" "rq_Capabilities req = Some c"
    and "healthy w" "nodes_ok (w_nodes w)" "numeric_rounds (sv_ext S)"
  shows "(\<exists>key n. hex_DecodeString (rq_PublicKey req) = Some key \<and> length key = 32 \<and>
      ed25519_Verify (sv_ext S) key
        (canonicalRegisterMessage (rq_PublicKey req) (rq_LnNodeUri req) (cap_Tier c) (rq_Timestamp req)) (rq_Signature req) \<and>
      lookup PublicKey (rq_PublicKey req) (w_nodes w') = Some n \<and> Tier n = cap_Tier c \<and> Status n = rs_Status resp) \<and>
    time_Sub (w_now w) (time_Unix (rq_Timestamp req)) \<le> 5 * Minute \<and>
    time_Sub (time_Unix (rq_Timestamp req)) (w_now w) \<le> 30 * Second \<and>
    (rs_Status resp, rs_ErrorCode resp) =
      (if \<forall>lnc. sv_lnReadonly S = Some lnc \<longrightarrow> is_ok (ListChannels lnc (rq_PublicKey req))
       then (''active'', []) else (''pending'', ''INSUFFICIENT_STAKE''))"
proof -
  from assms obtain key n where row: "hex_DecodeString (rq_PublicKey req) = Some key" "length key = 32" "cap_Tier c \<in> set tiers"
    "ed25519_Verify (sv_ext S) key
       (canonicalRegisterMessage (rq_PublicKey req) (rq_LnNodeUri req) (cap_Tier c) (rq_Timestamp req)) (rq_Signature req)"
    "lookup PublicKey (rq_PublicKey req) (w_nodes w') = Some n" "Tier n = cap_Tier c" "Status n = rs_Status resp"
    by (rule RegisterNode_row)
  from assms(1,2) show ?thesis
  proof (rule RegisterNode_cases, goal_cases)
    case (1 node w1)
    then have "(rs_Status resp, rs_ErrorCode resp) =
      (if \<forall>lnc. sv_lnReadonly S = Some lnc \<longrightarrow> is_ok (ListChannels lnc (rq_PublicKey req))
       then (''active'', []) else (''pending'', ''INSUFFICIENT_STAKE''))"
      using VerifyStake_answer [OF row(3), of "sv_lnReadonly S" "rq_PublicKey req" w1] by auto
    with 1 row show ?thesis by blast
  qed
qed

text \<open>
  C4 (results are authenticated). The task table and the payment queue change only when the
  request carries a signature, by the key registered for the node it names, over the task and
  the output hash; then only the named task changes, and it becomes completed with that hash;
  and at most one job is queued, for that task, with the address and reward of its row.
\<close>

theorem task_result_authenticated:
  assumes "SubmitTaskResult S req w = (res, w')"
  shows "(w_tasks w', w_queue w') = (w_tasks w, w_queue w) \<or>
    (\<exists>tid nid. result_authentic S req w tid nid \<and>
       w_tasks w' \<in> {w_tasks w, complete_task tid (hex_EncodeToString (tr_OutputHash req)) (w_now w) (w_tasks w)} \<and>
       (w_queue w' = w_queue w \<or> (\<exists>t uri. lookup tk_id tid (w_tasks w') = Some t \<and> tk_ln_uri t = Some uri \<and> uri \<noteq> [] \<and>
          w_queue w' = enqueue_job (task_job t uri) (w_queue w))))"
proof (cases "\<exists>tid nid. result_authentic S req w tid nid")
  case True
  then obtain tid nid where a: "result_authentic S req w tid nid" by blast
  show ?thesis
  proof (cases "db_down w")
    case True
    with SubmitTaskResult_authentic [OF a] assms show ?thesis by auto
  next
    case False
    with SubmitTaskResult_authentic [OF a] assms have "accept_result S req tid nid (db_tick w) = (res, w')" by simp
    from accept_result_effect [OF this] a show ?thesis by (intro disjI2 exI [of _ tid] exI [of _ nid]) simp
  qed
next
  case False
  from SubmitTaskResult_refused [OF False] assms show ?thesis by auto
qed

theorem register_endpoint_witness:
  "\<exists>resp w' n. RegisterNode (demo_server (Some (demo_ln []))) 7 (demo_register ''t1'') (empty_world demo_now) = (Inr resp, w') \<and>
     rs_Status resp = ''active'' \<and> lookup PublicKey demo_pk (w_nodes w') = Some n \<and> Status n = ''active''"
proof -
  let ?w = "empty_world demo_now"
  have "''t1'' \<in> set tiers" by (simp add: tiers_def)
  from demo_RegisterNode [OF this, of "[]"] obtain resp w'
    where r: "RegisterNode (demo_server (Some (demo_ln []))) 7 (demo_register ''t1'') ?w = (Inr resp, w')" by blast
  have c: "rq_Capabilities (demo_register ''t1'') = Some (demo_caps ''t1'')" by (simp add: demo_register_def)
  have h: "healthy ?w" "nodes_ok (w_nodes ?w)" by (simp_all add: healthy_def empty_world_def nodes_ok_def)
  have "numeric_rounds (sv_ext (demo_server (Some (demo_ln []))))" by (simp add: demo_numeric_rounds)
  from register_endpoint [OF r c h this] have "rs_Status resp = ''active''"
    "\<exists>n. lookup PublicKey demo_pk (w_nodes w') = Some n \<and> Status n = rs_Status resp"
    by (auto simp: demo_register_def)
  with r show ?thesis by auto
qed

theorem task_result_authenticated_witness:
  "\<exists>res w'. SubmitTaskResult (demo_server None) (demo_result\<lparr>tr_Signature := ''x''\<rparr>) demo_result_world = (res, w') \<and>
     w_tasks w' = [demo_task ''running'' ''pending''] \<and> w_queue w' = []"
proof -
  let ?req = "demo_result\<lparr>tr_Signature := ''x''\<rparr>"
  obtain res w' where s: "SubmitTaskResult (demo_server None) ?req demo_result_world = (res, w')" by fastforce
  have "\<not> result_authentic (demo_server None) ?req demo_result_world tid nid" for tid nid
    by (auto simp: result_authentic_def demo_pk_decode demo_ext_def demo_key_def numeral_eq_Suc split: option.splits dest!: lookup_Some)
  with task_result_authenticated [OF s] s show ?thesis by auto
qed

text \<open>
  C24 (a result is recorded and its payment queued). With a working database and dispatcher, an
  authentic result for a task whose row has an address is accepted: the row becomes completed
  with the hash, and a job with the row's address and reward is appended to the queue when
  there is room. Neither the status of the task nor the node it was assigned to matter: when
  the same request is made again it is accepted again, and a second job for the same amount is
  queued.
\<close>

theorem task_result_outcome:
  assumes "result_authentic S req w tid nid" "healthy w" "sv_disp S"
    and "lookup tk_id tid (w_tasks w) = Some t" "tk_ln_uri t = Some uri" "uri \<noteq> []"
    and "SubmitTaskResult S req w = (res, w')" "SubmitTaskResult S req w' = (res', w'')"
  shows "res = Inr \<lparr>ack_Accepted = True, ack_RejectionReason = [], ack_PaymentStatus = ''queued''\<rparr> \<and>
    w_tasks w' = complete_task tid (hex_EncodeToString (tr_OutputHash req)) (w_now w) (w_tasks w) \<and>
    w_queue w' = enqueue_job (task_job t uri) (w_queue w) \<and>
    res' = res \<and> w_tasks w'' = w_tasks w' \<and> w_queue w'' = enqueue_job (task_job t uri) (w_queue w')"
proof -
  have run: "accept_result S req tid nid v = (r, v')"
    if "result_authentic S req v tid nid" "healthy v" "SubmitTaskResult S req v = (r, v')" for v r v'
    using SubmitTaskResult_authentic [OF that(1)] that(2,3) by (simp add: healthy_not_down db_tick_healthy)
  have tid: "tk_id t = tid" using lookup_Some [OF assms(4)] by simp
  note 1 = accept_result_healthy [OF assms(2-6) run [OF assms(1,2,7)]]
  have a': "result_authentic S req w' tid nid" using result_authentic_cong [OF 1(6)] assms(1) by simp
  let ?t' = "t\<lparr>tk_status := ''completed'', tk_output_hash := Some (hex_EncodeToString (tr_OutputHash req)), tk_completed := Some (w_now w)\<rparr>"
  have l': "lookup tk_id tid (w_tasks w') = Some ?t'" using 1(2) assms(4) tid by (simp add: lookup_complete_task)
  have "tk_ln_uri ?t' = Some uri" using assms(5) by simp
  note 2 = accept_result_healthy [OF 1(4) assms(3) l' this assms(6) run [OF a' 1(4) assms(8)]]
  have "complete_task tid oh now (complete_task tid oh now ts) = complete_task tid oh now ts" for oh now ts
    by (simp add: complete_task_def sql_update_def)
  moreover have "task_job ?t' uri = task_job t uri" by (simp add: task_job_def)
  ultimately show ?thesis using 1 2 by simp
qed

theorem task_result_outcome_witness:
  "\<exists>res w' w''. SubmitTaskResult (demo_server None) demo_result demo_result_world = (res, w') \<and>
     SubmitTaskResult (demo_server None) demo_result w' = (res, w'') \<and> w_queue w'' = [demo_job, demo_job]"
proof -
  obtain res w' where s: "SubmitTaskResult (demo_server None) demo_result demo_result_world = (res, w')" by fastforce
  obtain res' w'' where s': "SubmitTaskResult (demo_server None) demo_result w' = (res', w'')" by fastforce
  have l: "lookup tk_id 1 (w_tasks demo_result_world) = Some (demo_task ''running'' ''pending'')"
    unfolding demo_result_world_simps by (rule demo_task_lookup)
  have d: "sv_disp (demo_server None)" by simp
  have u: "tk_ln_uri (demo_task ''running'' ''pending'') = Some ''02ab@host:9735''" "''02ab@host:9735'' \<noteq> []" by simp_all
  from task_result_outcome [OF demo_result_authentic demo_result_world_simps(1) d l u s s'] s s' show ?thesis
    by (auto simp: enqueue_job_def queueSize_def task_job_def demo_job_def)
qed

text \<open>
  C22 (gradients cannot name foreign objects). Whatever URL parser is used, an accepted gradient
  is for an open round with a non-negative number and a registered node whose identifier is
  written in lower case; the object key that is stored for the node is
  \<open>gradients/<round>/<node>.bin\<close> for exactly this round and node, and the entries of all other
  nodes and rounds are unchanged.
\<close>

theorem gradient_endpoint:
  assumes "SubmitGradient_rpc S url_Path grad w = (Inr a, w')" "ga_Accepted a" "fl_ok w"
  shows "0 \<le> gu_RoundNumber grad \<and> length (gu_NodeId grad) = 36 \<and> list_all uuid_char (gu_NodeId grad) \<and>
    (\<exists>nid r. uuid_Parse (sv_ext S) (gu_NodeId grad) = Some nid \<and> lookup NodeID nid (w_nodes w) \<noteq> None \<and>
      lookup rd_number (gu_RoundNumber grad) (w_rounds w) = Some r \<and> rd_status r = ''open'' \<and>
      map_option (\<lambda>p. (pt_hash p, pt_s3_url p)) (lookup (\<lambda>p. (pt_round p, pt_node p)) (rd_id r, nid) (w_participants w')) =
        Some (gu_GradientHash grad, ''gradients/'' @ dec (gu_RoundNumber grad) @ ''/'' @ gu_NodeId grad @ ''.bin'') \<and>
      (\<forall>k. k \<noteq> (rd_id r, nid) \<longrightarrow> lookup (\<lambda>p. (pt_round p, pt_node p)) k (w_participants w') =
        lookup (\<lambda>p. (pt_round p, pt_node p)) k (w_participants w)))"
proof -
  obtain nid where n: "uuid_Parse (sv_ext S) (gu_NodeId grad) = Some nid" "gradient_key url_Path grad = Some (expectedKey grad)"
    "SubmitGradient \<lparr>gs_NodeID = nid, gs_RoundID = gu_RoundNumber grad, gs_GradientHash = gu_GradientHash grad,
       gs_S3URL = expectedKey grad\<rparr> w = (Inr (), w')"
    using SubmitGradient_rpc_accepted [OF assms(1,2)] .
  have "gradientS3KeyRegex (expectedKey grad)" using gradient_key_Some [OF n(2)] by simp
  from expectedKey_regex [OF this] SubmitGradient_accepted [OF n(3) assms(3)] n(1) show ?thesis
    by (auto simp: expectedKey_def)
qed

theorem gradient_endpoint_witness:
  "\<exists>a w'. SubmitGradient_rpc (demo_server None) Some demo_gradient demo_gradient_world = (Inr a, w') \<and>
     map_option pt_s3_url (lookup (\<lambda>p. (pt_round p, pt_node p)) (1, 7) (w_participants w')) = Some (''gradients/1/'' @ demo_nid @ ''.bin'')"
proof -
  obtain a w' where s: "SubmitGradient_rpc (demo_server None) Some demo_gradient demo_gradient_world = (Inr a, w')" "ga_Accepted a"
    using demo_SubmitGradient_rpc by blast
  have ok: "fl_ok demo_gradient_world" using demo_fl_ok [of "[]" "''open''"] by (simp add: fl_ok_def demo_gradient_world_def demo_fl_def)
  have g: "gu_NodeId demo_gradient = demo_nid" "gu_RoundNumber demo_gradient = 1" by (simp_all add: demo_gradient_def)
  from gradient_endpoint [OF s ok] s show ?thesis by (auto simp: g demo_dec_1 demo_gradient_world_def)
qed

text \<open>
  C34 (scheduled tasks reach their node). When Redis is available and the JSON reader reads
  back what the scheduler wrote, a node that subscribes under its canonical identifier is sent
  exactly the task of an assignment that was made for it, with the reward of the task's row
  and its timeout, but without a payload and without a signature of the coordinator. A subscription under any other spelling of the identifier receives nothing.
\<close>

theorem stream_delivers_assignment:
  assumes "Schedule (sv_ext S) rng (Some True) fresh tt ih tmo w = (Inr a, w')" "sv_rdb S"
    and "unmarshal (json_Assignment (sv_ext S) a) = Some \<lparr>sp_TaskID = uuid_String (sv_ext S) (a_TaskID a),
      sp_NodeID = uuid_String (sv_ext S) (a_NodeID a), sp_TaskType = a_TaskType a, sp_RewardSats = a_RewardSats a,
      sp_TimeoutSecs = a_TimeoutSecs a\<rparr>"
    and "uuid_Parse (sv_ext S) (hb_NodeId req) \<noteq> None"
  shows "StreamTasks S unmarshal req (\<lambda>ch. map (\<lambda>(_, p). Message p None)
      (filter (\<lambda>(c, _). c = ch) (drop (length (w_published w)) (w_published w')))) =
    Inr (if hb_NodeId req = uuid_String (sv_ext S) (a_NodeID a)
      then [\<lparr>t_TaskId = uuid_String (sv_ext S) fresh, t_TaskType = tt, t_EncryptedPayload = [], t_TimeoutSeconds = tmo,
        t_RewardSats = a_RewardSats a, t_ModelVersion = [], t_CoordinatorSig = []\<rparr>]
      else [], None)"
proof -
  have p: "a_TaskID a = fresh \<and> a_TaskType a = tt \<and> a_TimeoutSecs a = tmo \<and>
      drop (length (w_published w)) (w_published w') = [(''owm:tasks:'' @ uuid_String (sv_ext S) (a_NodeID a), json_Assignment (sv_ext S) a)]"
    by (rule registry.over_sound [OF assms(1) [unfolded Schedule_def]]) simp
  then show ?thesis
    using assms(2-4) Schedule_timeout [OF assms(1)] by (auto simp: StreamTasks_def stream_channel_def stream_task_def wrap_int_id)
qed

theorem stream_delivers_assignment_witness:
  "\<exists>a w'. Schedule demo_ext (\<lambda>_. Fin 0) (Some True) 1 ''inference'' ''h'' 30 (demo_active ''t1'') = (Inr a, w') \<and>
     StreamTasks (demo_server None\<lparr>sv_rdb := True\<rparr>)
       (\<lambda>_. Some \<lparr>sp_TaskID = uuid_String demo_ext (a_TaskID a), sp_NodeID = uuid_String demo_ext (a_NodeID a),
          sp_TaskType = a_TaskType a, sp_RewardSats = a_RewardSats a, sp_TimeoutSecs = a_TimeoutSecs a\<rparr>)
       \<lparr>hb_NodeId = demo_nid, hb_Signature = [], hb_Timestamp = 0, hb_Metrics = None\<rparr>
       (\<lambda>ch. map (\<lambda>(_, p). Message p None) (filter (\<lambda>(c, _). c = ch) (drop (length (w_published (demo_active ''t1''))) (w_published w')))) =
     Inr (if demo_nid = uuid_String demo_ext (a_NodeID a)
       then [\<lparr>t_TaskId = uuid_String demo_ext 1, t_TaskType = ''inference'', t_EncryptedPayload = [], t_TimeoutSeconds = 30,
         t_RewardSats = a_RewardSats a, t_ModelVersion = [], t_CoordinatorSig = []\<rparr>]
       else [], None)"
proof -
  obtain a w' where s: "Schedule demo_ext (\<lambda>_. Fin 0) (Some True) 1 ''inference'' ''h'' 30 (demo_active ''t1'') = (Inr a, w')"
    using demo_Schedule [of "Some True"] by blast
  from stream_delivers_assignment [of "demo_server None\<lparr>sv_rdb := True\<rparr>", simplified, OF s,
      of "\<lambda>_. Some \<lparr>sp_TaskID = uuid_String demo_ext (a_TaskID a), sp_NodeID = uuid_String demo_ext (a_NodeID a),
          sp_TaskType = a_TaskType a, sp_RewardSats = a_RewardSats a, sp_TimeoutSecs = a_TimeoutSecs a\<rparr>"
        "\<lparr>hb_NodeId = demo_nid, hb_Signature = [], hb_Timestamp = 0, hb_Metrics = None\<rparr>"] s
  show ?thesis by auto
qed

text \<open>
  Read endpoints that cannot succeed. The statements of \<open>GetCurrentModel\<close>,
  \<open>ListModelVersions\<close> and \<open>GetStakeStatus\<close> name columns that the migrations do not create: for
  every content of the tables and every request the three handlers answer with an error.
\<close>

theorem read_endpoints_always_fail:
  "fst (GetCurrentModel stored gm w) = Inl (NotFound, ''no model versions found'') \<and>
   (\<exists>m. fst (ListModelVersions stored lm w) = Inl (Internal, m)) \<and>
   (\<exists>c m. fst (GetStakeStatus S gk w) = Inl (c, m) \<and> c \<in> {InvalidArgument, NotFound})"
proof -
  have m: "\<not> columns_exist model_query_columns model_versions_columns"
    by (simp add: columns_exist_def model_query_columns_def model_versions_columns_def)
  have "\<not> columns_exist [''channel_id'', ''capacity_sats'', ''local_balance_sats'', ''bonus_multiplier'', ''status'',
      ''last_verified_at''] node_stakes_columns"
    by (simp add: columns_exist_def node_stakes_columns_def)
  with m show ?thesis
    by (auto simp: GetCurrentModel_def ListModelVersions_def GetStakeStatus_def query_models_def db_call_def Let_def split: option.splits)
qed

text \<open>
  Deregistration does not look at the signature: whoever knows the identifier of a node can
  suspend it.
\<close>

lemma deregister_ignores_signature:
  assumes "healthy w" "uuid_Parse (sv_ext S) (dr_NodeId req) = Some (NodeID n)" "n \<in> set (w_nodes w)" "nodes_ok (w_nodes w)"
    and "is_ok (validateTimestamp (dr_Timestamp req) w)"
  shows "DeregisterNode S (req\<lparr>dr_Signature := sig\<rparr>) w = DeregisterNode S req w"
    "fst (DeregisterNode S req w) = Inr \<lparr>dn_Success = True, dn_Message = ''node deregistered''\<rparr>"
    "lookup NodeID (NodeID n) (w_nodes (snd (DeregisterNode S req w))) = Some (n\<lparr>Status := ''suspended''\<rparr>)"
proof -
  obtain u where t: "validateTimestamp (dr_Timestamp req) w = Inr u"
    using assms(5) by (cases "validateTimestamp (dr_Timestamp req) w") auto
  have l: "lookup NodeID (NodeID n) (w_nodes w) = Some n" using assms(3,4) by (auto simp: nodes_ok_def intro: lookup_in)
  have "Tier n \<noteq> []" using assms(3,4) by (auto simp: nodes_ok_def list_all_iff node_ok_def tiers_def)
  with t l assms(1,2) show "fst (DeregisterNode S req w) = Inr \<lparr>dn_Success = True, dn_Message = ''node deregistered''\<rparr>"
    "lookup NodeID (NodeID n) (w_nodes (snd (DeregisterNode S req w))) = Some (n\<lparr>Status := ''suspended''\<rparr>)"
    by (simp_all add: DeregisterNode_def UpdateStatus_def db_call_healthy Let_def node_statuses_def lookup_update)
  show "DeregisterNode S (req\<lparr>dr_Signature := sig\<rparr>) w = DeregisterNode S req w" by (simp add: DeregisterNode_def split: sum.splits)
qed

end
