(* ===== verification/Metrics.thy ===== *)
theory Metrics
  imports Rpc
begin

text \<open>
  \<open>internal/metrics/metrics.go\<close>: the declared metrics, and that every operation uses them as they
  are declared. A Prometheus vector panics when it is asked for a series with another number of
  label values than it was declared with, and so does the registration of two metrics of one
  name.
\<close>

section \<open>Declarations\<close>

datatype metric_kind = GaugeVec | CounterVec | Histogram | Counter

definition metric_families :: "(string \<times> metric_kind \<times> string list) list" where
  "metric_families =
     [(''owm_nodes_total'', GaugeVec, [''tier'', ''status'']),
      (''owm_tasks_total'', CounterVec, [''task_type'', ''status'']),
      (''owm_task_duration_seconds'', Histogram, []),
      (''owm_fl_rounds_total'', CounterVec, [''status'']),
      (''owm_payments_total'', CounterVec, [''status'']),
      (''owm_payment_sats_total'', Counter, []),
      (''owm_stake_verifications_total'', CounterVec, [''result'']),
      (''owm_slash_events_total'', CounterVec, [''tier'']),
      (''owm_observer_receipts_total'', CounterVec, [''status''])]"

text \<open>The registration at program start; \<open>None\<close> is its panic.\<close>

definition init_metrics :: "(string \<times> metric_kind \<times> string list) list option" where
  "init_metrics = (if distinct (map fst metric_families) then Some metric_families else None)"

text \<open>
  The series that \<open>WithLabelValues\<close> gives of a vector, and the number of observations of a
  histogram; for any other name or number of labels it panics.
\<close>

definition series_declared :: "string \<Rightarrow> string list \<Rightarrow> bool" where
  "series_declared m ls \<longleftrightarrow> list_ex (\<lambda>(n, k, labels).
     (if k = Histogram then n @ ''_count'' else n) = m \<and> length labels = length ls) metric_families"

definition counters_ok :: "world \<Rightarrow> bool" where
  "counters_ok w \<longleftrightarrow> (\<forall>m ls. w_counters w (m, ls) \<noteq> 0 \<longrightarrow> series_declared m ls)"

lemma metrics_register: "init_metrics = Some metric_families"
  by (simp add: init_metrics_def metric_families_def)

lemma series_simps [simp]:
  "series_declared ''owm_tasks_total'' [a, b]" "series_declared ''owm_task_duration_seconds_count'' []"
  "series_declared ''owm_fl_rounds_total'' [a]" "series_declared ''owm_payments_total'' [a]"
  "series_declared ''owm_stake_verifications_total'' [a]" "series_declared ''owm_slash_events_total'' [a]"
  "series_declared ''owm_observer_receipts_total'' [a]"
  by (simp_all add: series_declared_def metric_families_def)

section \<open>Every operation uses declared series\<close>

lemma counters_ok_inc [simp]: "counters_ok w \<Longrightarrow> series_declared m ls \<Longrightarrow> counters_ok (counter_inc m ls w)"
  by (auto simp: counters_ok_def counter_inc_def)

lemma counters_ok_cong: "w_counters w' = w_counters w \<Longrightarrow> counters_ok w' = counters_ok w"
  by (simp add: counters_ok_def)

lemma counters_ok_frame [simp]:
  "counters_ok (db_tick w) = counters_ok w" "counters_ok (w\<lparr>w_nodes := a\<rparr>) = counters_ok w" "counters_ok (w\<lparr>w_stakes := b\<rparr>) = counters_ok w"
  "counters_ok (w\<lparr>w_tasks := c\<rparr>) = counters_ok w" "counters_ok (w\<lparr>w_rounds := d\<rparr>) = counters_ok w"
  "counters_ok (w\<lparr>w_participants := e\<rparr>) = counters_ok w" "counters_ok (w\<lparr>w_slashings := f\<rparr>) = counters_ok w"
  "counters_ok (w\<lparr>w_signals := g\<rparr>) = counters_ok w" "counters_ok (w\<lparr>w_heartbeats := h\<rparr>) = counters_ok w"
  "counters_ok (w\<lparr>w_next_round := i\<rparr>) = counters_ok w" "counters_ok (w\<lparr>w_queue := q\<rparr>) = counters_ok w"
  "counters_ok (w\<lparr>w_sent := s\<rparr>) = counters_ok w" "counters_ok (w\<lparr>w_receipts := r\<rparr>) = counters_ok w"
  "counters_ok (w\<lparr>w_stamps := z\<rparr>) = counters_ok w" "counters_ok (w\<lparr>w_s3 := x\<rparr>) = counters_ok w"
  "counters_ok (w\<lparr>w_paid_sats := p\<rparr>) = counters_ok w" "counters_ok (nodes_gauge_add t u y w) = counters_ok w"
  "counters_ok (publish ch pl w) = counters_ok w" "counters_ok (w\<lparr>w_next_round := i, w_rounds := d\<rparr>) = counters_ok w"
  "counters_ok (w\<lparr>w_faults := fs\<rparr>) = counters_ok w" "counters_ok (w\<lparr>w_now := n\<rparr>) = counters_ok w"
  by (simp_all add: counters_ok_def)

subsection \<open>Nodes and stakes\<close>

lemma nodes_only_counters: "nodes_only w w' \<Longrightarrow> counters_ok w' = counters_ok w"
  by (rule counters_ok_cong) (simp add: nodes_only_iff)

lemma registry_counters [simp]:
  "counters_ok (snd (Register E fresh pk uri onion caps sig ts w)) = counters_ok w" "counters_ok (snd (Activate nid w)) = counters_ok w"
  "counters_ok (snd (UpdateStatus nid st w)) = counters_ok w" "counters_ok (snd (UpdateReliability E nid ok w)) = counters_ok w"
  by (rule nodes_only_counters, rule nodes_only_Register nodes_only_Activate nodes_only_UpdateStatus nodes_only_UpdateReliability)+

lemma RecordHeartbeat_counters [simp]: "counters_ok (snd (RecordHeartbeat nid w)) = counters_ok w"
  by (auto simp: RecordHeartbeat_def db_call_def split: world_splits)

lemma VerifyStake_counters [simp]: "counters_ok w \<Longrightarrow> counters_ok (snd (VerifyStake l pk t w))"
  using VerifyStake_frame [of l pk t w] by auto

lemma PersistStake_counters [simp]: "counters_ok (snd (PersistStake E nid res w)) = counters_ok w"
  by (auto simp: PersistStake_def db_call_def split: world_splits)

lemma markDegraded_counters [simp]: "counters_ok (snd (markDegraded nid w)) = counters_ok w"
  by (auto simp: markDegraded_def db_call_def split: world_splits)

lemma countersD: "x = (r, w') \<Longrightarrow> counters_ok (snd x) = counters_ok w \<Longrightarrow> counters_ok w \<Longrightarrow> counters_ok w'"
  by simp

lemma VerifyStake_countersD: "VerifyStake l pk t w = (r, w') \<Longrightarrow> counters_ok w \<Longrightarrow> counters_ok w'"
  using VerifyStake_counters [of w l pk t] by simp

lemmas counters_dests = countersD [OF _ registry_counters(1)] countersD [OF _ registry_counters(2)]
  countersD [OF _ registry_counters(3)] countersD [OF _ RecordHeartbeat_counters] VerifyStake_countersD

lemma reverify_row_counters [simp]: "counters_ok w \<Longrightarrow> counters_ok (reverify_row E lnc n w)"
  by (auto simp: reverify_row_def split: sum.splits prod.splits dest: counters_dests)

lemma VerifyAllActive_counters [simp]: "counters_ok w \<Longrightarrow> counters_ok (snd (VerifyAllActive E l w))"
proof -
  have "counters_ok v \<Longrightarrow> counters_ok (foldl (\<lambda>w n. reverify_row E lnc n w) v rows)" for lnc v rows
    by (induction rows arbitrary: v) simp_all
  then show "counters_ok w \<Longrightarrow> counters_ok (snd (VerifyAllActive E l w))"
    by (simp add: VerifyAllActive_def db_call_def split: option.split)
qed

lemma Slash_counters [simp]: "counters_ok w \<Longrightarrow> counters_ok (snd (Slash cfg l ev nid tier reason evid k w))"
  by (rule Slash_keeps [where P = counters_ok]) simp_all

lemma RecordMisbehaviorSignal_counters [simp]:
  "counters_ok w \<Longrightarrow> counters_ok (snd (RecordMisbehaviorSignal cfg l ev nid tier ty evid w))"
  by (simp add: RecordMisbehaviorSignal_def insert_signal_def db_call_def)

lemma RegisterNode_counters [simp]: "counters_ok w \<Longrightarrow> counters_ok (snd (RegisterNode S fresh req w))"
  by (auto simp: RegisterNode_def Let_def split: sum.splits prod.splits dest!: counters_dests)

lemma Heartbeat_counters [simp]: "counters_ok w \<Longrightarrow> counters_ok (snd (Heartbeat S req w))"
  by (auto simp: Heartbeat_def split: world_splits dest: counters_dests)

lemma DeregisterNode_counters [simp]: "counters_ok w \<Longrightarrow> counters_ok (snd (DeregisterNode S req w))"
  by (auto simp: DeregisterNode_def split: world_splits dest: counters_dests)

subsection \<open>Rounds\<close>

lemma flag_participant_counters [simp]: "counters_ok (flag_participant rid nid w) = counters_ok w"
  by (simp add: flag_participant_def db_call_def)

lemma filter_loop_counters: "filter_loop rid nm th rs w = (acc, w') \<Longrightarrow> counters_ok w' = counters_ok w"
  by (induction rs arbitrary: w acc w') (auto split: if_splits prod.splits)

lemma anomalyFilter_counters: "anomalyFilter M orc rid rs w = (acc, w') \<Longrightarrow> counters_ok w' = counters_ok w"
  by (auto simp: anomalyFilter_def Let_def split: if_splits dest: filter_loop_counters)

lemma node_weight_counters: "node_weight M nid w = (x, w') \<Longrightarrow> counters_ok w' = counters_ok w"
  by (auto simp: node_weight_def db_call_def split: world_splits)

lemma collect_gradients_counters: "collect_gradients M c rs w = (res, w') \<Longrightarrow> counters_ok w' = counters_ok w"
  by (induction rs arbitrary: w res w') (fastforce split: world_splits dest: node_weight_counters)+

lemma PutObject_counters: "PutObject ok k d w = (res, w') \<Longrightarrow> counters_ok w' = counters_ok w"
  by (auto simp: PutObject_def split: if_splits)

lemma fedAvg_counters: "fedAvg E M orc rn rs w = (res, w') \<Longrightarrow> counters_ok w' = counters_ok w"
  by (auto simp: fedAvg_def Let_def split: world_splits dest!: collect_gradients_counters PutObject_counters)

lemma completeRound_counters: "completeRound rn h w = (res, w') \<Longrightarrow> counters_ok w \<Longrightarrow> counters_ok w'"
  by (auto simp: completeRound_def db_call_def split: world_splits)

lemma failRound_counters [simp]: "counters_ok w \<Longrightarrow> counters_ok (snd (failRound rn w))"
  by (simp add: failRound_def db_call_def)

lemma aggregate_counters: "aggregate E M orc rid rn cnt w = (res, w') \<Longrightarrow> counters_ok w \<Longrightarrow> counters_ok w'"
  by (auto simp: aggregate_def fetchGradientHashes_def db_call_def split: world_splits
      dest!: anomalyFilter_counters fedAvg_counters dest: completeRound_counters)

lemma TryAggregate_counters: "TryAggregate E M orc rn w = (res, w') \<Longrightarrow> counters_ok w \<Longrightarrow> counters_ok w'"
  by (auto simp: TryAggregate_def cas_aggregating_def db_call_def split: world_splits dest: aggregate_counters)

lemma close_round_counters: "counters_ok (snd st) \<Longrightarrow> counters_ok (snd (close_round E M orc st rn))"
proof -
  assume ok: "counters_ok (snd st)"
  obtain r w1 where t: "TryAggregate E M orc rn (snd st) = (r, w1)" by fastforce
  show ?thesis using TryAggregate_counters [OF t ok] t by (auto simp: close_round_def split: prod.splits sum.splits option.splits)
qed

lemma CloseExpired_counters [simp]: "counters_ok w \<Longrightarrow> counters_ok (snd (CloseExpired E M orc w))"
proof -
  have loop: "counters_ok (snd (foldl (close_round E M orc) st rns))" if "counters_ok (snd st)" for st rns
    using that by (induction rns arbitrary: st) (simp_all add: close_round_counters)
  show "counters_ok w \<Longrightarrow> counters_ok (snd (CloseExpired E M orc w))"
    using loop [of "(0, db_tick w)"] CloseExpired_world [of E M orc w] by auto
qed

lemma OpenRound_counters [simp]: "counters_ok w \<Longrightarrow> counters_ok (snd (OpenRound v w))"
  by (simp add: OpenRound_def db_call_def)

lemma SubmitGradient_counters [simp]: "counters_ok w \<Longrightarrow> counters_ok (snd (SubmitGradient sub w))"
  by (auto simp: SubmitGradient_def upsert_participant_def db_call_def split: world_splits)

lemma stampOTS_counters [simp]: "counters_ok w \<Longrightarrow> counters_ok (stampOTS M post order orc h rn w)"
  by (auto simp: stampOTS_def db_call_def PutObject_def Let_def split: world_splits list.splits)

subsection \<open>Tasks and payments\<close>

lemma process_counters [simp]: "counters_ok w \<Longrightarrow> counters_ok (process lnc obs d job w)"
proof -
  obtain out w1 where l: "attempt_loop lnc d (payment_request job) [0, 1, 2, 3] w = (out, w1)" by fastforce
  obtain k where "w1 = w\<lparr>w_sent := w_sent w @ replicate k (payment_request job)\<rparr>" using attempt_four [OF l] .
  then show "counters_ok w \<Longrightarrow> counters_ok (process lnc obs d job w)"
    unfolding process_def l by (cases out) (simp_all add: db_call_def Let_def)
qed

lemma payments_counters [simp]: "counters_ok w \<Longrightarrow> counters_ok (worker lnc obs d w)" "counters_ok w \<Longrightarrow> counters_ok (Start w)"
  "counters_ok w \<Longrightarrow> counters_ok (snd (RequeueTimedOut w))" "counters_ok w \<Longrightarrow> counters_ok (snd (enqueue_payment disp tid w))"
  by (auto simp: worker_def Start_def RequeueTimedOut_def enqueue_payment_def Enqueue_def db_call_def split: list.split world_splits)

lemma tasks_counters [simp]: "counters_ok w \<Longrightarrow> counters_ok (snd (MarkComplete tid oh w))"
  "counters_ok w \<Longrightarrow> counters_ok (snd (MarkFailed E tid nid w))"
  by (simp_all add: MarkComplete_def MarkFailed_def task_type_of_def db_call_def split: option.split)

lemma submitObserverReceipt_counters [simp]: "counters_ok w \<Longrightarrow> counters_ok (submitObserverReceipt E f job p w)"
  by (simp add: submitObserverReceipt_def db_call_def split: option.split sum.split prod.split)

lemma computeReward_counters: "computeReward nd tt w = (k, w') \<Longrightarrow> counters_ok w' = counters_ok w"
  using computeReward_world [of nd tt w k w'] by auto

lemma ListActive_counters: "ListActive w = (r, w') \<Longrightarrow> counters_ok w' = counters_ok w"
  by (auto simp: ListActive_def db_call_def split: if_splits)

lemma persistAssignment_counters: "persistAssignment E redis a ih w = (r, w') \<Longrightarrow> counters_ok w \<Longrightarrow> counters_ok w'"
  by (auto simp: persistAssignment_def insert_task_def db_call_def Let_def split: if_splits)

lemma Schedule_counters [simp]: "counters_ok w \<Longrightarrow> counters_ok (snd (Schedule E rng redis fresh tt ih tmo w))"
  by (auto simp: Schedule_def schedule_over_def Let_def split: sum.splits option.splits prod.splits
      dest!: ListActive_counters computeReward_counters dest: persistAssignment_counters)

lemma accept_result_counters: "counters_ok w \<Longrightarrow> counters_ok (snd (accept_result S req tid nid w))"
proof -
  assume ok: "counters_ok w"
  obtain r w1 where m: "MarkComplete tid (hex_EncodeToString (tr_OutputHash req)) w = (r, w1)" by fastforce
  have ok1: "counters_ok w1" using tasks_counters(1) [OF ok, of tid "hex_EncodeToString (tr_OutputHash req)"] by (simp add: m)
  show ?thesis
  proof (cases r)
    case (Inl e)
    with m ok1 show ?thesis by (simp add: accept_result_def)
  next
    case (Inr u)
    then have "snd (accept_result S req tid nid w) = counter_inc ''owm_task_duration_seconds_count'' []
        (snd (enqueue_payment (sv_disp S) tid (snd (UpdateReliability (sv_ext S) nid True w1))))"
      using m by (auto simp: accept_result_def Let_def split: prod.split)
    then show ?thesis using ok1 by simp
  qed
qed

lemma SubmitTaskResult_counters [simp]: "counters_ok w \<Longrightarrow> counters_ok (snd (SubmitTaskResult S req w))"
  by (auto simp: SubmitTaskResult_def db_call_def accept_result_counters split: option.split sum.split)

end
