(* ===== verification/Pool_Http.thy ===== *)
theory Pool_Http
  imports Registry Go_Json
begin

text \<open>
  \<open>internal/http/pool_api.go\<close>: the HTTP endpoint from which the pool reads the status of a node,
  with the bytes of its JSON answers.
\<close>

section \<open>Definitions\<close>

record nodeStatusRow =
  ns_NodeID :: string
  ns_Tier :: string
  ns_Status :: string

record http_response =
  hr_status :: nat
  hr_content_type :: string
  hr_body :: bytes

text \<open>\<open>json.NewEncoder(w).Encode\<close> ends its output with a newline.\<close>

definition json_line :: "string \<Rightarrow> bytes" where
  "json_line s = s @ [CHR 0x0A]"

definition nodeStatusResponse :: "nodeStatusRow \<Rightarrow> string" where
  "nodeStatusResponse r = CHR ''{'' # json_members [(''node_id'', ns_NodeID r), (''tier'', ns_Tier r), (''status'', ns_Status r)] @
     CHR '','' # jsonString ''coordinator_verified'' @ '':true}''"

definition http_json :: "nat \<Rightarrow> string \<Rightarrow> http_response" where
  "http_json code body = \<lparr>hr_status = code, hr_content_type = ''application/json'', hr_body = json_line body\<rparr>"

definition handleGetNodeStatus :: "ext \<Rightarrow> string \<Rightarrow> world \<Rightarrow> http_response \<times> world" where
  "handleGetNodeStatus E pubkey w =
     (case db_query_row (\<lambda>w. map_option (\<lambda>n. \<lparr>ns_NodeID = uuid_String E (NodeID n), ns_Tier = Tier n, ns_Status = Status n\<rparr>)
          (lookup PublicKey pubkey (w_nodes w))) w of
       (Inl e, w) \<Rightarrow>
         if e = NoRows then (http_json 404 (json_object [(''error'', ''node not found'')]), w)
         else (http_json 500 (json_object [(''error'', ''internal error'')]), w)
     | (Inr row, w) \<Rightarrow> (http_json 200 (nodeStatusResponse row), w))"

section \<open>Lemmas\<close>

text \<open>An answer determines the row that it reports.\<close>

lemma nodeStatusResponse_inj:
  assumes "\<And>s. s \<in> {ns_NodeID r, ns_Tier r, ns_Status r, ns_NodeID q, ns_Tier q, ns_Status q} \<Longrightarrow> ascii s"
    and "nodeStatusResponse r = nodeStatusResponse q"
  shows "r = q"
proof -
  let ?m = "\<lambda>r. [(''node_id'', ns_NodeID r), (''tier'', ns_Tier r), (''status'', ns_Status r)]"
  let ?t = "CHR '','' # jsonString ''coordinator_verified'' @ '':true}''"
  have "json_members (?m r) @ ?t = json_members (?m q) @ ?t" using assms(2) by (simp add: nodeStatusResponse_def)
  then have "?m r = ?m q \<and> ?t = ?t" by (rule json_members_inj [rotated 2]) (use assms(1) in auto)
  then show ?thesis by (cases r; cases q) simp
qed

lemma node_ok_ascii: "node_ok n \<Longrightarrow> ascii (Tier n) \<and> ascii (Status n)"
  by (auto simp: node_ok_def tiers_def node_statuses_def ascii_def)

section \<open>Properties\<close>

text \<open>
  The endpoint changes nothing in the database. While the
  database answers, the status code is 200 exactly when the key is registered, and 404
  otherwise; and an answer with code 200 reports the registered row: the answers for two keys
  have the same body only when identifier, tier and status of their rows agree.
\<close>

theorem pool_status_faithful:
  assumes "\<not> db_down w" "nodes_ok (w_nodes w)" "\<forall>u. ascii (uuid_String E u)"
    and "handleGetNodeStatus E pk w = (resp, w')" "handleGetNodeStatus E pk' w = (resp', w'')"
  shows "w' = db_tick w \<and> hr_status resp = (if lookup PublicKey pk (w_nodes w) = None then 404 else 200) \<and>
    (\<forall>n m. lookup PublicKey pk (w_nodes w) = Some n \<longrightarrow> lookup PublicKey pk' (w_nodes w) = Some m \<longrightarrow>
       hr_body resp = hr_body resp' \<longrightarrow> uuid_String E (NodeID n) = uuid_String E (NodeID m) \<and> Tier n = Tier m \<and> Status n = Status m)"
proof (intro conjI allI impI)
  let ?row = "\<lambda>n. \<lparr>ns_NodeID = uuid_String E (NodeID n), ns_Tier = Tier n, ns_Status = Status n\<rparr>"
  show "w' = db_tick w" "hr_status resp = (if lookup PublicKey pk (w_nodes w) = None then 404 else 200)"
    using assms(1,4) by (auto simp: handleGetNodeStatus_def db_call_def http_json_def split: option.splits)
  fix n m
  assume l: "lookup PublicKey pk (w_nodes w) = Some n" "lookup PublicKey pk' (w_nodes w) = Some m" "hr_body resp = hr_body resp'"
  then have b: "nodeStatusResponse (?row n) = nodeStatusResponse (?row m)"
    using assms(1,4,5) by (auto simp: handleGetNodeStatus_def db_call_def http_json_def json_line_def)
  have "node_ok n" "node_ok m" using l(1,2) assms(2) by (auto simp: nodes_ok_def list_all_iff dest: lookup_Some)
  then have "?row n = ?row m"
    using node_ok_ascii assms(3) by (intro nodeStatusResponse_inj [OF _ b]) auto
  then show "uuid_String E (NodeID n) = uuid_String E (NodeID m)" "Tier n = Tier m" "Status n = Status m" by simp_all
qed

lemma demo_uuid_String_ascii: "ascii (uuid_String demo_ext u)"
proof -
  have "c = CHR ''0'' \<or> is_digit c" if "c \<in> set (demo_uuid_String u)" for c
    using that dec_nat_digits [of c u] by (auto simp: demo_uuid_String_def Let_def split: if_splits)
  then have "of_char c \<le> (57::nat)" if "c \<in> set (demo_uuid_String u)" for c
    using that by (fastforce simp: is_digit_def)
  then show ?thesis by (force simp: ascii_def demo_ext_def list_all_iff)
qed

theorem pool_status_faithful_witness:
  "\<exists>resp w'. handleGetNodeStatus demo_ext demo_pk ((empty_world demo_now)\<lparr>w_nodes := [demo_node ''t1'']\<rparr>) = (resp, w') \<and>
     hr_status resp = 200"
proof -
  let ?w = "(empty_world demo_now)\<lparr>w_nodes := [demo_node ''t1'']\<rparr>"
  have h: "\<not> db_down ?w" "nodes_ok (w_nodes ?w)"
    by (simp_all add: db_down_def empty_world_def nodes_ok_def keyed_def node_ok_def tiers_def node_statuses_def unit_flt_def)
  have u: "\<forall>u. ascii (uuid_String demo_ext u)" using demo_uuid_String_ascii by blast
  obtain resp w' where s: "handleGetNodeStatus demo_ext demo_pk ?w = (resp, w')" by fastforce
  have "lookup PublicKey demo_pk (w_nodes ?w) \<noteq> None" by (simp add: lookup_def sql_row_def)
  with pool_status_faithful [OF h u s s] s show ?thesis by auto
qed

end
