(* ===== verification/Startup.thy ===== *)
theory Startup
  imports Rpc Config
begin

text \<open>
  \<open>cmd/coordinator/main.go\<close>: how the coordinator is put together from its configuration, in the
  order of \<open>run\<close> and with each of its errors, up to the point where the listeners, the workers
  and the tickers run. The operating system, the drivers and the network are the parameters of
  \<open>os_env\<close>; of logging the logger is modelled and what is logged is left out. Serving and shutting
  down are in \<open>Lifecycle\<close>.
\<close>

section \<open>The environment\<close>

datatype migrate_outcome = Applied | NoChange | MigrateFailed go_error

record os_env =
  os_config_file :: string
  os_args :: "string list"
  os_ReadFile :: "string \<Rightarrow> bytes result"
  os_level :: "string \<Rightarrow> int option"
  os_viper :: "string \<Rightarrow> Config \<Rightarrow> Config result"
  os_pgx_New :: "string \<Rightarrow> unit result"
  os_pgx_Ping :: "unit result"
  os_migrate_New :: "string \<Rightarrow> string \<Rightarrow> unit result"
  os_migrate_Up :: migrate_outcome
  os_lnd_dial :: "string \<Rightarrow> bool \<Rightarrow> string \<Rightarrow> Client result"
  os_lnd_tls :: "string \<Rightarrow> unit result"
  os_cln :: "string \<Rightarrow> string \<Rightarrow> Client"
  os_key_from_seed :: "bytes \<Rightarrow> bytes"
  os_pem_Decode :: "bytes \<Rightarrow> bytes option"
  os_ParsePKCS8 :: "bytes \<Rightarrow> bytes option result"
  os_AppendCerts :: "bytes \<Rightarrow> bool"
  os_LoadKeyPair :: "string \<Rightarrow> string \<Rightarrow> unit result"
  os_ServerTLS :: "string \<Rightarrow> string \<Rightarrow> unit result"
  os_Listen :: "string \<Rightarrow> unit result"

text \<open>What the transport of the gRPC server demands of a client.\<close>

datatype tls_mode = MutualTLS | ServerTLS | Plaintext

record coordinator =
  co_cfg :: Config
  co_lnReadonly :: Client
  co_lnPayment :: Client
  co_lnSlash :: Client
  co_slash :: SlashConfig
  co_rdb :: bool
  co_s3 :: "S3Client option"
  co_fl :: Orchestrator
  co_obs :: "observer_Client option"
  co_tls :: tls_mode
  co_grpc_addr :: string
  co_http_addr :: string
  co_tor_addr :: "string option"

section \<open>The parts of \<open>run\<close>\<close>

text \<open>The arguments: the flag, and otherwise the last one names the file.\<close>

definition parse_args :: "string \<Rightarrow> string list \<Rightarrow> string \<times> bool" where
  "parse_args envFile args =
     foldl (\<lambda>(cfgFile, migrateOnly) a. if a = ''--migrate-only'' then (cfgFile, True) else (a, migrateOnly)) (envFile, False) args"

definition migrationsPath :: "Config \<Rightarrow> string" where
  "migrationsPath cfg = (if MigrationsDir (Database cfg) = [] then ''migrations'' else MigrationsDir (Database cfg))"

text \<open>\<open>bind\<close> of results: the next statement after an error check whose message has the given prefix.\<close>

definition check :: "string \<Rightarrow> 'a result \<Rightarrow> ('a \<Rightarrow> 'b result) \<Rightarrow> 'b result" where
  "check msg r k = (case r of Inl e \<Rightarrow> Inl (Wrap msg e) | Inr x \<Rightarrow> k x)"

text \<open>
  \<open>os_level\<close> is the parser of the levels of zap. A level that does not parse is \<open>InfoLevel\<close>, which
  is 0; no input makes an error.
\<close>

datatype encoder = Console_encoder | JSON_encoder

definition buildLogger :: "(string \<Rightarrow> int option) \<Rightarrow> string \<Rightarrow> string \<Rightarrow> (encoder \<times> int) result" where
  "buildLogger parse level fmt =
     (let lvl = (case parse level of None \<Rightarrow> 0 | Some l \<Rightarrow> l);
          enc = (if fmt = ''console'' then Console_encoder else JSON_encoder)
      in Inr (enc, lvl))"

definition newLND :: "os_env \<Rightarrow> Config \<Rightarrow> bytes \<Rightarrow> Client result" where
  "newLND V cfg mac = NewLNDClient (os_lnd_dial V) (os_lnd_tls V) (LNDHost (Lightning cfg)) (TLSCertPath (Lightning cfg)) mac hexEncodeMacaroon"

definition lightning_clients :: "os_env \<Rightarrow> Config \<Rightarrow> (Client \<times> Client \<times> Client) result" where
  "lightning_clients V cfg =
     (if DevMode cfg then let m = mock_Client mock_New in Inr (m, m, m)
      else if Backend (Lightning cfg) = ''cln'' then
        let c = os_cln V (cln_baseURL (BaseURL (CLN (Lightning cfg)))) (APIKey (CLN (Lightning cfg))) in Inr (c, c, c)
      else
        check ''reading readonly macaroon'' (os_ReadFile V (ReadonlyMacaroonPath (Lightning cfg))) (\<lambda>readonlyMac.
        check ''reading payment macaroon'' (os_ReadFile V (PaymentMacaroonPath (Lightning cfg))) (\<lambda>paymentMac.
        check ''reading slashing macaroon'' (os_ReadFile V (SlashingMacaroonPath (Lightning cfg))) (\<lambda>slashingMac.
        check ''LND readonly client'' (newLND V cfg readonlyMac) (\<lambda>lndReadonly.
        check ''LND payment client'' (newLND V cfg paymentMac) (\<lambda>lndPayment.
        check ''LND slashing client'' (newLND V cfg slashingMac) (\<lambda>lndSlash. Inr (lndReadonly, lndPayment, lndSlash))))))))"

definition slash_config :: SlashConfig where
  "slash_config = \<lparr>T1AutoSlashSignals = 3, T2T3MaintainerAcks = 2, CooldownDuration = 30 * 24 * Hour\<rparr>"

definition s3_client :: "Config \<Rightarrow> S3Client option result" where
  "s3_client cfg = (if Bucket (S3 cfg) = [] then Inr None else check ''S3 client'' (NewS3Client (S3 cfg)) (\<lambda>c. Inr (Some c)))"

definition fl_orchestrator :: "Config \<Rightarrow> S3Client option \<Rightarrow> Orchestrator" where
  "fl_orchestrator cfg s3 = NewWithConfig (s3 \<noteq> None) (Some \<lparr>GradientL2ClipNorm = fc_GradientL2ClipNorm (FL cfg),
     AnomalyStdDevThreshold = fc_AnomalyStdDevThreshold (FL cfg), OTSCalendars = []\<rparr>)"

definition observer_client :: "os_env \<Rightarrow> ext \<Rightarrow> Config \<Rightarrow> Client \<Rightarrow> observer_Client option result" where
  "observer_client V E cfg lnReadonly =
     (if \<not> obs_Enabled (Observer_cfg cfg) then Inr None
      else check ''observer signing key'' (os_ReadFile V (SigningKeyPath (Observer_cfg cfg))) (\<lambda>keyData.
        check ''observer client'' (observer_NewClient (os_key_from_seed V) (os_pem_Decode V) (os_ParsePKCS8 V)
            \<lparr>APIEndpoint = oc_APIEndpoint (Observer_cfg cfg), SigningKeyPEMOrHex = keyData\<rparr>) (\<lambda>obsClient.
        check ''observer: get treasury pubkey (GetInfo)'' (GetInfo lnReadonly) (\<lambda>info.
          let senderPubkeyHash = PubkeyHashHex E (PubkeyHex info) in
          if senderPubkeyHash = []
          then Inl (Err (''observer: treasury pubkey from GetInfo produced empty hash (pubkey_hex length='' @
                 dec (int (length (PubkeyHex info))) @ ''); cannot set sender_public_key_hash for receipt submission''))
          else Inr (Some (SetSenderPubkeyHash senderPubkeyHash obsClient))))))"

definition grpc_credentials :: "os_env \<Rightarrow> Config \<Rightarrow> tls_mode result" where
  "grpc_credentials V cfg =
     (let cert = TLSCertFile (Server cfg); key = TLSKeyFile (Server cfg) in
      if cert \<noteq> [] \<and> key \<noteq> [] \<and> \<not> DevMode cfg then
        check ''reading CA cert'' (os_ReadFile V (CACertFile (Server cfg))) (\<lambda>caPEM.
          if \<not> os_AppendCerts V caPEM then Inl (Err ''parsing CA cert failed'')
          else check ''loading server TLS'' (os_LoadKeyPair V cert key) (\<lambda>_. Inr MutualTLS))
      else if cert \<noteq> [] \<and> key \<noteq> [] \<and> DevMode cfg then
        check ''loading TLS credentials'' (os_ServerTLS V cert key) (\<lambda>_. Inr ServerTLS)
      else Inr Plaintext)"

definition or_default :: "string \<Rightarrow> string \<Rightarrow> string" where
  "or_default s d = (if s = [] then d else s)"

definition tor_listener :: "os_env \<Rightarrow> Config \<Rightarrow> string option result" where
  "tor_listener V cfg =
     (if \<not> tor_Enabled (Tor cfg) then Inr None
      else let torAddr = or_default (LocalBindAddr (Tor cfg)) ''127.0.0.1:9002'' in
        check (''listening on Tor local bind addr '' @ torAddr) (os_Listen V torAddr) (\<lambda>_. Inr (Some torAddr)))"

text \<open>The addresses of the gRPC server, of the HTTP server, which listens on its own, and of the listener for Tor.\<close>

definition listeners :: "os_env \<Rightarrow> Config \<Rightarrow> (string \<times> string \<times> string option) result" where
  "listeners V cfg =
     (let addr = or_default (GRPCAddr (Server cfg)) '':9000''; httpAddr = or_default (HTTPAddr (Server cfg)) '':9001'' in
      check (''listening on '' @ addr) (os_Listen V addr) (\<lambda>_.
        (case tor_listener V cfg of Inl e \<Rightarrow> Inl e | Inr tor \<Rightarrow> Inr (addr, httpAddr, tor))))"

text \<open>\<open>readOnionHostname\<close>; \<open>join\<close> is \<open>filepath.Join\<close> on two elements.\<close>

definition readOnionHostname :: "(string \<Rightarrow> string \<Rightarrow> string) \<Rightarrow> os_env \<Rightarrow> string \<Rightarrow> string" where
  "readOnionHostname join V dir = (case os_ReadFile V (join dir ''hostname'') of Inl _ \<Rightarrow> [] | Inr data \<Rightarrow> TrimSpace data)"

section \<open>Starting\<close>

text \<open>\<open>None\<close> is the end after the migrations when only they were asked for.\<close>

definition run_setup :: "os_env \<Rightarrow> ext \<Rightarrow> coordinator option result" where
  "run_setup V E =
     (let (cfgFile, migrateOnly) = parse_args (os_config_file V) (os_args V) in
      check ''loading config'' (Load (os_viper V) cfgFile) (\<lambda>cfg.
      check ''building logger'' (buildLogger (os_level V) (Level (Log cfg)) (LogFormat (Log cfg))) (\<lambda>log.
      check ''connecting to database'' (os_pgx_New V (DSN (Database cfg))) (\<lambda>_.
      check ''database ping'' (os_pgx_Ping V) (\<lambda>_.
      check ''migrate'' (os_migrate_New V (''file://'' @ migrationsPath cfg) (DSN (Database cfg))) (\<lambda>_.
      check ''migrate up'' (case os_migrate_Up V of MigrateFailed e \<Rightarrow> Inl e | _ \<Rightarrow> Inr ()) (\<lambda>_.
        if migrateOnly then Inr None
        else (case lightning_clients V cfg of
          Inl e \<Rightarrow> Inl e
        | Inr (lnReadonly, lnPayment, lnSlash) \<Rightarrow>
          (case s3_client cfg of
            Inl e \<Rightarrow> Inl e
          | Inr s3 \<Rightarrow>
            (case observer_client V E cfg lnReadonly of
              Inl e \<Rightarrow> Inl e
            | Inr obs \<Rightarrow>
              (case grpc_credentials V cfg of
                Inl e \<Rightarrow> Inl e
              | Inr tls \<Rightarrow>
                (case listeners V cfg of
                  Inl e \<Rightarrow> Inl e
                | Inr (addr, httpAddr, tor) \<Rightarrow>
                    Inr (Some \<lparr>co_cfg = cfg, co_lnReadonly = lnReadonly, co_lnPayment = lnPayment, co_lnSlash = lnSlash,
                      co_slash = slash_config, co_rdb = (Addr (Redis cfg) \<noteq> []), co_s3 = s3, co_fl = fl_orchestrator cfg s3,
                      co_obs = obs, co_tls = tls, co_grpc_addr = addr, co_http_addr = httpAddr,
                      co_tor_addr = tor\<rparr>)))))))))))))"

text \<open>Then the dispatcher recovers the pending payments.\<close>

definition run :: "os_env \<Rightarrow> ext \<Rightarrow> world \<Rightarrow> coordinator option result \<times> world" where
  "run V E w = (case run_setup V E of
     Inl e \<Rightarrow> (Inl e, w) | Inr None \<Rightarrow> (Inr None, w) | Inr (Some co) \<Rightarrow> (Inr (Some co), Start w))"

text \<open>
  \<open>main\<close>: what \<open>run\<close> returns in the end becomes the status of the process, and an error also a
  line on standard error.
\<close>

definition exit_status :: "unit result \<Rightarrow> int" where
  "exit_status r = (case r of Inl _ \<Rightarrow> 1 | Inr _ \<Rightarrow> 0)"

text \<open>
  The routes of the HTTP server, on the segments of a clean path: the first pattern is for any
  method, the second for GET, which covers HEAD, and its wildcard is one segment.
\<close>

datatype http_route = Metrics_handler | NodeStatus_handler string | Method_not_allowed | Not_found

definition mux_route :: "string \<Rightarrow> string list \<Rightarrow> http_route" where
  "mux_route method path =
     (if path = [''metrics''] then Metrics_handler
      else if length path = 5 \<and> take 3 path = [''internal'', ''pool'', ''nodes''] \<and> path ! 4 = ''status'' \<and> path ! 3 \<noteq> []
      then (if method = ''GET'' \<or> method = ''HEAD'' then NodeStatus_handler (path ! 3) else Method_not_allowed)
      else Not_found)"

text \<open>
  The tickers with their intervals, and the loop of one of them: the events of its \<open>select\<close>
  are a tick and the end of the context.
\<close>

definition tickers :: "(string \<times> int) list" where
  "tickers = [(''requeue-timed-out'', 60 * Second), (''stake-reverify'', 6 * Hour), (''fl-expire-rounds'', 5 * Minute)]"

datatype ticker_event = Tick | Done

fun runTicker :: "(world \<Rightarrow> world) \<Rightarrow> ticker_event list \<Rightarrow> world \<Rightarrow> bool \<times> world" where
  "runTicker fn [] w = (False, w)"
| "runTicker fn (Done # evs) w = (True, w)"
| "runTicker fn (Tick # evs) w = runTicker fn evs (fn w)"

text \<open>The parts that \<open>run\<close> constructs from the clients, and the gRPC server from them.\<close>

definition verifier :: "coordinator \<Rightarrow> Verifier" where
  "verifier co = verifier_New (Some (co_lnReadonly co)) (Some (co_lnSlash co)) (co_slash co)"

definition scheduler :: "coordinator \<Rightarrow> Scheduler" where
  "scheduler co = scheduler_New (co_rdb co)"

definition dispatcher :: "coordinator \<Rightarrow> Dispatcher" where
  "dispatcher co = dispatcher_New (Some (co_lnPayment co)) (co_rdb co) (co_obs co)"

definition rpc_server :: "ext \<Rightarrow> coordinator \<Rightarrow> Server_rpc" where
  "rpc_server E co = server_New E (verifier co) (Some (dispatcher co)) (co_rdb co)"

lemmas parts_defs = verifier_def verifier_New_def scheduler_def scheduler_New_def dispatcher_def dispatcher_New_def server_New_def

lemma rpc_server_fields [simp]:
  "sv_ext (rpc_server E co) = E" "sv_lnReadonly (rpc_server E co) = Some (co_lnReadonly co)" "sv_rdb (rpc_server E co) = co_rdb co"
  "sv_disp (rpc_server E co)"
  by (simp_all add: rpc_server_def parts_defs)

lemma sends_receipts_iff [simp]: "sends_receipts (dispatcher co) \<longleftrightarrow> co_obs co \<noteq> None"
  by (simp add: sends_receipts_def parts_defs)

section \<open>Lemmas\<close>

lemma check_Inr: "check msg r k = Inr y \<longleftrightarrow> (\<exists>x. r = Inr x \<and> k x = Inr y)"
  by (auto simp: check_def split: sum.splits)

lemma parse_args_snd: "snd (parse_args f args) \<longleftrightarrow> ''--migrate-only'' \<in> set args"
proof -
  have "snd (foldl (\<lambda>(cfgFile, migrateOnly) a. if a = ''--migrate-only'' then (cfgFile, True) else (a, migrateOnly)) (f, b) args) \<longleftrightarrow>
      b \<or> ''--migrate-only'' \<in> set args" for b
    by (induction args arbitrary: f b) auto
  then show ?thesis by (simp add: parse_args_def)
qed

lemma hexEncodeMacaroon_Nil [simp]: "hexEncodeMacaroon [] = []"
  by (simp add: hexEncodeMacaroon_eq hex_EncodeToString_def)

text \<open>An LND client with a certificate sends its macaroon over TLS only.\<close>

lemma newLND_ok:
  assumes "newLND V cfg mac = Inr c" "TLSCertPath (Lightning cfg) \<noteq> []"
  shows "os_lnd_dial V (LNDHost (Lightning cfg)) True (hexEncodeMacaroon mac) = Inr c"
  using assms by (auto simp: newLND_def NewLNDClient_def split: if_splits sum.splits)

text \<open>An LND client over TLS, with the macaroon of one file.\<close>

definition lnd_client :: "os_env \<Rightarrow> Config \<Rightarrow> string \<Rightarrow> Client \<Rightarrow> bool" where
  "lnd_client V cfg macPath c \<longleftrightarrow>
     (\<exists>mac. os_ReadFile V macPath = Inr mac \<and> os_lnd_dial V (LNDHost (Lightning cfg)) True (hexEncodeMacaroon mac) = Inr c)"

text \<open>The clients of the three roles differ with LND only.\<close>

lemma lightning_clients_ok:
  assumes "lightning_clients V cfg = Inr (ro, pay, sl)" "DevMode cfg \<or> Backend (Lightning cfg) = ''cln'' \<or> TLSCertPath (Lightning cfg) \<noteq> []"
  shows "if DevMode cfg then ro = mock_Client mock_New \<and> pay = ro \<and> sl = ro
    else if Backend (Lightning cfg) = ''cln''
    then ro = os_cln V (cln_baseURL (BaseURL (CLN (Lightning cfg)))) (APIKey (CLN (Lightning cfg))) \<and> pay = ro \<and> sl = ro
    else lnd_client V cfg (ReadonlyMacaroonPath (Lightning cfg)) ro \<and> lnd_client V cfg (PaymentMacaroonPath (Lightning cfg)) pay \<and>
      lnd_client V cfg (SlashingMacaroonPath (Lightning cfg)) sl"
  using assms newLND_ok [of V cfg]
  by (auto simp: lightning_clients_def lnd_client_def check_Inr Let_def split: if_splits)

lemma TrimSpace_hex: "TrimSpace (hex_EncodeToString bs) = hex_EncodeToString bs"
  using TrimSpace_id [of "hex_EncodeToString bs"] hex_EncodeToString_chars [of _ bs] hex_char_not_space
  by (metis hd_in_set last_in_set)

lemma observer_client_ok:
  assumes "observer_client V E cfg lnc = Inr ob"
  shows "(ob = None \<longleftrightarrow> \<not> obs_Enabled (Observer_cfg cfg)) \<and>
    (\<forall>c. ob = Some c \<longrightarrow> length (signingKey c) = 64 \<and> senderPubkeyHash c \<noteq> [] \<and>
       (\<exists>info. GetInfo lnc = Inr info \<and> senderPubkeyHash c = PubkeyHashHex E (PubkeyHex info)))"
proof -
  have "TrimSpace (PubkeyHashHex E p) = PubkeyHashHex E p" for p
    using TrimSpace_hex TrimSpace_id [of "[]"] by (auto simp: PubkeyHashHex_def split: option.splits)
  then show ?thesis
    using assms
    by (auto simp: observer_client_def check_Inr Let_def observer_NewClient_def SetSenderPubkeyHash_def split: if_splits sum.splits)
qed

lemma grpc_credentials_ok:
  assumes "grpc_credentials V cfg = Inr t"
  shows "t = (if TLSCertFile (Server cfg) = [] \<or> TLSKeyFile (Server cfg) = [] then Plaintext else if DevMode cfg then ServerTLS else MutualTLS)"
  using assms by (auto simp: grpc_credentials_def check_Inr Let_def split: if_splits)

lemma run_setup_ok:
  assumes "run_setup V E = Inr (Some co)"
  obtains fname where "parse_args (os_config_file V) (os_args V) = (fname, False)"
    "Load (os_viper V) fname = Inr (co_cfg co)"
    "lightning_clients V (co_cfg co) = Inr (co_lnReadonly co, co_lnPayment co, co_lnSlash co)"
    "s3_client (co_cfg co) = Inr (co_s3 co)" "observer_client V E (co_cfg co) (co_lnReadonly co) = Inr (co_obs co)"
    "grpc_credentials V (co_cfg co) = Inr (co_tls co)" "co_fl co = fl_orchestrator (co_cfg co) (co_s3 co)" "co_slash co = slash_config"
    "os_migrate_Up V \<in> {Applied, NoChange}" "co_rdb co \<longleftrightarrow> Addr (Redis (co_cfg co)) \<noteq> []"
  using assms
  by (auto simp: run_setup_def listeners_def check_Inr Let_def split: prod.splits if_splits sum.splits migrate_outcome.splits)

section \<open>Properties\<close>

text \<open>
  C38 (a coordinator that starts is wired as configured). When start-up reaches the running
  state, the configuration was loaded and validated and the database was migrated; with
  LND the read-only, the payment and the slashing client each send, over TLS, the macaroon of the file
  configured for it; with CLN the three roles have one and the same client with the one API key, and in
  development mode one and the same mock, so that only LND separates their credentials; an observer client
  exists exactly when it is enabled and then has a full signing key and the hash of the
  treasury's key; clients must present certificates exactly when a server certificate and key
  are set outside of development mode, and without either of the two the transport is plain;
  aggregation needs three participants and slashing three signals, whatever the configuration
  says; and the pending payments have been recovered into the queue.
\<close>

theorem startup_wiring:
  assumes "run V E w = (Inr (Some co), w')"
  shows "let cfg = co_cfg co in
    Load (os_viper V) (fst (parse_args (os_config_file V) (os_args V))) = Inr cfg \<and> ''--migrate-only'' \<notin> set (os_args V) \<and>
    os_migrate_Up V \<in> {Applied, NoChange} \<and>
    (if DevMode cfg then co_lnReadonly co = mock_Client mock_New \<and> co_lnPayment co = co_lnReadonly co \<and> co_lnSlash co = co_lnReadonly co
     else if Backend (Lightning cfg) = ''cln''
     then co_lnReadonly co = os_cln V (cln_baseURL (BaseURL (CLN (Lightning cfg)))) (APIKey (CLN (Lightning cfg))) \<and>
       co_lnPayment co = co_lnReadonly co \<and> co_lnSlash co = co_lnReadonly co
     else lnd_client V cfg (ReadonlyMacaroonPath (Lightning cfg)) (co_lnReadonly co) \<and>
       lnd_client V cfg (PaymentMacaroonPath (Lightning cfg)) (co_lnPayment co) \<and>
       lnd_client V cfg (SlashingMacaroonPath (Lightning cfg)) (co_lnSlash co)) \<and>
    (co_obs co = None \<longleftrightarrow> \<not> obs_Enabled (Observer_cfg cfg)) \<and>
    (\<forall>c. co_obs co = Some c \<longrightarrow> length (signingKey c) = 64 \<and> senderPubkeyHash c \<noteq> []) \<and>
    co_tls co = (if TLSCertFile (Server cfg) = [] \<or> TLSKeyFile (Server cfg) = [] then Plaintext else if DevMode cfg then ServerTLS else MutualTLS) \<and>
    has_storage (co_fl co) = (Bucket (S3 cfg) \<noteq> []) \<and> minParticipants (co_fl co) = 3 \<and> T1AutoSlashSignals (co_slash co) = 3 \<and>
    w' = Start w"
proof -
  have r: "run_setup V E = Inr (Some co)" "w' = Start w" using assms by (auto simp: run_def split: sum.splits option.splits)
  from r(1) obtain fname where f: "parse_args (os_config_file V) (os_args V) = (fname, False)" "Load (os_viper V) fname = Inr (co_cfg co)"
    and ln: "lightning_clients V (co_cfg co) = Inr (co_lnReadonly co, co_lnPayment co, co_lnSlash co)"
    and p: "s3_client (co_cfg co) = Inr (co_s3 co)" "observer_client V E (co_cfg co) (co_lnReadonly co) = Inr (co_obs co)"
      "grpc_credentials V (co_cfg co) = Inr (co_tls co)" "co_fl co = fl_orchestrator (co_cfg co) (co_s3 co)" "co_slash co = slash_config"
      "os_migrate_Up V \<in> {Applied, NoChange}"
    by (rule run_setup_ok)
  obtain c0 where "validate c0 = Inr (co_cfg co)" using f(2) by (auto simp: Load_def split: sum.splits)
  then have "DevMode (co_cfg co) \<or> list_all (\<lambda>(f, m). \<not> f) (lightning_checks (Lightning (co_cfg co)))"
    using validate_iff by blast
  then have "DevMode (co_cfg co) \<or> Backend (Lightning (co_cfg co)) = ''cln'' \<or> TLSCertPath (Lightning (co_cfg co)) \<noteq> []"
    using lightning_checks_pass by blast
  note l = lightning_clients_ok [OF ln this]
  have "''--migrate-only'' \<notin> set (os_args V)" using parse_args_snd [of "os_config_file V" "os_args V"] f(1) by simp
  moreover have "co_s3 co \<noteq> None \<longleftrightarrow> Bucket (S3 (co_cfg co)) \<noteq> []"
    using p(1) by (cases "co_s3 co") (auto simp: s3_client_def check_Inr split: if_splits)
  then have "has_storage (co_fl co) = (Bucket (S3 (co_cfg co)) \<noteq> [])"
    using p(4) by (simp add: fl_orchestrator_def NewWithConfig_def)
  moreover have "minParticipants (co_fl co) = 3" "T1AutoSlashSignals (co_slash co) = 3"
    using p(4,5) by (simp_all add: fl_orchestrator_def NewWithConfig_def slash_config_def)
  ultimately show ?thesis
    using f l p(6) r(2) observer_client_ok [OF p(2)] grpc_credentials_ok [OF p(3)] unfolding Let_def by auto
qed

definition demo_os :: os_env where
  "demo_os = \<lparr>os_config_file = [], os_args = [], os_ReadFile = (\<lambda>_. Inl (Err ''no file'')), os_level = (\<lambda>_. None),
     os_viper = (\<lambda>_ c. Inr (c\<lparr>DevMode := True, Database := (Database c)\<lparr>DSN := ''postgres://''\<rparr>\<rparr>)),
     os_pgx_New = (\<lambda>_. Inr ()), os_pgx_Ping = Inr (), os_migrate_New = (\<lambda>_ _. Inr ()), os_migrate_Up = Applied,
     os_lnd_dial = (\<lambda>_ _ _. Inl (Err ''no route'')), os_lnd_tls = (\<lambda>_. Inr ()), os_cln = (\<lambda>_ _. mock_Client mock_New),
     os_key_from_seed = (\<lambda>s. s @ s), os_pem_Decode = (\<lambda>_. None), os_ParsePKCS8 = (\<lambda>_. Inr None),
     os_AppendCerts = (\<lambda>_. False), os_LoadKeyPair = (\<lambda>_ _. Inr ()), os_ServerTLS = (\<lambda>_ _. Inr ()), os_Listen = (\<lambda>_. Inr ())\<rparr>"

lemma demo_Load: "\<exists>c. Load (os_viper demo_os) [] = Inr c \<and> DevMode c \<and> Bucket (S3 c) = [] \<and> \<not> obs_Enabled (Observer_cfg c) \<and>
  TLSCertFile (Server c) = [] \<and> \<not> tor_Enabled (Tor c)"
  by (simp add: Load_def validate_def defaults_def Let_def stake_checks_def fl_checks_def tierFloors_def tier_min_def
      s3_count_def small_f64 small_def demo_os_def)
    (use f64.unit [of "1 / 10"] in simp)

theorem startup_wiring_witness:
  "\<exists>co w'. run demo_os demo_ext (empty_world 0) = (Inr (Some co), w') \<and> co_tls co = Plaintext \<and> co_lnPayment co = mock_Client mock_New"
proof -
  obtain c where c: "Load (os_viper demo_os) [] = Inr c" "DevMode c" "Bucket (S3 c) = []" "\<not> obs_Enabled (Observer_cfg c)"
    "TLSCertFile (Server c) = []" "\<not> tor_Enabled (Tor c)" using demo_Load by blast
  have "parse_args (os_config_file demo_os) (os_args demo_os) = ([], False)" by (simp add: demo_os_def parse_args_def)
  moreover have "os_pgx_New demo_os d = Inr ()" "os_pgx_Ping demo_os = Inr ()" "os_migrate_New demo_os a d = Inr ()"
    "os_migrate_Up demo_os = Applied" "os_Listen demo_os a = Inr ()" for a d by (simp_all add: demo_os_def)
  ultimately have "\<exists>co w'. run demo_os demo_ext (empty_world 0) = (Inr (Some co), w')"
    using c by (simp add: run_def run_setup_def check_def Let_def buildLogger_def lightning_clients_def s3_client_def observer_client_def
        grpc_credentials_def listeners_def tor_listener_def)
  then obtain co w' where r: "run demo_os demo_ext (empty_world 0) = (Inr (Some co), w')" by blast
  have f: "fst (parse_args (os_config_file demo_os) (os_args demo_os)) = []" by (simp add: demo_os_def parse_args_def)
  note wiring = startup_wiring [OF r, unfolded Let_def f]
  then have "co_cfg co = c" using c(1) by simp
  with wiring c r show ?thesis by auto
qed

end
