(* ===== verification/Testutil.thy ===== *)
theory Testutil
  imports Registry Startup
begin

text \<open>
  \<open>internal/testutil/db.go\<close>, what the integration tests stand on: the database that is migrated and
  emptied before a test, and the node fixture with its key pair and its signature of a registration.
  \<open>testing.T\<close> is the result: a test is skipped, fails with a message, or goes on.
\<close>

section \<open>Definitions\<close>

datatype 'a test = Skip string | Fatal string go_error | Go_on 'a

definition Contains :: "string \<Rightarrow> string \<Rightarrow> bool" where
  "Contains s sub \<longleftrightarrow> list_ex (\<lambda>i. take (length sub) (drop i s) = sub) [0..<Suc (length s)]"

definition migrDSN :: "string \<Rightarrow> string" where
  "migrDSN dsn = (if Contains dsn ''sslmode='' then dsn
     else if Contains dsn ''?'' then dsn @ ''&sslmode=disable'' else dsn @ ''?sslmode=disable'')"

text \<open>\<open>dsn\<close> is the variable of the environment, \<open>migrationsDir\<close> the absolute path beside the source file.\<close>

definition MustDB :: "os_env \<Rightarrow> string \<Rightarrow> string \<Rightarrow> unit test" where
  "MustDB V dsn migrationsDir =
     (if dsn = [] then Skip ''integration test: set OWM_TEST_DSN to run''
      else case os_migrate_New V (''file://'' @ migrationsDir) (migrDSN dsn) of
        Inl e \<Rightarrow> Fatal ''testutil.MustDB: migrate.New: '' e
      | Inr _ \<Rightarrow> (case os_migrate_Up V of
          MigrateFailed e \<Rightarrow> Fatal ''testutil.MustDB: migrate.Up: '' e
        | _ \<Rightarrow> (case os_pgx_New V dsn of
            Inl e \<Rightarrow> Fatal ''testutil.MustDB: pgxpool.New: '' e
          | Inr pool \<Rightarrow> Go_on pool)))"

text \<open>
  The tables of the model among those named; \<open>CASCADE\<close> empties the heartbeats with the nodes, and
  \<open>RESTART IDENTITY\<close> resets the sequence of the rounds.
\<close>

definition TruncateAll :: "world \<Rightarrow> unit test \<times> world" where
  "TruncateAll w = (case db_exec (\<lambda>w. w\<lparr>w_signals := [], w_slashings := [], w_stakes := [], w_participants := [],
       w_tasks := [], w_rounds := [], w_nodes := [], w_heartbeats := [], w_next_round := 1\<rparr>) w of
     (Inl e, w) \<Rightarrow> (Fatal ''TruncateAll: '' e, w) | (Inr _, w) \<Rightarrow> (Go_on (), w))"

record NodeFixture =
  nf_PubKeyHex :: string
  nf_PubKey :: bytes
  nf_PrivKey :: bytes
  nf_LNNodeURI :: string

text \<open>\<open>generated\<close> is the answer of \<open>ed25519.GenerateKey\<close>, whose public keys have 32 bytes.\<close>

definition NewNodeFixture :: "(bytes \<times> bytes) result \<Rightarrow> NodeFixture test" where
  "NewNodeFixture generated = (case generated of
     Inl e \<Rightarrow> Fatal ''NewNodeFixture: '' e
   | Inr (pub, priv) \<Rightarrow> let pubHex = hex_EncodeToString pub in
       Go_on \<lparr>nf_PubKeyHex = pubHex, nf_PubKey = pub, nf_PrivKey = priv, nf_LNNodeURI = take 20 pubHex @ ''@127.0.0.1:9735''\<rparr>)"

definition fixture_Sign :: "ext \<Rightarrow> NodeFixture \<Rightarrow> string \<Rightarrow> string \<Rightarrow> int \<Rightarrow> bytes" where
  "fixture_Sign E f lnURI tier ts =
     ed25519_Sign E (nf_PrivKey f) (''owm-register|'' @ nf_PubKeyHex f @ ''|'' @ lnURI @ ''|'' @ tier @ ''|'' @ dec ts)"

section \<open>Lemmas\<close>

lemma Contains_iff: "Contains s sub \<longleftrightarrow> (\<exists>p q. s = p @ sub @ q)"
proof
  assume "Contains s sub"
  then obtain i where "take (length sub) (drop i s) = sub" by (auto simp: Contains_def list_ex_iff)
  then have "s = take i s @ sub @ drop (length sub) (drop i s)" by (metis append_take_drop_id)
  then show "\<exists>p q. s = p @ sub @ q" by blast
next
  assume "\<exists>p q. s = p @ sub @ q"
  then obtain p q where "s = p @ sub @ q" by blast
  then show "Contains s sub" unfolding Contains_def list_ex_iff by (intro bexI [of _ "length p"]) auto
qed

text \<open>The migrations run with an explicit mode, and with the given one when there is one.\<close>

lemma migrDSN_sslmode: "Contains (migrDSN dsn) ''sslmode='' \<and> (\<exists>suffix. migrDSN dsn = dsn @ suffix)"
proof -
  have "\<exists>p q. dsn @ ''&sslmode=disable'' = p @ ''sslmode='' @ q" by (intro exI [of _ "dsn @ ''&''"] exI [of _ "''disable''"]) simp
  moreover have "\<exists>p q. dsn @ ''?sslmode=disable'' = p @ ''sslmode='' @ q" by (intro exI [of _ "dsn @ ''?''"] exI [of _ "''disable''"]) simp
  ultimately show ?thesis by (auto simp: migrDSN_def Contains_iff)
qed

lemma TruncateAll_healthy:
  assumes "healthy w"
  shows "fst (TruncateAll w) = Go_on ()" "w_nodes (snd (TruncateAll w)) = []" "healthy (snd (TruncateAll w))"
    "w_now (snd (TruncateAll w)) = w_now w"
  using assms by (simp_all add: TruncateAll_def db_call_healthy) (simp add: healthy_def)

section \<open>Properties\<close>

text \<open>
  Fixtures can register. A test that empties a working database and makes a fixture registers it: when the key
  pair is one of Ed25519, so that its signatures verify, the registry accepts the signature of the fixture for every
  address and tier, as long as the timestamp is not older than five minutes and the capabilities fit their
  columns, and the new node is then the only row of the table.
\<close>

theorem fixture_registers:
  assumes "\<forall>m. ed25519_Verify E pub m (ed25519_Sign E priv m)" "length pub = 32" "healthy w"
    and "cap_Tier caps \<in> set tiers" "time_Sub (w_now w) (time_Unix ts) \<le> 5 * Minute"
    and "pg_numeric E 6 2 (cap_VRAMGB caps) = Some vram" "pg_numeric E 6 2 (cap_RAMGB caps) = Some ram"
    and "pg_numeric E 8 2 (cap_BandwidthMbps caps) = Some bw" "pg_numeric E 5 4 (Fin 1) = Some rel"
    and "NewNodeFixture (Inr (pub, priv)) = Go_on f" "TruncateAll w = (r, w')"
  shows "r = Go_on () \<and> (\<exists>n w'' row. Register E fresh (nf_PubKeyHex f) lnURI onion caps (fixture_Sign E f lnURI (cap_Tier caps) ts) ts w' = (Inr n, w'') \<and>
    NodeID n = fresh \<and> Status n = ''pending'' \<and> w_nodes w'' = [row] \<and> NodeID row = fresh \<and>
    PublicKey row = hex_EncodeToString pub \<and> LNNodeURI row = lnURI \<and> Tier row = cap_Tier caps \<and> Status row = ''pending'')"
proof -
  note t = TruncateAll_healthy [OF assms(3), unfolded assms(11) fst_conv snd_conv]
  have f: "nf_PubKeyHex f = hex_EncodeToString pub" "nf_PrivKey f = priv" using assms(10) by (auto simp: NewNodeFixture_def Let_def)
  let ?n = "new_node fresh (hex_EncodeToString pub) lnURI onion caps (w_now w')"
  have sig: "ed25519_Verify E pub (canonicalRegisterMessage (hex_EncodeToString pub) lnURI (cap_Tier caps) ts)
      (fixture_Sign E f lnURI (cap_Tier caps) ts)"
    using assms(1) f by (simp add: fixture_Sign_def canonicalRegisterMessage_def)
  let ?row = "?n\<lparr>VRAMGB := vram, RAMGB := ram, BandwidthMbps := bw, Reliability := rel\<rparr>"
  have "upsert_node E ?n w' = (Inr (fresh, ''pending'', None), w'\<lparr>w_nodes := [?row]\<rparr>)"
    using t assms(4,6-9) by (simp add: upsert_node_def db_call_healthy new_node_def lookup_def sql_row_def sql_insert_def)
  then have "Register E fresh (nf_PubKeyHex f) lnURI onion caps (fixture_Sign E f lnURI (cap_Tier caps) ts) ts w' =
      (Inr ?n, nodes_gauge_add (cap_Tier caps) ''pending'' 1 (w'\<lparr>w_nodes := [?row]\<rparr>))"
    using f sig assms(2,5) t(4) by (simp add: Register_def hex_decode_encode Let_def new_node_def)
  with t(1) show ?thesis by (simp add: new_node_def)
qed

theorem fixture_registers_witness:
  "\<exists>E f w'. NewNodeFixture (Inr (demo_key, ''k'')) = Go_on f \<and> TruncateAll (empty_world demo_now) = (Go_on (), w') \<and>
     (\<exists>n w''. Register E 7 (nf_PubKeyHex f) ''a@b'' [] (demo_caps ''t1'') (fixture_Sign E f ''a@b'' ''t1'' 1000) 1000 w' = (Inr n, w'') \<and>
       length (w_nodes w'') = 1)"
proof -
  let ?E = "demo_ext\<lparr>ed25519_Sign := \<lambda>priv m. demo_key @ m, ed25519_Verify := \<lambda>key m sig. sig = key @ m\<rparr>"
  obtain f where f: "NewNodeFixture (Inr (demo_key, ''k'')) = Go_on f" by (simp add: NewNodeFixture_def Let_def)
  obtain r w' where t: "TruncateAll (empty_world demo_now) = (r, w')" by fastforce
  have n: "pg_numeric ?E 6 2 (cap_VRAMGB (demo_caps ''t1'')) \<noteq> None" "pg_numeric ?E 6 2 (cap_RAMGB (demo_caps ''t1'')) \<noteq> None"
    "pg_numeric ?E 8 2 (cap_BandwidthMbps (demo_caps ''t1'')) \<noteq> None" "pg_numeric ?E 5 4 (Fin 1) \<noteq> None"
    by (simp_all add: demo_ext_def demo_numeric_def demo_caps_def)
  have h: "\<forall>m. ed25519_Verify ?E demo_key m (ed25519_Sign ?E ''k'' m)" "length demo_key = 32" "healthy (empty_world demo_now)"
    "cap_Tier (demo_caps ''t1'') \<in> set tiers" "time_Sub (w_now (empty_world demo_now)) (time_Unix 1000) \<le> 5 * Minute"
    by (simp_all add: demo_key_def healthy_def empty_world_def demo_caps_def tiers_def demo_now_def time_Sub_def time_defs)
  from n obtain a b c d where "pg_numeric ?E 6 2 (cap_VRAMGB (demo_caps ''t1'')) = Some a" "pg_numeric ?E 6 2 (cap_RAMGB (demo_caps ''t1'')) = Some b"
    "pg_numeric ?E 8 2 (cap_BandwidthMbps (demo_caps ''t1'')) = Some c" "pg_numeric ?E 5 4 (Fin 1) = Some d" by blast
  from fixture_registers [OF h this f t, of 7 "''a@b''" "[]"] f t show ?thesis
    by (intro exI [of _ ?E] exI [of _ f] exI [of _ w']) (auto simp: demo_caps_def)
qed

end
