(* ===== verification/Coordinator.thy ===== *)
theory Coordinator
  imports Startup Pool_Http Metrics "HOL-Library.Option_ord"
begin

text \<open>
  The running coordinator: every operation of the service, its background jobs and its clock as
  the steps of one transition system over the shared state. What is proved here holds for every
  interleaving of the operations, for every failure of the database and for every answer of the
  Lightning node, the object store and the remote services.
\<close>

section \<open>Frames\<close>

text \<open>The parts of the state about nodes, stakes and payments, and those about learning rounds.\<close>

definition core :: "world \<Rightarrow> node list \<times> stake_row list \<times> task_row list \<times> paymentJob list \<times> SendPaymentRequest list" where
  "core w = (w_nodes w, w_stakes w, w_tasks w, w_queue w, w_sent w)"

definition pay_part :: "world \<Rightarrow> task_row list \<times> paymentJob list \<times> SendPaymentRequest list" where
  "pay_part w = (w_tasks w, w_queue w, w_sent w)"

definition fl_part :: "world \<Rightarrow> round_row list \<times> participant_row list \<times> int" where
  "fl_part w = (w_rounds w, w_participants w, w_next_round w)"

named_theorems core_dests \<open>operations that leave the core alone\<close>
named_theorems fl_dests \<open>operations that leave the rounds alone\<close>

lemma core_tick [simp]: "core (db_tick w) = core w" "core (counter_inc m ls w) = core w"
  "core (w\<lparr>w_rounds := x\<rparr>) = core w" "core (w\<lparr>w_participants := y\<rparr>) = core w" "core (w\<lparr>w_stamps := z\<rparr>) = core w"
  "core (w\<lparr>w_s3 := s\<rparr>) = core w" "core (w\<lparr>w_next_round := i\<rparr>) = core w" "core (w\<lparr>w_next_round := i, w_rounds := x\<rparr>) = core w"
  by (simp_all add: core_def)

lemma flag_participant_core [simp]: "core (flag_participant rid nid w) = core w"
  by (simp add: flag_participant_def db_call_def)

lemma filter_loop_core [core_dests]: "filter_loop rid nm th rs w = (acc, w') \<Longrightarrow> core w' = core w"
  by (induction rs arbitrary: w acc w') (auto split: if_splits prod.splits)

lemma anomalyFilter_core [core_dests]: "anomalyFilter M orc rid rs w = (acc, w') \<Longrightarrow> core w' = core w"
  by (auto simp: anomalyFilter_def Let_def split: if_splits dest: filter_loop_core)

lemma node_weight_core [core_dests]: "node_weight M nid w = (x, w') \<Longrightarrow> core w' = core w"
  by (auto simp: node_weight_def db_call_def split: world_splits)

lemma collect_gradients_core [core_dests]: "collect_gradients M c rs w = (res, w') \<Longrightarrow> core w' = core w"
  by (induction rs arbitrary: w res w') (fastforce split: world_splits dest: node_weight_core)+

lemma PutObject_core [core_dests]: "PutObject ok k d w = (res, w') \<Longrightarrow> core w' = core w"
  by (auto simp: PutObject_def split: if_splits)

lemma fedAvg_core [core_dests]: "fedAvg E M orc rn rs w = (res, w') \<Longrightarrow> core w' = core w"
  by (auto simp: fedAvg_def Let_def split: world_splits dest!: collect_gradients_core PutObject_core)

lemma completeRound_core [core_dests]: "completeRound rn h w = (res, w') \<Longrightarrow> core w' = core w"
  by (auto simp: completeRound_def db_call_def split: world_splits)

lemma failRound_core [core_dests]: "failRound rn w = (res, w') \<Longrightarrow> core w' = core w"
  by (auto simp: failRound_def db_call_def split: world_splits)

lemma failRound_core_snd [simp]: "core (snd (failRound rn w)) = core w"
  using failRound_core [of rn w] by (metis prod.collapse)

lemma aggregate_core [core_dests]: "aggregate E M orc rid rn cnt w = (res, w') \<Longrightarrow> core w' = core w"
  by (auto simp: aggregate_def fetchGradientHashes_def db_call_def split: world_splits dest!: core_dests)

lemma TryAggregate_core [core_dests]: "TryAggregate E M orc rn w = (res, w') \<Longrightarrow> core w' = core w"
  by (auto simp: TryAggregate_def cas_aggregating_def db_call_def split: world_splits dest!: aggregate_core)

lemma close_round_core: "core (snd (close_round E M orc st rn)) = core (snd st)"
  by (auto simp: close_round_def split: world_splits dest!: TryAggregate_core)

lemma CloseExpired_core [core_dests]: "CloseExpired E M orc w = (res, w') \<Longrightarrow> core w' = core w"
proof -
  have "core (snd (foldl (close_round E M orc) st rns)) = core (snd st)" for st rns
    by (induction rns arbitrary: st) (simp_all add: close_round_core)
  then show "CloseExpired E M orc w = (res, w') \<Longrightarrow> core w' = core w"
    using CloseExpired_world [of E M orc w] by auto
qed

lemma stampOTS_core [simp]: "core (stampOTS M post order orc h rn w) = core w"
  by (auto simp: stampOTS_def db_call_def PutObject_def Let_def split: world_splits list.splits)

lemma OpenRound_core [core_dests]: "OpenRound v w = (res, w') \<Longrightarrow> core w' = core w"
  by (auto simp: OpenRound_def db_call_def split: world_splits)

lemma SubmitGradient_core [core_dests]: "SubmitGradient sub w = (res, w') \<Longrightarrow> core w' = core w"
  by (auto simp: SubmitGradient_def upsert_participant_def db_call_def split: world_splits)

text \<open>What registration, stakes and slashing leave alone: tasks, payments and rounds.\<close>

definition side :: "world \<Rightarrow> (task_row list \<times> paymentJob list \<times> SendPaymentRequest list) \<times> round_row list \<times> participant_row list \<times> int" where
  "side w = (pay_part w, fl_part w)"

lemmas side_defs = side_def pay_part_def fl_part_def

lemma side_simps [simp]: "side (db_tick w) = side w" "side (counter_inc m ls w) = side w" "side (nodes_gauge_add t s d w) = side w"
  "side (w\<lparr>w_nodes := n\<rparr>) = side w" "side (w\<lparr>w_stakes := k\<rparr>) = side w" "side (w\<lparr>w_slashings := l\<rparr>) = side w"
  "side (w\<lparr>w_signals := g\<rparr>) = side w" "side (w\<lparr>w_heartbeats := h\<rparr>) = side w"
  by (simp_all add: side_defs)

lemma nodes_only_side: "nodes_only w w' \<Longrightarrow> side w' = side w"
  by (simp add: nodes_only_iff side_defs)

lemma registry_side [simp]:
  "side (snd (Register E fresh pk uri onion caps sig ts w)) = side w" "side (snd (Activate nid w)) = side w"
  "side (snd (UpdateStatus nid st w)) = side w" "side (snd (UpdateReliability E nid ok w)) = side w"
  using nodes_only_Register nodes_only_Activate nodes_only_UpdateStatus nodes_only_UpdateReliability
  by (simp_all add: nodes_only_side)

lemma RecordHeartbeat_side [simp]: "side (snd (RecordHeartbeat nid w)) = side w"
  by (auto simp: RecordHeartbeat_def db_call_def split: world_splits)

lemma VerifyStake_side [simp]: "side (snd (VerifyStake l pk t w)) = side w"
  by (simp add: side_defs)

lemma sideD: "x = (r, w') \<Longrightarrow> side (snd x) = side w \<Longrightarrow> side w' = side w"
  by simp

lemmas side_dests = sideD [OF _ registry_side(1)] sideD [OF _ registry_side(2)] sideD [OF _ registry_side(3)]
  sideD [OF _ RecordHeartbeat_side] sideD [OF _ VerifyStake_side]

lemma PersistStake_side [simp]: "side (snd (PersistStake E nid res w)) = side w"
  by (auto simp: PersistStake_def db_call_def split: world_splits)

lemma markDegraded_side [simp]: "side (snd (markDegraded nid w)) = side w"
  by (auto simp: markDegraded_def db_call_def split: world_splits)

lemma reverify_row_side [simp]: "side (reverify_row E lnc n w) = side w"
  by (auto simp: reverify_row_def split: sum.splits prod.splits dest!: side_dests)

lemma VerifyAllActive_side [simp]: "side (snd (VerifyAllActive E l w)) = side w"
proof -
  have "side (foldl (\<lambda>w n. reverify_row E lnc n w) w rows) = side w" for lnc w rows
    by (induction rows arbitrary: w) simp_all
  then show ?thesis by (auto simp: VerifyAllActive_def db_call_def split: world_splits)
qed

lemma Slash_side [simp]: "side (snd (Slash cfg l ev nid tier reason evid k w)) = side w"
  by (rule Slash_keeps [where P = "\<lambda>v. side v = side w"]) simp_all

lemma RecordMisbehaviorSignal_side [simp]: "side (snd (RecordMisbehaviorSignal cfg l ev nid tier ty evid w)) = side w"
  by (simp add: RecordMisbehaviorSignal_def insert_signal_def db_call_def)

lemma RegisterNode_side [simp]: "side (snd (RegisterNode S fresh req w)) = side w"
  by (auto simp: RegisterNode_def Let_def split: sum.splits prod.splits dest!: side_dests)

lemma Heartbeat_side [simp]: "side (snd (Heartbeat S req w)) = side w"
  by (auto simp: Heartbeat_def split: world_splits dest!: side_dests)

lemma DeregisterNode_side [simp]: "side (snd (DeregisterNode S req w)) = side w"
  by (auto simp: DeregisterNode_def split: world_splits dest!: side_dests)

section \<open>Nodes and stakes\<close>

text \<open>
  Capacities and balances are 64-bit integers in the code; the Lightning node may list any channels with
  such amounts. Recorded bonuses are finite and between 0 and 2.
\<close>

definition typed_client :: "Client \<Rightarrow> bool" where
  "typed_client lnc \<longleftrightarrow> (\<forall>pk cs. ListChannels lnc pk = Inr cs \<longrightarrow> (\<forall>c\<in>set cs. in_int64 (CapacitySats c) \<and> in_int64 (LocalBalanceSats c)))"

definition bonus_ok :: "flt \<Rightarrow> bool" where
  "bonus_ok a \<longleftrightarrow> (case a of Fin b \<Rightarrow> 0 \<le> b \<and> b \<le> 2 | _ \<Rightarrow> False)"

definition stakes_ok :: "stake_row list \<Rightarrow> bool" where
  "stakes_ok ss \<longleftrightarrow> list_all (\<lambda>s. bonus_ok (st_bonus s)) ss"

lemma bonus_okE: "bonus_ok a \<Longrightarrow> (\<And>b. a = Fin b \<Longrightarrow> 0 \<le> b \<Longrightarrow> b \<le> 2 \<Longrightarrow> P) \<Longrightarrow> P"
  by (auto simp: bonus_ok_def split: flt.splits)

lemma VerifyStake_bonus:
  assumes "VerifyStake (Some lnc) pk tier w = (Inr res, w')" "typed_client lnc"
  shows "bonus_ok (BonusMultiplier res)"
proof -
  obtain m where m: "TierMinimums tier = Some m" using assms(1) by (auto simp: VerifyStake_def split: option.splits)
  obtain cs where cs: "ListChannels lnc pk = Inr cs" using assms(1) m by (auto simp: VerifyStake_def split: sum.splits)
  show ?thesis
  proof (cases "best_channel m cs")
    case None
    then show ?thesis using assms(1) m cs by (auto simp: VerifyStake_def bonus_ok_def)
  next
    case (Some b)
    have "in_int64 (LocalBalanceSats b)" using best_channel_Some [OF Some] assms(2) cs by (auto simp: typed_client_def)
    from computeBonus_range [OF this] TierMinimums_pos [OF m] obtain x
      where "computeBonus (LocalBalanceSats b) m = Fin x" "1 \<le> x" "x \<le> 2" by blast
    then show ?thesis using assms(1) m cs Some by (auto simp: VerifyStake_def bonus_ok_def)
  qed
qed

lemma PersistStake_stakes_ok:
  assumes "stakes_ok (w_stakes w)" "bonus_ok (BonusMultiplier res)" "numeric_rounds E"
  shows "stakes_ok (w_stakes (snd (PersistStake E nid res w)))"
proof -
  have b: "bonus_ok y" if "pg_numeric E 4 3 (BonusMultiplier res) = Some y" for y
  proof -
    obtain x where x: "BonusMultiplier res = Fin x" "0 \<le> x" "x \<le> 2" using assms(2) by (rule bonus_okE)
    have "\<exists>y. pg_numeric E 4 3 (Fin x) = Some (Fin y) \<and> of_int 0 \<le> y \<and> y \<le> of_int 2"
      by (rule assms(3) [unfolded numeric_rounds_def, rule_format]) (use x in simp_all)
    then show ?thesis using that x by (auto simp: bonus_ok_def)
  qed
  show ?thesis using assms(1) b
    by (auto simp: PersistStake_def db_call_def stakes_ok_def list_all_iff set_sql_update sql_insert_def split: world_splits)
qed

lemma markDegraded_ok:
  "nodes_ok (w_nodes w) \<Longrightarrow> nodes_ok (w_nodes (snd (markDegraded nid w)))"
  "stakes_ok (w_stakes w) \<Longrightarrow> stakes_ok (w_stakes (snd (markDegraded nid w)))"
  by (auto simp: markDegraded_def db_call_def split: world_splits intro!: nodes_ok_update)
    (auto simp: node_ok_def node_statuses_def stakes_ok_def list_all_iff set_sql_update)

lemma Slash_ok:
  "nodes_ok (w_nodes w) \<Longrightarrow> nodes_ok (w_nodes (snd (Slash cfg l ev nid tier reason evid k w)))"
  "stakes_ok (w_stakes w) \<Longrightarrow> stakes_ok (w_stakes (snd (Slash cfg l ev nid tier reason evid k w)))"
   by (rule Slash_keeps [where P = "\<lambda>v. nodes_ok (w_nodes v)"];
       auto intro!: nodes_ok_update simp: node_ok_def node_statuses_def)
     (rule Slash_keeps [where P = "\<lambda>v. stakes_ok (w_stakes v)"]; auto simp: stakes_ok_def list_all_iff set_sql_update)

lemma RecordMisbehaviorSignal_ok:
  "nodes_ok (w_nodes w) \<Longrightarrow> nodes_ok (w_nodes (snd (RecordMisbehaviorSignal cfg l ev nid tier ty evid w)))"
  "stakes_ok (w_stakes w) \<Longrightarrow> stakes_ok (w_stakes (snd (RecordMisbehaviorSignal cfg l ev nid tier ty evid w)))"
  by (simp_all add: RecordMisbehaviorSignal_def insert_signal_def db_call_def Slash_ok)

lemma reverify_row_ok:
  assumes "typed_client lnc" "numeric_rounds E" "nodes_ok (w_nodes w)" "stakes_ok (w_stakes w)"
  shows "nodes_ok (w_nodes (reverify_row E lnc n w)) \<and> stakes_ok (w_stakes (reverify_row E lnc n w))"
proof -
  obtain r w1 where v: "VerifyStake (Some lnc) (PublicKey n) (Tier n) w = (r, w1)" by fastforce
  then have w1: "nodes_ok (w_nodes w1)" "stakes_ok (w_stakes w1)"
    using VerifyStake_simps(1,2) [of "Some lnc" "PublicKey n" "Tier n" w] assms(3,4) by simp_all
  show ?thesis
  proof (cases r)
    case (Inl e)
    with v w1 show ?thesis by (simp add: reverify_row_def)
  next
    case (Inr res)
    from VerifyStake_bonus [OF v [unfolded Inr] assms(1)] show ?thesis
      using v Inr w1 assms(2) by (simp add: reverify_row_def markDegraded_ok PersistStake_stakes_ok)
  qed
qed

lemma VerifyAllActive_ok:
  assumes "typed_client lnc" "numeric_rounds E" "nodes_ok (w_nodes w)" "stakes_ok (w_stakes w)"
  shows "nodes_ok (w_nodes (snd (VerifyAllActive E (Some lnc) w))) \<and> stakes_ok (w_stakes (snd (VerifyAllActive E (Some lnc) w)))"
proof -
  have "nodes_ok (w_nodes (foldl (\<lambda>w n. reverify_row E lnc n w) v rows)) \<and> stakes_ok (w_stakes (foldl (\<lambda>w n. reverify_row E lnc n w) v rows))"
    if "nodes_ok (w_nodes v)" "stakes_ok (w_stakes v)" for v rows
    using that reverify_row_ok [OF assms(1,2)] by (induction rows arbitrary: v) simp_all
  then show ?thesis using assms(3,4) by (simp add: VerifyAllActive_def db_call_def)
qed

lemma RegisterNode_ok:
  assumes "sv_lnReadonly S = Some lnc" "typed_client lnc" "numeric_rounds (sv_ext S)" "nodes_ok (w_nodes w)" "stakes_ok (w_stakes w)"
  shows "nodes_ok (w_nodes (snd (RegisterNode S fresh req w))) \<and> stakes_ok (w_stakes (snd (RegisterNode S fresh req w)))"
proof -
  have reg: "nodes_ok (w_nodes v) \<and> stakes_ok (w_stakes v)"
    if "Register (sv_ext S) fresh pk uri onion caps sig ts w = (r, v)" for pk uri onion caps sig ts r v
    using Register_nodes_ok [OF assms(4,3), of fresh pk uri onion caps sig ts] assms(5) that
      nodes_only_Register [of w "sv_ext S" fresh pk uri onion caps sig ts] by (simp add: nodes_only_iff)
  have act: "nodes_ok (w_nodes v') \<and> stakes_ok (w_stakes v')"
    if "Activate nid v = (r, v')" "nodes_ok (w_nodes v)" "stakes_ok (w_stakes v)" for nid v r v'
    using Activate_nodes_ok [OF that(2), of nid] nodes_only_Activate [of v nid] that by (simp add: nodes_only_iff)
  have ver: "nodes_ok (w_nodes v') \<and> stakes_ok (w_stakes v') \<and> (\<forall>res. r = Inr res \<longrightarrow> bonus_ok (BonusMultiplier res))"
    if "VerifyStake (Some lnc) pk t v = (r, v')" "nodes_ok (w_nodes v)" "stakes_ok (w_stakes v)" for pk t v r v'
    using that VerifyStake_bonus [OF _ assms(2), of pk t v] VerifyStake_simps(1,2) [of "Some lnc" pk t v] by simp
  show ?thesis using assms(1,3-5) act PersistStake_stakes_ok [OF _ _ assms(3)]
    by (auto simp: RegisterNode_def Let_def split: sum.splits prod.splits dest!: reg dest: ver)
qed

lemma Heartbeat_ok: "nodes_ok (w_nodes w) \<Longrightarrow> nodes_ok (w_nodes (snd (Heartbeat S req w)))"
  using RecordHeartbeat_nodes_ok by (auto simp: Heartbeat_def split: world_splits) (metis snd_conv)+

lemma DeregisterNode_ok: "nodes_ok (w_nodes w) \<Longrightarrow> nodes_ok (w_nodes (snd (DeregisterNode S req w)))"
  using UpdateStatus_nodes_ok by (auto simp: DeregisterNode_def split: world_splits) (metis snd_conv)+

lemma registry_stakes [simp]: "w_stakes (snd (Heartbeat S req w)) = w_stakes w" "w_stakes (snd (DeregisterNode S req' w)) = w_stakes w"
proof -
  have h: "w_stakes w' = w_stakes w" if "RecordHeartbeat nid w = (r, w')" for nid r w'
    using that by (auto simp: RecordHeartbeat_def db_call_def split: world_splits)
  have d: "w_stakes w' = w_stakes w" if "UpdateStatus nid st w = (r, w')" for nid st r w'
    using nodes_only_UpdateStatus [of w nid st] that by (simp add: nodes_only_iff)
  show "w_stakes (snd (Heartbeat S req w)) = w_stakes w" by (auto simp: Heartbeat_def split: world_splits dest!: h)
  show "w_stakes (snd (DeregisterNode S req' w)) = w_stakes w" by (auto simp: DeregisterNode_def split: world_splits dest!: d)
qed

section \<open>Rounds\<close>

lemma stampOTS_fl_ok: "fl_ok w \<Longrightarrow> fl_ok (stampOTS M post order orc h rn w)"
proof -
  have "fl_ok (snd (db_exec (\<lambda>w. w\<lparr>w_rounds := sql_update (\<lambda>r. rd_number r = rn) (\<lambda>r. r\<lparr>rd_ots := Some k\<rparr>) (w_rounds w)\<rparr>) v))"
    if "fl_ok v" for v k
    using fl_ok_update [of "db_tick v" "\<lambda>r. r\<lparr>rd_ots := Some k\<rparr>" "\<lambda>r. rd_number r = rn"] that
    by (auto simp: db_call_def round_ok_def)
  moreover have "fl_ok (snd (PutObject ok k d w)) = fl_ok w" for ok k d by (simp add: fl_ok_def)
  ultimately show "fl_ok w \<Longrightarrow> fl_ok (stampOTS M post order orc h rn w)"
    by (simp add: stampOTS_def Let_def split: option.split list.split)
qed

lemma close_round_fl_ok: "fl_ok (snd st) \<Longrightarrow> fl_ok (snd (close_round E M orc st rn))"
proof -
  assume ok: "fl_ok (snd st)"
  obtain n w where st: "st = (n, w)" by fastforce
  obtain r w1 where t: "TryAggregate E M orc rn w = (r, w1)" by fastforce
  have "fl_ok w1" using TryAggregate_fl_ok [of w E M orc rn] ok st t by simp
  then show ?thesis using failRound_fl_ok [of w1 rn] by (auto simp: close_round_def st t split: sum.splits option.splits)
qed

lemma CloseExpired_fl_ok: "fl_ok w \<Longrightarrow> fl_ok (snd (CloseExpired E M orc w))"
proof -
  have "fl_ok (snd (foldl (close_round E M orc) st rns))" if "fl_ok (snd st)" for st rns
    using that by (induction rns arbitrary: st) (simp_all add: close_round_fl_ok)
  from this [of "(0, db_tick w)"] show "fl_ok w \<Longrightarrow> fl_ok (snd (CloseExpired E M orc w))"
    using CloseExpired_world [of E M orc w] by auto
qed

lemma SubmitGradient_rpc_cases:
  "snd (SubmitGradient_rpc S up grad w) = w \<or> (\<exists>sub. snd (SubmitGradient_rpc S up grad w) = snd (SubmitGradient sub w))"
  by (auto simp: SubmitGradient_rpc_def split: option.splits sum.splits prod.splits) (metis snd_conv)+

section \<open>Tasks and payments\<close>

text \<open>What a payment needs of a task row never changes once the row exists.\<close>

definition task_terms :: "task_row \<Rightarrow> uuid \<times> string option \<times> int" where
  "task_terms t = (tk_id t, tk_ln_uri t, tk_reward t)"

text \<open>
  A job is due when it has the identifier, address and reward of a task's row, and the task is
  one of those for which an authentic result arrived.
\<close>

definition job_due :: "uuid set \<Rightarrow> task_row list \<Rightarrow> paymentJob \<Rightarrow> bool" where
  "job_due A ts j \<longleftrightarrow> j_TaskID j \<in> A \<and> (\<exists>t\<in>set ts. \<exists>uri. tk_ln_uri t = Some uri \<and> j = task_job t uri)"

definition task_paid_ok :: "uuid set \<Rightarrow> task_row \<Rightarrow> bool" where
  "task_paid_ok A t \<longleftrightarrow> 0 \<le> tk_reward t \<and> tk_reward t \<le> 800 \<and> (tk_status t = ''completed'' \<longrightarrow> tk_id t \<in> A)"

definition pay_ok :: "uuid set \<Rightarrow> world \<Rightarrow> bool" where
  "pay_ok A w \<longleftrightarrow> tasks_ok (w_tasks w) \<and> list_all (task_paid_ok A) (w_tasks w) \<and> length (w_queue w) \<le> queueSize \<and>
     list_all (job_due A (w_tasks w)) (w_queue w) \<and>
     (\<forall>r\<in>set (w_sent w). \<exists>j. job_due A (w_tasks w) j \<and> r = payment_request j)"

lemma job_due_mono:
  assumes "job_due A ts j" "A \<subseteq> B" "task_terms ` set ts \<subseteq> task_terms ` set us"
  shows "job_due B us j"
proof -
  obtain t uri where t: "j_TaskID j \<in> A" "t \<in> set ts" "tk_ln_uri t = Some uri" "j = task_job t uri"
    using assms(1) by (auto simp: job_due_def)
  then obtain u where "u \<in> set us" "task_terms t = task_terms u" using assms(3) by blast
  then show ?thesis using t assms(2)
    unfolding job_due_def by (intro conjI bexI [of _ u] exI [of _ uri]) (auto simp: task_terms_def task_job_def)
qed

lemma task_terms_simps [simp]: "task_terms (t\<lparr>tk_status := a\<rparr>) = task_terms t" "task_terms (t\<lparr>tk_payment_status := a\<rparr>) = task_terms t"
  "task_terms (t\<lparr>tk_preimage := b\<rparr>) = task_terms t" "task_terms (t\<lparr>tk_receipt_id := b\<rparr>) = task_terms t"
  "task_terms (t\<lparr>tk_completed := c\<rparr>) = task_terms t" "task_terms (t\<lparr>tk_started := c\<rparr>) = task_terms t"
  "task_terms (t\<lparr>tk_assigned := d\<rparr>) = task_terms t" "task_terms (t\<lparr>tk_output_hash := b\<rparr>) = task_terms t"
  by (simp_all add: task_terms_def)

lemma terms_update [simp]: "(\<And>t. task_terms (f t) = task_terms t) \<Longrightarrow> task_terms ` set (sql_update P f ts) = task_terms ` set ts"
  using map_sql_update_frame [of task_terms f P ts] by (metis set_map)

text \<open>A step that only updates rows without touching their terms, and at most shortens the queue.\<close>

lemma pay_ok_step:
  assumes "pay_ok A w" "A \<subseteq> B" "tasks_ok (w_tasks w')" "list_all (task_paid_ok B) (w_tasks w')"
    and "task_terms ` set (w_tasks w) \<subseteq> task_terms ` set (w_tasks w')"
    and "length (w_queue w') \<le> queueSize" "\<And>j. j \<in> set (w_queue w') \<Longrightarrow> j \<in> set (w_queue w) \<or> job_due B (w_tasks w') j"
    and "\<And>r. r \<in> set (w_sent w') \<Longrightarrow> r \<in> set (w_sent w) \<or> (\<exists>j. job_due B (w_tasks w') j \<and> r = payment_request j)"
  shows "pay_ok B w'"
  using assms job_due_mono [OF _ assms(2,5)] unfolding pay_ok_def list_all_iff by blast

lemma task_paid_ok_mono: "list_all (task_paid_ok A) ts \<Longrightarrow> A \<subseteq> B \<Longrightarrow> list_all (task_paid_ok B) ts"
  by (auto simp: list_all_iff task_paid_ok_def)

lemma task_paid_ok_update:
  assumes "list_all (task_paid_ok A) ts" "A \<subseteq> B"
    and "\<And>t. t \<in> set ts \<Longrightarrow> P t \<Longrightarrow> task_paid_ok A t \<Longrightarrow> task_paid_ok B (f t)"
  shows "list_all (task_paid_ok B) (sql_update P f ts)"
  using assms task_paid_ok_mono [OF assms(1,2)] by (auto simp: list_all_iff set_sql_update)

lemma pay_ok_cong: "pay_part w' = pay_part w \<Longrightarrow> pay_ok A w' = pay_ok A w"
  by (simp add: pay_part_def pay_ok_def)

lemma side_pay: "side w' = side w \<Longrightarrow> pay_part w' = pay_part w"
  by (simp add: side_def)

lemma core_pay: "core w' = core w \<Longrightarrow> pay_part w' = pay_part w"
  by (simp add: core_def pay_part_def)

text \<open>The parts that payments and tasks leave alone.\<close>

definition base :: "world \<Rightarrow> node list \<times> stake_row list \<times> round_row list \<times> participant_row list \<times> int" where
  "base w = (w_nodes w, w_stakes w, fl_part w)"

lemma base_simps [simp]: "base (db_tick w) = base w" "base (counter_inc m ls w) = base w" "base (w\<lparr>w_tasks := x\<rparr>) = base w"
  "base (w\<lparr>w_queue := q\<rparr>) = base w" "base (w\<lparr>w_sent := s\<rparr>) = base w" "base (w\<lparr>w_receipts := r\<rparr>) = base w"
  "base (w\<lparr>w_paid_sats := p\<rparr>) = base w" "base (w\<lparr>w_published := u\<rparr>) = base w"
  by (simp_all add: base_def fl_part_def)

lemma process_base [simp]: "base (process lnc obs d job w) = base w"
proof -
  obtain out w1 where l: "attempt_loop lnc d (payment_request job) [0, 1, 2, 3] w = (out, w1)" by fastforce
  obtain k where "w1 = w\<lparr>w_sent := w_sent w @ replicate k (payment_request job)\<rparr>" using attempt_four [OF l] .
  then show ?thesis unfolding process_def l by (cases out) (simp_all add: db_call_def Let_def)
qed

lemma process_queue [simp]: "w_queue (process lnc obs d job w) = w_queue w"
proof -
  obtain out w1 where l: "attempt_loop lnc d (payment_request job) [0, 1, 2, 3] w = (out, w1)" by fastforce
  obtain k where "w1 = w\<lparr>w_sent := w_sent w @ replicate k (payment_request job)\<rparr>" using attempt_four [OF l] .
  then show ?thesis unfolding process_def l by (cases out) (simp_all add: db_call_def Let_def)
qed

lemma payments_base [simp]: "base (worker lnc obs d w) = base w" "base (Start w) = base w"
  "base (snd (RequeueTimedOut w)) = base w" "base (snd (MarkComplete tid oh w)) = base w"
  "base (snd (enqueue_payment disp tid w)) = base w"
  by (auto simp: worker_def Start_def RequeueTimedOut_def MarkComplete_def task_type_of_def enqueue_payment_def Enqueue_def
      db_call_def split: list.split world_splits)

lemma submitObserverReceipt_base [simp]: "base (submitObserverReceipt E f job p w) = base w"
  by (simp add: submitObserverReceipt_def db_call_def split: option.split sum.split prod.split)

lemma submitObserverReceipt_frame [simp]: "w_queue (submitObserverReceipt E f job p w) = w_queue w"
  "w_sent (submitObserverReceipt E f job p w) = w_sent w"
  by (simp_all add: submitObserverReceipt_def db_call_def split: option.split sum.split prod.split)

lemma submitObserverReceipt_tasks:
  "\<exists>P i. w_tasks (submitObserverReceipt E f job p w) = sql_update P (\<lambda>t. t\<lparr>tk_receipt_id := Some i\<rparr>) (w_tasks w)"
proof -
  have no: "\<exists>P i. w_tasks w = sql_update P (\<lambda>t. t\<lparr>tk_receipt_id := Some i\<rparr>) (w_tasks w)"
    by (rule exI [of _ "\<lambda>_. False"]) (simp add: sql_update_def)
  show ?thesis
    by (simp add: submitObserverReceipt_def db_call_def no split: option.split sum.split prod.split) blast?
qed

subsection \<open>The operations on tasks\<close>

lemma worker_pay_ok:
  assumes "pay_ok A w"
  shows "pay_ok A (worker lnc obs d w)"
proof (cases "w_queue w")
  case Nil
  then show ?thesis using assms by (simp add: worker_def)
next
  case (Cons job q)
  let ?w = "w\<lparr>w_queue := q\<rparr>" and ?w' = "process lnc obs d job (w\<lparr>w_queue := q\<rparr>)"
  obtain out k where s: "w_sent ?w' = w_sent w @ replicate k (payment_request job)"
    and t: "w_tasks ?w' = w_tasks w \<or> (\<exists>p. w_tasks ?w' = mark_paid job p (w_tasks w)) \<or> w_tasks ?w' = mark_failed job (w_tasks w)"
    using process_effect [of lnc job ?w obs d] by auto
  have terms: "task_terms ` set (w_tasks ?w') = task_terms ` set (w_tasks w)"
    using t by (elim disjE exE) (simp_all add: mark_paid_def mark_failed_def)
  have paid: "list_all (task_paid_ok A) (w_tasks ?w')"
    using t assms by (auto simp: pay_ok_def mark_paid_def mark_failed_def task_paid_ok_def intro!: task_paid_ok_update [of A])
  have "tasks_ok (w_tasks ?w')" using process_tasks_ok [of ?w lnc obs d job] assms by (simp add: pay_ok_def)
  moreover have "job_due A (w_tasks ?w') job"
    using assms Cons job_due_mono [of A "w_tasks w" job A "w_tasks ?w'"] terms by (simp add: pay_ok_def)
  moreover have "length q \<le> queueSize" using assms Cons by (simp add: pay_ok_def)
  ultimately have "pay_ok A ?w'"
    using paid terms s Cons by (intro pay_ok_step [OF assms order_refl]) auto
  then show ?thesis by (simp add: worker_def Cons)
qed

lemma receipt_pay_ok:
  assumes "pay_ok A w"
  shows "pay_ok A (submitObserverReceipt E f job p w)"
proof -
  obtain P i where t: "w_tasks (submitObserverReceipt E f job p w) = sql_update P (\<lambda>t. t\<lparr>tk_receipt_id := Some i\<rparr>) (w_tasks w)"
    using submitObserverReceipt_tasks by blast
  have "tasks_ok (w_tasks (submitObserverReceipt E f job p w))"
    using assms submitObserverReceipt_tasks_ok by (simp add: pay_ok_def)
  moreover have "list_all (task_paid_ok A) (w_tasks (submitObserverReceipt E f job p w))"
    unfolding t using assms by (intro task_paid_ok_update [of A]) (simp_all add: pay_ok_def task_paid_ok_def)
  moreover have "task_terms ` set (w_tasks (submitObserverReceipt E f job p w)) = task_terms ` set (w_tasks w)"
    unfolding t by simp
  ultimately show ?thesis using assms by (intro pay_ok_step [OF assms order_refl]) (simp_all add: pay_ok_def)
qed

text \<open>An operation that updates tasks in place, and is not about payments.\<close>

lemma pay_ok_update:
  assumes "pay_ok A w" "tasks_ok (w_tasks w')" "w_tasks w' = w_tasks w \<or> w_tasks w' = sql_update P f (w_tasks w)"
    and "\<And>t. task_terms (f t) = task_terms t" "\<And>t. tk_status (f t) = ''completed'' \<Longrightarrow> tk_id t \<in> B"
    and "w_queue w' = w_queue w" "w_sent w' = w_sent w" "A \<subseteq> B"
  shows "pay_ok B w'"
proof -
  have paid: "list_all (task_paid_ok A) (w_tasks w)" using assms(1) by (simp add: pay_ok_def)
  have f: "task_paid_ok B (f t)" if "task_paid_ok A t" for t
    using that assms(4) [of t] assms(5) [of t] by (auto simp: task_paid_ok_def task_terms_def)
  have "list_all (task_paid_ok B) (w_tasks w')"
    using assms(3) task_paid_ok_mono [OF paid assms(8)] task_paid_ok_update [OF paid assms(8) f] by auto
  then show ?thesis
    using assms(2,3,4,6,7) pay_ok_def [of A w] assms(1) by (intro pay_ok_step [OF assms(1,8)]) auto
qed

lemma RequeueTimedOut_pay_ok:
  assumes "pay_ok A w"
  shows "pay_ok A (snd (RequeueTimedOut w))"
proof (rule pay_ok_update [OF assms])
  show "w_tasks (snd (RequeueTimedOut w)) = w_tasks w \<or> w_tasks (snd (RequeueTimedOut w)) = sql_update (timed_out (w_now w)) requeue (w_tasks w)"
    by (simp add: RequeueTimedOut_def db_call_def)
  show "w_queue (snd (RequeueTimedOut w)) = w_queue w" "w_sent (snd (RequeueTimedOut w)) = w_sent w"
    by (simp_all add: RequeueTimedOut_def db_call_def)
qed (use assms RequeueTimedOut_tasks_ok [of w] in \<open>simp_all add: requeue_def pay_ok_def\<close>)

lemma MarkFailed_frame: "w_queue (snd (MarkFailed E tid nid w)) = w_queue w" "w_sent (snd (MarkFailed E tid nid w)) = w_sent w"
  "w_stakes (snd (MarkFailed E tid nid w)) = w_stakes w" "fl_part (snd (MarkFailed E tid nid w)) = fl_part w"
  "w_tasks (snd (MarkFailed E tid nid w)) = w_tasks w \<or>
   w_tasks (snd (MarkFailed E tid nid w)) = sql_update (\<lambda>t. tk_id t = tid) (\<lambda>t. t\<lparr>tk_status := ''failed'', tk_completed := Some (w_now w)\<rparr>) (w_tasks w)"
  by (simp_all add: MarkFailed_def task_type_of_def db_call_def fl_part_def split: option.split)

lemma MarkFailed_pay_ok:
  assumes "pay_ok A w"
  shows "pay_ok A (snd (MarkFailed E tid nid w))"
  by (rule pay_ok_update [OF assms _ MarkFailed_frame(5) _ _ MarkFailed_frame(1,2)])
    (use assms MarkFailed_tasks_ok [of w E tid nid] in \<open>simp_all add: pay_ok_def\<close>)

lemma MarkFailed_nodes_ok:
  assumes "nodes_ok (w_nodes w)" "numeric_rounds E" "int (length (w_tasks w)) < 2 ^ 63" "int (length (w_heartbeats w)) < 2 ^ 63"
  shows "nodes_ok (w_nodes (snd (MarkFailed E tid nid w)))"
  using assms UpdateReliability_nodes_ok [OF _ assms(2)]
  by (auto simp: MarkFailed_def task_type_of_def db_call_def split: option.split)

lemma Start_pay_ok:
  assumes "pay_ok A w"
  shows "pay_ok A (Start w)"
proof -
  have q: "length (w_queue w) \<le> queueSize" using assms by (simp add: pay_ok_def)
  have t: "w_tasks (Start w) = w_tasks w" "w_sent (Start w) = w_sent w" by (simp_all add: Start_def db_call_def)
  have due: "job_due A (w_tasks w) j" if "t \<in> set (w_tasks w)" "tk_status t = ''completed''" "recovery_job t = Some j" for t j
    using that assms by (auto simp: pay_ok_def job_due_def recovery_job_def task_job_def task_paid_ok_def list_all_iff)
  have "j \<in> set (w_queue w) \<or> job_due A (w_tasks w) j" if "j \<in> set (w_queue (Start w))" for j
    using that due unfolding Start_queue [OF q]
    by (auto simp: List.map_filter_def sql_select_def split: if_splits dest!: in_set_takeD set_takeWhileD)
  then show ?thesis
    using assms t Start_queue [OF q] by (intro pay_ok_step [OF assms order_refl]) (auto simp: pay_ok_def)
qed

lemma computeReward_range:
  assumes "computeReward nd tt w = (k, w')" "stakes_ok (w_stakes w)"
  shows "0 \<le> k \<and> k \<le> 800"
proof -
  have r: "0 \<le> reward_of (Tier nd) tt b \<and> reward_of (Tier nd) tt b \<le> 800" if "bonus_ok b" for b
    using that reward_of_range by (auto elim: bonus_okE)
  have one: "0 \<le> reward_of (Tier nd) tt (Fin 1)" "reward_of (Tier nd) tt (Fin 1) \<le> 800" using r [of "Fin 1"] by (simp_all add: bonus_ok_def)
  have "bonus_ok (st_bonus s)" if "lookup st_node i (w_stakes w) = Some s" for i s
    using that assms(2) lookup_Some by (fastforce simp: stakes_ok_def list_all_iff)
  note st = r [OF this]
  show ?thesis using assms(1) one
    by (auto simp: computeReward_def db_call_def split: if_splits option.splits dest: st)
qed

lemma persistAssignment_world:
  "persistAssignment E redis a ih w = (r, w') \<Longrightarrow> base w' = base w \<and> w_queue w' = w_queue w \<and> w_sent w' = w_sent w \<and>
   (w_tasks w' = w_tasks w \<or> r = Inr () \<and> w_tasks w' = sql_insert (assignment_row a ih (w_now w)) (w_tasks w))"
  by (auto simp: persistAssignment_def insert_task_def db_call_def Let_def base_def fl_part_def split: if_splits)

lemma Schedule_effect:
  assumes "Schedule E rng redis fresh tt ih tmo w = (r, w')"
  shows "base w' = base w \<and> w_queue w' = w_queue w \<and> w_sent w' = w_sent w \<and>
    (w_tasks w' = w_tasks w \<or> (\<exists>a. w_tasks w' = sql_insert (assignment_row a ih (w_now w)) (w_tasks w) \<and>
       (stakes_ok (w_stakes w) \<longrightarrow> 0 \<le> a_RewardSats a \<and> a_RewardSats a \<le> 800)))"
proof -
  obtain ns w1 where l: "ListActive w = (ns, w1)" by fastforce
  then have w1: "w1 = db_tick w" by (auto simp: ListActive_def db_call_def split: if_splits)
  show ?thesis
  proof (cases "\<exists>rows nd. ns = Inr rows \<and> selectNode rng (filterEligible rows tt (taskMinTier tt)) = Some nd")
    case False
    with assms l w1 show ?thesis
      by (cases ns) (auto simp: Schedule_def schedule_over_def simp del: selectNode_None split: option.splits)
  next
    case True
    then obtain rows nd where nd: "ns = Inr rows" "selectNode rng (filterEligible rows tt (taskMinTier tt)) = Some nd" by blast
    obtain k w2 where k: "computeReward nd tt w1 = (k, w2)" by fastforce
    have w2: "base w2 = base w" "w_queue w2 = w_queue w" "w_sent w2 = w_sent w" "w_tasks w2 = w_tasks w" "w_now w2 = w_now w"
      using computeReward_world [OF k] w1 by auto
    let ?a = "\<lparr>a_TaskID = fresh, a_NodeID = NodeID nd, a_NodeLNURI = LNNodeURI nd, a_TaskType = tt, a_RewardSats = k,
      a_TimeoutSecs = tmo, a_AssignedAt = w_now w2\<rparr>"
    obtain p w3 where p: "persistAssignment E redis ?a ih w2 = (p, w3)" by fastforce
    have "w' = w3" using assms l nd k p by (cases p) (auto simp: Schedule_def schedule_over_def Let_def)
    moreover have "stakes_ok (w_stakes w) \<longrightarrow> 0 \<le> a_RewardSats ?a \<and> a_RewardSats ?a \<le> 800"
      using computeReward_range [OF k] w1 by simp
    ultimately show ?thesis using persistAssignment_world [OF p] w2 by auto
  qed
qed

lemma Schedule_pay_ok:
  assumes "pay_ok A w" "stakes_ok (w_stakes w)"
  shows "pay_ok A (snd (Schedule E rng redis fresh tt ih tmo w))"
proof -
  obtain r w' where s: "Schedule E rng redis fresh tt ih tmo w = (r, w')" by fastforce
  note e = Schedule_effect [OF s]
  have "list_all (task_paid_ok A) (w_tasks w')" "task_terms ` set (w_tasks w) \<subseteq> task_terms ` set (w_tasks w')"
    using e assms by (auto simp: pay_ok_def sql_insert_def task_paid_ok_def assignment_row_def)
  then show ?thesis
    using assms(1) e Schedule_tasks_ok [of w E rng redis fresh tt ih tmo] s
    by (intro pay_ok_step [OF assms(1) order_refl]) (auto simp: pay_ok_def)
qed

text \<open>The result of a task.\<close>

lemma accept_result_world:
  assumes "accept_result S req tid nid w = (res, w')"
  shows "w_sent w' = w_sent w \<and> w_stakes w' = w_stakes w \<and> fl_part w' = fl_part w \<and>
    (numeric_rounds (sv_ext S) \<longrightarrow> nodes_ok (w_nodes w) \<longrightarrow> int (length (w_tasks w)) < 2 ^ 63 \<longrightarrow>
     int (length (w_heartbeats w)) < 2 ^ 63 \<longrightarrow> nodes_ok (w_nodes w'))"
proof -
  obtain r w1 where m: "MarkComplete tid (hex_EncodeToString (tr_OutputHash req)) w = (r, w1)" by fastforce
  note f = MarkComplete_frame [of tid "hex_EncodeToString (tr_OutputHash req)" w, unfolded m snd_conv]
  have len: "length (w_tasks w1) = length (w_tasks w)"
    using MarkComplete_tasks [of tid "hex_EncodeToString (tr_OutputHash req)" w] m by (auto simp: complete_task_def)
  show ?thesis
  proof (cases r)
    case (Inl e)
    with assms m f show ?thesis by (simp add: accept_result_def fl_part_def)
  next
    case (Inr u)
    let ?w2 = "snd (UpdateReliability (sv_ext S) nid True w1)"
    have w': "w' = counter_inc ''owm_task_duration_seconds_count'' [] (snd (enqueue_payment (sv_disp S) tid ?w2))"
      using assms m Inr by (auto simp: accept_result_def Let_def split: prod.splits)
    show ?thesis unfolding w' using f len UpdateReliability_nodes_ok [of w1 "sv_ext S" nid True]
      by (simp add: fl_part_def)
  qed
qed

lemma accept_result_pay_ok:
  assumes "accept_result S req tid nid w = (res, w')" "pay_ok A w"
  shows "pay_ok (insert tid A) w'"
proof -
  note e = accept_result_effect [OF assms(1)]
  have paid: "list_all (task_paid_ok A) (w_tasks w)" and ok: "tasks_ok (w_tasks w)" using assms(2) by (simp_all add: pay_ok_def)
  have c: "tasks_ok (complete_task tid oh now (w_tasks w))" for oh now
    unfolding complete_task_def by (rule tasks_ok_update [OF ok]) (simp_all add: task_ok_def task_statuses_def)
  have "list_all (task_paid_ok (insert tid A)) (complete_task tid oh now (w_tasks w))" for oh now
    unfolding complete_task_def by (rule task_paid_ok_update [OF paid]) (auto simp: task_paid_ok_def)
  moreover have "task_terms ` set (complete_task tid oh now (w_tasks w)) = task_terms ` set (w_tasks w)" for oh now
    unfolding complete_task_def by simp
  moreover have "list_all (task_paid_ok (insert tid A)) (w_tasks w)" using task_paid_ok_mono [OF paid] by blast
  ultimately have t: "tasks_ok (w_tasks w')" "list_all (task_paid_ok (insert tid A)) (w_tasks w')"
    "task_terms ` set (w_tasks w') = task_terms ` set (w_tasks w)" using e(1) c ok unfolding insert_iff by (elim disjE emptyE; simp)+
  have due: "job_due (insert tid A) (w_tasks w') (task_job t uri)" if "lookup tk_id tid (w_tasks w') = Some t" "tk_ln_uri t = Some uri" for t uri
    using lookup_Some [OF that(1)] that(2) by (auto simp: job_due_def task_job_def)
  have len: "length (w_queue w) \<le> queueSize" using assms(2) by (simp add: pay_ok_def)
  show ?thesis
  proof (rule pay_ok_step [OF assms(2) _ t(1,2)])
    show "task_terms ` set (w_tasks w) \<subseteq> task_terms ` set (w_tasks w')" using t(3) by simp
    show "length (w_queue w') \<le> queueSize" using e(2) len by (auto simp: enqueue_job_def)
    fix j assume "j \<in> set (w_queue w')"
    then show "j \<in> set (w_queue w) \<or> job_due (insert tid A) (w_tasks w') j"
      using e(2) due by (auto simp: enqueue_job_def split: if_splits)
  qed (use accept_result_world [OF assms(1)] in auto)
qed

section \<open>The transition system\<close>

text \<open>
  The calls that reach the coordinator: its handlers, its workers and tickers, and the
  operations of its packages that no part of the program calls yet. Whatever answers from
  outside during a step is part of the event: the Lightning node (a \<open>Client\<close>), the codec and
  the object store (\<open>fl_env\<close>), the calendars, the receipt registry, new identifiers.
\<close>

datatype co_event =
  RegisterNode_ev Client uuid RegisterNodeRequest
| Heartbeat_ev HeartbeatRequest
| DeregisterNode_ev DeregisterNodeRequest
| SubmitGradient_ev "string \<Rightarrow> string option" GradientUpdate
| GetCurrentModel_ev model_rows GetModelRequest
| ListModelVersions_ev model_rows ListModelsRequest
| GetStakeStatus_ev GetStakeRequest
| GetNodeStatus_ev string
| Worker_ev Client "nat \<Rightarrow> bool"
| Receipt_ev nat "(Receipt \<Rightarrow> string result) option"
| Stamp_ev nat fl_env "string \<Rightarrow> bytes \<Rightarrow> (nat \<times> string \<times> bytes) result" "string list"
| Requeue_ev
| Reverify_ev Client
| CloseExpired_ev fl_env
| Schedule_ev "nat \<Rightarrow> flt" "bool option" uuid string string int
| MarkFailed_ev uuid uuid
| OpenRound_ev string
| TryAggregate_ev fl_env int
| Signal_ev Client uuid uuid string string string
| Slash_ev Client uuid uuid string string string int

definition drop_nth :: "nat \<Rightarrow> 'a list \<Rightarrow> 'a list" where
  "drop_nth i xs = take i xs @ drop (Suc i) xs"

definition server_with :: "ext \<Rightarrow> coordinator \<Rightarrow> Client \<Rightarrow> Server_rpc" where
  "server_with E co lnc = rpc_server E (co\<lparr>co_lnReadonly := lnc\<rparr>)"

fun co_exec :: "ext \<Rightarrow> coordinator \<Rightarrow> co_event \<Rightarrow> world \<Rightarrow> world" where
  "co_exec E co (RegisterNode_ev lnc fresh req) w = snd (RegisterNode (server_with E co lnc) fresh req w)"
| "co_exec E co (Heartbeat_ev req) w = snd (Heartbeat (rpc_server E co) req w)"
| "co_exec E co (DeregisterNode_ev req) w = snd (DeregisterNode (rpc_server E co) req w)"
| "co_exec E co (SubmitGradient_ev url_Path grad) w = snd (SubmitGradient_rpc (rpc_server E co) url_Path grad w)"
| "co_exec E co (GetCurrentModel_ev stored req) w = snd (GetCurrentModel stored req w)"
| "co_exec E co (ListModelVersions_ev stored req) w = snd (ListModelVersions stored req w)"
| "co_exec E co (GetStakeStatus_ev req) w = snd (GetStakeStatus (rpc_server E co) req w)"
| "co_exec E co (GetNodeStatus_ev pk) w = snd (handleGetNodeStatus E pk w)"
| "co_exec E co (Worker_ev lnc ctx_done) w = worker lnc (sends_receipts (dispatcher co)) ctx_done w"
| "co_exec E co (Receipt_ev i submit) w = (if i < length (w_receipts w)
     then case w_receipts w ! i of (job, preimage) \<Rightarrow>
       submitObserverReceipt E submit job preimage (w\<lparr>w_receipts := drop_nth i (w_receipts w)\<rparr>) else w)"
| "co_exec E co (Stamp_ev i M post order) w = (if i < length (w_stamps w)
     then case w_stamps w ! i of (h, rn) \<Rightarrow>
       stampOTS M post order (co_fl co) h rn (w\<lparr>w_stamps := drop_nth i (w_stamps w)\<rparr>) else w)"
| "co_exec E co Requeue_ev w = snd (RequeueTimedOut w)"
| "co_exec E co (Reverify_ev lnc) w = snd (VerifyAllActive E (Some lnc) w)"
| "co_exec E co (CloseExpired_ev M) w = snd (CloseExpired E M (co_fl co) w)"
| "co_exec E co (Schedule_ev rng redis fresh tt ih tmo) w = snd (Schedule E rng redis fresh tt ih tmo w)"
| "co_exec E co (MarkFailed_ev tid nid) w = snd (MarkFailed E tid nid w)"
| "co_exec E co (OpenRound_ev v) w = snd (OpenRound v w)"
| "co_exec E co (TryAggregate_ev M rn) w = snd (TryAggregate E M (co_fl co) rn w)"
| "co_exec E co (Signal_ev lnc ev nid tier ty evid) w = snd (RecordMisbehaviorSignal (co_slash co) (Some lnc) ev nid tier ty evid w)"
| "co_exec E co (Slash_ev lnc ev nid tier reason evid k) w = snd (Slash (co_slash co) (Some lnc) ev nid tier reason evid k w)"

text \<open>What the types and the memory of the code ensure: capacities, balances and the sizes of the tables are 64-bit integers.\<close>

definition sizes_fit :: "world \<Rightarrow> bool" where
  "sizes_fit w \<longleftrightarrow> int (length (w_tasks w)) < 2 ^ 63 \<and> int (length (w_heartbeats w)) < 2 ^ 63"

fun admissible :: "co_event \<Rightarrow> world \<Rightarrow> bool" where
  "admissible (RegisterNode_ev lnc _ _) w = typed_client lnc"
| "admissible (Reverify_ev lnc) w = typed_client lnc"
| "admissible (MarkFailed_ev _ _) w = sizes_fit w"
| "admissible _ w = True"

text \<open>A restart loses what the process held in memory, and starts the dispatcher again.\<close>

definition lose_memory :: "world \<Rightarrow> world" where
  "lose_memory w = w\<lparr>w_queue := [], w_receipts := [], w_stamps := [], w_gauge := (\<lambda>_ _. 0), w_counters := (\<lambda>_. 0), w_paid_sats := 0\<rparr>"

text \<open>
  The state of the system with the set of the tasks for which an authentic result arrived. A
  result is authentic or it is not; the clock does not run backwards; the database calls that
  fail are chosen anew at any time.
\<close>

inductive co_step :: "ext \<Rightarrow> coordinator \<Rightarrow> uuid set \<times> world \<Rightarrow> uuid set \<times> world \<Rightarrow> bool" for E co where
  call: "admissible ev w \<Longrightarrow> co_step E co (A, w) (A, co_exec E co ev w)"
| result: "result_authentic (rpc_server E co) req w tid nid \<Longrightarrow> sizes_fit w \<Longrightarrow>
    co_step E co (A, w) (insert tid A, snd (SubmitTaskResult (rpc_server E co) req w))"
| forged: "\<nexists>tid nid. result_authentic (rpc_server E co) req w tid nid \<Longrightarrow> sizes_fit w \<Longrightarrow>
    co_step E co (A, w) (A, snd (SubmitTaskResult (rpc_server E co) req w))"
| clock: "w_now w \<le> t \<Longrightarrow> co_step E co (A, w) (A, w\<lparr>w_now := t\<rparr>)"
| faults: "co_step E co (A, w) (A, w\<lparr>w_faults := fs\<rparr>)"
| restart: "co_step E co (A, w) (A, Start (lose_memory w))"

inductive_cases co_stepE: "co_step E co s t"

definition co_start :: "ext \<Rightarrow> uuid set \<times> world \<Rightarrow> bool" where
  "co_start E s \<longleftrightarrow> numeric_rounds E \<and> (\<exists>now. s = ({}, empty_world now))"

section \<open>The invariant\<close>

definition sys_ok :: "ext \<Rightarrow> uuid set \<times> world \<Rightarrow> bool" where
  "sys_ok E s \<longleftrightarrow> numeric_rounds E \<and> nodes_ok (w_nodes (snd s)) \<and> stakes_ok (w_stakes (snd s)) \<and> fl_ok (snd s) \<and> pay_ok (fst s) (snd s)"

lemma server_simps [simp]: "sv_lnReadonly (server_with E co lnc) = Some lnc" "sv_ext (server_with E co lnc) = E"
  by (simp_all add: server_with_def)

text \<open>Steps of the three kinds: about nodes and stakes, about rounds, about tasks.\<close>

lemma fl_ok_cong: "fl_part w' = fl_part w \<Longrightarrow> fl_ok w' = fl_ok w"
  by (simp add: fl_part_def fl_ok_def)

lemma sys_ok_nodes:
  assumes "sys_ok E (A, w)" "side w' = side w" "nodes_ok (w_nodes w')" "stakes_ok (w_stakes w')"
  shows "sys_ok E (A, w')"
  using assms pay_ok_cong [OF side_pay [OF assms(2)]] fl_ok_cong [of w' w] by (simp add: sys_ok_def side_def)

lemma sys_ok_rounds:
  assumes "sys_ok E (A, w)" "core w' = core w" "fl_ok w'"
  shows "sys_ok E (A, w')"
  using assms pay_ok_cong [OF core_pay [OF assms(2)]] by (simp add: sys_ok_def core_def)

lemma sys_ok_tasks:
  assumes "sys_ok E (A, w)" "base w' = base w" "pay_ok B w'"
  shows "sys_ok E (B, w')"
  using assms fl_ok_cong [of w' w] by (simp add: sys_ok_def base_def)

text \<open>The read endpoints change nothing but the schedule of failures.\<close>

definition ticked :: "world \<Rightarrow> world \<Rightarrow> bool" where
  "ticked w w' \<longleftrightarrow> (\<exists>fs. w' = w\<lparr>w_faults := fs\<rparr>)"

lemma ticked_simps [simp]: "ticked w w" "ticked w (db_tick w)" "ticked w (db_tick (db_tick w))"
proof -
  show "ticked w w" unfolding ticked_def by (rule exI [of _ "w_faults w"]) simp
  show "ticked w (db_tick w)" "ticked w (db_tick (db_tick w))" by (auto simp: ticked_def db_tick_def)
qed

lemma query_models_ticked: "query_models stored l off w = (r, w') \<Longrightarrow> w' = db_tick w"
  by (auto simp: query_models_def db_call_def split: if_splits)

lemma reads_ticked: "ticked w (snd (GetCurrentModel stored gm w))" "ticked w (snd (ListModelVersions stored lm w))"
  "ticked w (snd (GetStakeStatus S gk w))" "ticked w (snd (handleGetNodeStatus E pk w))"
proof -
  show "ticked w (snd (GetCurrentModel stored gm w))"
    by (auto simp: GetCurrentModel_def split: sum.split list.split option.split prod.split dest!: query_models_ticked)
  show "ticked w (snd (ListModelVersions stored lm w))"
    by (auto simp: ListModelVersions_def db_call_def Let_def split: sum.split prod.split dest!: query_models_ticked)
  show "ticked w (snd (GetStakeStatus S gk w))"
    by (simp add: GetStakeStatus_def scan_tier_def db_call_def split: option.split)
  show "ticked w (snd (handleGetNodeStatus E pk w))"
    by (simp add: handleGetNodeStatus_def db_call_def split: option.split)
qed

lemma sys_ok_ticked: "sys_ok E (A, w) \<Longrightarrow> ticked w w' \<Longrightarrow> sys_ok E (A, w')"
  by (auto simp: ticked_def sys_ok_def fl_ok_def pay_ok_def)

lemma sys_okD: "sys_ok E (A, w) \<Longrightarrow> numeric_rounds E \<and> nodes_ok (w_nodes w) \<and> stakes_ok (w_stakes w) \<and> fl_ok w \<and> pay_ok A w"
  by (simp add: sys_ok_def)

lemma sys_ok_memory [simp]: "sys_ok E (A, w\<lparr>w_receipts := r\<rparr>) = sys_ok E (A, w)" "sys_ok E (A, w\<lparr>w_stamps := z\<rparr>) = sys_ok E (A, w)"
  "sys_ok E (A, w\<lparr>w_now := t\<rparr>) = sys_ok E (A, w)" "sys_ok E (A, w\<lparr>w_faults := fs\<rparr>) = sys_ok E (A, w)"
  by (simp_all add: sys_ok_def fl_ok_def pay_ok_def)

lemma sys_ok_call_nodes:
  assumes "sys_ok E (A, w)"
  shows "typed_client lnc \<Longrightarrow> sys_ok E (A, snd (RegisterNode (server_with E co lnc) fresh req w))"
    "typed_client lnc \<Longrightarrow> sys_ok E (A, snd (VerifyAllActive E (Some lnc) w))"
    "sys_ok E (A, snd (Heartbeat S hb w))" "sys_ok E (A, snd (DeregisterNode S dr w))"
    "sys_ok E (A, snd (RecordMisbehaviorSignal cfg l ev nid tier ty evid w))"
    "sys_ok E (A, snd (Slash cfg l ev nid tier ty evid k w))"
proof -
  note ok = sys_okD [OF assms]
  show "sys_ok E (A, snd (RegisterNode (server_with E co lnc) fresh req w))" if "typed_client lnc"
    using ok RegisterNode_ok [of "server_with E co lnc" lnc w fresh req] that by (intro sys_ok_nodes [OF assms]) simp_all
  show "sys_ok E (A, snd (VerifyAllActive E (Some lnc) w))" if "typed_client lnc"
    using ok VerifyAllActive_ok [OF that, of E w] by (intro sys_ok_nodes [OF assms]) simp_all
  show "sys_ok E (A, snd (Heartbeat S hb w))" "sys_ok E (A, snd (DeregisterNode S dr w))"
    "sys_ok E (A, snd (RecordMisbehaviorSignal cfg l ev nid tier ty evid w))"
    "sys_ok E (A, snd (Slash cfg l ev nid tier ty evid k w))"
    using ok by (intro sys_ok_nodes [OF assms]; simp add: Heartbeat_ok DeregisterNode_ok RecordMisbehaviorSignal_ok Slash_ok)+
qed

lemma core_snd: "(\<And>r w'. x = (r, w') \<Longrightarrow> core w' = core w) \<Longrightarrow> core (snd x) = core w"
  by (cases x) simp

lemma sys_ok_call_rounds:
  assumes "sys_ok E (A, w)"
  shows "sys_ok E (A, snd (SubmitGradient_rpc S up grad w))" "sys_ok E (A, snd (CloseExpired E M orc w))"
    "sys_ok E (A, snd (OpenRound v w))" "sys_ok E (A, snd (TryAggregate E M orc rn w))"
    "sys_ok E (A, stampOTS M post order orc h rn w)"
proof -
  note ok = sys_okD [OF assms]
  have "sys_ok E (A, snd (SubmitGradient sub w))" for sub
    using ok SubmitGradient_core by (intro sys_ok_rounds [OF assms]) (auto intro: core_snd wf_intros)
  then show "sys_ok E (A, snd (SubmitGradient_rpc S up grad w))"
    using assms SubmitGradient_rpc_cases [of S up grad w] by auto
  show "sys_ok E (A, snd (CloseExpired E M orc w))"
    using ok CloseExpired_core CloseExpired_fl_ok by (intro sys_ok_rounds [OF assms]) (auto intro: core_snd)
  show "sys_ok E (A, snd (OpenRound v w))"
    using ok OpenRound_core by (intro sys_ok_rounds [OF assms]) (auto intro: core_snd wf_intros)
  show "sys_ok E (A, snd (TryAggregate E M orc rn w))"
    using ok TryAggregate_core by (intro sys_ok_rounds [OF assms]) (auto intro: core_snd wf_intros)
  show "sys_ok E (A, stampOTS M post order orc h rn w)"
    using ok by (intro sys_ok_rounds [OF assms]) (simp_all add: stampOTS_fl_ok)
qed

lemma sys_ok_call_tasks:
  assumes "sys_ok E (A, w)"
  shows "sys_ok E (A, worker lnc obs d w)" "sys_ok E (A, submitObserverReceipt E f job p w)"
    "sys_ok E (A, snd (RequeueTimedOut w))" "sys_ok E (A, snd (Schedule E rng redis fresh tt ih tmo w))"
    "sizes_fit w \<Longrightarrow> sys_ok E (A, snd (MarkFailed E tid nid w))"
proof -
  note ok = sys_okD [OF assms]
  show "sys_ok E (A, worker lnc obs d w)" "sys_ok E (A, submitObserverReceipt E f job p w)" "sys_ok E (A, snd (RequeueTimedOut w))"
    using ok by (intro sys_ok_tasks [OF assms]; simp add: worker_pay_ok receipt_pay_ok RequeueTimedOut_pay_ok)+
  show "sys_ok E (A, snd (Schedule E rng redis fresh tt ih tmo w))"
    using ok Schedule_effect [of E rng redis fresh tt ih tmo w] Schedule_pay_ok [of A w E rng redis fresh tt ih tmo]
    by (cases "Schedule E rng redis fresh tt ih tmo w") (auto intro: sys_ok_tasks [OF assms])
  show "sys_ok E (A, snd (MarkFailed E tid nid w))" if "sizes_fit w"
    using ok that MarkFailed_frame [of E tid nid w] MarkFailed_nodes_ok [of w E tid nid] MarkFailed_pay_ok [of A w E tid nid]
      fl_ok_cong [of "snd (MarkFailed E tid nid w)" w]
    by (simp add: sys_ok_def sizes_fit_def)
qed

lemma sys_ok_call: "admissible ev w \<Longrightarrow> sys_ok E (A, w) \<Longrightarrow> sys_ok E (A, co_exec E co ev w)"
  by (cases ev) (auto simp: sys_ok_call_nodes sys_ok_call_rounds sys_ok_call_tasks intro: sys_ok_ticked reads_ticked
      split: prod.split)

text \<open>A result.\<close>

lemma sys_ok_result:
  assumes "result_authentic (rpc_server E co) req w tid nid" "sizes_fit w" "sys_ok E (A, w)"
  shows "sys_ok E (insert tid A, snd (SubmitTaskResult (rpc_server E co) req w))"
proof (cases "db_down w")
  case True
  have "sys_ok E (insert tid A, w)"
    using sys_okD [OF assms(3)] task_paid_ok_mono [of A "w_tasks w" "insert tid A"] pay_ok_step [of A w "insert tid A" w]
    by (auto simp: sys_ok_def pay_ok_def)
  then show ?thesis using SubmitTaskResult_authentic [OF assms(1)] True sys_ok_ticked by simp
next
  case False
  obtain res w' where a: "accept_result (rpc_server E co) req tid nid (db_tick w) = (res, w')" by fastforce
  have t: "sys_ok E (A, db_tick w)" using sys_ok_ticked [OF assms(3)] by simp
  note ok = sys_okD [OF t]
  have "sys_ok E (insert tid A, w')"
    using accept_result_pay_ok [OF a] accept_result_world [OF a] ok assms(2) fl_ok_cong [of w' "db_tick w"]
    by (simp add: sys_ok_def sizes_fit_def)
  then show ?thesis using SubmitTaskResult_authentic [OF assms(1)] False a by simp
qed

lemma sys_ok_forged:
  assumes "\<nexists>tid nid. result_authentic (rpc_server E co) req w tid nid" "sizes_fit w" "sys_ok E (A, w)"
  shows "sys_ok E (A, snd (SubmitTaskResult (rpc_server E co) req w))"
proof -
  have t: "sys_ok E (A, db_tick w)" using sys_ok_ticked [OF assms(3)] by simp
  have "sys_ok E (A, snd (UpdateReliability E nid False (db_tick w)))" for nid
    using sys_okD [OF t] assms(2) UpdateReliability_nodes_ok [of "db_tick w" E nid False]
    by (intro sys_ok_nodes [OF t]) (simp_all add: sizes_fit_def)
  then show ?thesis using SubmitTaskResult_refused [OF assms(1)] assms(3) t by auto
qed

lemma sys_ok_restart: "sys_ok E (A, w) \<Longrightarrow> sys_ok E (A, Start (lose_memory w))"
proof -
  assume "sys_ok E (A, w)"
  then have l: "sys_ok E (A, lose_memory w)" by (simp add: sys_ok_def lose_memory_def fl_ok_def pay_ok_def)
  then show ?thesis using sys_okD [OF l] by (intro sys_ok_tasks [OF l]) (simp_all add: Start_pay_ok)
qed

lemma sys_ok_step: "co_step E co s t \<Longrightarrow> sys_ok E s \<Longrightarrow> sys_ok E t"
proof (induction rule: co_step.induct)
  case (call ev w A)
  then show ?case by (rule sys_ok_call)
next
  case (result req w tid nid A)
  then show ?case by (rule sys_ok_result)
next
  case (forged req w A)
  then show ?case by (rule sys_ok_forged)
next
  case (restart A w)
  then show ?case by (rule sys_ok_restart)
qed simp_all

lemma sys_ok_start: "co_start E s \<Longrightarrow> sys_ok E s"
  by (auto simp: co_start_def sys_ok_def empty_world_def nodes_ok_def stakes_ok_def fl_ok_def pay_ok_def tasks_ok_def)

interpretation coord: transition_system "co_start E" "co_step E co" "sys_ok E" for E co
  by unfold_locales (fact sys_ok_start, fact sys_ok_step)

section \<open>The metrics\<close>

lemma counters_ok_ticked: "ticked w w' \<Longrightarrow> counters_ok w' = counters_ok w"
  by (auto simp: ticked_def)

lemma SubmitGradient_rpc_counters [simp]: "counters_ok w \<Longrightarrow> counters_ok (snd (SubmitGradient_rpc S up grad w))"
  using SubmitGradient_rpc_cases [of S up grad w] by auto

lemma counters_ok_call: "counters_ok w \<Longrightarrow> counters_ok (co_exec E co ev w)"
  by (cases ev) (auto simp: counters_ok_ticked [OF reads_ticked(1)] counters_ok_ticked [OF reads_ticked(2)]
      counters_ok_ticked [OF reads_ticked(3)] counters_ok_ticked [OF reads_ticked(4)]
      dest: TryAggregate_counters [OF prod.collapse [symmetric]] split: prod.split)

lemma counters_ok_step: "co_step E co s t \<Longrightarrow> counters_ok (snd s) \<Longrightarrow> counters_ok (snd t)"
proof (induction rule: co_step.induct)
  case (restart A w)
  have "counters_ok (lose_memory w)" by (simp add: lose_memory_def counters_ok_def)
  then show ?case by simp
qed (simp_all add: counters_ok_call)

lemma counters_ok_start: "co_start E s \<Longrightarrow> counters_ok (snd s)"
  by (auto simp: co_start_def empty_world_def counters_ok_def)

interpretation metered: transition_system "co_start E" "co_step E co" "\<lambda>s. counters_ok (snd s)" for E co
  by unfold_locales (fact counters_ok_start, fact counters_ok_step)

section \<open>Rounds as a machine\<close>

datatype round_phase = Round_open | Round_aggregating | Round_complete string | Round_failed

definition round_phase_of :: "round_row \<Rightarrow> round_phase" where
  "round_phase_of r =
     (if rd_status r = ''open'' then Round_open else if rd_status r = ''aggregating'' then Round_aggregating
      else if rd_status r = ''complete'' then Round_complete (case rd_checkpoint r of None \<Rightarrow> [] | Some h \<Rightarrow> h) else Round_failed)"

definition rounds_of :: "world \<Rightarrow> int \<rightharpoonup> round_phase" where
  "rounds_of w n = map_option round_phase_of (lookup rd_number n (w_rounds w))"

text \<open>The specification: a new round is open, an open round is settled once, and that is all.\<close>

inductive round_step :: "(int \<rightharpoonup> round_phase) \<Rightarrow> (int \<rightharpoonup> round_phase) \<Rightarrow> bool" where
  opened: "m n = None \<Longrightarrow> round_step m (m(n \<mapsto> Round_open))"
| settled: "m n = Some Round_open \<Longrightarrow> p \<noteq> Round_open \<Longrightarrow> round_step m (m(n \<mapsto> p))"

inductive_cases round_stepE: "round_step m m'"

text \<open>
  The order of progress: an open round is below every settled one, settled ones are not
  comparable, and a round that does not exist is below all. Steps only go up.
\<close>

instantiation round_phase :: order_bot
begin

definition less_eq_round_phase :: "round_phase \<Rightarrow> round_phase \<Rightarrow> bool" where
  "less_eq_round_phase p q \<longleftrightarrow> p = Round_open \<or> p = q"

definition less_round_phase :: "round_phase \<Rightarrow> round_phase \<Rightarrow> bool" where
  "less_round_phase p q \<longleftrightarrow> p = Round_open \<and> q \<noteq> Round_open"

definition bot_round_phase :: round_phase where
  "bot_round_phase = Round_open"

instance
  by standard (auto simp: less_eq_round_phase_def less_round_phase_def bot_round_phase_def)

end

lemma round_step_mono: "round_step m m' \<Longrightarrow> m \<le> m'"
  by (erule round_stepE) (auto simp: le_fun_def less_eq_round_phase_def)

lemma round_steps_mono: "round_step\<^sup>*\<^sup>* m m' \<Longrightarrow> m \<le> m'"
  by (induction rule: rtranclp_induct) (auto dest: round_step_mono intro: order_trans)

lemma settled_stays:
  assumes "round_step\<^sup>*\<^sup>* m m'" "m n = Some p" "p \<noteq> Round_open"
  shows "m' n = Some p"
proof -
  have "m n \<le> m' n" using round_steps_mono [OF assms(1)] by (rule le_funD)
  with assms(2,3) show ?thesis by (cases "m' n") (auto simp: less_eq_round_phase_def)
qed

text \<open>An operation that changes only the round \<open>rn\<close>, and does not leave it open.\<close>

definition touches :: "int \<Rightarrow> world \<Rightarrow> world \<Rightarrow> bool" where
  "touches rn w w' \<longleftrightarrow> (\<exists>f. w_rounds w' = sql_update (\<lambda>r. rd_number r = rn) f (w_rounds w) \<and>
     (\<forall>r. rd_number (f r) = rd_number r \<and> rd_status (f r) \<noteq> ''open''))"

lemma touchesI:
  "w_rounds w' = sql_update (\<lambda>r. rd_number r = rn) f (w_rounds w) \<Longrightarrow> (\<And>r. rd_number (f r) = rd_number r) \<Longrightarrow>
   (\<And>r. rd_status (f r) \<noteq> ''open'') \<Longrightarrow> touches rn w w'"
  by (auto simp: touches_def)

lemma touches_trans:
  assumes "touches rn w w1" "touches rn w1 w2"
  shows "touches rn w w2"
proof -
  obtain f g where f: "w_rounds w1 = sql_update (\<lambda>r. rd_number r = rn) f (w_rounds w)" "\<And>r. rd_number (f r) = rd_number r"
    and g: "w_rounds w2 = sql_update (\<lambda>r. rd_number r = rn) g (w_rounds w1)" "\<And>r. rd_number (g r) = rd_number r" "\<And>r. rd_status (g r) \<noteq> ''open''"
    using assms by (auto simp: touches_def)
  have "w_rounds w2 = sql_update (\<lambda>r. rd_number r = rn) (g \<circ> f) (w_rounds w)"
    using f(2) by (auto simp: f(1) g(1) sql_update_def)
  then show ?thesis using f(2) g(2,3) by (auto intro: touchesI)
qed

lemma touches_same: "touches rn w w1 \<Longrightarrow> w_rounds w2 = w_rounds w1 \<Longrightarrow> touches rn w w2"
  "w_rounds w1 = w_rounds w \<Longrightarrow> touches rn w1 w2 \<Longrightarrow> touches rn w w2"
  by (simp_all add: touches_def)

lemma touches_step:
  assumes "touches rn w w'" "rounds_of w rn = Some Round_open"
  shows "round_step (rounds_of w) (rounds_of w') \<and> (\<forall>k. k \<noteq> rn \<longrightarrow> rounds_of w' k = rounds_of w k)"
proof -
  obtain f where f: "w_rounds w' = sql_update (\<lambda>r. rd_number r = rn) f (w_rounds w)" "\<And>r. rd_number (f r) = rd_number r"
    "\<And>r. rd_status (f r) \<noteq> ''open''" using assms(1) by (auto simp: touches_def)
  obtain r where r: "lookup rd_number rn (w_rounds w) = Some r" using assms(2) by (auto simp: rounds_of_def)
  have o: "rounds_of w' k = rounds_of w k" if "k \<noteq> rn" for k
    using that f(2) by (cases "lookup rd_number k (w_rounds w)") (auto simp: rounds_of_def f(1) lookup_update dest: lookup_Some)
  moreover have "rounds_of w' rn = Some (round_phase_of (f r))"
    using f(2) r lookup_Some [OF r] by (simp add: rounds_of_def f(1) lookup_update)
  ultimately have "rounds_of w' = (rounds_of w)(rn \<mapsto> round_phase_of (f r))" by auto
  moreover have "round_phase_of (f r) \<noteq> Round_open" using f(3) by (auto simp: round_phase_of_def)
  ultimately show ?thesis using round_step.settled [of "rounds_of w" rn] assms(2) o by auto
qed

lemma failRound_touches: "w_rounds (snd (failRound rn w)) = w_rounds w \<or> touches rn w (snd (failRound rn w))"
  by (auto simp: failRound_def db_call_def intro!: touchesI [of _ _ "\<lambda>r. r\<lparr>rd_status := ''failed''\<rparr>"])

lemma completeRound_touches: "completeRound rn h w = (Inr (), w') \<Longrightarrow> touches rn w w'"
  by (auto dest!: completeRound_ok intro!: touchesI)

lemma aggregate_touches:
  assumes "aggregate E M orc rid rn cnt w = (res, w')"
  shows "w_rounds w' = w_rounds w \<or> touches rn w w'"
  using assms
proof (cases rule: aggregate_cases)
  case (failed e w1)
  then show ?thesis using failRound_touches [of rn w1] touches_same(2) [of w1 w rn w'] by (auto simp: same_rounds_def)
next
  case (stuck e h w1)
  then show ?thesis using completeRound_fail [OF stuck(2)] by (simp add: same_rounds_def)
next
  case (finished h n w1 w2)
  have "w_rounds w1 = w_rounds w" using finished(1) by (simp add: same_rounds_def)
  then have "touches rn w w2" by (rule touches_same(2) [OF _ completeRound_touches [OF finished(2)]])
  then show ?thesis using touches_same(1) finished(5) by auto
qed

lemma TryAggregate_touches:
  assumes "TryAggregate E M orc rn w = (res, w')"
  shows "w_rounds w' = w_rounds w \<or> touches rn w w' \<and> (\<exists>r\<in>set (w_rounds w). rd_number r = rn \<and> rd_status r = ''open'')"
  using assms
proof (cases rule: TryAggregate_cases)
  case idle
  then show ?thesis by (simp add: same_rounds_def)
next
  case (ran r wc)
  let ?f = "\<lambda>r. if rd_status r = ''open'' then r\<lparr>rd_status := ''aggregating''\<rparr> else r"
  have "w_rounds wc = sql_update (\<lambda>r. rd_number r = rn) ?f (w_rounds w)"
    unfolding ran(5) by (simp add: sql_update_def)
  then have "touches rn w wc" by (rule touchesI) simp_all
  then show ?thesis using aggregate_touches [OF ran(8)] ran(3) touches_trans touches_same(1) by blast
qed

lemma rounds_of_open:
  assumes "fl_ok w" "r \<in> set (w_rounds w)" "rd_number r = rn" "rd_status r = ''open''"
  shows "rounds_of w rn = Some Round_open"
  using lookup_in [of rd_number "w_rounds w" r] assms by (simp add: fl_ok_def rounds_of_def round_phase_of_def)

lemma rounds_of_cong: "w_rounds w' = w_rounds w \<Longrightarrow> rounds_of w' = rounds_of w"
  by (simp add: rounds_of_def fun_eq_iff)

lemma TryAggregate_refines:
  "fl_ok w \<Longrightarrow> round_step\<^sup>*\<^sup>* (rounds_of w) (rounds_of (snd (TryAggregate E M orc rn w)))"
proof -
  assume ok: "fl_ok w"
  obtain res w' where t: "TryAggregate E M orc rn w = (res, w')" by fastforce
  from TryAggregate_touches [OF t] show ?thesis
  proof (elim disjE conjE bexE)
    fix r assume "touches rn w w'" "r \<in> set (w_rounds w)" "rd_number r = rn" "rd_status r = ''open''"
    then show ?thesis using touches_step [of rn w w'] rounds_of_open [OF ok] t by auto
  qed (use t rounds_of_cong [of w' w] in simp)
qed

lemma close_round_touches: "w_rounds (snd (close_round E M orc st rn)) = w_rounds (snd st) \<or> touches rn (snd st) (snd (close_round E M orc st rn))"
proof -
  obtain n w where st: "st = (n, w)" by fastforce
  obtain res w1 where t: "TryAggregate E M orc rn w = (res, w1)" by fastforce
  have "snd (close_round E M orc st rn) \<in> {w1, snd (failRound rn w1)}"
    by (auto simp: close_round_def st t split: sum.splits option.splits)
  then show ?thesis
    using TryAggregate_touches [OF t] failRound_touches [of rn w1] touches_trans [of rn w w1] touches_same [where rn = rn] st
    by (metis empty_iff insert_iff snd_conv)
qed

lemma close_loop_refines:
  assumes "distinct rns" "\<And>rn. rn \<in> set rns \<Longrightarrow> rounds_of (snd st) rn = Some Round_open"
  shows "round_step\<^sup>*\<^sup>* (rounds_of (snd st)) (rounds_of (snd (foldl (close_round E M orc) st rns)))"
  using assms
proof (induction rns arbitrary: st)
  case (Cons rn rns)
  let ?st = "close_round E M orc st rn"
  have s: "round_step\<^sup>*\<^sup>* (rounds_of (snd st)) (rounds_of (snd ?st)) \<and> (\<forall>k. k \<noteq> rn \<longrightarrow> rounds_of (snd ?st) k = rounds_of (snd st) k)"
    using close_round_touches [of E M orc st rn] touches_step [of rn "snd st" "snd ?st"] Cons.prems(2) [of rn]
      rounds_of_cong [of "snd ?st" "snd st"] by auto
  have "round_step\<^sup>*\<^sup>* (rounds_of (snd ?st)) (rounds_of (snd (foldl (close_round E M orc) ?st rns)))"
  proof (rule Cons.IH)
    fix k assume "k \<in> set rns"
    then show "rounds_of (snd ?st) k = Some Round_open" using Cons.prems s by (metis distinct.simps(2) list.set_intros(2))
  qed (use Cons.prems(1) in simp)
  then have "round_step\<^sup>*\<^sup>* (rounds_of (snd st)) (rounds_of (snd (foldl (close_round E M orc) ?st rns)))"
    using s by (meson rtranclp_trans)
  then show ?case by simp
qed simp

lemma CloseExpired_refines: "fl_ok w \<Longrightarrow> round_step\<^sup>*\<^sup>* (rounds_of w) (rounds_of (snd (CloseExpired E M orc w)))"
proof -
  assume ok: "fl_ok w"
  let ?rns = "map rd_number (sql_select (expired orc (w_now w)) (w_rounds w))"
  have "distinct ?rns" using ok by (simp add: fl_ok_def keyed_def sql_select_def distinct_map_filter)
  moreover have "rounds_of (db_tick w) rn = Some Round_open" if "rn \<in> set ?rns" for rn
    using that rounds_of_open [OF ok] rounds_of_cong [of "db_tick w" w] by (auto simp: sql_select_def expired_def)
  ultimately have "round_step\<^sup>*\<^sup>* (rounds_of w) (rounds_of (snd (foldl (close_round E M orc) (0, db_tick w) ?rns)))"
    using close_loop_refines [of ?rns "(0, db_tick w)" E M orc] rounds_of_cong [of "db_tick w" w] by simp
  moreover have "rounds_of (snd (CloseExpired E M orc w)) \<in> {rounds_of w, rounds_of (snd (foldl (close_round E M orc) (0, db_tick w) ?rns))}"
    using CloseExpired_world [of E M orc w] rounds_of_cong [of "db_tick w" w] by auto
  ultimately show ?thesis by auto
qed

lemma rounds_of_insert:
  assumes "w_rounds w' = sql_insert r (w_rounds w)" "rounds_of w (rd_number r) = None"
  shows "rounds_of w' = (rounds_of w)(rd_number r \<mapsto> round_phase_of r)"
proof (rule ext)
  fix n
  show "rounds_of w' n = ((rounds_of w)(rd_number r \<mapsto> round_phase_of r)) n"
    using assms(2) by (cases "lookup rd_number n (w_rounds w)") (auto simp: rounds_of_def assms(1) lookup_insert)
qed

lemma rounds_of_update:
  assumes "w_rounds w' = sql_update P f (w_rounds w)" "\<And>r. rd_number (f r) = rd_number r" "\<And>r. round_phase_of (f r) = round_phase_of r"
  shows "rounds_of w' = rounds_of w"
proof (rule ext)
  show "rounds_of w' n = rounds_of w n" for n
    using assms(2,3) by (cases "lookup rd_number n (w_rounds w)") (simp_all add: rounds_of_def assms(1) lookup_update)
qed

lemma OpenRound_rounds:
  assumes "fl_ok w"
  shows "rounds_of (snd (OpenRound v w)) = rounds_of w \<or>
    (\<exists>n. rounds_of w n = None \<and> rounds_of (snd (OpenRound v w)) = (rounds_of w)(n \<mapsto> Round_open))"
proof (cases "db_down w \<or> \<not> in_int32 (w_next_round w)")
  case True
  then have "w_rounds (snd (OpenRound v w)) = w_rounds w" by (auto simp: OpenRound_def db_call_def)
  then show ?thesis using rounds_of_cong [of "snd (OpenRound v w)" w] by simp
next
  case False
  let ?n = "w_next_round w"
  have new: "rounds_of w ?n = None" using assms by (auto simp: rounds_of_def lookup_None fl_ok_def list_all_iff round_ok_def)
  have "rounds_of (snd (OpenRound v w)) = (rounds_of w)(?n \<mapsto> Round_open)"
    using False new rounds_of_insert [of "snd (OpenRound v w)" "\<lparr>rd_id = ?n, rd_number = ?n, rd_status = ''open'', rd_model_version = v,
      rd_checkpoint = None, rd_ots = None, rd_started = w_now w, rd_completed = None\<rparr>" w]
    by (simp add: OpenRound_def db_call_def round_phase_of_def)
  then show ?thesis using new by blast
qed

lemma OpenRound_refines: "fl_ok w \<Longrightarrow> round_step\<^sup>*\<^sup>* (rounds_of w) (rounds_of (snd (OpenRound v w)))"
  using OpenRound_rounds [of w v] round_step.opened by auto

lemma stampOTS_rounds: "rounds_of (stampOTS M post order orc h rn w) = rounds_of w"
proof -
  have ots: "rounds_of (snd (db_exec (\<lambda>w. w\<lparr>w_rounds := sql_update (\<lambda>r. rd_number r = rn) (\<lambda>r. r\<lparr>rd_ots := Some k\<rparr>) (w_rounds w)\<rparr>) v)) = rounds_of v" for k v
    using rounds_of_cong [of "db_tick v" v]
    by (cases "db_down v") (auto simp: db_call_def round_phase_of_def intro!: rounds_of_update)
  have put: "rounds_of (snd (PutObject ok k d w)) = rounds_of w" for ok k d by (simp add: rounds_of_def fun_eq_iff)
  show ?thesis unfolding stampOTS_def Let_def by (simp add: ots put split: option.split list.split)
qed

text \<open>The operations that are not about rounds leave the table of rounds alone.\<close>

fun about_rounds :: "co_event \<Rightarrow> bool" where
  "about_rounds (CloseExpired_ev _) = True"
| "about_rounds (TryAggregate_ev _ _) = True"
| "about_rounds (OpenRound_ev _) = True"
| "about_rounds (Stamp_ev _ _ _ _) = True"
| "about_rounds _ = False"

lemma rows_side: "side w' = side w \<Longrightarrow> w_rounds w' = w_rounds w"
  by (simp add: side_def fl_part_def)

lemma rows_base: "base w' = base w \<Longrightarrow> w_rounds w' = w_rounds w"
  by (simp add: base_def fl_part_def)

lemma rows_ticked: "ticked w w' \<Longrightarrow> w_rounds w' = w_rounds w"
  by (auto simp: ticked_def)

lemma rounds_memory [simp]: "rounds_of (w\<lparr>w_receipts := r\<rparr>) = rounds_of w" "rounds_of (w\<lparr>w_stamps := z\<rparr>) = rounds_of w"
  "rounds_of (w\<lparr>w_now := t\<rparr>) = rounds_of w" "rounds_of (w\<lparr>w_faults := fs\<rparr>) = rounds_of w"
  by (rule rounds_of_cong; simp)+

lemma SubmitGradient_rows: "w_rounds (snd (SubmitGradient_rpc S up grad w)) = w_rounds w"
proof -
  have "w_rounds w' = w_rounds w" if "SubmitGradient sub w = (r, w')" for sub r w'
    using that by (auto simp: SubmitGradient_def upsert_participant_def db_call_def split: world_splits)
  then have "w_rounds (snd (SubmitGradient sub w)) = w_rounds w" for sub by (metis prod.collapse)
  then show ?thesis using SubmitGradient_rpc_cases [of S up grad w] by auto
qed

lemma call_rows:
  assumes "\<not> about_rounds ev"
  shows "w_rounds (co_exec E co ev w) = w_rounds w"
proof -
  note same = rows_side rows_base rows_ticked [OF reads_ticked(1)] rows_ticked [OF reads_ticked(2)]
    rows_ticked [OF reads_ticked(3)] rows_ticked [OF reads_ticked(4)] SubmitGradient_rows
  have s: "w_rounds (snd (Schedule E rng redis fresh tt ih tmo w)) = w_rounds w" for rng redis fresh tt ih tmo
    using Schedule_effect [of E rng redis fresh tt ih tmo w] by (cases "Schedule E rng redis fresh tt ih tmo w") (auto intro: rows_base)
  have m: "w_rounds (snd (MarkFailed E tid nid w)) = w_rounds w" for tid nid
    using MarkFailed_frame(4) [of E tid nid w] by (simp add: fl_part_def)
  have r: "w_rounds (co_exec E co (Receipt_ev i f) w) = w_rounds w" for i f
    by (rule rows_base) (simp split: prod.split)
  show ?thesis using assms
  proof (cases ev)
    case (Receipt_ev i f)
    then show ?thesis using r by simp
  next
    case (Schedule_ev rng redis fresh tt ih tmo)
    then show ?thesis using s by simp
  next
    case (MarkFailed_ev tid nid)
    then show ?thesis using m by simp
  qed (simp_all only: about_rounds.simps not_True_eq_False, (simp only: co_exec.simps, rule same; simp)+)
qed

lemma Stamp_rounds: "rounds_of (co_exec E co (Stamp_ev i M post order) w) = rounds_of w"
  by (simp add: stampOTS_rounds split: prod.split)

lemma call_rounds:
  assumes "fl_ok w"
  shows "round_step\<^sup>*\<^sup>* (rounds_of w) (rounds_of (co_exec E co ev w))"
proof (cases "about_rounds ev")
  case True
  with assms Stamp_rounds show ?thesis
    by (cases ev) (simp_all add: CloseExpired_refines TryAggregate_refines OpenRound_refines del: co_exec.simps(11))
next
  case False
  then show ?thesis using rounds_of_cong [OF call_rows] by simp
qed

lemma result_rows: "w_rounds (snd (SubmitTaskResult S req w)) = w_rounds w"
proof (cases "\<exists>tid nid. result_authentic S req w tid nid")
  case True
  then obtain tid nid where a: "result_authentic S req w tid nid" by blast
  obtain res w' where "accept_result S req tid nid (db_tick w) = (res, w')" by fastforce
  with accept_result_world [OF this] SubmitTaskResult_authentic [OF a] show ?thesis by (simp add: fl_part_def)
next
  case False
  have "w_rounds (snd (UpdateReliability E nid False (db_tick w))) = w_rounds w" for E nid
    using rows_side [of "snd (UpdateReliability E nid False (db_tick w))" "db_tick w"] by simp
  then show ?thesis using SubmitTaskResult_refused [OF False] by auto
qed

lemma restart_rows: "w_rounds (Start (lose_memory w)) = w_rounds w"
  using rows_base [of "Start (lose_memory w)" "lose_memory w"] by (simp add: lose_memory_def)

lemma co_step_rounds: "co_step E co s t \<Longrightarrow> sys_ok E s \<Longrightarrow> round_step\<^sup>*\<^sup>* (rounds_of (snd s)) (rounds_of (snd t))"
proof (induction rule: co_step.induct)
  case (call ev w A)
  then show ?case using sys_okD by (simp add: call_rounds)
qed (simp_all add: rounds_of_cong [OF result_rows] rounds_of_cong [OF restart_rows])

interpretation rounds: simulation "co_start E" "co_step E co" "sys_ok E" "\<lambda>s. rounds_of (snd s)" round_step for E co
  by unfold_locales (fact co_step_rounds)

section \<open>Draining the queue\<close>

lemma process_sends:
  "\<exists>k. 1 \<le> k \<and> k \<le> 4 \<and> w_sent (process lnc obs d job w) = w_sent w @ replicate k (payment_request job)"
proof -
  let ?req = "payment_request job" and ?w1 = "w\<lparr>w_sent := w_sent w @ [payment_request job]\<rparr>"
  obtain out w2 where l: "attempt_loop lnc d ?req [1, 2, 3] ?w1 = (out, w2)" by fastforce
  from attempt_loop_spec [OF l] obtain k where k: "w2 = ?w1\<lparr>w_sent := (w_sent w @ [?req]) @ replicate k ?req\<rparr>" "k \<le> 3"
    by (auto simp: tries_def)
  have "\<exists>out k. 1 \<le> k \<and> k \<le> 4 \<and> attempt_loop lnc d ?req [0, 1, 2, 3] w = (out, w\<lparr>w_sent := w_sent w @ replicate k ?req\<rparr>)"
  proof (cases "settled (SendPayment lnc (length (w_sent w)) ?req)")
    case None
    then show ?thesis using l k by (intro exI [of _ out] exI [of _ "Suc k"]) (simp add: attempt_step del: attempt_loop.simps(2))
  next
    case (Some p)
    then show ?thesis by (intro exI [of _ "Paid p"] exI [of _ "Suc 0"]) (simp add: attempt_step del: attempt_loop.simps(2))
  qed
  then obtain o' k where o: "1 \<le> k" "k \<le> 4" "attempt_loop lnc d ?req [0, 1, 2, 3] w = (o', w\<lparr>w_sent := w_sent w @ replicate k ?req\<rparr>)" by blast
  have "w_sent (process lnc obs d job w) = w_sent w @ replicate k ?req"
    unfolding process_def o(3) by (cases o') (simp_all add: db_call_def Let_def)
  with o(1,2) show ?thesis by blast
qed

lemma process_settles:
  assumes "healthy w" "\<forall>k. \<not> d k"
  shows "healthy (process lnc obs d job w) \<and>
    ((\<exists>p. w_tasks (process lnc obs d job w) = mark_paid job p (w_tasks w)) \<or> w_tasks (process lnc obs d job w) = mark_failed job (w_tasks w))"
proof (cases "\<exists>m<4. answers lnc (payment_request job) w m \<noteq> None")
  case True
  then obtain m0 where "m0 < 4" "answers lnc (payment_request job) w m0 \<noteq> None" by blast
  moreover from this obtain m where m: "answers lnc (payment_request job) w m \<noteq> None" "\<forall>i<m. answers lnc (payment_request job) w i = None"
    using exists_least_iff [of "\<lambda>m. answers lnc (payment_request job) w m \<noteq> None"] by blast
  ultimately have m4: "m < 4" by (meson linorder_not_less less_le_trans)
  obtain p where "answers lnc (payment_request job) w m = Some p" using m(1) by blast
  from process_paid [OF assms(1) assms(2) [rule_format] m4 m(2) [rule_format] this, where obs = obs] show ?thesis using assms(1) by (auto simp: Let_def healthy_def)
next
  case False
  from process_failed [OF assms(1) assms(2) [rule_format], where lnc = lnc and job = job and obs = obs] show ?thesis using assms(1) False by (auto simp: healthy_def)
qed

text \<open>The turns of the worker, each with the Lightning node and the context of that turn.\<close>

definition worker_turns :: "bool \<Rightarrow> (Client \<times> (nat \<Rightarrow> bool)) list \<Rightarrow> world \<Rightarrow> world" where
  "worker_turns obs = fold (\<lambda>(lnc, d). worker lnc obs d)"

lemma worker_turns_simps [simp]: "worker_turns obs [] w = w"
  "worker_turns obs ((lnc, d) # turns) w = worker_turns obs turns (worker lnc obs d w)"
  by (simp_all add: worker_turns_def)

definition not_pending :: "uuid \<Rightarrow> task_row list \<Rightarrow> bool" where
  "not_pending tid ts \<longleftrightarrow> (case lookup tk_id tid ts of None \<Rightarrow> True | Some t \<Rightarrow> tk_payment_status t \<noteq> ''pending'')"

lemma not_pending_mark [simp]:
  "not_pending (j_TaskID job) (mark_paid job p ts)" "not_pending (j_TaskID job) (mark_failed job ts)"
  "not_pending i ts \<Longrightarrow> not_pending i (mark_paid job p ts)" "not_pending i ts \<Longrightarrow> not_pending i (mark_failed job ts)"
  by (auto simp: not_pending_def lookup_mark_paid lookup_mark_failed split: option.splits)

lemma worker_turn:
  assumes "w_queue w = job # q" "healthy w" "\<forall>k. \<not> d k"
  shows "w_queue (worker lnc obs d w) = q" "healthy (worker lnc obs d w)"
    "not_pending (j_TaskID job) (w_tasks (worker lnc obs d w))"
    "not_pending i (w_tasks w) \<Longrightarrow> not_pending i (w_tasks (worker lnc obs d w))"
proof -
  have h: "healthy (w\<lparr>w_queue := q\<rparr>)" using assms(2) by (simp add: healthy_def)
  have e: "worker lnc obs d w = process lnc obs d job (w\<lparr>w_queue := q\<rparr>)" using assms(1) by (simp add: worker_def)
  show "w_queue (worker lnc obs d w) = q" "healthy (worker lnc obs d w)"
    "not_pending (j_TaskID job) (w_tasks (worker lnc obs d w))"
    "not_pending i (w_tasks w) \<Longrightarrow> not_pending i (w_tasks (worker lnc obs d w))"
    using process_settles [OF h assms(3), where lnc = lnc and obs = obs and job = job] unfolding e by auto
qed

lemma turns_keep:
  assumes "length turns \<le> length (w_queue w)" "healthy w" "list_all (\<lambda>(lnc, d). \<forall>k. \<not> d k) turns" "not_pending i (w_tasks w)"
  shows "not_pending i (w_tasks (worker_turns obs turns w))"
  using assms
proof (induction turns arbitrary: w)
  case (Cons a turns)
  obtain lnc d where a: "a = (lnc, d)" by fastforce
  obtain job q where q: "w_queue w = job # q" using Cons.prems(1) by (cases "w_queue w") auto
  have d: "\<forall>k. \<not> d k" using Cons.prems(3) a by simp
  note t = worker_turn [OF q Cons.prems(2) d, where lnc = lnc and obs = obs]
  have "not_pending i (w_tasks (worker_turns obs turns (worker lnc obs d w)))"
  proof (rule Cons.IH)
    show "length turns \<le> length (w_queue (worker lnc obs d w))" unfolding t(1) using Cons.prems(1) q by simp
    show "list_all (\<lambda>(lnc, d). \<forall>k. \<not> d k) turns" using Cons.prems(3) by simp
  qed (fact t(2), fact t(4) [OF Cons.prems(4)])
  then show ?case by (simp add: a)
qed simp

lemma turns_drain:
  assumes "length turns = length (w_queue w)" "healthy w" "list_all (\<lambda>(lnc, d). \<forall>k. \<not> d k) turns"
  shows "\<exists>ks. length ks = length (w_queue w) \<and> list_all (\<lambda>k. 1 \<le> k \<and> k \<le> 4) ks \<and> w_queue (worker_turns obs turns w) = [] \<and>
    w_sent (worker_turns obs turns w) = w_sent w @ concat (map2 (\<lambda>job k. replicate k (payment_request job)) (w_queue w) ks) \<and>
    list_all (\<lambda>job. not_pending (j_TaskID job) (w_tasks (worker_turns obs turns w))) (w_queue w)"
  using assms
proof (induction turns arbitrary: w)
  case (Cons a turns)
  obtain lnc d where a: "a = (lnc, d)" by fastforce
  obtain job q where q: "w_queue w = job # q" using Cons.prems(1) by (cases "w_queue w") auto
  have d: "\<forall>k. \<not> d k" "list_all (\<lambda>(lnc, d). \<forall>k. \<not> d k) turns" using Cons.prems(3) a by simp_all
  let ?w = "worker lnc obs d w"
  note t = worker_turn [OF q Cons.prems(2) d(1), where lnc = lnc and obs = obs]
  have len: "length turns = length (w_queue ?w)" using Cons.prems(1) q t(1) by simp
  obtain k where k: "1 \<le> k" "k \<le> 4" "w_sent ?w = w_sent w @ replicate k (payment_request job)"
    using process_sends [of lnc obs d job "w\<lparr>w_queue := q\<rparr>"] q by (auto simp: worker_def)
  obtain ks where ks: "length ks = length q" "list_all (\<lambda>k. 1 \<le> k \<and> k \<le> 4) ks" "w_queue (worker_turns obs turns ?w) = []"
    "w_sent (worker_turns obs turns ?w) = w_sent ?w @ concat (map2 (\<lambda>job k. replicate k (payment_request job)) q ks)"
    "list_all (\<lambda>job. not_pending (j_TaskID job) (w_tasks (worker_turns obs turns ?w))) q"
    using Cons.IH [OF len t(2) d(2)] t(1) by auto
  have "not_pending (j_TaskID job) (w_tasks (worker_turns obs turns ?w))" using turns_keep [OF _ t(2) d(2) t(3)] len by simp
  then show ?case using ks k a q by (intro exI [of _ "k # ks"]) simp
qed simp

section \<open>A concrete run\<close>

definition demo_co :: coordinator where
  "demo_co = \<lparr>co_cfg = defaults, co_lnReadonly = demo_payer, co_lnPayment = demo_payer, co_lnSlash = demo_payer,
     co_slash = slash_config, co_rdb = False, co_s3 = None, co_fl = NewWithConfig False None, co_obs = None,
     co_tls = Plaintext, co_grpc_addr = '':9000'', co_http_addr = '':9001'', co_tor_addr = None\<rparr>"

text \<open>A node registers, is given a task, submits its result, and is paid.\<close>

lemma step_call:
  "co_step E co (A, w) (A, w')" if "admissible ev w" "co_exec E co ev w = w'"
  using co_step.call [OF that(1), of E co A] that(2) by simp

lemma demo_registered:
  "w_nodes (co_exec demo_ext co (RegisterNode_ev (demo_ln []) 7 (demo_register ''t1'')) (empty_world demo_now)) =
     [demo_node ''t1''\<lparr>Status := ''active''\<rparr>] \<and>
   healthy (co_exec demo_ext co (RegisterNode_ev (demo_ln []) 7 (demo_register ''t1'')) (empty_world demo_now))"
proof -
  let ?w = "empty_world demo_now" and ?S = "server_with demo_ext co (demo_ln [])"
  let ?w1 = "nodes_gauge_add ''t1'' ''pending'' 1 (?w\<lparr>w_nodes := [demo_node ''t1'']\<rparr>)"
  have t: "''t1'' \<in> set tiers" by (simp add: tiers_def)
  have v: "validateTimestamp 1000 ?w = Inr ()"
    by (simp add: validateTimestamp_ok empty_world_def demo_now_def time_Sub_def time_defs)
  have ne: "demo_pk \<noteq> []" "demo_uri \<noteq> []" by (simp_all add: demo_pk_def demo_uri_def)
  have h: "healthy ?w1" by (simp add: healthy_def empty_world_def)
  obtain res w2 where s: "VerifyStake (Some (demo_ln [])) demo_pk ''t1'' ?w1 = (Inr res, w2)"
    using VerifyStake_answer [OF t, of "Some (demo_ln [])" demo_pk ?w1]
    by (cases "VerifyStake (Some (demo_ln [])) demo_pk ''t1'' ?w1"; cases "fst (VerifyStake (Some (demo_ln [])) demo_pk ''t1'' ?w1)") auto
  let ?w3 = "snd (PersistStake demo_ext 7 res w2)"
  have w3: "w_nodes ?w3 = [demo_node ''t1'']" "healthy ?w3"
    using s VerifyStake_simps(1) [of "Some (demo_ln [])" demo_pk "''t1''" ?w1] VerifyStake_healthy [OF h, of "Some (demo_ln [])" demo_pk "''t1''"]
    by (simp_all add: PersistStake_healthy)
  obtain w4 where a: "Activate 7 ?w3 = (Inr (), w4)"
    using Activate_pending(1) [OF w3(2), of "demo_node ''t1''"] w3(1) by (cases "Activate 7 ?w3") auto
  have n: "w_nodes w4 = [demo_node ''t1''\<lparr>Status := ''active''\<rparr>]"
    using Activate_pending(2) [OF w3(2), of "demo_node ''t1''"] w3(1) a by (simp add: sql_update_def)
  have "healthy w4" using a w3(2) by (auto simp: Activate_def activate_row_def db_call_healthy healthy_def split: world_splits)
  moreover have "snd (RegisterNode ?S 7 (demo_register ''t1'') ?w) = w4"
    using v ne s a demo_Register [OF t] by (simp add: RegisterNode_def demo_register_def demo_request_caps Let_def) (simp add: demo_caps_def)
  ultimately show ?thesis using n by simp
qed

lemma demo_scheduled:
  assumes "w_nodes w = [demo_node ''t1''\<lparr>Status := ''active''\<rparr>]" "healthy w" "w_tasks w = []" "stakes_ok (w_stakes w)"
  shows "\<exists>a. Schedule demo_ext (\<lambda>_. Fin 0) None 1 ''inference'' ''h'' 30 w = (Inr a, snd (Schedule demo_ext (\<lambda>_. Fin 0) None 1 ''inference'' ''h'' 30 w)) \<and>
    w_tasks (snd (Schedule demo_ext (\<lambda>_. Fin 0) None 1 ''inference'' ''h'' 30 w)) = [assignment_row a ''h'' (w_now w)] \<and>
    a_TaskID a = 1 \<and> a_NodeLNURI a = demo_uri \<and> healthy (snd (Schedule demo_ext (\<lambda>_. Fin 0) None 1 ''inference'' ''h'' 30 w))"
proof -
  let ?n = "demo_node ''t1''\<lparr>Status := ''active''\<rparr>"
  obtain k w' where k: "computeReward ?n ''inference'' w = (k, w')" by fastforce
  have w': "w' = w" using computeReward_world [OF k] db_tick_healthy [OF assms(2)] by auto
  have r: "in_int32 k" using computeReward_range [OF k assms(4)] by (auto simp: in_int_def)
  have l: "ListActive w = (Inr [?n], w)"
    using assms(1,2) by (simp add: ListActive_def db_call_healthy sql_select_def order_by_reliability_def)
  have f: "filterEligible [?n] ''inference'' (taskMinTier ''inference'') = [?n]"
    by (simp add: filterEligible_def tierNums_def taskMinTier_def supportsTaskType_def)
  have s: "selectNode (\<lambda>_. Fin 0) [?n] = Some ?n" by (simp add: selectNode_def Let_def)
  have i: "lookup tk_id i [] = None" for i by (simp add: lookup_def sql_row_def)
  show ?thesis
    using assms l f s k w' r
    by (simp add: Schedule_def schedule_over_def Let_def persistAssignment_def insert_task_def db_call_healthy i sql_insert_def)
      (simp add: in_int_def healthy_def lookup_def sql_row_def)
qed

lemma RegisterNode_heartbeats: "w_heartbeats (snd (RegisterNode S f r w)) = w_heartbeats w"
proof -
  have 1: "w_heartbeats w2 = w_heartbeats w1" if "Register E f pk u on c sg ts w1 = (x, w2)" for E f pk u on c sg ts w1 x w2
    using nodes_only_Register [of w1 E f pk u on c sg ts] that by (simp add: nodes_only_iff)
  have 2: "w_heartbeats w2 = w_heartbeats w1" if "Activate i w1 = (x, w2)" for i w1 x w2
    using nodes_only_Activate [of w1 i] that by (simp add: nodes_only_iff)
  have 3: "w_heartbeats w2 = w_heartbeats w1" if "VerifyStake l p t w1 = (x, w2)" for l p t w1 x w2
    using VerifyStake_simps(7) [of l p t w1] that by simp
  have 4: "w_heartbeats (snd (PersistStake E i x w1)) = w_heartbeats w1" for E i x w1
    by (auto simp: PersistStake_def db_call_def split: option.splits)
  show ?thesis by (auto simp: RegisterNode_def Let_def 4 split: sum.splits prod.splits dest!: 1 2 3)
qed

lemma Schedule_heartbeats:
  "Schedule E rng rd f tt ih tmo w = (Inr a, w') \<Longrightarrow> w_heartbeats w' = w_heartbeats w"
  by (auto simp: Schedule_def schedule_over_def ListActive_def computeReward_def persistAssignment_def insert_task_def
      db_call_def Let_def split: world_splits)

lemma demo_result_authentic_at:
  assumes "w_nodes w = [demo_node ''t1''\<lparr>Status := ''active''\<rparr>]" "sv_ext S = demo_ext"
  shows "result_authentic S demo_result w 1 7"
proof -
  have "result_authentic (demo_server None) demo_result w 1 7"
    using demo_result_authentic [of None] result_authentic_cong [of w demo_result_world] assms(1) by simp
  then show ?thesis unfolding result_authentic_def assms(2) demo_server_simps .
qed

lemma demo_run:
  "\<exists>A w. co_start demo_ext ({}, empty_world demo_now) \<and> (co_step demo_ext co)\<^sup>*\<^sup>* ({}, empty_world demo_now) (A, w) \<and> A = {1} \<and> w_sent w \<noteq> []"
proof -
  let ?w0 = "empty_world demo_now"
  let ?w1 = "co_exec demo_ext co (RegisterNode_ev (demo_ln []) 7 (demo_register ''t1'')) ?w0"
  let ?w2 = "co_exec demo_ext co (Schedule_ev (\<lambda>_. Fin 0) None 1 ''inference'' ''h'' 30) ?w1"
  let ?w3 = "snd (SubmitTaskResult (rpc_server demo_ext co) demo_result ?w2)"
  let ?w4 = "co_exec demo_ext co (Worker_ev demo_payer (\<lambda>_. False)) ?w3"
  have start: "co_start demo_ext ({}, ?w0)" by (auto simp: co_start_def demo_numeric_rounds)
  have "typed_client (demo_ln [])"
    by (auto simp: typed_client_def demo_ln_def mock_Client_def mock_ListChannels_def mock_SetChannels_def mock_New_def in_int_def split: if_splits option.splits)
  then have 1: "co_step demo_ext co ({}, ?w0) ({}, ?w1)" by (intro step_call [OF _ refl]) simp
  have n1: "w_nodes ?w1 = [demo_node ''t1''\<lparr>Status := ''active''\<rparr>]" "healthy ?w1" using demo_registered by blast+
  have sd: "side ?w1 = side ?w0" by simp
  then have t1: "w_tasks ?w1 = []" "w_queue ?w1 = []" by (simp_all add: side_defs empty_world_def del: co_exec.simps)
  have "sys_ok demo_ext ({}, ?w1)" using sys_ok_step [OF 1] sys_ok_start [OF start] by blast
  then have st1: "stakes_ok (w_stakes ?w1)" by (simp add: sys_ok_def del: co_exec.simps)
  have 2: "co_step demo_ext co ({}, ?w1) ({}, ?w2)" by (rule step_call [OF _ refl]) simp
  obtain a where s: "Schedule demo_ext (\<lambda>_. Fin 0) None 1 ''inference'' ''h'' 30 ?w1 = (Inr a, ?w2)"
    and t2: "w_tasks ?w2 = [assignment_row a ''h'' (w_now ?w1)]" "a_TaskID a = 1" "a_NodeLNURI a = demo_uri" "healthy ?w2"
    using demo_scheduled [OF n1 t1(1) st1] unfolding co_exec.simps by blast
  have b2: "base ?w2 = base ?w1" "w_queue ?w2 = w_queue ?w1" using Schedule_effect [OF s] by blast+
  have n2: "w_nodes ?w2 = [demo_node ''t1''\<lparr>Status := ''active''\<rparr>]" using b2(1) n1(1) by (simp add: base_def del: co_exec.simps)
  have au: "result_authentic (rpc_server demo_ext co) demo_result ?w2 1 7"
    by (rule demo_result_authentic_at [OF n2]) simp
  have "w_heartbeats ?w2 = []" using Schedule_heartbeats [OF s] RegisterNode_heartbeats by (simp add: empty_world_def)
  then have "sizes_fit ?w2" using t2(1) by (simp add: sizes_fit_def del: co_exec.simps)
  then have 3: "co_step demo_ext co ({}, ?w2) ({1}, ?w3)" using co_step.result [OF au] by blast
  have l: "lookup tk_id 1 (w_tasks ?w2) = Some (assignment_row a ''h'' (w_now ?w1))"
    "tk_ln_uri (assignment_row a ''h'' (w_now ?w1)) = Some demo_uri"
    using t2 by (simp_all add: lookup_def sql_row_def assignment_row_def del: co_exec.simps)
  obtain res where r: "accept_result (rpc_server demo_ext co) demo_result 1 7 ?w2 = (res, ?w3)"
    using SubmitTaskResult_authentic [OF au] healthy_not_down [OF t2(4)] db_tick_healthy [OF t2(4)] by (metis prod.collapse)
  have d: "sv_disp (rpc_server demo_ext co)" by simp
  have "demo_uri \<noteq> []" by (simp add: demo_uri_def)
  note acc = accept_result_healthy [OF t2(4) d l this r]
  have q: "\<exists>job. w_queue ?w3 = [job]" using acc(3) b2(2) t1(2) by (simp add: enqueue_job_def queueSize_def del: co_exec.simps)
  then obtain job where q: "w_queue ?w3 = [job]" ..
  obtain k where "1 \<le> k" "w_sent ?w4 = w_sent ?w3 @ replicate k (payment_request job)"
    using process_sends [of demo_payer "co_obs co \<noteq> None" "\<lambda>_. False" job "?w3\<lparr>w_queue := []\<rparr>"] q by (auto simp: worker_def)
  then have sent: "w_sent ?w4 \<noteq> []" by auto
  have 4: "co_step demo_ext co ({1}, ?w3) ({1}, ?w4)" by (rule step_call [OF _ refl]) simp
  have "(co_step demo_ext co)\<^sup>*\<^sup>* ({}, ?w0) ({1}, ?w4)"
    using 1 2 3 4 by (meson rtranclp.rtrancl_refl rtranclp.rtrancl_into_rtrancl)
  then show ?thesis using start sent by blast
qed

section \<open>Properties\<close>

text \<open>
  Only work that a node signed for is paid, and never more than the reward. Start the
  coordinator on an empty database and let any operations happen in any order, with any database
  failures, any answers from outside and any restarts. Every payment request that was ever made
  goes to the node address recorded in the row of some task, for exactly the reward of that row,
  which lies between 0 and 800 satoshis; and for this task a result arrived that carried a valid
  signature of a registered node over the task and its output hash.
\<close>

theorem payments_are_due:
  assumes "co_start E s" "(co_step E co)\<^sup>*\<^sup>* s (A, w)" "r \<in> set (w_sent w)"
  shows "\<exists>t\<in>set (w_tasks w). \<exists>uri. tk_id t \<in> A \<and> tk_ln_uri t = Some uri \<and> 0 \<le> tk_reward t \<and> tk_reward t \<le> 800 \<and>
    r = \<lparr>DestPubkeyHex = parsePubkeyFromLNURI uri, AmountSats = tk_reward t, Memo = [], TimeoutSecs = 60\<rparr>"
proof -
  have ok: "pay_ok A w" using coord.inv_reachable [OF assms(1,2)] sys_okD by blast
  then obtain j where j: "job_due A (w_tasks w) j" "r = payment_request j" using assms(3) by (auto simp: pay_ok_def)
  then obtain t uri where t: "j_TaskID j \<in> A" "t \<in> set (w_tasks w)" "tk_ln_uri t = Some uri" "j = task_job t uri"
    by (auto simp: job_due_def)
  have "task_paid_ok A t" using ok t(2) by (simp add: pay_ok_def list_all_iff)
  then show ?thesis using t j(2)
    by (intro bexI [of _ t] exI [of _ uri]) (simp_all add: task_paid_ok_def payment_request_def task_job_def)
qed

theorem payments_are_due_witness:
  "\<exists>A w r. (co_step demo_ext demo_co)\<^sup>*\<^sup>* ({}, empty_world demo_now) (A, w) \<and> r \<in> set (w_sent w) \<and> AmountSats r \<le> 800"
proof -
  obtain A w where r: "co_start demo_ext ({}, empty_world demo_now)" "(co_step demo_ext demo_co)\<^sup>*\<^sup>* ({}, empty_world demo_now) (A, w)"
    and "w_sent w \<noteq> []" using demo_run [of demo_co] by blast
  then obtain q where q: "q \<in> set (w_sent w)" by (cases "w_sent w") auto
  from payments_are_due [OF r q] have "AmountSats q \<le> 800" by auto
  with r(2) q show ?thesis by blast
qed

text \<open>
  C5 (the database stays well-formed). In every state that the coordinator can reach, node
  identifiers and public keys are unique, tiers and statuses are within their checks and
  reliabilities between 0 and 1; recorded stake bonuses are between 0 and 2; task and round
  tables satisfy their invariants; at most 1000 payments are queued, each of them for a task
  with an authentic result; no task is marked completed without one; and every counter that was
  incremented is a series of a declared metric with the declared number of labels.
\<close>

theorem coordinator_invariant:
  assumes "co_start E s" "(co_step E co)\<^sup>*\<^sup>* s (A, w)"
  shows "nodes_ok (w_nodes w) \<and> tasks_ok (w_tasks w) \<and> fl_ok w \<and> length (w_queue w) \<le> 1000 \<and>
    list_all (\<lambda>k. \<exists>b. st_bonus k = Fin b \<and> 0 \<le> b \<and> b \<le> 2) (w_stakes w) \<and>
    list_all (\<lambda>t. tk_status t = ''completed'' \<longrightarrow> tk_id t \<in> A) (w_tasks w) \<and> list_all (\<lambda>j. j_TaskID j \<in> A) (w_queue w) \<and>
    (\<forall>m ls. w_counters w (m, ls) = 0 \<or> series_declared m ls)"
proof -
  note ok = sys_okD [OF coord.inv_reachable [OF assms]]
  have "counters_ok w" using metered.inv_reachable [OF assms] by simp
  with ok show ?thesis
    by (auto simp: pay_ok_def queueSize_def stakes_ok_def list_all_iff task_paid_ok_def job_due_def counters_ok_def elim!: bonus_okE)
qed

theorem coordinator_invariant_witness:
  "\<exists>A w. (co_step demo_ext demo_co)\<^sup>*\<^sup>* ({}, empty_world demo_now) (A, w) \<and> A = {1} \<and> nodes_ok (w_nodes w) \<and> tasks_ok (w_tasks w)"
proof -
  obtain A w where r: "co_start demo_ext ({}, empty_world demo_now)" "(co_step demo_ext demo_co)\<^sup>*\<^sup>* ({}, empty_world demo_now) (A, w)" "A = {1}"
    using demo_run [of demo_co] by blast
  from coordinator_invariant [OF r(1,2)] r(2,3) show ?thesis by blast
qed

lemma demo_opened:
  "\<exists>w. co_start demo_ext ({}, empty_world 0) \<and> (co_step demo_ext co)\<^sup>*\<^sup>* ({}, empty_world 0) ({}, w) \<and> healthy w \<and>
     w_rounds w = [demo_round ''open'']"
proof -
  let ?w = "co_exec demo_ext co (OpenRound_ev ''v'') (empty_world 0)"
  have "co_step demo_ext co ({}, empty_world 0) ({}, ?w)" by (rule step_call [OF _ refl]) simp
  moreover have "healthy (empty_world 0)" by (simp add: healthy_def empty_world_def)
  then have "healthy ?w \<and> w_rounds ?w = [demo_round ''open'']"
    by (simp add: OpenRound_def db_call_healthy) (simp add: healthy_def empty_world_def in_int_def sql_insert_def demo_round_def)
  moreover have "co_start demo_ext ({}, empty_world 0)" by (auto simp: co_start_def demo_numeric_rounds)
  ultimately show ?thesis by blast
qed

text \<open>
  The worker empties the queue. With a working database and no shutdown, after as many turns
  of the worker as there were jobs the queue is empty, whatever the Lightning node answers in
  each turn: every job was asked for at least once and at most four times, in the order of the
  queue, and the payment of no such job is pending any more.
\<close>

theorem queue_drained:
  assumes "length turns = length (w_queue w)" "healthy w" "list_all (\<lambda>(lnc, ctx_done). \<forall>k. \<not> ctx_done k) turns"
  shows "w_queue (worker_turns obs turns w) = [] \<and>
    (\<exists>ks. length ks = length (w_queue w) \<and> list_all (\<lambda>k. 1 \<le> k \<and> k \<le> 4) ks \<and>
      w_sent (worker_turns obs turns w) = w_sent w @ concat (map2 (\<lambda>job k. replicate k (payment_request job)) (w_queue w) ks)) \<and>
    list_all (\<lambda>job. case lookup tk_id (j_TaskID job) (w_tasks (worker_turns obs turns w)) of
      None \<Rightarrow> True | Some t \<Rightarrow> tk_payment_status t \<noteq> ''pending'') (w_queue w)"
  using turns_drain [OF assms, of obs] unfolding not_pending_def by blast

theorem queue_drained_witness:
  "w_queue (worker_turns False [(demo_payer, \<lambda>_. False)] ((demo_pay_world [demo_task ''completed'' ''pending''])\<lparr>w_queue := [demo_job]\<rparr>)) = []"
proof -
  have "healthy ((demo_pay_world ts)\<lparr>w_queue := q\<rparr>)" for ts q by (simp add: healthy_def demo_pay_world_def empty_world_def)
  then show ?thesis
    using queue_drained [of "[(demo_payer, \<lambda>_. False)]" "(demo_pay_world [demo_task ''completed'' ''pending''])\<lparr>w_queue := [demo_job]\<rparr>" False] by simp
qed

end
