(* ===== verification/Interleaving.thy ===== *)
theory Interleaving
  imports Coordinator
begin

text \<open>
  The learning rounds under concurrency: \<open>TryAggregate\<close>, \<open>CloseExpired\<close> and \<open>SubmitGradient\<close> of
  \<open>internal/fl/rounds.go\<close> one statement at a time, any number of callers at once, and every other
  operation of the coordinator between any two statements. Callers may belong to several
  coordinators on one database, so a restart of this one does not end them.
\<close>

section \<open>Callers\<close>

text \<open>
  Where a call of \<open>TryAggregate\<close> stands: what it does next, and the local variables it still
  needs. \<open>Sift\<close> and \<open>Average\<close> are the calls of \<open>anomalyFilter\<close> and \<open>fedAvg\<close>, whose own statements
  do not concern the table of rounds.
\<close>

datatype agg_pc =
  Resolve
| Counting int
| Claim int int
| Fetch int int
| Sift int int "gradientRecord list"
| Average "gradientRecord list"
| Complete int string
| Fail go_error
| Return "RoundSummary option result"

fun tryagg_step :: "ext \<Rightarrow> fl_env \<Rightarrow> Orchestrator \<Rightarrow> int \<Rightarrow> agg_pc \<Rightarrow> world \<Rightarrow> agg_pc \<times> world" where
  "tryagg_step E M orc rn Resolve w =
     (case db_query_row (\<lambda>w. map_option rd_id (lookup rd_number rn (w_rounds w))) w of
       (Inl e, w) \<Rightarrow> (Return (Inl (Wrap ''resolving round'' e)), w)
     | (Inr roundID, w) \<Rightarrow> (Counting roundID, w))"
| "tryagg_step E M orc rn (Counting roundID) w =
     (case db_query (\<lambda>w. int (sql_count (\<lambda>p. pt_round p = roundID) (w_participants w))) w of
       (Inl e, w) \<Rightarrow> (Return (Inl (Wrap ''counting participants'' e)), w)
     | (Inr cnt, w) \<Rightarrow> (if cnt < minParticipants orc then Return (Inr None) else Claim roundID cnt, w))"
| "tryagg_step E M orc rn (Claim roundID cnt) w =
     (case cas_aggregating rn w of
       (Inl e, w) \<Rightarrow> (Return (Inl (Wrap ''transitioning round to aggregating'' e)), w)
     | (Inr rowsAffected, w) \<Rightarrow> (if rowsAffected = 0 then Return (Inr None) else Fetch roundID cnt, w))"
| "tryagg_step E M orc rn (Fetch roundID cnt) w =
     (case fetchGradientHashes roundID w of
       (Inl e, w) \<Rightarrow> (Fail (Wrap ''fetching gradient hashes'' e), w)
     | (Inr gradHashes, w) \<Rightarrow> (Sift roundID cnt gradHashes, w))"
| "tryagg_step E M orc rn (Sift roundID cnt gradHashes) w =
     (case anomalyFilter M orc roundID gradHashes w of (accepted, w) \<Rightarrow>
       (if int (length accepted) < minParticipants orc
        then Fail (Err (''round '' @ dec rn @ '' failed anomaly filter: only '' @ dec (int (length accepted)) @
                ''/'' @ dec cnt @ '' accepted''))
        else Average accepted, w))"
| "tryagg_step E M orc rn (Average accepted) w =
     (case fedAvg E M orc rn accepted w of
       (Inl e, w) \<Rightarrow> (Fail (Wrap ''fedAvg'' e), w)
     | (Inr aggHash, w) \<Rightarrow> (Complete (int (length accepted)) aggHash, w))"
| "tryagg_step E M orc rn (Complete n aggHash) w =
     (case completeRound rn aggHash w of
       (Inl e, w) \<Rightarrow> (Return (Inl (Wrap ''completing round'' e)), w)
     | (Inr _, w) \<Rightarrow>
         (Return (Inr (Some \<lparr>rs_RoundID = rn, ParticipantCount = n, AggregatedHash = aggHash,
            OTSPending = True, CompletedAt = w_now w\<rparr>)),
          w\<lparr>w_stamps := w_stamps w @ [(aggHash, rn)]\<rparr>))"
| "tryagg_step E M orc rn (Fail e) w = (Return (Inl e), snd (failRound rn w))"
| "tryagg_step E M orc rn (Return r) w = (Return r, w)"

text \<open>\<open>SubmitGradient\<close> checks the round, and then writes.\<close>

datatype submit_pc =
  Check
| Insert int
| Submitted "unit result"

fun submit_step :: "GradientSubmission \<Rightarrow> submit_pc \<Rightarrow> world \<Rightarrow> submit_pc \<times> world" where
  "submit_step sub Check w =
     (case db_query_row (\<lambda>w. map_option (\<lambda>r. (rd_id r, rd_status r)) (lookup rd_number (gs_RoundID sub) (w_rounds w))) w of
       (Inl e, w) \<Rightarrow> (Submitted (Inl (Wrap (''fetching round '' @ dec (gs_RoundID sub)) e)), w)
     | (Inr (roundID, status), w) \<Rightarrow>
         (if status \<noteq> ''open''
          then Submitted (Inl (Err (''round '' @ dec (gs_RoundID sub) @ '' is not open (status: '' @ status @ '')'')))
          else Insert roundID, w))"
| "submit_step sub (Insert roundID) w =
     (case upsert_participant roundID sub w of
       (Inl e, w) \<Rightarrow> (Submitted (Inl (Wrap ''recording gradient submission'' e)), w)
     | (Inr _, w) \<Rightarrow> (Submitted (Inr ()), w))"
| "submit_step sub (Submitted r) w = (Submitted r, w)"

text \<open>
  A caller is a call of one of the three: \<open>Scan\<close>, \<open>Close\<close> and \<open>Closed\<close> are \<open>CloseExpired\<close>, which scans
  for expired rounds and then aggregates or fails each of them, counting those it failed.
\<close>

datatype caller =
  Call int agg_pc
| Scan
| Close int "int list" nat agg_pc
| Closed "nat result"
| Submit GradientSubmission submit_pc

fun next_round :: "int list \<Rightarrow> nat \<Rightarrow> caller" where
  "next_round [] n = Closed (Inr n)"
| "next_round (rn # rns) n = Close rn rns n Resolve"

fun caller_step :: "ext \<Rightarrow> fl_env \<Rightarrow> Orchestrator \<Rightarrow> caller \<Rightarrow> world \<Rightarrow> caller \<times> world" where
  "caller_step E M orc Scan w =
     (case scan_expired E orc w of
       (Inl e, w) \<Rightarrow> (Closed (Inl (Wrap ''querying expired rounds'' e)), w)
     | (Inr rns, w) \<Rightarrow> (next_round rns 0, w))"
| "caller_step E M orc (Close rn rns n pc) w = (case pc of
       Return (Inr (Some _)) \<Rightarrow> (next_round rns n, w)
     | Return _ \<Rightarrow> (next_round rns (Suc n), snd (failRound rn w))
     | _ \<Rightarrow> (case tryagg_step E M orc rn pc w of (pc, w) \<Rightarrow> (Close rn rns n pc, w)))"
| "caller_step E M orc (Closed r) w = (Closed r, w)"
| "caller_step E M orc (Call rn pc) w = (case tryagg_step E M orc rn pc w of (pc, w) \<Rightarrow> (Call rn pc, w))"
| "caller_step E M orc (Submit sub pc) w = (case submit_step sub pc w of (pc, w) \<Rightarrow> (Submit sub pc, w))"

section \<open>Statements and operations\<close>

text \<open>A caller that is not interrupted does what the operation does.\<close>

abbreviation alone :: "ext \<Rightarrow> fl_env \<Rightarrow> Orchestrator \<Rightarrow> nat \<Rightarrow> caller \<times> world \<Rightarrow> caller \<times> world" where
  "alone E M orc k \<equiv> (\<lambda>(c, w). caller_step E M orc c w) ^^ k"

lemma aggregate_alone:
  "aggregate E M orc rid rn cnt w = (res, w') \<Longrightarrow>
   ((\<lambda>(pc, w). tryagg_step E M orc rn pc w) ^^ 4) (Fetch rid cnt, w) = (Return res, w')"
  by (auto simp: aggregate_def eval_nat_numeral split: prod.splits sum.splits if_splits)

lemma TryAggregate_alone:
  assumes "TryAggregate E M orc rn w = (res, w')"
  shows "((\<lambda>(pc, w). tryagg_step E M orc rn pc w) ^^ 7) (Resolve, w) = (Return res, w')"
proof -
  have ret: "((\<lambda>(pc, w). tryagg_step E M orc rn pc w) ^^ k) (Return r, v) = (Return r, v)" for k r v by (induction k) simp_all
  have "(7::nat) = 4 + 3" by simp
  show ?thesis unfolding \<open>7 = 4 + 3\<close> funpow_add
    using assms ret by (auto simp: TryAggregate_def eval_nat_numeral(3) numeral_2_eq_2 split: prod.splits sum.splits if_splits dest: aggregate_alone)
qed

lemma Call_alone:
  "alone E M orc k (Call rn pc, w) = (case ((\<lambda>(pc, w). tryagg_step E M orc rn pc w) ^^ k) (pc, w) of (pc, w) \<Rightarrow> (Call rn pc, w))"
  by (induction k) (simp_all split: prod.split)

lemma Close_alone:
  "((\<lambda>(pc, w). tryagg_step E M orc rn pc w) ^^ m) (pc, w) = (Return res, w') \<Longrightarrow>
   \<exists>k. alone E M orc k (Close rn rns n pc, w) = (Close rn rns n (Return res), w')"
proof (induction m arbitrary: pc w)
  case 0
  then show ?case by (intro exI [of _ 0]) simp
next
  case (Suc m)
  obtain pc1 w1 where s: "tryagg_step E M orc rn pc w = (pc1, w1)" by fastforce
  show ?case
  proof (cases "\<exists>r. pc = Return r")
    case True
    moreover have "((\<lambda>(pc, w). tryagg_step E M orc rn pc w) ^^ k) (Return r, v) = (Return r, v)" for k r v by (induction k) simp_all
    ultimately show ?thesis using Suc.prems by (intro exI [of _ 0]) auto
  next
    case False
    then have "caller_step E M orc (Close rn rns n pc) w = (Close rn rns n pc1, w1)"
      using s by (cases pc) simp_all
    moreover obtain k where "alone E M orc k (Close rn rns n pc1, w1) = (Close rn rns n (Return res), w')"
      using Suc s by (auto simp: funpow_Suc_right simp del: funpow.simps(2))
    ultimately show ?thesis by (intro exI [of _ "Suc k"]) (simp add: funpow_Suc_right del: funpow.simps(2))
  qed
qed

lemma alone_trans: "alone E M orc i x = y \<Longrightarrow> \<exists>k. alone E M orc k y = z \<Longrightarrow> \<exists>k. alone E M orc k x = z"
  by (metis comp_apply funpow_add)

lemma close_round_alone:
  assumes "close_round E M orc (n, w) rn = (n', w')"
  shows "\<exists>k. alone E M orc k (Close rn rns n Resolve, w) = (next_round rns n', w')"
proof -
  obtain res w1 where t: "TryAggregate E M orc rn w = (res, w1)" by fastforce
  obtain k where k: "alone E M orc k (Close rn rns n Resolve, w) = (Close rn rns n (Return res), w1)"
    using Close_alone [OF TryAggregate_alone [OF t]] by blast
  have "alone E M orc 1 (Close rn rns n (Return res), w1) = (next_round rns n', w')"
    using assms t by (auto simp: close_round_def split: sum.splits option.splits)
  with alone_trans [OF k] show ?thesis by blast
qed

lemma close_loop_alone:
  "\<exists>k. alone E M orc k (next_round rns n, w) =
     (Closed (Inr (fst (foldl (close_round E M orc) (n, w) rns))), snd (foldl (close_round E M orc) (n, w) rns))"
proof (induction rns arbitrary: n w)
  case Nil
  show ?case by (intro exI [of _ 0]) simp
next
  case (Cons rn rns)
  obtain n1 w1 where c: "close_round E M orc (n, w) rn = (n1, w1)" by fastforce
  obtain k where k: "alone E M orc k (Close rn rns n Resolve, w) = (next_round rns n1, w1)" using close_round_alone [OF c] by blast
  show ?case using alone_trans [OF k] Cons.IH [of n1 w1] by (simp add: c)
qed

lemma CloseExpired_alone:
  "\<exists>k. alone E M orc k (Scan, w) = (Closed (fst (CloseExpired E M orc w)), snd (CloseExpired E M orc w))"
proof -
  obtain res w1 where s: "scan_expired E orc w = (res, w1)" by fastforce
  have one: "alone E M orc 1 (Scan, w) = caller_step E M orc Scan w" by simp
  show ?thesis
  proof (cases res)
    case (Inl e)
    then show ?thesis using one by (intro exI [of _ 1]) (simp add: CloseExpired_def s)
  next
    case (Inr rns)
    then show ?thesis using alone_trans [OF one] close_loop_alone [of E M orc rns 0 w1]
      by (simp add: CloseExpired_def s split_beta)
  qed
qed

lemma SubmitGradient_alone: "alone E M orc 2 (Submit sub Check, w) = (Submit sub (Submitted (fst (SubmitGradient sub w))), snd (SubmitGradient sub w))"
  by (auto simp: SubmitGradient_def numeral_2_eq_2 split: prod.split sum.split)

section \<open>The life of a round\<close>

text \<open>
  What can be relied on of a round under every interleaving: it is open and without a checkpoint,
  then no longer open, then perhaps with a checkpoint, which stays.
\<close>

definition life_of :: "world \<Rightarrow> int \<rightharpoonup> bool \<times> string option" where
  "life_of w n = map_option (\<lambda>r. (rd_status r = ''open'', rd_checkpoint r)) (lookup rd_number n (w_rounds w))"

inductive life_step :: "(int \<rightharpoonup> bool \<times> string option) \<Rightarrow> (int \<rightharpoonup> bool \<times> string option) \<Rightarrow> bool" where
  created: "m n = None \<Longrightarrow> life_step m (m(n \<mapsto> (True, None)))"
| taken: "m n = Some (True, None) \<Longrightarrow> life_step m (m(n \<mapsto> (False, None)))"
| published: "m n = Some (False, None) \<Longrightarrow> life_step m (m(n \<mapsto> (False, Some h)))"

inductive_cases life_stepE: "life_step m m'"

definition unpublished :: "(int \<rightharpoonup> bool \<times> string option) \<Rightarrow> bool" where
  "unpublished m \<longleftrightarrow> (\<forall>n c. m n = Some (True, c) \<longrightarrow> c = None)"

lemma life_step_unpublished: "life_step m m' \<Longrightarrow> unpublished m \<Longrightarrow> unpublished m'"
  by (erule life_stepE) (auto simp: unpublished_def)

lemma life_steps_unpublished: "life_step\<^sup>*\<^sup>* m m' \<Longrightarrow> unpublished m \<Longrightarrow> unpublished m'"
  by (induction rule: rtranclp_induct) (auto intro: life_step_unpublished)

text \<open>A round that is no longer open stays so, and its checkpoint stays.\<close>

lemma life_step_stays: "life_step m m' \<Longrightarrow> m n = Some (False, c) \<Longrightarrow> \<exists>c'. m' n = Some (False, c') \<and> (c \<noteq> None \<longrightarrow> c' = c)"
  by (erule life_stepE) (auto split: if_splits)

lemma life_steps_stays:
  "life_step\<^sup>*\<^sup>* m m' \<Longrightarrow> m n = Some (False, c) \<Longrightarrow> \<exists>c'. m' n = Some (False, c') \<and> (c \<noteq> None \<longrightarrow> c' = c)"
proof (induction rule: rtranclp_induct)
  case (step m1 m2)
  then show ?case using life_step_stays [of m1 m2 n] by metis
qed simp

lemma life_taken: "m n = Some (True, None) \<Longrightarrow> life_step\<^sup>*\<^sup>* m (m(n \<mapsto> (False, c)))"
proof (cases c)
  case (Some h)
  assume "m n = Some (True, None)"
  then have "life_step m (m(n \<mapsto> (False, None)))" "life_step (m(n \<mapsto> (False, None))) (m(n \<mapsto> (False, None), n \<mapsto> (False, Some h)))"
    by (rule life_step.taken, intro life_step.published) simp
  then show ?thesis using Some by (simp add: converse_rtranclp_into_rtranclp)
qed (simp add: life_step.taken r_into_rtranclp)

text \<open>The round that a caller has claimed and not yet settled.\<close>

fun claimed :: "int \<Rightarrow> agg_pc \<Rightarrow> int option" where
  "claimed rn (Fetch _ _) = Some rn"
| "claimed rn (Sift _ _ _) = Some rn"
| "claimed rn (Average _) = Some rn"
| "claimed rn (Complete _ _) = Some rn"
| "claimed rn (Fail _) = Some rn"
| "claimed rn _ = None"

fun holds :: "caller \<Rightarrow> int option" where
  "holds (Call rn pc) = claimed rn pc"
| "holds (Close rn _ _ pc) = claimed rn pc"
| "holds _ = None"

lemma holds_next_round [simp]: "holds (next_round rns n) = None"
  by (cases rns) simp_all

text \<open>What one statement does, seen through the life of the rounds and the round that is held.\<close>

inductive caller_effect ::
    "int option \<Rightarrow> int option \<Rightarrow> (int \<rightharpoonup> bool \<times> string option) \<Rightarrow> (int \<rightharpoonup> bool \<times> string option) \<Rightarrow> bool" where
  calm: "p' = None \<or> p' = p \<Longrightarrow> caller_effect p p' m m"
| claims: "m n = Some (True, c) \<Longrightarrow> caller_effect None (Some n) m (m(n \<mapsto> (False, c)))"
| publishes: "m n = Some (b, c) \<Longrightarrow> caller_effect (Some n) None m (m(n \<mapsto> (False, Some h)))"
| fails: "m n = Some (b, c) \<Longrightarrow> caller_effect p None m (m(n \<mapsto> (False, c)))"

inductive_cases caller_effectE: "caller_effect p p' m m'"

lemma life_of_cong: "w_rounds w' = w_rounds w \<Longrightarrow> life_of w' = life_of w"
  by (simp add: life_of_def fun_eq_iff)

lemma life_of_simps [simp]: "life_of (db_tick w) = life_of w" "life_of (w\<lparr>w_stamps := z\<rparr>) = life_of w"
  "life_of (w\<lparr>w_participants := x\<rparr>) = life_of w" "life_of (w\<lparr>w_now := t\<rparr>) = life_of w" "life_of (w\<lparr>w_faults := fs\<rparr>) = life_of w"
  "life_of (counter_inc m ls w) = life_of w"
  by (rule life_of_cong; simp)+

lemma same_rounds_life: "same_rounds w w' \<Longrightarrow> life_of w' = life_of w"
  by (rule life_of_cong) (simp add: same_rounds_def)

lemma life_of_update:
  assumes "w_rounds w' = sql_update P f (w_rounds w)" "\<And>r. rd_number (f r) = rd_number r"
  shows "life_of w' n = map_option (\<lambda>r. (\<lambda>r. (rd_status r = ''open'', rd_checkpoint r)) (if P r then f r else r)) (lookup rd_number n (w_rounds w))"
  using assms by (simp add: life_of_def lookup_update option.map_comp o_def)

lemma life_of_row_update:
  assumes "w_rounds w' = sql_update (\<lambda>r. rd_number r = rn) f (w_rounds w)" "\<And>r. rd_number (f r) = rd_number r"
  shows "life_of w' = (case lookup rd_number rn (w_rounds w) of None \<Rightarrow> life_of w
    | Some r \<Rightarrow> (life_of w)(rn \<mapsto> (rd_status (f r) = ''open'', rd_checkpoint (f r))))"
proof (rule ext)
  fix n
  show "life_of w' n = (case lookup rd_number rn (w_rounds w) of None \<Rightarrow> life_of w
    | Some r \<Rightarrow> (life_of w)(rn \<mapsto> (rd_status (f r) = ''open'', rd_checkpoint (f r)))) n"
    unfolding life_of_update [OF assms]
    by (cases "n = rn"; cases "lookup rd_number n (w_rounds w)")
      (auto simp: life_of_def dest: lookup_Some split: option.split)
qed

lemma cas_life:
  assumes "cas_aggregating rn w = (c, w')" "fl_ok w"
  obtains (missed) "life_of w' = life_of w" "c = Inl DbFailure \<or> c = Inr 0"
    | (taken) k x where "c = Inr k" "k \<noteq> 0" "life_of w rn = Some (True, x)" "life_of w' = (life_of w)(rn \<mapsto> (False, x))"
  using assms(1)
proof (cases rule: cas_cases)
  case (taken k)
  let ?f = "\<lambda>r. if rd_status r = ''open'' then r\<lparr>rd_status := ''aggregating''\<rparr> else r"
  obtain r where r: "r \<in> set (w_rounds w)" "rd_number r = rn" "rd_status r = ''open''" using taken(3) by blast
  then have l: "lookup rd_number rn (w_rounds w) = Some r" using lookup_in [of rd_number "w_rounds w" r] assms(2) by (simp add: fl_ok_def)
  have "w_rounds w' = sql_update (\<lambda>r. rd_number r = rn) ?f (w_rounds w)" using taken(4) by (simp add: sql_update_def)
  then have "life_of w' = (life_of w)(rn \<mapsto> (False, rd_checkpoint r))"
    using life_of_row_update [of w' rn ?f w] l r(3) by simp
  moreover have "life_of w rn = Some (True, rd_checkpoint r)" using l r(3) by (simp add: life_of_def)
  ultimately show thesis using taken(1,2) that(2) by blast
qed (use that(1) in simp_all)

lemma failRound_life:
  "life_of (snd (failRound rn w)) = life_of w \<or>
   (\<exists>b c. life_of w rn = Some (b, c) \<and> life_of (snd (failRound rn w)) = (life_of w)(rn \<mapsto> (False, c)))"
proof (cases "db_down w")
  case False
  let ?f = "\<lambda>r. r\<lparr>rd_status := ''failed''\<rparr>"
  have "w_rounds (snd (failRound rn w)) = sql_update (\<lambda>r. rd_number r = rn) ?f (w_rounds w)"
    using False by (simp add: failRound_def db_call_def)
  from life_of_row_update [OF this] show ?thesis by (auto simp: life_of_def split: option.split)
qed (simp add: failRound_def db_call_def)

lemma completeRound_life:
  assumes "completeRound rn h w = (Inr (), w')"
  shows "life_of w' = life_of w \<or> (\<exists>b c. life_of w rn = Some (b, c) \<and> life_of w' = (life_of w)(rn \<mapsto> (False, Some h)))"
proof -
  have "w_rounds w' = sql_update (\<lambda>r. rd_number r = rn)
      (\<lambda>r. r\<lparr>rd_status := ''complete'', rd_checkpoint := Some h, rd_completed := Some (w_now w)\<rparr>) (w_rounds w)"
    using completeRound_ok [OF assms] by simp
  from life_of_row_update [OF this] show ?thesis by (auto simp: life_of_def split: option.split)
qed

lemma fails_effect: "caller_effect p None (life_of w) (life_of (snd (failRound rn w)))"
  using failRound_life [of rn w] by (auto intro: caller_effect.calm caller_effect.fails)

lemma tryagg_step_effect:
  assumes "tryagg_step E M orc rn pc w = (pc', w')" "fl_ok w"
  shows "caller_effect (claimed rn pc) (claimed rn pc') (life_of w) (life_of w')"
proof (cases pc)
  case Resolve
  with assms show ?thesis by (auto simp: db_call_def intro!: caller_effect.calm split: if_splits option.splits)
next
  case (Counting rid)
  with assms show ?thesis by (auto simp: db_call_def intro!: caller_effect.calm split: if_splits)
next
  case (Claim rid cnt)
  obtain c w1 where c: "cas_aggregating rn w = (c, w1)" by fastforce
  from c assms(2) show ?thesis
  proof (cases rule: cas_life)
    case missed
    with assms(1) Claim c show ?thesis by (auto intro!: caller_effect.calm)
  next
    case (taken k x)
    with assms(1) Claim c show ?thesis by (auto intro: caller_effect.claims)
  qed
next
  case (Fetch rid cnt)
  with assms show ?thesis by (auto simp: fetchGradientHashes_def db_call_def intro!: caller_effect.calm split: if_splits)
next
  case (Sift rid cnt hs)
  with assms show ?thesis using same_rounds_life [of w w'] anomalyFilter_world [of w M orc rid hs]
    by (auto intro!: caller_effect.calm split: prod.splits if_splits)
next
  case (Average acc)
  obtain r w1 where f: "fedAvg E M orc rn acc w = (r, w1)" by fastforce
  with fedAvg_spec [OF f] same_rounds_life [of w w1] assms Average show ?thesis
    by (auto intro!: caller_effect.calm split: sum.splits)
next
  case (Complete n h)
  obtain r w1 where c: "completeRound rn h w = (r, w1)" by fastforce
  show ?thesis
  proof (cases r)
    case (Inl e)
    then show ?thesis using assms(1) Complete c completeRound_fail [of rn h w e w1] by (auto intro: caller_effect.calm)
  next
    case (Inr u)
    then show ?thesis using assms(1) Complete c completeRound_life [of rn h w w1]
      by (auto intro: caller_effect.calm caller_effect.publishes)
  qed
next
  case (Fail e)
  with assms show ?thesis using fails_effect by auto
next
  case (Return r)
  with assms show ?thesis by (auto intro: caller_effect.calm)
qed

lemma Close_cases:
  assumes "caller_step E M orc (Close rn rns n pc) w = (c', w')"
  obtains (nxt) k where "c' = next_round rns k" "w' = w \<and> claimed rn pc = None \<or> w' = snd (failRound rn w)"
    | (inner) pc' where "tryagg_step E M orc rn pc w = (pc', w')" "c' = Close rn rns n pc'"
proof (cases "\<exists>r. pc = Return r")
  case True
  with assms show thesis using nxt [of n] nxt [of "Suc n"] by (auto split: sum.splits option.splits)
next
  case False
  then have "caller_step E M orc (Close rn rns n pc) w = (case tryagg_step E M orc rn pc w of (pc, w) \<Rightarrow> (Close rn rns n pc, w))"
    by (cases pc) simp_all
  with assms show thesis by (auto intro: inner split: prod.splits)
qed

lemma caller_step_effect:
  assumes "caller_step E M orc c w = (c', w')" "fl_ok w"
  shows "caller_effect (holds c) (holds c') (life_of w) (life_of w')"
proof (cases c)
  case (Call rn pc)
  with assms tryagg_step_effect [of E M orc rn pc w] show ?thesis by (auto split: prod.splits)
next
  case (Close rn rns n pc)
  from assms(1) [unfolded Close] show ?thesis
  proof (cases rule: Close_cases)
    case (nxt k)
    then show ?thesis using Close fails_effect [of "holds c" w rn] by (auto intro!: caller_effect.calm)
  next
    case (inner pc')
    then show ?thesis using Close tryagg_step_effect [OF inner(1) assms(2)] by simp
  qed
next
  case (Submit sub pc)
  have "life_of w1 = life_of w" if "submit_step sub pc w = (pc1, w1)" for pc1 w1
    using that by (cases pc) (auto simp: db_call_def upsert_participant_def split: if_splits option.splits)
  with assms Submit show ?thesis by (auto intro!: caller_effect.calm split: prod.splits)
qed (use assms in \<open>auto intro!: caller_effect.calm split: prod.splits sum.splits dest!: scan_expired_cases\<close>)

subsection \<open>No two callers hold the same round\<close>

definition exclusive :: "(int \<rightharpoonup> bool \<times> string option) \<Rightarrow> int option list \<Rightarrow> bool" where
  "exclusive m hs \<longleftrightarrow> unpublished m \<and>
     (\<forall>i n. i < length hs \<longrightarrow> hs ! i = Some n \<longrightarrow> m n = Some (False, None)) \<and>
     (\<forall>i j n. i < length hs \<longrightarrow> j < length hs \<longrightarrow> hs ! i = Some n \<longrightarrow> hs ! j = Some n \<longrightarrow> i = j)"

lemma exclusiveD: "exclusive m hs \<Longrightarrow> i < length hs \<Longrightarrow> hs ! i = Some n \<Longrightarrow> m n = Some (False, None)"
  "exclusive m hs \<Longrightarrow> i < length hs \<Longrightarrow> j < length hs \<Longrightarrow> hs ! i = Some n \<Longrightarrow> hs ! j = Some n \<Longrightarrow> i = j"
  "exclusive m hs \<Longrightarrow> unpublished m"
  by (auto simp: exclusive_def)

lemma effect_life:
  assumes "caller_effect p p' m m'" "unpublished m" "\<And>n. p = Some n \<Longrightarrow> m n = Some (False, None)"
  shows "life_step\<^sup>*\<^sup>* m m'"
  using assms(1)
proof (cases rule: caller_effect.cases)
  case (claims n c)
  then have "m n = Some (True, None)" using assms(2) by (auto simp: unpublished_def)
  then show ?thesis unfolding claims(3) by (rule life_taken)
next
  case (publishes n b c h)
  then have "m n = Some (False, None)" using assms(3) by simp
  then show ?thesis unfolding publishes(3) by (intro r_into_rtranclp life_step.published)
next
  case (fails n b c)
  show ?thesis
  proof (cases b)
    case True
    then have "m n = Some (True, None)" "c = None" using fails(3) assms(2) by (auto simp: unpublished_def)
    then show ?thesis unfolding fails(2) by (intro life_taken)
  next
    case False
    then show ?thesis using fails(2,3) by (simp add: fun_upd_idem)
  qed
qed simp

lemma effect_exclusive:
  assumes "caller_effect (hs ! i) p' m m'" "i < length hs" "exclusive m hs"
  shows "exclusive m' (hs[i := p'])"
proof -
  note ex = exclusiveD [OF assms(3)]
  have "unpublished m'"
    using effect_life [OF assms(1) ex(3)] ex(1) [OF assms(2)] ex(3) life_steps_unpublished by blast
  moreover have "m' n = Some (False, None)" if "j < length hs" "hs[i := p'] ! j = Some n" for j n
    using assms(1)
  proof (cases rule: caller_effect.cases)
    case calm
    then show ?thesis using that ex(1) assms(2) by (cases "j = i") auto
  next
    case (claims k c)
    then show ?thesis using that ex(1) [of j n] ex(3) assms(2) by (cases "j = i") (auto simp: unpublished_def)
  next
    case (publishes k b c h)
    then have "j \<noteq> i" using that assms(2) by auto
    then have "n \<noteq> k" using ex(2) [of i j k] publishes(1) that assms(2) by auto
    then show ?thesis using publishes(3) ex(1) [of j n] that \<open>j \<noteq> i\<close> by simp
  next
    case (fails k b c)
    then show ?thesis using that ex(1) [of j n] assms(2) by (cases "j = i") auto
  qed
  moreover have "j = k" if "j < length hs" "k < length hs" "hs[i := p'] ! j = Some n" "hs[i := p'] ! k = Some n" for j k n
  proof -
    have new: "hs ! i = p' \<or> m n = Some (True, None)" if "p' = Some n"
      using assms(1) that ex(3) by (auto simp: unpublished_def elim!: caller_effectE)
    have "\<not> (m n = Some (True, None) \<and> l < length hs \<and> hs ! l = Some n)" for l using ex(1) by force
    then show ?thesis using that new ex(2) assms(2) by (cases "j = i"; cases "k = i") (auto simp: nth_list_update)
  qed
  ultimately show ?thesis by (simp add: exclusive_def)
qed

subsection \<open>What the other operations do between two statements\<close>

text \<open>They move rounds along their life, and they publish no checkpoint of a round that was not open before.\<close>

definition life_moves :: "(int \<rightharpoonup> bool \<times> string option) \<Rightarrow> (int \<rightharpoonup> bool \<times> string option) \<Rightarrow> bool" where
  "life_moves m m' \<longleftrightarrow> life_step\<^sup>*\<^sup>* m m' \<and> (\<forall>n. m n = Some (False, None) \<longrightarrow> m' n = Some (False, None))"

lemma life_moves_refl [simp]: "life_moves m m"
  by (simp add: life_moves_def)

lemma life_moves_trans: "life_moves m m1 \<Longrightarrow> life_moves m1 m2 \<Longrightarrow> life_moves m m2"
  by (auto simp: life_moves_def intro: rtranclp_trans)

lemma life_moves_exclusive: "life_moves m m' \<Longrightarrow> exclusive m hs \<Longrightarrow> exclusive m' hs"
  using life_steps_unpublished [of m m'] by (auto simp: life_moves_def exclusive_def)

lemma touches_moves:
  assumes "touches rn w w'" "life_of w rn = Some (True, None)"
  shows "life_moves (life_of w) (life_of w') \<and> (\<forall>k. k \<noteq> rn \<longrightarrow> life_of w' k = life_of w k)"
proof -
  obtain f where f: "w_rounds w' = sql_update (\<lambda>r. rd_number r = rn) f (w_rounds w)" "\<And>r. rd_number (f r) = rd_number r"
    "\<And>r. rd_status (f r) \<noteq> ''open''" using assms(1) by (auto simp: touches_def)
  obtain r where "lookup rd_number rn (w_rounds w) = Some r" using assms(2) by (auto simp: life_of_def)
  then have m': "life_of w' = (life_of w)(rn \<mapsto> (False, rd_checkpoint (f r)))" using life_of_row_update [OF f(1,2)] f(3) by simp
  have "life_step\<^sup>*\<^sup>* (life_of w) (life_of w')" unfolding m' using assms(2) by (intro life_taken)
  then show ?thesis using assms(2) by (auto simp: life_moves_def m')
qed

lemma open_life:
  assumes "fl_ok w" "unpublished (life_of w)" "r \<in> set (w_rounds w)" "rd_number r = rn" "rd_status r = ''open''"
  shows "life_of w rn = Some (True, None)"
proof -
  have "lookup rd_number rn (w_rounds w) = Some r" using lookup_in [of rd_number "w_rounds w" r] assms by (simp add: fl_ok_def)
  then have "life_of w rn = Some (True, rd_checkpoint r)" using assms(5) by (simp add: life_of_def)
  with assms(2) show ?thesis by (auto simp: unpublished_def)
qed

lemma TryAggregate_moves:
  assumes "fl_ok w" "unpublished (life_of w)"
  shows "life_moves (life_of w) (life_of (snd (TryAggregate E M orc rn w)))"
proof -
  obtain res w' where t: "TryAggregate E M orc rn w = (res, w')" by fastforce
  from TryAggregate_touches [OF t] show ?thesis
  proof (elim disjE conjE bexE)
    fix r assume "touches rn w w'" "r \<in> set (w_rounds w)" "rd_number r = rn" "rd_status r = ''open''"
    then show ?thesis using touches_moves [of rn w w'] open_life [OF assms] t by auto
  qed (use t life_of_cong [of w' w] in simp)
qed

lemma close_loop_moves:
  assumes "distinct rns" "\<And>rn. rn \<in> set rns \<Longrightarrow> life_of (snd st) rn = Some (True, None)"
  shows "life_moves (life_of (snd st)) (life_of (snd (foldl (close_round E M orc) st rns)))"
  using assms
proof (induction rns arbitrary: st)
  case (Cons rn rns)
  let ?st = "close_round E M orc st rn"
  have s: "life_moves (life_of (snd st)) (life_of (snd ?st)) \<and> (\<forall>k. k \<noteq> rn \<longrightarrow> life_of (snd ?st) k = life_of (snd st) k)"
    using close_round_touches [of E M orc st rn] touches_moves [of rn "snd st" "snd ?st"] Cons.prems(2) [of rn]
      life_of_cong [of "snd ?st" "snd st"] by auto
  have "life_moves (life_of (snd ?st)) (life_of (snd (foldl (close_round E M orc) ?st rns)))"
  proof (rule Cons.IH)
    fix k assume "k \<in> set rns"
    then show "life_of (snd ?st) k = Some (True, None)" using Cons.prems s by (metis distinct.simps(2) list.set_intros(2))
  qed (use Cons.prems(1) in simp)
  then show ?case using s life_moves_trans by fastforce
qed simp

lemma CloseExpired_moves:
  assumes "fl_ok w" "unpublished (life_of w)"
  shows "life_moves (life_of w) (life_of (snd (CloseExpired E M orc w)))"
proof -
  let ?rns = "map rd_number (sql_select (expired orc (w_now w)) (w_rounds w))"
  have "distinct ?rns" using assms(1) by (simp add: fl_ok_def keyed_def sql_select_def distinct_map_filter)
  moreover have "life_of (db_tick w) rn = Some (True, None)" if "rn \<in> set ?rns" for rn
    using that open_life [OF assms] by (auto simp: sql_select_def expired_def)
  ultimately show ?thesis using close_loop_moves [of ?rns "(0, db_tick w)" E M orc] CloseExpired_world [of E M orc w] by auto
qed

lemma OpenRound_moves:
  assumes "fl_ok w"
  shows "life_moves (life_of w) (life_of (snd (OpenRound v w)))"
proof (cases "db_down w \<or> \<not> in_int32 (w_next_round w)")
  case True
  then have "w_rounds (snd (OpenRound v w)) = w_rounds w" by (auto simp: OpenRound_def db_call_def)
  then show ?thesis using life_of_cong [of "snd (OpenRound v w)" w] by simp
next
  case False
  let ?n = "w_next_round w"
  have new: "lookup rd_number ?n (w_rounds w) = None" using assms by (auto simp: lookup_None fl_ok_def list_all_iff round_ok_def)
  then have "life_of (snd (OpenRound v w)) = (life_of w)(?n \<mapsto> (True, None))"
    using False by (auto simp: fun_eq_iff OpenRound_def db_call_def life_of_def lookup_insert split: option.split)
  moreover have "life_step (life_of w) ((life_of w)(?n \<mapsto> (True, None)))" using new by (intro life_step.created) (simp add: life_of_def)
  ultimately show ?thesis using new by (auto simp: life_moves_def life_of_def)
qed

lemma stampOTS_life: "life_of (stampOTS M post order orc h rn w) = life_of w"
proof -
  have ots: "life_of (snd (db_exec (\<lambda>w. w\<lparr>w_rounds := sql_update (\<lambda>r. rd_number r = rn) (\<lambda>r. r\<lparr>rd_ots := Some k\<rparr>) (w_rounds w)\<rparr>) v)) = life_of v" for k v
    by (cases "db_down v") (auto simp: db_call_def life_of_def fun_eq_iff lookup_update option.map_comp o_def intro!: option.map_cong split: if_splits)
  have put: "life_of (snd (PutObject ok k d w)) = life_of w" for ok k d by (rule life_of_cong) simp
  show ?thesis unfolding stampOTS_def Let_def by (simp add: ots put split: option.split list.split)
qed

lemma co_step_moves:
  assumes "co_step E co s t" "sys_ok E s" "unpublished (life_of (snd s))"
  shows "life_moves (life_of (snd s)) (life_of (snd t))"
  using assms
proof (induction rule: co_step.induct)
  case (call ev w A)
  then have ok: "fl_ok w" "unpublished (life_of w)" using sys_okD by (blast, simp)
  show ?case
  proof (cases "about_rounds ev")
    case True
    have "life_of (co_exec E co (Stamp_ev i M post order) w) = life_of w" for i M post order
      using life_of_cong [of "w\<lparr>w_stamps := z\<rparr>" w for z] by (simp add: stampOTS_life split: prod.split)
    with True ok show ?thesis
      by (cases ev) (simp_all add: CloseExpired_moves TryAggregate_moves OpenRound_moves del: co_exec.simps(11))
  next
    case False
    then show ?thesis using life_of_cong [OF call_rows] by simp
  qed
qed (simp_all add: life_of_cong [OF result_rows] life_of_cong [OF restart_rows])

section \<open>The system of statements\<close>

fun arrives :: "caller \<Rightarrow> bool" where
  "arrives (Call _ pc) = (pc = Resolve)"
| "arrives Scan = True"
| "arrives (Submit _ pc) = (pc = Check)"
| "arrives _ = False"

inductive fine_step :: "ext \<Rightarrow> coordinator \<Rightarrow> caller list \<times> uuid set \<times> world \<Rightarrow> caller list \<times> uuid set \<times> world \<Rightarrow> bool" for E co where
  arrive: "arrives c \<Longrightarrow> fine_step E co (cs, s) (cs @ [c], s)"
| statement: "i < length cs \<Longrightarrow> caller_step E M (co_fl co) (cs ! i) w = (c, w') \<Longrightarrow> fine_step E co (cs, A, w) (cs[i := c], A, w')"
| other: "co_step E co s s' \<Longrightarrow> fine_step E co (cs, s) (cs, s')"

inductive_cases fine_stepE: "fine_step E co x y"

definition fine_start :: "ext \<Rightarrow> caller list \<times> uuid set \<times> world \<Rightarrow> bool" where
  "fine_start E x \<longleftrightarrow> fst x = [] \<and> co_start E (snd x)"

definition fine_ok :: "ext \<Rightarrow> caller list \<times> uuid set \<times> world \<Rightarrow> bool" where
  "fine_ok E x \<longleftrightarrow> sys_ok E (snd x) \<and> exclusive (life_of (snd (snd x))) (map holds (fst x))"

lemma caller_step_core: "caller_step E M orc c w = (c', w') \<Longrightarrow> core w' = core w"
proof -
  have pc: "core w' = core w" if "tryagg_step E M orc rn pc w = (pc', w')" for rn pc pc' w'
    using that by (cases pc) (auto simp: fetchGradientHashes_def cas_aggregating_def db_call_def failRound_def
        split: world_splits dest!: core_dests)
  have failed: "core (snd (failRound rn w)) = core w" for rn using failRound_core [of rn w] by (cases "failRound rn w") simp
  assume s: "caller_step E M orc c w = (c', w')"
  then show ?thesis
  proof (cases c)
    case (Close rn rns n agg)
    from s [unfolded Close] show ?thesis by (cases rule: Close_cases) (auto simp: failed dest: pc)
  next
    case (Submit sub sp)
    have "core w1 = core w" if "submit_step sub sp w = (sp1, w1)" for sp1 w1
      using that by (cases sp) (auto simp: upsert_participant_def db_call_def split: world_splits)
    with s Submit show ?thesis by (auto split: prod.splits)
  qed (auto split: world_splits dest!: pc scan_expired_cases)
qed

lemma caller_step_fl_ok: "caller_step E M orc c w = (c', w') \<Longrightarrow> fl_ok w \<Longrightarrow> fl_ok w'"
proof -
  assume ok: "fl_ok w"
  have cas: "fl_ok (snd (cas_aggregating rn w))" for rn
    using ok fl_ok_update [of "db_tick w" "\<lambda>r. r\<lparr>rd_status := ''aggregating''\<rparr>" "\<lambda>r. rd_number r = rn \<and> rd_status r = ''open''"]
    by (simp add: cas_aggregating_def db_call_def round_ok_def round_statuses_def)
  have pc: "fl_ok w'" if t: "tryagg_step E M orc rn agg w = (agg', w')" for rn agg agg' w'
  proof (cases agg)
    case (Claim rid cnt)
    with t cas [of rn] show ?thesis by (auto split: prod.splits sum.splits)
  next
    case (Sift rid cnt hs)
    with t ok anomalyFilter_world [of w M orc rid hs] same_rounds_fl_ok [of w w'] show ?thesis by (auto split: prod.splits)
  next
    case (Average acc)
    obtain r w1 where f: "fedAvg E M orc rn acc w = (r, w1)" by fastforce
    with t ok Average fedAvg_spec [OF f] same_rounds_fl_ok [of w w1] show ?thesis by (auto split: sum.splits)
  next
    case (Complete n h)
    with t ok completeRound_fl_ok [of w rn h] show ?thesis by (auto split: prod.splits sum.splits)
  next
    case (Fail e)
    with t ok failRound_fl_ok [of w rn] show ?thesis by auto
  qed (use t ok in \<open>auto simp: fetchGradientHashes_def db_call_def split: world_splits\<close>)
  assume s: "caller_step E M orc c w = (c', w')"
  then show ?thesis
  proof (cases c)
    case (Close rn rns n agg)
    from s [unfolded Close] show ?thesis by (cases rule: Close_cases) (auto simp: ok failRound_fl_ok dest: pc)
  next
    case (Submit sub sp)
    have "fl_ok w1" if "submit_step sub sp w = (sp1, w1)" for sp1 w1
    proof (cases sp)
      case (Insert rid)
      with that upsert_participant_fl_ok [OF ok, of rid sub] show ?thesis by (auto split: prod.splits sum.splits)
    qed (use that ok in \<open>auto simp: db_call_def split: world_splits\<close>)
    with s Submit show ?thesis by (auto split: prod.splits)
  qed (use ok in \<open>auto split: world_splits dest!: pc scan_expired_cases\<close>)
qed

lemma fine_step_ok: "fine_step E co x y \<Longrightarrow> fine_ok E x \<Longrightarrow> fine_ok E y"
proof (induction rule: fine_step.induct)
  case (arrive c cs s)
  then have "holds c = None" by (cases c) auto
  with arrive show ?case by (auto simp: fine_ok_def exclusive_def nth_append split: if_splits)
next
  case (statement i cs M w c w' A)
  then have ok: "sys_ok E (A, w)" "exclusive (life_of w) (map holds cs)" by (simp_all add: fine_ok_def)
  then have fl: "fl_ok w" using sys_okD by blast
  have "caller_effect (map holds cs ! i) (holds c) (life_of w) (life_of w')"
    using caller_step_effect [OF statement(2) fl] statement(1) by simp
  then have "exclusive (life_of w') ((map holds cs)[i := holds c])" using effect_exclusive ok(2) statement(1) by simp
  moreover have "sys_ok E (A, w')"
    using sys_ok_rounds [OF ok(1)] caller_step_core [OF statement(2)] caller_step_fl_ok [OF statement(2) fl] by blast
  ultimately show ?case by (simp add: fine_ok_def map_update)
next
  case (other s s' cs)
  have "life_moves (life_of (snd s)) (life_of (snd s'))"
    using co_step_moves [OF other(1)] other(2) exclusiveD(3) [of "life_of (snd s)"] by (auto simp: fine_ok_def)
  with other show ?case using sys_ok_step life_moves_exclusive by (auto simp: fine_ok_def)
qed

lemma fine_start_ok: "fine_start E x \<Longrightarrow> fine_ok E x"
  using sys_ok_start by (auto simp: fine_start_def fine_ok_def exclusive_def unpublished_def co_start_def life_of_def
      empty_world_def lookup_def sql_row_def)

lemma fine_step_life: "fine_step E co x y \<Longrightarrow> fine_ok E x \<Longrightarrow> life_step\<^sup>*\<^sup>* (life_of (snd (snd x))) (life_of (snd (snd y)))"
proof (induction rule: fine_step.induct)
  case (statement i cs M w c w' A)
  then have ex: "exclusive (life_of w) (map holds cs)" and fl: "fl_ok w" using sys_okD by (auto simp: fine_ok_def)
  show ?case using effect_life [OF caller_step_effect [OF statement(2) fl] exclusiveD(3) [OF ex]] exclusiveD(1) [OF ex, of i] statement(1) by simp
next
  case (other s s' cs)
  then show ?case using co_step_moves [OF other(1)] exclusiveD(3) [of "life_of (snd s)"] by (auto simp: fine_ok_def life_moves_def)
qed simp

interpretation statements: simulation "fine_start E" "fine_step E co" "fine_ok E" "\<lambda>x. life_of (snd (snd x))" life_step for E co
  by unfold_locales (fact fine_start_ok, fact fine_step_ok, fact fine_step_life)

lemma alone_runs:
  "alone E M (co_fl co) k (cs ! i, w) = (c, w') \<Longrightarrow> i < length cs \<Longrightarrow> (fine_step E co)\<^sup>*\<^sup>* (cs, A, w) (cs[i := c], A, w')"
proof (induction k arbitrary: c w')
  case (Suc k)
  obtain c1 w1 where a: "alone E M (co_fl co) k (cs ! i, w) = (c1, w1)" by fastforce
  then have "(fine_step E co)\<^sup>*\<^sup>* (cs, A, w) (cs[i := c1], A, w1)" using Suc by blast
  moreover have "fine_step E co (cs[i := c1], A, w1) ((cs[i := c1])[i := c], A, w')"
    using Suc.prems a by (intro fine_step.statement [where M = M]) simp_all
  ultimately show ?case by simp
qed simp

section \<open>A concrete race\<close>

text \<open>A round with three submissions is aggregated while a fourth node submits.\<close>

definition race_node :: "uuid \<Rightarrow> node" where
  "race_node i = (demo_node ''t1'')\<lparr>NodeID := i, PublicKey := replicate i (CHR ''0'')\<rparr>"

definition race_world :: world where
  "race_world = (demo_fl ''open'' [2, 3, 4])\<lparr>w_nodes := map race_node [2, 3, 4, 5]\<rparr>"

definition race_submission :: GradientSubmission where
  "race_submission = \<lparr>gs_NodeID = 5, gs_RoundID = 1, gs_GradientHash = ''h'', gs_S3URL = ''gradients/1/5''\<rparr>"

definition race_result :: string where
  "race_result = ''fedavg-placeholder-round-'' @ dec 1"

definition race_summary :: RoundSummary where
  "race_summary = \<lparr>rs_RoundID = 1, ParticipantCount = 3, AggregatedHash = race_result, OTSPending = True, CompletedAt = demo_time0\<rparr>"

abbreviation race_orc :: Orchestrator where
  "race_orc \<equiv> NewWithConfig False None"

definition race_done :: round_row where
  "race_done = (demo_round ''open'')\<lparr>rd_status := ''complete'', rd_checkpoint := Some race_result, rd_completed := Some demo_time0\<rparr>"

lemma race_world_simps [simp]: "w_rounds race_world = [demo_round ''open'']" "healthy race_world"
  "w_nodes race_world = map race_node [2, 3, 4, 5]" "w_participants race_world = map demo_participant [2, 3, 4]" "w_now race_world = demo_time0"
  by (simp_all add: race_world_def demo_fl_def empty_world_def healthy_def)

lemma race_ok: "fine_ok demo_ext ([], {}, race_world)"
proof -
  have "fl_ok (demo_fl ''open'' [2, 3, 4])" by (rule demo_fl_ok) simp_all
  then have fl: "fl_ok race_world" by (simp add: race_world_def fl_ok_def)
  have n: "node_ok (race_node i) \<and> NodeID (race_node i) = i \<and> PublicKey (race_node i) = replicate i (CHR ''0'')" for i
    by (simp add: race_node_def demo_node_def new_node_def demo_caps_def node_ok_def tiers_def node_statuses_def unit_flt_def)
  have "replicate i c = replicate j c \<longleftrightarrow> i = j" for i j and c :: char by (metis length_replicate)
  then have "nodes_ok (w_nodes race_world)" by (simp add: nodes_ok_def keyed_def n)
  moreover have "life_of race_world n = Some (True, c) \<Longrightarrow> c = None" for n c
    by (auto simp: life_of_def lookup_def sql_row_def demo_round_def split: if_splits)
  ultimately show ?thesis using fl demo_numeric_rounds
    by (auto simp: fine_ok_def sys_ok_def exclusive_def unpublished_def stakes_ok_def pay_ok_def tasks_ok_def race_world_def demo_fl_def empty_world_def)
qed

lemma race_aggregated:
  "\<exists>w. TryAggregate demo_ext demo_env race_orc 1 race_world = (Inr (Some race_summary), w) \<and> healthy w \<and>
     w_rounds w = [race_done] \<and> w_participants w = w_participants race_world \<and> w_nodes w = w_nodes race_world"
proof -
  have h: "healthy (race_world\<lparr>w_rounds := x\<rparr>)" for x by (simp add: healthy_def race_world_def demo_fl_def empty_world_def)
  show ?thesis
    by (simp add: TryAggregate_def db_call_healthy sql_count_def cas_aggregating_def aggregate_def fetchGradientHashes_def
        db_call_healthy [OF h] sql_select_def anomalyFilter_def NewWithConfig_def fedAvg_def completeRound_def race_summary_def race_result_def
        race_done_def sql_update_def)
      (simp add: healthy_def race_world_def demo_fl_def empty_world_def demo_round_def)
qed

lemma race_run:
  "\<exists>w. (fine_step demo_ext demo_co)\<^sup>*\<^sup>* ([], {}, race_world)
      ([Call 1 (Return (Inr (Some race_summary))), Submit race_submission (Submitted (Inr ()))], {}, w) \<and>
     w_rounds w = [race_done] \<and> sql_count (\<lambda>p. pt_round p = 1) (w_participants w) = 4"
proof -
  let ?s = "fine_step demo_ext demo_co" and ?orc = "co_fl demo_co" and ?done = "Call 1 (Return (Inr (Some race_summary)))"
  let ?c0 = "[Call 1 Resolve, Submit race_submission Check]" and ?c1 = "[Call 1 Resolve, Submit race_submission (Insert 1)]"
  let ?c2 = "[?done, Submit race_submission (Insert 1)]" and ?c3 = "[?done, Submit race_submission (Submitted (Inr ()))]"
  have orc: "?orc = race_orc" by (simp add: demo_co_def)
  have 0: "?s\<^sup>*\<^sup>* ([], {}, race_world) (?c0, {}, race_world)"
  proof -
    have "?s ([], {}, race_world) ([] @ [Call 1 Resolve], {}, race_world)" by (rule fine_step.arrive) simp
    moreover have "?s ([Call 1 Resolve], {}, race_world) ([Call 1 Resolve] @ [Submit race_submission Check], {}, race_world)"
      by (rule fine_step.arrive) simp
    ultimately show ?thesis by simp
  qed
  have 1: "alone demo_ext demo_env ?orc 1 (?c0 ! 1, race_world) = (?c1 ! 1, race_world)"
    by (simp add: db_call_healthy race_submission_def)
  obtain w3 where w3: "TryAggregate demo_ext demo_env race_orc 1 race_world = (Inr (Some race_summary), w3)" "healthy w3"
    "w_rounds w3 = [race_done]" "w_participants w3 = map demo_participant [2, 3, 4]" "w_nodes w3 = map race_node [2, 3, 4, 5]"
    using race_aggregated by auto
  then have 2: "alone demo_ext demo_env ?orc 7 (?c1 ! 0, race_world) = (?c2 ! 0, w3)"
    using TryAggregate_alone [OF w3(1)] orc by (simp add: Call_alone)
  define w4 where "w4 = w3\<lparr>w_participants := w_participants w3 @ [\<lparr>pt_round = 1, pt_node = 5, pt_hash = ''h'', pt_s3_url = ''gradients/1/5'', pt_flagged = False\<rparr>]\<rparr>"
  have n5: "lookup NodeID 5 (map race_node [2, 3, 4, 5]) \<noteq> None" by (simp add: lookup_def sql_row_def race_node_def)
  have 3: "alone demo_ext demo_env ?orc 1 (?c2 ! 1, w3) = (?c3 ! 1, w4)"
    using w3(2-5) n5 by (simp add: upsert_participant_def db_call_healthy race_done_def lookup_def sql_row_def race_submission_def w4_def sql_insert_def)
  have "?s\<^sup>*\<^sup>* ([], {}, race_world) (?c3, {}, w4)"
    using 0 alone_runs [OF 1, of "{}"] alone_runs [OF 2, of "{}"] alone_runs [OF 3, of "{}"] by simp
  moreover have "w_rounds w4 = [race_done]" "sql_count (\<lambda>p. pt_round p = 1) (w_participants w4) = 4"
    using w3(3,4) by (simp_all add: w4_def sql_count_def)
  ultimately show ?thesis by blast
qed

text \<open>A run in which a caller holds a round, with an orchestrator that asks for no participants.\<close>

definition eager_co :: coordinator where
  "eager_co = demo_co\<lparr>co_fl := race_orc\<lparr>minParticipants := 0\<rparr>\<rparr>"

lemma eager_opened:
  "\<exists>w. fine_start demo_ext ([], {}, empty_world 0) \<and> (fine_step demo_ext eager_co)\<^sup>*\<^sup>* ([], {}, empty_world 0) ([Call 1 Resolve], {}, w) \<and>
     healthy w \<and> w_rounds w = [demo_round ''open'']"
proof -
  obtain w where w: "co_start demo_ext ({}, empty_world 0)" "(co_step demo_ext eager_co)\<^sup>*\<^sup>* ({}, empty_world 0) ({}, w)" "healthy w"
    "w_rounds w = [demo_round ''open'']" using demo_opened by blast
  from w(2) have "(fine_step demo_ext eager_co)\<^sup>*\<^sup>* ([], {}, empty_world 0) ([], {}, w)"
    by (induction rule: rtranclp_induct) (auto intro: rtranclp.rtrancl_into_rtrancl fine_step.other)
  moreover have "fine_step demo_ext eager_co ([], {}, w) ([] @ [Call 1 Resolve], {}, w)" by (rule fine_step.arrive) simp
  ultimately have "(fine_step demo_ext eager_co)\<^sup>*\<^sup>* ([], {}, empty_world 0) ([Call 1 Resolve], {}, w)" by simp
  with w show ?thesis by (auto simp: fine_start_def)
qed

lemma demo_round_status: "demo_round a\<lparr>rd_status := b\<rparr> = demo_round b"
  by (simp add: demo_round_def)

lemma eager_fetches:
  assumes "healthy w" "w_rounds w = [demo_round ''open'']"
  shows "\<exists>n w'. alone demo_ext demo_env (co_fl eager_co) 3 (Call 1 Resolve, w) = (Call 1 (Fetch 1 n), w') \<and>
    w_rounds w' = [demo_round ''aggregating'']"
  using assms by (simp add: Call_alone eager_co_def numeral_3_eq_3 db_call_healthy cas_aggregating_def sql_count_def sql_update_def
      demo_round_status)

lemma eager_summary:
  assumes "healthy w" "w_rounds w = [demo_round ''open'']"
  shows "\<exists>s w' r. alone demo_ext demo_env (co_fl eager_co) 7 (Call 1 Resolve, w) = (Call 1 (Return (Inr (Some s))), w') \<and>
     lookup rd_number 1 (w_rounds w') = Some r \<and> rd_status r \<noteq> ''open'' \<and> rd_checkpoint r = Some race_result \<and>
     rounds_of w' 1 = Some (Round_complete race_result)"
proof -
  have h: "healthy (w\<lparr>w_rounds := x\<rparr>)" for x using assms(1) by (simp add: healthy_def)
  let ?r = "(demo_round ''open'')\<lparr>rd_status := ''complete'', rd_checkpoint := Some race_result, rd_completed := Some (w_now w)\<rparr>"
  have "\<exists>s w'. TryAggregate demo_ext demo_env (co_fl eager_co) 1 w = (Inr (Some s), w') \<and> w_rounds w' = [?r]"
    using assms(2) by (simp add: TryAggregate_def db_call_healthy [OF assms(1)] eager_co_def cas_aggregating_def sql_count_def aggregate_def
        fetchGradientHashes_def db_call_healthy [OF h] anomalyFilter_def NewWithConfig_def fedAvg_def completeRound_def race_result_def sql_update_def)
  then obtain s w' where t: "TryAggregate demo_ext demo_env (co_fl eager_co) 1 w = (Inr (Some s), w')" and r: "w_rounds w' = [?r]" by blast
  have "lookup rd_number 1 (w_rounds w') = Some ?r" by (simp add: r lookup_def sql_row_def)
  moreover from this have "rounds_of w' 1 = Some (Round_complete race_result)" by (simp add: rounds_of_def round_phase_of_def)
  ultimately show ?thesis using TryAggregate_alone [OF t] by (intro exI [of _ s] exI [of _ w'] exI [of _ ?r]) (simp add: Call_alone)
qed

lemma eager_claimed:
  "\<exists>w n. fine_start demo_ext ([], {}, empty_world 0) \<and> (fine_step demo_ext eager_co)\<^sup>*\<^sup>* ([], {}, empty_world 0) ([Call 1 (Fetch 1 n)], {}, w)"
proof -
  obtain w where w: "fine_start demo_ext ([], {}, empty_world 0)" "healthy w" "w_rounds w = [demo_round ''open'']"
    "(fine_step demo_ext eager_co)\<^sup>*\<^sup>* ([], {}, empty_world 0) ([Call 1 Resolve], {}, w)" using eager_opened by blast
  obtain n w' where "alone demo_ext demo_env (co_fl eager_co) 3 ([Call 1 Resolve] ! 0, w) = (Call 1 (Fetch 1 n), w')"
    using eager_fetches [OF w(2,3)] by auto
  from alone_runs [OF this, of "{}"] w(4) have "(fine_step demo_ext eager_co)\<^sup>*\<^sup>* ([], {}, empty_world 0) ([Call 1 (Fetch 1 n)], {}, w')"
    by simp
  with w(1) show ?thesis by blast
qed

lemma eager_published:
  "\<exists>w r s. fine_start demo_ext ([], {}, empty_world 0) \<and>
     (fine_step demo_ext eager_co)\<^sup>*\<^sup>* ([], {}, empty_world 0) ([Call 1 (Return (Inr (Some s)))], {}, w) \<and>
     lookup rd_number 1 (w_rounds w) = Some r \<and> rd_status r \<noteq> ''open'' \<and> rd_checkpoint r = Some race_result"
proof -
  obtain w where w: "fine_start demo_ext ([], {}, empty_world 0)" "healthy w" "w_rounds w = [demo_round ''open'']"
    "(fine_step demo_ext eager_co)\<^sup>*\<^sup>* ([], {}, empty_world 0) ([Call 1 Resolve], {}, w)" using eager_opened by blast
  obtain s w' r where a: "alone demo_ext demo_env (co_fl eager_co) 7 ([Call 1 Resolve] ! 0, w) = (Call 1 (Return (Inr (Some s))), w')"
    and r: "lookup rd_number 1 (w_rounds w') = Some r" "rd_status r \<noteq> ''open''" "rd_checkpoint r = Some race_result"
    using eager_summary [OF w(2,3)] by auto
  from alone_runs [OF a, of "{}"] w(4)
  have "(fine_step demo_ext eager_co)\<^sup>*\<^sup>* ([], {}, empty_world 0) ([Call 1 (Return (Inr (Some s)))], {}, w')" by simp
  with w(1) r show ?thesis by blast
qed

section \<open>Properties\<close>

text \<open>
  One caller aggregates a round. However the statements of any number of callers of
  \<open>TryAggregate\<close>, \<open>CloseExpired\<close> and \<open>SubmitGradient\<close> and the other operations are interleaved,
  and whatever fails, two callers never work on the same round between the claim and its end;
  and a round that is being worked on exists, is not open, and has no checkpoint yet.
\<close>

theorem one_aggregator:
  assumes "fine_start E x" "(fine_step E co)\<^sup>*\<^sup>* x (cs, A, w)"
    and "i < length cs" "j < length cs" "holds (cs ! i) = Some n" "holds (cs ! j) = Some n"
  shows "i = j \<and> (\<exists>r. lookup rd_number n (w_rounds w) = Some r \<and> rd_status r \<noteq> ''open'' \<and> rd_checkpoint r = None)"
proof -
  have ex: "exclusive (life_of w) (map holds cs)" using statements.inv_reachable [OF assms(1,2)] by (simp add: fine_ok_def)
  have "life_of w n = Some (False, None)" using exclusiveD(1) [OF ex, of i n] assms(3,5) by simp
  with exclusiveD(2) [OF ex, of i j n] assms(3-6) show ?thesis by (auto simp: life_of_def)
qed

theorem one_aggregator_witness:
  "\<exists>w n r. (fine_step demo_ext eager_co)\<^sup>*\<^sup>* ([], {}, empty_world 0) ([Call 1 (Fetch 1 n)], {}, w) \<and>
     lookup rd_number 1 (w_rounds w) = Some r \<and> rd_status r \<noteq> ''open''"
proof -
  obtain w n where w: "fine_start demo_ext ([], {}, empty_world 0)"
    "(fine_step demo_ext eager_co)\<^sup>*\<^sup>* ([], {}, empty_world 0) ([Call 1 (Fetch 1 n)], {}, w)" using eager_claimed by blast
  from one_aggregator [OF w, of 0 0 1] w(2) show ?thesis by auto
qed

text \<open>
  A checkpoint is published once. Under every interleaving of statements and operations, a
  round that is no longer open is never opened again and never disappears, and a checkpoint
  hash that it has is never replaced or removed.
\<close>

theorem checkpoint_final:
  assumes "fine_start E x" "(fine_step E co)\<^sup>*\<^sup>* x (cs, A, w)" "(fine_step E co)\<^sup>*\<^sup>* (cs, A, w) (cs', A', w')"
    and "lookup rd_number n (w_rounds w) = Some r" "rd_status r \<noteq> ''open''"
  shows "\<exists>r'. lookup rd_number n (w_rounds w') = Some r' \<and> rd_status r' \<noteq> ''open'' \<and>
    (rd_checkpoint r \<noteq> None \<longrightarrow> rd_checkpoint r' = rd_checkpoint r)"
proof -
  have ok: "fine_ok E (cs, A, w)" using statements.inv_reachable [OF assms(1,2)] .
  have "life_step\<^sup>*\<^sup>* (life_of w) (life_of w')" using statements.sim_steps [OF assms(3) ok] by simp
  moreover have "life_of w n = Some (False, rd_checkpoint r)" using assms(4,5) by (simp add: life_of_def)
  ultimately obtain c where "life_of w' n = Some (False, c) \<and> (rd_checkpoint r \<noteq> None \<longrightarrow> c = rd_checkpoint r)"
    using life_steps_stays by blast
  then show ?thesis by (auto simp: life_of_def)
qed

theorem checkpoint_final_witness:
  "\<exists>w r w' r'. lookup rd_number 1 (w_rounds w) = Some r \<and> rd_checkpoint r = Some race_result \<and>
     w' = co_exec demo_ext eager_co (CloseExpired_ev demo_env) w \<and>
     lookup rd_number 1 (w_rounds w') = Some r' \<and> rd_checkpoint r' = Some race_result"
proof -
  obtain w r s where w: "fine_start demo_ext ([], {}, empty_world 0)"
    "(fine_step demo_ext eager_co)\<^sup>*\<^sup>* ([], {}, empty_world 0) ([Call 1 (Return (Inr (Some s)))], {}, w)"
    "lookup rd_number 1 (w_rounds w) = Some r" "rd_status r \<noteq> ''open''" "rd_checkpoint r = Some race_result" using eager_published by blast
  let ?w' = "co_exec demo_ext eager_co (CloseExpired_ev demo_env) w"
  have "co_step demo_ext eager_co ({}, w) ({}, ?w')" by (rule step_call [OF _ refl]) simp
  then have "(fine_step demo_ext eager_co)\<^sup>*\<^sup>* ([Call 1 (Return (Inr (Some s)))], {}, w) ([Call 1 (Return (Inr (Some s)))], {}, ?w')"
    by (intro r_into_rtranclp fine_step.other)
  from checkpoint_final [OF w(1,2) this w(3,4)] w(3,5) show ?thesis by auto
qed

text \<open>
  C15 (statements make up the operations). A caller that nothing interrupts ends, with the result
  and the state of the operation: seven statements for \<open>TryAggregate\<close>, two for \<open>SubmitGradient\<close>,
  and some number of them for \<open>CloseExpired\<close>, whatever its database calls do.
\<close>

theorem statements_make_operations:
  "alone E M orc 7 (Call rn Resolve, w) = (Call rn (Return (fst (TryAggregate E M orc rn w))), snd (TryAggregate E M orc rn w)) \<and>
   (\<exists>k. alone E M orc k (Scan, w) = (Closed (fst (CloseExpired E M orc w)), snd (CloseExpired E M orc w))) \<and>
   alone E M orc 2 (Submit sub Check, w) = (Submit sub (Submitted (fst (SubmitGradient sub w))), snd (SubmitGradient sub w))"
proof (intro conjI)
  obtain res w' where t: "TryAggregate E M orc rn w = (res, w')" by fastforce
  show "alone E M orc 7 (Call rn Resolve, w) = (Call rn (Return (fst (TryAggregate E M orc rn w))), snd (TryAggregate E M orc rn w))"
    using TryAggregate_alone [OF t] t by (simp add: Call_alone)
qed (rule CloseExpired_alone, rule SubmitGradient_alone)


end
