(* ===== verification/Workers.thy ===== *)
theory Workers
  imports Coordinator
begin

text \<open>
  The way from a result to its payment under concurrency: \<open>SubmitTaskResult\<close> of
  \<open>internal/rpc/server.go\<close>, and \<open>worker\<close>, \<open>process\<close> and \<open>submitObserverReceipt\<close> of
  \<open>internal/payment/dispatcher.go\<close> one statement at a time: the ten workers of the dispatcher, any
  number of handlers and receipt goroutines at once, and every other operation of the coordinator
  between any two statements. A restart ends all of them and starts the workers again.
\<close>

section \<open>Workers, handlers and receipts\<close>

definition numWorkers :: nat where "numWorkers = 10"

text \<open>
  Where a worker stands: it waits for a job, or is about to make attempt \<open>k\<close> of a job (for which it
  waits first unless it is the first), or is about to record the payment or the failure; or the
  context was done and it has returned.
\<close>

datatype pay_pc =
  Idle
| Asking paymentJob nat
| Recording paymentJob string
| Failing paymentJob
| Stopped

text \<open>\<open>ctx_done k\<close> tells whether the context ends during the wait before attempt \<open>k\<close>.\<close>

fun pay_step :: "Client \<Rightarrow> bool \<Rightarrow> (nat \<Rightarrow> bool) \<Rightarrow> pay_pc \<Rightarrow> world \<Rightarrow> pay_pc \<times> world" where
  "pay_step lnc obs ctx_done Idle w = (case w_queue w of
     [] \<Rightarrow> (Idle, w)
   | job # q \<Rightarrow> (Asking job 0, w\<lparr>w_queue := q\<rparr>))"
| "pay_step lnc obs ctx_done (Asking job k) w =
     (if 0 < k \<and> ctx_done k then (Idle, w)
      else let res = SendPayment lnc (length (w_sent w)) (payment_request job);
               w = w\<lparr>w_sent := w_sent w @ [payment_request job]\<rparr>;
               again = (if k < 3 then Asking job (Suc k) else Failing job) in
        (case res of
          Inl _ \<Rightarrow> (again, w)
        | Inr None \<Rightarrow> (again, w)
        | Inr (Some r) \<Rightarrow> (if pr_Status r = ''SUCCEEDED'' then Recording job (Preimage r) else again, w)))"
| "pay_step lnc obs ctx_done (Recording job preimage) w =
     (case db_exec (\<lambda>w. w\<lparr>w_tasks := sql_update (\<lambda>t. tk_id t = j_TaskID job \<and> tk_payment_status t = ''pending'')
             (\<lambda>t. t\<lparr>tk_payment_status := ''paid'', tk_preimage := Some preimage\<rparr>) (w_tasks w)\<rparr>) w of
       (Inl _, w) \<Rightarrow> (Idle, w)
     | (Inr _, w) \<Rightarrow>
         let w = counter_inc ''owm_payments_total'' [''paid''] w;
             w = w\<lparr>w_paid_sats := w_paid_sats w + j_AmountSats job\<rparr>
         in (Idle, if obs then w\<lparr>w_receipts := w_receipts w @ [(job, preimage)]\<rparr> else w))"
| "pay_step lnc obs ctx_done (Failing job) w =
     (Idle, counter_inc ''owm_payments_total'' [''failed'']
        (snd (db_exec (\<lambda>w. w\<lparr>w_tasks := sql_update (\<lambda>t. tk_id t = j_TaskID job \<and> tk_payment_status t = ''pending'')
              (\<lambda>t. t\<lparr>tk_payment_status := ''failed''\<rparr>) (w_tasks w)\<rparr>) w)))"
| "pay_step lnc obs ctx_done Stopped w = (Stopped, w)"

text \<open>
  Where a handler of \<open>SubmitTaskResult\<close> stands. \<open>Penalise\<close> and \<open>Rate\<close> are the calls of
  \<open>UpdateReliability\<close>, whose statements concern the nodes.
\<close>

datatype result_pc =
  Authenticate
| Penalise uuid
| Type_of uuid uuid
| Mark uuid uuid string
| Rate uuid uuid
| Terms uuid
| Send uuid string int
| Acknowledge string
| Replied "TaskResultAck reply"

fun result_step :: "Server_rpc \<Rightarrow> TaskResult \<Rightarrow> result_pc \<Rightarrow> world \<Rightarrow> result_pc \<times> world" where
  "result_step S req Authenticate w =
     (case uuid_Parse (sv_ext S) (tr_TaskId req) of
       None \<Rightarrow> (Replied (Inl (InvalidArgument, ''invalid task_id: '')), w)
     | Some taskID \<Rightarrow>
       (case uuid_Parse (sv_ext S) (tr_NodeId req) of
         None \<Rightarrow> (Replied (Inl (InvalidArgument, ''invalid node_id: '')), w)
       | Some nodeID \<Rightarrow>
         if tr_Signature req = [] then (Replied (Inl (InvalidArgument, ''SIGNATURE_REQUIRED'')), w)
         else (case db_query_row (\<lambda>w. map_option PublicKey (lookup NodeID nodeID (w_nodes w))) w of
           (Inl _, w) \<Rightarrow> (Replied (Inl (PermissionDenied, ''node not found'')), w)
         | (Inr pubKeyHex, w) \<Rightarrow>
           (case verifyTaskResultSig (sv_ext S) pubKeyHex (tr_TaskId req) (tr_OutputHash req) (tr_Signature req) of
             Inl _ \<Rightarrow> (Penalise nodeID, w)
           | Inr _ \<Rightarrow> (Type_of taskID nodeID, w)))))"
| "result_step S req (Penalise nodeID) w =
     (Replied (Inl (PermissionDenied, ''INVALID_SIGNATURE'')), snd (UpdateReliability (sv_ext S) nodeID False w))"
| "result_step S req (Type_of taskID nodeID) w = (case task_type_of taskID w of (taskType, w) \<Rightarrow> (Mark taskID nodeID taskType, w))"
| "result_step S req (Mark taskID nodeID taskType) w =
     (case db_exec (\<lambda>w. w\<lparr>w_tasks := sql_update (\<lambda>t. tk_id t = taskID)
         (\<lambda>t. t\<lparr>tk_status := ''completed'', tk_output_hash := Some (hex_EncodeToString (tr_OutputHash req)), tk_completed := Some (w_now w)\<rparr>)
         (w_tasks w)\<rparr>) w of
       (Inl e, w) \<Rightarrow> (Replied (Inr \<lparr>ack_Accepted = False, ack_RejectionReason = ''internal error recording completion'',
          ack_PaymentStatus = ''failed''\<rparr>), w)
     | (Inr _, w) \<Rightarrow> (Rate taskID nodeID, if taskType \<noteq> [] then counter_inc ''owm_tasks_total'' [taskType, ''completed''] w else w))"
| "result_step S req (Rate taskID nodeID) w =
     (if sv_disp S then Terms taskID else Acknowledge ''queued'', snd (UpdateReliability (sv_ext S) nodeID True w))"
| "result_step S req (Terms taskID) w =
     (case db_query_row (\<lambda>w. case lookup tk_id taskID (w_tasks w) of
          None \<Rightarrow> None | Some t \<Rightarrow> map_option (\<lambda>uri. (uri, tk_reward t)) (tk_ln_uri t)) w of
       (Inl _, w) \<Rightarrow> (Acknowledge ''failed'', w)
     | (Inr (nodeLNURI, rewardSats), w) \<Rightarrow>
         (if nodeLNURI = [] then Acknowledge ''failed'' else Send taskID nodeLNURI rewardSats, w))"
| "result_step S req (Send taskID nodeLNURI rewardSats) w = (Acknowledge ''queued'', Enqueue taskID nodeLNURI rewardSats w)"
| "result_step S req (Acknowledge paymentStatus) w =
     (Replied (Inr \<lparr>ack_Accepted = True, ack_RejectionReason = [], ack_PaymentStatus = paymentStatus\<rparr>),
      counter_inc ''owm_task_duration_seconds_count'' [] w)"
| "result_step S req (Replied r) w = (Replied r, w)"

text \<open>Where the goroutine of a receipt stands: it looks whether there is one, submits, and stores the identifier.\<close>

datatype receipt_pc =
  Look paymentJob string
| Submit_receipt paymentJob string
| Store paymentJob string
| Over

fun receipt_step :: "ext \<Rightarrow> (Receipt \<Rightarrow> string result) option \<Rightarrow> receipt_pc \<Rightarrow> world \<Rightarrow> receipt_pc \<times> world" where
  "receipt_step E submitFn (Look job preimage) w =
     (case db_query_row (\<lambda>w. case lookup tk_id (j_TaskID job) (w_tasks w) of None \<Rightarrow> None | Some t \<Rightarrow> tk_receipt_id t) w of
       (r, w) \<Rightarrow>
        if (case r of Inr existingID \<Rightarrow> existingID \<noteq> [] | Inl _ \<Rightarrow> False) then (Over, observer_count ''skipped'' w)
        else (Submit_receipt job preimage, w))"
| "receipt_step E submitFn (Submit_receipt job preimage) w = (case submitFn of
       None \<Rightarrow> (Over, w)
     | Some submit \<Rightarrow>
       (case submit (job_receipt E job preimage) of
         Inl _ \<Rightarrow> (Over, observer_count ''failure'' w)
       | Inr receiptID \<Rightarrow> if receiptID = [] then (Over, observer_count ''failure'' w) else (Store job receiptID, w)))"
| "receipt_step E submitFn (Store job receiptID) w =
     (case db_call (\<lambda>w. (Inr (sql_count (\<lambda>t. tk_id t = j_TaskID job) (w_tasks w)),
                w\<lparr>w_tasks := sql_update (\<lambda>t. tk_id t = j_TaskID job) (\<lambda>t. t\<lparr>tk_receipt_id := Some receiptID\<rparr>) (w_tasks w)\<rparr>)) w of
       (Inl _, w) \<Rightarrow> (Over, observer_count ''failure'' w)
     | (Inr rowsAffected, w) \<Rightarrow>
         (Over, if rowsAffected \<noteq> 1 then observer_count ''not_persisted'' w else observer_count ''success'' w))"
| "receipt_step E submitFn Over w = (Over, w)"

section \<open>Statements and operations\<close>

lemma funpow_fix: "f x = x \<Longrightarrow> (f ^^ k) x = x"
  by (induction k) simp_all

lemma pay_attempts:
  "k \<le> 4 \<Longrightarrow> attempt_loop lnc d (payment_request job) [k..<4] w = (out, w') \<Longrightarrow>
   \<exists>n. ((\<lambda>(pc, w). pay_step lnc obs d pc w) ^^ n) (if k < 4 then Asking job k else Failing job, w) =
     (case out of Paid p \<Rightarrow> Recording job p | Cancelled \<Rightarrow> Idle | GaveUp \<Rightarrow> Failing job, w')"
proof (induction "4 - k" arbitrary: k w)
  case 0
  then show ?case by (intro exI [of _ 0]) simp
next
  case (Suc m)
  then have k: "k < 4" "[k..<4] = k # [Suc k..<4]" by (simp_all add: upt_conv_Cons)
  show ?case
  proof (cases "0 < k \<and> d k")
    case True
    then show ?thesis using Suc.prems(2) k by (intro exI [of _ 1]) auto
  next
    case False
    let ?w = "w\<lparr>w_sent := w_sent w @ [payment_request job]\<rparr>"
    show ?thesis
    proof (cases "settled (SendPayment lnc (length (w_sent w)) (payment_request job))")
      case (Some p)
      then have "pay_step lnc obs d (Asking job k) w = (Recording job p, ?w)"
        using False by (auto simp: settled_def Let_def split: sum.splits option.splits if_splits)
      then show ?thesis using Suc.prems(2) False Some k by (intro exI [of _ 1]) (auto simp: attempt_step simp del: attempt_loop.simps pay_step.simps)
    next
      case None
      then have s: "pay_step lnc obs d (Asking job k) w = (if Suc k < 4 then Asking job (Suc k) else Failing job, ?w)"
        using False by (auto simp: settled_def Let_def split: sum.splits option.splits if_splits)
      have "attempt_loop lnc d (payment_request job) [Suc k..<4] ?w = (out, w')"
        using Suc.prems(2) False None k by (simp add: attempt_step del: attempt_loop.simps)
      then obtain n where "((\<lambda>(pc, w). pay_step lnc obs d pc w) ^^ n) (if Suc k < 4 then Asking job (Suc k) else Failing job, ?w) =
          (case out of Paid p \<Rightarrow> Recording job p | Cancelled \<Rightarrow> Idle | GaveUp \<Rightarrow> Failing job, w')"
        using Suc.hyps(1) [of "Suc k" ?w] Suc.hyps(2) k(1) by fastforce
      then show ?thesis using s k(1) by (intro exI [of _ "Suc n"]) (simp add: funpow_Suc_right del: funpow.simps pay_step.simps)
    qed
  qed
qed

lemma worker_alone:
  "\<exists>n. ((\<lambda>(pc, w). pay_step lnc obs d pc w) ^^ n) (Idle, w) = (Idle, worker lnc obs d w)"
proof (cases "w_queue w")
  case Nil
  then show ?thesis by (intro exI [of _ 0]) (simp add: worker_def)
next
  case (Cons job q)
  let ?f = "\<lambda>(pc, w). pay_step lnc obs d pc w" and ?w = "w\<lparr>w_queue := q\<rparr>"
  obtain out w1 where l: "attempt_loop lnc d (payment_request job) [0, 1, 2, 3] ?w = (out, w1)" by fastforce
  have "[0..<4] = [0, 1, 2, 3::nat]" by (simp add: upt_rec)
  then obtain n where n: "(?f ^^ n) (Asking job 0, ?w) = (case out of Paid p \<Rightarrow> Recording job p | Cancelled \<Rightarrow> Idle | GaveUp \<Rightarrow> Failing job, w1)"
    using pay_attempts [of 0 lnc d job ?w out w1 obs] l by auto
  have t: "(?f ^^ 1) (Idle, w) = (Asking job 0, ?w)" using Cons by simp
  have "\<exists>m. (?f ^^ m) (case out of Paid p \<Rightarrow> Recording job p | Cancelled \<Rightarrow> Idle | GaveUp \<Rightarrow> Failing job, w1) = (Idle, process lnc obs d job ?w)"
  proof (cases out)
    case Cancelled
    then show ?thesis using l by (intro exI [of _ 0]) (simp add: process_def)
  qed (use l in \<open>auto simp: process_def Let_def split: prod.splits sum.splits intro!: exI [of _ 1]\<close>)
  then obtain m where "(?f ^^ m) (case out of Paid p \<Rightarrow> Recording job p | Cancelled \<Rightarrow> Idle | GaveUp \<Rightarrow> Failing job, w1) =
      (Idle, process lnc obs d job ?w)" ..
  with n t have "(?f ^^ (m + (n + 1))) (Idle, w) = (Idle, process lnc obs d job ?w)"
    unfolding funpow_add by simp
  moreover have "worker lnc obs d w = process lnc obs d job ?w" using Cons by (simp add: worker_def)
  ultimately show ?thesis by metis
qed

lemma accept_alone:
  "((\<lambda>(pc, w). result_step S req pc w) ^^ 6) (Type_of tid nid, w) = (Replied (fst (accept_result S req tid nid w)), snd (accept_result S req tid nid w))"
  by (auto simp: accept_result_def MarkComplete_def enqueue_payment_def Let_def eval_nat_numeral split: prod.splits sum.splits option.splits if_splits)

lemma receipt_alone:
  "((\<lambda>(pc, w). receipt_step E f pc w) ^^ 3) (Look job p, w) = (Over, submitObserverReceipt E f job p w)"
  by (auto simp: submitObserverReceipt_def eval_nat_numeral split: prod.splits sum.splits option.splits if_splits)

text \<open>The whole handler, with the result that it replies.\<close>

lemma SubmitTaskResult_alone:
  "\<exists>n. ((\<lambda>(pc, w). result_step S req pc w) ^^ n) (Authenticate, w) = (Replied (fst (SubmitTaskResult S req w)), snd (SubmitTaskResult S req w))"
proof -
  let ?f = "\<lambda>(pc, w). result_step S req pc w"
  obtain pc w1 where s: "result_step S req Authenticate w = (pc, w1)" by fastforce
  have rep: "(?f ^^ k) (Replied r, v) = (Replied r, v)" for k r v by (rule funpow_fix) simp
  have "(?f ^^ 7) (Authenticate, w) = (?f ^^ 6) (pc, w1)" using s by (simp add: funpow_swap1 eval_nat_numeral)
  also have "\<dots> = (Replied (fst (SubmitTaskResult S req w)), snd (SubmitTaskResult S req w))"
  proof (cases "\<exists>tid nid. pc = Type_of tid nid")
    case True
    then obtain tid nid where pc: "pc = Type_of tid nid" by blast
    then have "SubmitTaskResult S req w = accept_result S req tid nid w1"
      using s by (auto simp: SubmitTaskResult_def split: option.splits if_splits prod.splits sum.splits)
    then show ?thesis using accept_alone by (simp add: pc)
  next
    case False
    then have "(?f ^^ 1) (pc, w1) = (Replied (fst (SubmitTaskResult S req w)), snd (SubmitTaskResult S req w))"
      using s by (auto simp: SubmitTaskResult_def split: option.splits if_splits prod.splits sum.splits)
    then have "(?f ^^ (5 + 1)) (pc, w1) = (Replied (fst (SubmitTaskResult S req w)), snd (SubmitTaskResult S req w))"
      unfolding funpow_add using rep by simp
    then show ?thesis by simp
  qed
  finally show ?thesis by blast
qed

section \<open>The crew\<close>

datatype agent =
  Worker pay_pc
| Handler TaskResult result_pc
| Receipting receipt_pc

text \<open>The operations that agents carry out statement by statement.\<close>

fun by_agents :: "co_event \<Rightarrow> bool" where
  "by_agents (Worker_ev _ _) = True"
| "by_agents (Receipt_ev _ _) = True"
| "by_agents _ = False"

text \<open>
  \<open>A\<close> is the set of the tasks of which a handler found a valid signature. A worker is told that the
  context is done at any time, and between jobs it then returns.
\<close>

inductive agent_step :: "ext \<Rightarrow> coordinator \<Rightarrow> agent list \<times> uuid set \<times> world \<Rightarrow> agent list \<times> uuid set \<times> world \<Rightarrow> bool" for E co where
  arrive: "agent_step E co (ags, s) (ags @ [Handler req Authenticate], s)"
| receipt: "i < length (w_receipts w) \<Longrightarrow> w_receipts w ! i = (job, preimage) \<Longrightarrow>
    agent_step E co (ags, A, w) (ags @ [Receipting (Look job preimage)], A, w\<lparr>w_receipts := drop_nth i (w_receipts w)\<rparr>)"
| stop: "i < length ags \<Longrightarrow> ags ! i = Worker Idle \<Longrightarrow> agent_step E co (ags, s) (ags[i := Worker Stopped], s)"
| pay: "i < length ags \<Longrightarrow> ags ! i = Worker pc \<Longrightarrow> pay_step lnc (co_obs co \<noteq> None) d pc w = (pc', w') \<Longrightarrow>
    agent_step E co (ags, A, w) (ags[i := Worker pc'], A, w')"
| authentic: "i < length ags \<Longrightarrow> ags ! i = Handler req Authenticate \<Longrightarrow> result_authentic (rpc_server E co) req w tid nid \<Longrightarrow>
    result_step (rpc_server E co) req Authenticate w = (pc', w') \<Longrightarrow>
    agent_step E co (ags, A, w) (ags[i := Handler req pc'], insert tid A, w')"
| forged: "i < length ags \<Longrightarrow> ags ! i = Handler req Authenticate \<Longrightarrow> \<nexists>tid nid. result_authentic (rpc_server E co) req w tid nid \<Longrightarrow>
    result_step (rpc_server E co) req Authenticate w = (pc', w') \<Longrightarrow>
    agent_step E co (ags, A, w) (ags[i := Handler req pc'], A, w')"
| handle: "i < length ags \<Longrightarrow> ags ! i = Handler req pc \<Longrightarrow> pc \<noteq> Authenticate \<Longrightarrow> sizes_fit w \<Longrightarrow>
    result_step (rpc_server E co) req pc w = (pc', w') \<Longrightarrow>
    agent_step E co (ags, A, w) (ags[i := Handler req pc'], A, w')"
| submit: "i < length ags \<Longrightarrow> ags ! i = Receipting pc \<Longrightarrow> receipt_step E f pc w = (pc', w') \<Longrightarrow>
    agent_step E co (ags, A, w) (ags[i := Receipting pc'], A, w')"

inductive crew_step :: "ext \<Rightarrow> coordinator \<Rightarrow> agent list \<times> uuid set \<times> world \<Rightarrow> agent list \<times> uuid set \<times> world \<Rightarrow> bool" for E co where
  agent: "agent_step E co x y \<Longrightarrow> crew_step E co x y"
| call: "admissible ev w \<Longrightarrow> \<not> by_agents ev \<Longrightarrow> crew_step E co (ags, A, w) (ags, A, co_exec E co ev w)"
| clock: "w_now w \<le> t \<Longrightarrow> crew_step E co (ags, A, w) (ags, A, w\<lparr>w_now := t\<rparr>)"
| faults: "crew_step E co (ags, A, w) (ags, A, w\<lparr>w_faults := fs\<rparr>)"
| restart: "crew_step E co (ags, A, w) (replicate numWorkers (Worker Idle), A, Start (lose_memory w))"

lemmas crew_rules = agent_step.intros [THEN crew_step.agent]
lemmas crew_arrive = agent_step.arrive [THEN crew_step.agent]
lemmas crew_receipt = agent_step.receipt [THEN crew_step.agent]
lemmas crew_pay = agent_step.pay [THEN crew_step.agent]
lemmas crew_authentic = agent_step.authentic [THEN crew_step.agent]
lemmas crew_forged = agent_step.forged [THEN crew_step.agent]
lemmas crew_handle = agent_step.handle [THEN crew_step.agent]
lemmas crew_submit = agent_step.submit [THEN crew_step.agent]

definition crew_start :: "ext \<Rightarrow> agent list \<times> uuid set \<times> world \<Rightarrow> bool" where
  "crew_start E x \<longleftrightarrow> fst x = replicate numWorkers (Worker Idle) \<and> co_start E (snd x)"

text \<open>What an agent has in its hands is due.\<close>

definition grows :: "world \<Rightarrow> world \<Rightarrow> bool" where
  "grows w w' \<longleftrightarrow> task_terms ` set (w_tasks w) \<subseteq> task_terms ` set (w_tasks w')"

fun agent_ok :: "uuid set \<Rightarrow> world \<Rightarrow> agent \<Rightarrow> bool" where
  "agent_ok A w (Worker (Asking job k)) = (job_due A (w_tasks w) job \<and> k \<le> 3)"
| "agent_ok A w (Worker (Recording job p)) = job_due A (w_tasks w) job"
| "agent_ok A w (Worker (Failing job)) = job_due A (w_tasks w) job"
| "agent_ok A w (Handler req (Type_of tid nid)) = (tid \<in> A)"
| "agent_ok A w (Handler req (Mark tid nid tt)) = (tid \<in> A)"
| "agent_ok A w (Handler req (Rate tid nid)) = (tid \<in> A)"
| "agent_ok A w (Handler req (Terms tid)) = (tid \<in> A)"
| "agent_ok A w (Handler req (Send tid uri k)) = job_due A (w_tasks w) \<lparr>j_TaskID = tid, j_NodeLNURI = uri, j_AmountSats = k\<rparr>"
| "agent_ok A w _ = True"

definition crew_ok :: "ext \<Rightarrow> agent list \<times> uuid set \<times> world \<Rightarrow> bool" where
  "crew_ok E x \<longleftrightarrow> (case x of (ags, A, w) \<Rightarrow> sys_ok E (A, w) \<and> list_all (agent_ok A w) ags)"

subsection \<open>The invariant\<close>

lemma grows_refl [simp]: "grows w w"
  by (simp add: grows_def)

lemma grows_same: "w_tasks w' = w_tasks w \<Longrightarrow> grows w w'"
  by (simp add: grows_def)

lemma grows_update: "w_tasks w' = w_tasks w \<or> w_tasks w' = sql_update P f (w_tasks w) \<Longrightarrow> (\<And>t. task_terms (f t) = task_terms t) \<Longrightarrow> grows w w'"
  by (auto simp: grows_def)

text \<open>What a row says about its payment is kept: its terms, the status of the payment and the preimage.\<close>

definition task_account :: "task_row \<Rightarrow> uuid \<times> string option \<times> int \<times> string \<times> string option" where
  "task_account t = (tk_id t, tk_ln_uri t, tk_reward t, tk_payment_status t, tk_preimage t)"

definition accounts_kept :: "world \<Rightarrow> world \<Rightarrow> bool" where
  "accounts_kept w w' \<longleftrightarrow> task_account ` set (w_tasks w) \<subseteq> task_account ` set (w_tasks w')"

lemma task_account_simps [simp]: "task_account (t\<lparr>tk_status := a\<rparr>) = task_account t" "task_account (t\<lparr>tk_receipt_id := b\<rparr>) = task_account t"
  "task_account (t\<lparr>tk_completed := c\<rparr>) = task_account t" "task_account (t\<lparr>tk_started := c\<rparr>) = task_account t"
  "task_account (t\<lparr>tk_assigned := d\<rparr>) = task_account t" "task_account (t\<lparr>tk_output_hash := b\<rparr>) = task_account t"
  by (simp_all add: task_account_def)

lemma accounts_kept_grows: "accounts_kept w w' \<Longrightarrow> grows w w'"
proof -
  have "task_terms ` set ts = (\<lambda>(i, uri, r, _). (i, uri, r)) ` task_account ` set ts" for ts
    by (auto simp: task_terms_def task_account_def image_image)
  then show "accounts_kept w w' \<Longrightarrow> grows w w'" unfolding accounts_kept_def grows_def by (metis image_mono)
qed

lemma accounts_kept_refl [simp]: "accounts_kept w w"
  by (simp add: accounts_kept_def)

lemma accounts_kept_trans: "accounts_kept u v \<Longrightarrow> accounts_kept v w \<Longrightarrow> accounts_kept u w"
  by (auto simp: accounts_kept_def)

lemma accounts_kept_same: "w_tasks w' = w_tasks w \<Longrightarrow> accounts_kept w w'"
  by (simp add: accounts_kept_def)

lemma accounts_kept_update:
  assumes "w_tasks w' = w_tasks w \<or> w_tasks w' = sql_update P f (w_tasks w)" "\<And>t. task_account (f t) = task_account t"
  shows "accounts_kept w w'"
  using assms(1) map_sql_update_frame [of task_account f P "w_tasks w", OF assms(2)] by (auto simp: accounts_kept_def) (metis image_eqI list.set_map)

lemma agent_ok_mono:
  assumes "agent_ok A w ag" "A \<subseteq> B" "grows w w'"
  shows "agent_ok B w' ag"
proof -
  have due: "job_due A (w_tasks w) j \<Longrightarrow> job_due B (w_tasks w') j" for j
    using job_due_mono [OF _ assms(2)] assms(3) by (simp add: grows_def)
  show ?thesis using assms(1)
    by (cases "(A, w, ag)" rule: agent_ok.cases) (use due assms(2) in auto)
qed

lemma crew_okI:
  assumes "crew_ok E (ags, A, w)" "sys_ok E (B, w')" "A \<subseteq> B" "grows w w'" "agent_ok B w' ag"
  shows "crew_ok E (ags[i := ag], B, w')"
  using assms agent_ok_mono [OF _ assms(3,4)] set_update_subset_insert [of ags i ag]
  by (auto simp: crew_ok_def list_all_iff)

lemma crew_ok_other:
  assumes "crew_ok E (ags, A, w)" "sys_ok E (B, w')" "A \<subseteq> B" "grows w w'"
  shows "crew_ok E (ags, B, w')"
  using assms agent_ok_mono [OF _ assms(3,4)] by (auto simp: crew_ok_def list_all_iff)

lemma sys_ok_record:
  assumes "sys_ok E (A, w)" "base w' = base w" "w_queue w' = w_queue w" "w_sent w' = w_sent w"
    and "w_tasks w' = w_tasks w \<or> w_tasks w' = sql_update P f (w_tasks w)" "tasks_ok (w_tasks w')"
    and "\<And>t. task_terms (f t) = task_terms t" "\<And>t. P t \<Longrightarrow> task_paid_ok A t \<Longrightarrow> task_paid_ok A (f t)"
  shows "sys_ok E (A, w') \<and> grows w w'"
proof -
  have ok: "pay_ok A w" using sys_okD [OF assms(1)] by blast
  have g: "task_terms ` set (w_tasks w) \<subseteq> task_terms ` set (w_tasks w')" using assms(5,7) by auto
  have "list_all (task_paid_ok A) (w_tasks w')"
    using assms(5) ok task_paid_ok_update [of A "w_tasks w" A P f] assms(8) by (auto simp: pay_ok_def)
  then have "pay_ok A w'" using ok assms(3,4,6) g by (intro pay_ok_step [OF ok order_refl]) (auto simp: pay_ok_def)
  then show ?thesis using sys_ok_tasks [OF assms(1,2)] g by (simp add: grows_def)
qed

lemma pay_step_agent:
  assumes "pay_step lnc obs d pc w = (pc', w')" "sys_ok E (A, w)" "agent_ok A w (Worker pc)"
  shows "sys_ok E (A, w') \<and> grows w w' \<and> agent_ok A w' (Worker pc')"
proof -
  have ok: "pay_ok A w" "tasks_ok (w_tasks w)" "list_all (task_paid_ok A) (w_tasks w)" "length (w_queue w) \<le> queueSize"
    "list_all (job_due A (w_tasks w)) (w_queue w)" using sys_okD [OF assms(2)] by (auto simp: pay_ok_def)
  show ?thesis
  proof (cases pc)
    case Idle
    show ?thesis
    proof (cases "w_queue w")
      case Nil
      with assms Idle show ?thesis by simp
    next
      case (Cons job q)
      with assms(1) Idle have e: "pc' = Asking job 0" "w' = w\<lparr>w_queue := q\<rparr>" by simp_all
      have "pay_ok A w'" using ok Cons by (intro pay_ok_step [OF ok(1) order_refl]) (auto simp: e)
      then show ?thesis using sys_ok_tasks [OF assms(2)] e ok Cons by (auto intro: grows_same)
    qed
  next
    case (Asking job k)
    then have due: "job_due A (w_tasks w) job" "k \<le> 3" using assms(3) by simp_all
    let ?w = "w\<lparr>w_sent := w_sent w @ [payment_request job]\<rparr>"
    have "pay_ok A ?w" using ok due by (intro pay_ok_step [OF ok(1) order_refl]) auto
    then have s: "sys_ok E (A, ?w)" using sys_ok_tasks [OF assms(2)] by simp
    have "pc' = Idle \<and> w' = w \<or> w' = ?w \<and> (pc' = Failing job \<or> (\<exists>p. pc' = Recording job p) \<or> pc' = Asking job (Suc k) \<and> k < 3)"
      using assms(1) Asking by (auto simp: Let_def split: if_splits sum.splits option.splits)
    then show ?thesis using s due assms(2) by (auto intro: grows_same)
  next
    case (Recording job p)
    have f: "w_tasks w' = w_tasks w \<or> w_tasks w' = mark_paid job p (w_tasks w)" "w_queue w' = w_queue w" "w_sent w' = w_sent w"
      "base w' = base w" "pc' = Idle"
      using assms(1) Recording by (auto simp: db_call_def Let_def mark_paid_def split: if_splits)
    have "sys_ok E (A, w') \<and> grows w w'"
      using f ok(2) mark_paid_ok [of "w_tasks w" job p]
      by (intro sys_ok_record [OF assms(2) f(4,2,3) f(1) [unfolded mark_paid_def]]) (auto simp: mark_paid_def task_paid_ok_def)
    then show ?thesis using f(5) by simp
  next
    case (Failing job)
    have f: "w_tasks w' = w_tasks w \<or> w_tasks w' = mark_failed job (w_tasks w)" "w_queue w' = w_queue w" "w_sent w' = w_sent w"
      "base w' = base w" "pc' = Idle"
      using assms(1) Failing by (auto simp: db_call_def mark_failed_def)
    have "sys_ok E (A, w') \<and> grows w w'"
      using f ok(2) mark_failed_ok [of "w_tasks w" job]
      by (intro sys_ok_record [OF assms(2) f(4,2,3) f(1) [unfolded mark_failed_def]]) (auto simp: mark_failed_def task_paid_ok_def)
    then show ?thesis using f(5) by simp
  next
    case Stopped
    with assms show ?thesis by simp
  qed
qed

lemma receipt_step_agent:
  assumes "receipt_step E f pc w = (pc', w')" "sys_ok E (A, w)"
  shows "sys_ok E (A, w') \<and> grows w w'"
proof -
  have ok: "tasks_ok (w_tasks w)" using sys_okD [OF assms(2)] by (simp add: pay_ok_def)
  have same: "sys_ok E (A, w') \<and> grows w w'" if "pay_part w' = pay_part w" "base w' = base w" for w'
    using that sys_ok_tasks [OF assms(2) that(2)] pay_ok_cong [OF that(1)] sys_okD [OF assms(2)]
    by (auto simp: pay_part_def intro: grows_same)
  show ?thesis
  proof (cases pc)
    case (Store job i)
    have "w_tasks w' = w_tasks w \<or> w_tasks w' = sql_update (\<lambda>t. tk_id t = j_TaskID job) (\<lambda>t. t\<lparr>tk_receipt_id := Some i\<rparr>) (w_tasks w)"
      "w_queue w' = w_queue w" "w_sent w' = w_sent w" "base w' = base w"
      using assms(1) Store by (auto simp: db_call_def split: if_splits)
    note f = this
    have "tasks_ok (w_tasks w')" using f(1) ok by (auto simp: task_ok_def intro!: tasks_ok_update)
    then show ?thesis by (intro sys_ok_record [OF assms(2) f(4,2,3,1)]) (auto simp: task_paid_ok_def)
  next
    case (Look job p)
    have "pay_part w' = pay_part w \<and> base w' = base w"
      using assms(1) Look by (auto simp: db_call_def pay_part_def base_def fl_part_def split: if_splits option.splits)
    then show ?thesis using same by blast
  next
    case (Submit_receipt job p)
    have "pay_part w' = pay_part w \<and> base w' = base w"
      using assms(1) Submit_receipt by (auto simp: pay_part_def split: if_splits option.splits sum.splits)
    then show ?thesis using same by blast
  qed (use assms in auto)
qed

text \<open>The statements of a handler, once the signature was found valid or not.\<close>

lemma Authenticate_step:
  assumes "result_step (rpc_server E co) req Authenticate w = (pc', w')"
  shows "ticked w w'" "(\<exists>rep. pc' = Replied rep) \<or> (\<exists>nid. pc' = Penalise nid) \<or> (\<exists>tid nid. pc' = Type_of tid nid)"
    and "pc' = Type_of tid nid \<Longrightarrow> result_authentic (rpc_server E co) req w tid nid"
  using assms
  by (auto simp: result_authentic_def db_call_def verifyTaskResultSig_def split: option.splits if_splits sum.splits)

lemma sys_ok_rate:
  assumes "sys_ok E (A, w)" "sizes_fit w"
  shows "sys_ok E (A, snd (UpdateReliability E nid ok w)) \<and> grows w (snd (UpdateReliability E nid ok w))"
proof -
  have "nodes_ok (w_nodes (snd (UpdateReliability E nid ok w)))" "stakes_ok (w_stakes w)"
    using UpdateReliability_nodes_ok [of w E nid ok] sys_okD [OF assms(1)] assms(2) by (simp_all add: sizes_fit_def)
  then show ?thesis using sys_ok_nodes [OF assms(1)] by (simp add: grows_same)
qed

lemma result_step_agent:
  assumes "result_step (rpc_server E co) req pc w = (pc', w')" "sys_ok E (A, w)" "agent_ok A w (Handler req pc)" "sizes_fit w" "pc \<noteq> Authenticate"
  shows "sys_ok E (A, w') \<and> grows w w' \<and> agent_ok A w' (Handler req pc')"
proof -
  have ok: "pay_ok A w" "tasks_ok (w_tasks w)" "length (w_queue w) \<le> queueSize"
    using sys_okD [OF assms(2)] by (auto simp: pay_ok_def)
  have tick: "sys_ok E (A, db_tick w) \<and> grows w (db_tick w)" using sys_ok_ticked [OF assms(2)] by (simp add: grows_same)
  have count: "sys_ok E (A, counter_inc m ls v) = sys_ok E (A, v)" for m ls v
    by (simp add: sys_ok_def pay_ok_def fl_ok_def)
  show ?thesis
  proof (cases pc)
    case (Penalise nid)
    then show ?thesis using assms(1) sys_ok_rate [OF assms(2,4), of nid False] by auto
  next
    case (Type_of tid nid)
    have "w' = db_tick w \<and> (\<exists>tt. pc' = Mark tid nid tt)"
      using assms(1) Type_of by (auto simp: task_type_of_def db_call_def split: if_splits option.splits)
    then show ?thesis using tick assms(3) Type_of by auto
  next
    case (Mark tid nid tt)
    let ?f = "\<lambda>t. t\<lparr>tk_status := ''completed'', tk_output_hash := Some (hex_EncodeToString (tr_OutputHash req)), tk_completed := Some (w_now w)\<rparr>"
    have f: "w_tasks w' = w_tasks w \<or> w_tasks w' = sql_update (\<lambda>t. tk_id t = tid) ?f (w_tasks w)"
      "w_queue w' = w_queue w" "w_sent w' = w_sent w" "base w' = base w" "pc' = Rate tid nid \<or> (\<exists>r. pc' = Replied r)"
      using assms(1) Mark by (auto simp: db_call_def split: if_splits)
    have "tasks_ok (w_tasks w')" using f(1) ok(2) by (auto simp: task_ok_def task_statuses_def intro!: tasks_ok_update)
    moreover have "tid \<in> A" using assms(3) Mark by simp
    ultimately have "sys_ok E (A, w') \<and> grows w w'"
      by (intro sys_ok_record [OF assms(2) f(4,2,3,1)]) (auto simp: task_paid_ok_def)
    then show ?thesis using f(5) \<open>tid \<in> A\<close> by auto
  next
    case (Rate tid nid)
    then show ?thesis using assms(1,3) sys_ok_rate [OF assms(2,4), of nid True] by (auto split: if_splits)
  next
    case (Terms tid)
    have "tid \<in> A" using assms(3) Terms by simp
    then have "w' = db_tick w \<and> agent_ok A w' (Handler req pc')"
      using assms(1) Terms by (auto simp: db_call_def job_due_def task_job_def split: if_splits option.splits dest!: lookup_Some)
    then show ?thesis using tick by auto
  next
    case (Send tid uri k)
    then have e: "pc' = Acknowledge ''queued''" "w' = Enqueue tid uri k w"
      and due: "job_due A (w_tasks w) \<lparr>j_TaskID = tid, j_NodeLNURI = uri, j_AmountSats = k\<rparr>" using assms(1,3) by auto
    have "pay_ok A w'" using ok due
      by (intro pay_ok_step [OF ok(1) order_refl]) (auto simp: e Enqueue_def enqueue_job_def pay_ok_def split: if_splits)
    then show ?thesis using sys_ok_tasks [OF assms(2), of w'] e by (auto simp: Enqueue_def intro: grows_same)
  next
    case (Acknowledge st)
    then show ?thesis using assms(1,2) count by (auto intro: grows_same)
  qed (use assms in auto)
qed

lemma call_kept:
  assumes "\<not> by_agents ev"
  shows "accounts_kept w (co_exec E co ev w)"
proof -
  have side: "side w' = side w \<Longrightarrow> accounts_kept w w'" for w' by (rule accounts_kept_same) (simp add: side_defs)
  have core: "core w' = core w \<Longrightarrow> accounts_kept w w'" for w' by (rule accounts_kept_same) (simp add: core_def)
  have tick: "ticked w w' \<Longrightarrow> accounts_kept w w'" for w' by (rule accounts_kept_same) (auto simp: ticked_def)
  have grad: "core (snd (SubmitGradient_rpc S up g w)) = core w" for S up g
  proof -
    have "core (snd (SubmitGradient sub w)) = core w" for sub by (rule core_snd) (rule SubmitGradient_core)
    then show ?thesis using SubmitGradient_rpc_cases [of S up g w] by auto
  qed
  note ticks = tick [OF reads_ticked(1)] tick [OF reads_ticked(2)] tick [OF reads_ticked(3)] tick [OF reads_ticked(4)]
  show ?thesis using assms
  proof (cases ev)
    case Requeue_ev
    then show ?thesis by (auto simp: RequeueTimedOut_def db_call_def requeue_def intro!: accounts_kept_update)
  next
    case (Schedule_ev rng redis fresh tt ih tmo)
    then show ?thesis using Schedule_effect [of E rng redis fresh tt ih tmo w]
      by (cases "Schedule E rng redis fresh tt ih tmo w") (auto simp: accounts_kept_def sql_insert_def)
  next
    case (MarkFailed_ev tid nid)
    show ?thesis unfolding MarkFailed_ev co_exec.simps by (rule accounts_kept_update [OF MarkFailed_frame(5)]) simp
  next
    case (Stamp_ev i M post order)
    then show ?thesis by (auto intro!: core split: prod.split)
  next
    case (CloseExpired_ev M)
    then show ?thesis using core [OF core_snd [OF CloseExpired_core]] by simp
  next
    case (TryAggregate_ev M rn)
    then show ?thesis using core [OF core_snd [OF TryAggregate_core]] by simp
  next
    case (OpenRound_ev v)
    then show ?thesis using core [OF core_snd [OF OpenRound_core]] by simp
  next
    case (SubmitGradient_ev up g)
    then show ?thesis using core [OF grad] by simp
  qed (simp_all only: by_agents.simps not_True_eq_False, (simp only: co_exec.simps, (rule ticks | rule side; simp))+)
qed

lemma call_grows: "\<not> by_agents ev \<Longrightarrow> grows w (co_exec E co ev w)"
  by (rule accounts_kept_grows) (rule call_kept)

lemma agent_step_ok: "agent_step E co x y \<Longrightarrow> crew_ok E x \<Longrightarrow> crew_ok E y"
proof (induction rule: agent_step.induct)
  case (arrive ags s req)
  then show ?case by (cases s) (simp add: crew_ok_def)
next
  case (receipt i w job p ags A)
  have "grows w (w\<lparr>w_receipts := drop_nth i (w_receipts w)\<rparr>)" by (rule grows_same) simp
  then show ?case using receipt agent_ok_mono [OF _ order_refl] by (auto simp: crew_ok_def list_all_iff)
next
  case (stop i ags s)
  then show ?case using set_update_subset_insert [of ags i "Worker Stopped"] by (cases s) (auto simp: crew_ok_def list_all_iff)
next
  case (pay i ags pc lnc d w pc' w' A)
  then have ok: "sys_ok E (A, w)" "agent_ok A w (Worker pc)" by (auto simp: crew_ok_def list_all_length)
  show ?case using pay_step_agent [OF pay(3) ok] crew_okI [OF pay(4) _ order_refl] by blast
next
  case (authentic i ags req w tid nid pc' w' A)
  then have ok: "sys_ok E (A, w)" by (simp add: crew_ok_def)
  note st = Authenticate_step [OF authentic(4)]
  have "sys_ok E (insert tid A, w)" using sys_okD [OF ok] task_paid_ok_mono [of A "w_tasks w" "insert tid A"]
      pay_ok_step [of A w "insert tid A" w] by (auto simp: sys_ok_def pay_ok_def)
  then have "sys_ok E (insert tid A, w')" using sys_ok_ticked st(1) by blast
  moreover have "agent_ok (insert tid A) w' (Handler req pc')"
    using st(2,3) authentic(3) by (auto simp: result_authentic_def)
  moreover have "grows w w'" using st(1) by (intro grows_same) (auto simp: ticked_def)
  ultimately show ?case using crew_okI [OF authentic(5)] by blast
next
  case (forged i ags req w pc' w' A)
  then have ok: "sys_ok E (A, w)" by (simp add: crew_ok_def)
  note st = Authenticate_step [OF forged(4)]
  have "agent_ok A w' (Handler req pc')" using st(2,3) forged(3) by auto
  moreover have "grows w w'" using st(1) by (intro grows_same) (auto simp: ticked_def)
  ultimately show ?case using crew_okI [OF forged(5) sys_ok_ticked [OF ok st(1)] order_refl] by blast
next
  case (handle i ags req pc w pc' w' A)
  then have ok: "sys_ok E (A, w)" "agent_ok A w (Handler req pc)" by (auto simp: crew_ok_def list_all_length)
  show ?case using result_step_agent [OF handle(5) ok handle(4,3)] crew_okI [OF handle(6) _ order_refl] by blast
next
  case (submit i ags pc f w pc' w' A)
  then have ok: "sys_ok E (A, w)" by (simp add: crew_ok_def)
  show ?case using receipt_step_agent [OF submit(3) ok] crew_okI [OF submit(4) _ order_refl] by simp
qed

lemma crew_step_ok: "crew_step E co x y \<Longrightarrow> crew_ok E x \<Longrightarrow> crew_ok E y"
proof (induction rule: crew_step.induct)
  case (agent x y)
  then show ?case by (rule agent_step_ok)
next
  case (call ev w ags A)
  then show ?case using crew_ok_other [OF call(3) sys_ok_call [OF call(1)] order_refl call_grows [OF call(2)]] by (simp add: crew_ok_def)
next
  case (clock w t ags A)
  then show ?case using crew_ok_other [OF clock(2), of A "w\<lparr>w_now := t\<rparr>"] by (simp add: crew_ok_def grows_same)
next
  case (faults ags A w fs)
  then show ?case using crew_ok_other [OF faults, of A "w\<lparr>w_faults := fs\<rparr>"] by (simp add: crew_ok_def grows_same)
next
  case (restart ags A w)
  then show ?case using sys_ok_restart [of E A w] by (auto simp: crew_ok_def list_all_iff)
qed

lemma crew_start_ok: "crew_start E x \<Longrightarrow> crew_ok E x"
  using sys_ok_start by (auto simp: crew_start_def crew_ok_def list_all_iff split: prod.split)

interpretation crew: transition_system "crew_start E" "crew_step E co" "crew_ok E" for E co
  by unfold_locales (fact crew_start_ok, fact crew_step_ok)

section \<open>Serial runs\<close>

text \<open>
  Every run in which the operations are single steps is a run of the crew: a worker that is alone
  finishes its turn, and a handler or a receipt that is alone its operation.
\<close>

lemma result_step_fits:
  assumes "result_step S req pc w = (pc', w')" "sizes_fit w"
  shows "sizes_fit w' \<and> pc' \<noteq> Authenticate"
proof -
  have u: "w_tasks (snd (UpdateReliability E nid ok w)) = w_tasks w \<and> w_heartbeats (snd (UpdateReliability E nid ok w)) = w_heartbeats w" for E nid ok
    by (auto simp: UpdateReliability_def db_call_def Let_def split: world_splits)
  show ?thesis
    using assms u
    by (cases pc) (auto simp: sizes_fit_def db_call_def task_type_of_def Enqueue_def sql_update_def split: sum.splits option.splits if_splits)
qed

lemma agent_alone:
  assumes "\<And>pc w pc' w'. P pc w \<Longrightarrow> f (pc, w) = (pc', w') \<Longrightarrow>
      P pc' w' \<and> crew_step E co (ags[i := c pc], A, w) (ags[i := c pc'], A, w')"
    and "P pc w" "ags ! i = c pc" "(f ^^ n) (pc, w) = (pc', w')"
  shows "(crew_step E co)\<^sup>*\<^sup>* (ags, A, w) (ags[i := c pc'], A, w') \<and> P pc' w'"
  using assms(4)
proof (induction n arbitrary: pc' w')
  case 0
  then show ?case using assms(2,3) list_update_id [of ags i] by auto
next
  case (Suc n)
  obtain pc1 w1 where n: "(f ^^ n) (pc, w) = (pc1, w1)" by fastforce
  then have "f (pc1, w1) = (pc', w')" using Suc.prems by simp
  then show ?case using assms(1) [of pc1 w1 pc' w'] Suc.IH [OF n] by auto
qed

lemma pay_alone:
  assumes "i < length ags" "ags ! i = Worker pc"
    and "((\<lambda>(pc, w). pay_step lnc (co_obs co \<noteq> None) d pc w) ^^ n) (pc, w) = (pc', w')"
  shows "(crew_step E co)\<^sup>*\<^sup>* (ags, A, w) (ags[i := Worker pc'], A, w')"
proof -
  have "crew_step E co (ags[i := Worker pc], A, w) (ags[i := Worker pc'], A, w')"
    if "pay_step lnc (co_obs co \<noteq> None) d pc w = (pc', w')" for pc w pc' w'
    using crew_pay [of i "ags[i := Worker pc]" pc lnc co d w pc' w' E A] that assms(1) by simp
  then show ?thesis
    using agent_alone [where P = "\<lambda>_ _. True" and c = Worker and A = A, OF _ TrueI assms(2,3)] by auto
qed

lemma receipting_alone:
  assumes "i < length ags" "ags ! i = Receipting pc"
    and "((\<lambda>(pc, w). receipt_step E f pc w) ^^ n) (pc, w) = (pc', w')"
  shows "(crew_step E co)\<^sup>*\<^sup>* (ags, A, w) (ags[i := Receipting pc'], A, w')"
proof -
  have "crew_step E co (ags[i := Receipting pc], A, w) (ags[i := Receipting pc'], A, w')"
    if "receipt_step E f pc w = (pc', w')" for pc w pc' w'
    using crew_submit [of i "ags[i := Receipting pc]" pc E f w pc' w' co A] that assms(1) by simp
  then show ?thesis
    using agent_alone [where P = "\<lambda>_ _. True" and c = Receipting and A = A, OF _ TrueI assms(2,3)] by auto
qed

lemma handle_alone:
  assumes "i < length ags" "ags ! i = Handler req pc" "pc \<noteq> Authenticate \<and> sizes_fit w"
    and "((\<lambda>(pc, w). result_step (rpc_server E co) req pc w) ^^ n) (pc, w) = (pc', w')"
  shows "(crew_step E co)\<^sup>*\<^sup>* (ags, A, w) (ags[i := Handler req pc'], A, w')"
proof -
  have step: "(pc' \<noteq> Authenticate \<and> sizes_fit w') \<and> crew_step E co (ags[i := Handler req pc], A, w) (ags[i := Handler req pc'], A, w')"
    if "pc \<noteq> Authenticate \<and> sizes_fit w" "(\<lambda>(pc, w). result_step (rpc_server E co) req pc w) (pc, w) = (pc', w')" for pc w pc' w'
  proof -
    have s: "result_step (rpc_server E co) req pc w = (pc', w')" using that(2) by simp
    then show ?thesis
      using crew_handle [of i "ags[i := Handler req pc]" req pc w E co pc' w' A] result_step_fits [OF s] that(1) assms(1) by simp
  qed
  show ?thesis
    by (rule agent_alone [where P = "\<lambda>pc w. pc \<noteq> Authenticate \<and> sizes_fit w" and c = "Handler req", OF step assms(3,2,4), THEN conjunct1])
qed

text \<open>A handler that is alone, from its first statement on.\<close>

lemma result_alone:
  assumes "sizes_fit w" "(\<exists>tid nid. result_authentic (rpc_server E co) req w tid nid \<and> B = insert tid A) \<or>
      (\<nexists>tid nid. result_authentic (rpc_server E co) req w tid nid) \<and> B = A"
  shows "\<exists>ag. (crew_step E co)\<^sup>*\<^sup>* (ags, A, w) (ags @ [ag], B, snd (SubmitTaskResult (rpc_server E co) req w))"
proof -
  let ?S = "rpc_server E co" and ?i = "length ags" and ?ags = "ags @ [Handler req Authenticate]"
  obtain n where n: "((\<lambda>(pc, w). result_step ?S req pc w) ^^ n) (Authenticate, w) =
      (Replied (fst (SubmitTaskResult ?S req w)), snd (SubmitTaskResult ?S req w))" using SubmitTaskResult_alone by blast
  then obtain m where m: "n = Suc m" by (cases n) auto
  obtain pc1 w1 where s: "result_step ?S req Authenticate w = (pc1, w1)" by fastforce
  have n': "((\<lambda>(pc, w). result_step ?S req pc w) ^^ m) (pc1, w1) =
      (Replied (fst (SubmitTaskResult ?S req w)), snd (SubmitTaskResult ?S req w))"
    using n s by (simp add: m funpow_Suc_right del: funpow.simps result_step.simps)
  have 1: "crew_step E co (ags, A, w) (?ags, A, w)" by (rule crew_arrive)
  have at: "?i < length ?ags" "?ags ! ?i = Handler req Authenticate" "?ags[?i := ag] = ags @ [ag]" for ag by simp_all
  have 2: "crew_step E co (?ags, A, w) (ags @ [Handler req pc1], B, w1)"
    using assms(2) crew_authentic [OF at(1,2) _ s] crew_forged [OF at(1,2) _ s] at(3) by auto
  have "(crew_step E co)\<^sup>*\<^sup>* (ags @ [Handler req pc1], B, w1)
      ((ags @ [Handler req pc1])[?i := Handler req (Replied (fst (SubmitTaskResult ?S req w)))], B, snd (SubmitTaskResult ?S req w))"
    by (rule handle_alone [OF _ _ _ n']) (use result_step_fits [OF s assms(1)] in auto)
  then show ?thesis
    using converse_rtranclp_into_rtranclp [of "crew_step E co", OF 1 converse_rtranclp_into_rtranclp [of "crew_step E co", OF 2]]
    by (intro exI [of _ "Handler req (Replied (fst (SubmitTaskResult ?S req w)))"]) simp
qed

lemma event_alone:
  assumes "admissible ev w" "0 < length ags" "ags ! 0 = Worker Idle"
  shows "\<exists>bgs. (crew_step E co)\<^sup>*\<^sup>* (ags, A, w) (ags @ bgs, A, co_exec E co ev w)"
proof (cases "by_agents ev")
  case False
  then show ?thesis using crew_step.call [OF assms(1)] by (intro exI [of _ "[]"]) (simp add: r_into_rtranclp del: co_exec.simps)
next
  case True
  then consider lnc d where "ev = Worker_ev lnc d" | i f where "ev = Receipt_ev i f" by (cases ev) auto
  then show ?thesis
  proof cases
    case 1
    obtain n where n: "((\<lambda>(pc, w). pay_step lnc (co_obs co \<noteq> None) d pc w) ^^ n) (Idle, w) = (Idle, worker lnc (co_obs co \<noteq> None) d w)"
      using worker_alone by blast
    show ?thesis using pay_alone [OF assms(2,3) n, of E A] assms(3) list_update_id [of ags 0] 1 by (intro exI [of _ "[]"]) simp
  next
    case 2
    show ?thesis
    proof (cases "i < length (w_receipts w)")
      case False
      then show ?thesis using 2 by (intro exI [of _ "[]"]) simp
    next
      case True
      obtain job p where r: "w_receipts w ! i = (job, p)" by fastforce
      let ?w = "w\<lparr>w_receipts := drop_nth i (w_receipts w)\<rparr>"
      have "crew_step E co (ags, A, w) (ags @ [Receipting (Look job p)], A, ?w)" by (rule crew_receipt [OF True r])
      moreover have "(crew_step E co)\<^sup>*\<^sup>* (ags @ [Receipting (Look job p)], A, ?w)
          ((ags @ [Receipting (Look job p)])[length ags := Receipting Over], A, submitObserverReceipt E f job p ?w)"
        by (rule receipting_alone [OF _ _ receipt_alone]) simp_all
      moreover have "co_exec E co ev w = submitObserverReceipt E f job p ?w" using 2 True r by simp
      ultimately show ?thesis by (intro exI [of _ "[Receipting Over]"]) (simp add: converse_rtranclp_into_rtranclp)
    qed
  qed
qed

lemma serial_step:
  assumes "co_step E co s t" "0 < length ags" "ags ! 0 = Worker Idle"
  shows "\<exists>bgs. (crew_step E co)\<^sup>*\<^sup>* (ags, s) (bgs, t) \<and> 0 < length bgs \<and> bgs ! 0 = Worker Idle"
  using assms(1)
proof (cases rule: co_step.cases)
  case (call ev w A)
  then obtain bgs where "(crew_step E co)\<^sup>*\<^sup>* (ags, A, w) (ags @ bgs, A, co_exec E co ev w)"
    using event_alone [OF call(3) assms(2,3), of E co A] by blast
  then show ?thesis using call(1,2) assms(2,3) by (intro exI [of _ "ags @ bgs"]) (simp add: nth_append)
next
  case (result req w tid nid A)
  obtain ag where "(crew_step E co)\<^sup>*\<^sup>* (ags, A, w) (ags @ [ag], insert tid A, snd (SubmitTaskResult (rpc_server E co) req w))"
    using result_alone [OF result(4), of E co req "insert tid A" A ags] result(3) by auto
  then show ?thesis using result assms(2,3) by (intro exI [of _ "ags @ [ag]"]) (simp add: nth_append)
next
  case (forged req w A)
  then obtain ag where "(crew_step E co)\<^sup>*\<^sup>* (ags, A, w) (ags @ [ag], A, snd (SubmitTaskResult (rpc_server E co) req w))"
    using result_alone [OF forged(4), of E co req A A ags] by auto
  then show ?thesis using forged assms(2,3) by (intro exI [of _ "ags @ [ag]"]) (simp add: nth_append)
next
  case (clock w t' A)
  then show ?thesis using crew_step.clock [of w t' E co ags A] assms(2,3) by blast
next
  case (faults A w fs)
  then show ?thesis using crew_step.faults [of E co ags A w fs] assms(2,3) by blast
next
  case (restart A w)
  then show ?thesis using crew_step.restart [of E co ags A w]
    by (intro exI [of _ "replicate numWorkers (Worker Idle)"]) (auto simp: numWorkers_def)
qed

lemma serial_runs:
  assumes "(co_step E co)\<^sup>*\<^sup>* s t"
  shows "\<exists>ags. (crew_step E co)\<^sup>*\<^sup>* (replicate numWorkers (Worker Idle), s) (ags, t) \<and> 0 < length ags \<and> ags ! 0 = Worker Idle"
  using assms
proof (induction rule: rtranclp_induct)
  case base
  show ?case by (intro exI [of _ "replicate numWorkers (Worker Idle)"]) (simp add: numWorkers_def)
next
  case (step t u)
  then obtain ags where a: "(crew_step E co)\<^sup>*\<^sup>* (replicate numWorkers (Worker Idle), s) (ags, t)" "0 < length ags" "ags ! 0 = Worker Idle" by blast
  from serial_step [OF step(2) a(2,3)] a(1) show ?case by (meson rtranclp_trans)
qed

section \<open>From a result to its payment\<close>

lemma turns_lookup:
  "lookup tk_id i (w_tasks w) = Some t \<Longrightarrow>
   \<exists>t'. lookup tk_id i (w_tasks (worker_turns obs turns w)) = Some t' \<and> tk_status t' = tk_status t"
proof (induction turns arbitrary: w t)
  case (Cons a turns)
  obtain lnc d where a: "a = (lnc, d)" by fastforce
  have p: "\<exists>t'. lookup tk_id i (w_tasks (process lnc obs d job w)) = Some t' \<and> tk_status t' = tk_status t"
    if "lookup tk_id i (w_tasks w) = Some t" for job w
    using process_effect [of lnc job w obs d] that by (auto simp: lookup_mark_paid lookup_mark_failed)
  have "\<exists>t'. lookup tk_id i (w_tasks (worker lnc obs d w)) = Some t' \<and> tk_status t' = tk_status t"
    using Cons.prems p [of "w\<lparr>w_queue := tl (w_queue w)\<rparr>" "hd (w_queue w)"] by (cases "w_queue w") (auto simp: worker_def)
  then obtain t' where "lookup tk_id i (w_tasks (worker lnc obs d w)) = Some t'" "tk_status t' = tk_status t" by blast
  with Cons.IH [of "worker lnc obs d w" t'] show ?case by (simp add: a)
qed simp

text \<open>A Lightning node that settles whatever it is asked.\<close>

definition settles_all :: "Client \<Rightarrow> bool" where
  "settles_all lnc \<longleftrightarrow> (\<forall>i req. settled (SendPayment lnc i req) \<noteq> None)"

lemma settles_all_process:
  assumes "healthy w" "\<forall>k. \<not> d k" "settles_all lnc"
  shows "\<exists>p. w_tasks (process lnc obs d job w) = mark_paid job p (w_tasks w)"
proof -
  obtain p where "answers lnc (payment_request job) w 0 = Some p" using assms(3) by (auto simp: settles_all_def answers_def)
  from process_paid [OF assms(1) _ _ _ this, of d obs] assms(2) show ?thesis by (auto simp: Let_def)
qed

definition not_failed :: "uuid \<Rightarrow> task_row list \<Rightarrow> bool" where
  "not_failed tid ts \<longleftrightarrow> (case lookup tk_id tid ts of None \<Rightarrow> True | Some t \<Rightarrow> tk_payment_status t \<in> {''pending'', ''paid''})"

lemma turns_not_failed:
  assumes "healthy w" "list_all (\<lambda>(lnc, d). (\<forall>k. \<not> d k) \<and> settles_all lnc) turns" "not_failed i (w_tasks w)"
  shows "not_failed i (w_tasks (worker_turns obs turns w))"
  using assms
proof (induction turns arbitrary: w)
  case (Cons a turns)
  obtain lnc d where a: "a = (lnc, d)" by fastforce
  have d: "\<forall>k. \<not> d k" "settles_all lnc" using Cons.prems(2) a by simp_all
  have "healthy (worker lnc obs d w) \<and> not_failed i (w_tasks (worker lnc obs d w))"
  proof (cases "w_queue w")
    case Nil
    with Cons.prems show ?thesis by (simp add: worker_def)
  next
    case (Cons job q)
    have h: "healthy (w\<lparr>w_queue := q\<rparr>)" using Cons.prems(1) by (simp add: healthy_def)
    show ?thesis
      using settles_all_process [OF h d, of obs job] process_settles [OF h d(1), of lnc obs job] Cons.prems(3) Cons
      by (auto simp: worker_def not_failed_def lookup_mark_paid split: option.splits if_splits)
  qed
  with Cons.IH [of "worker lnc obs d w"] Cons.prems(2) show ?case by (simp add: a)
qed simp

section \<open>Properties\<close>

text \<open>
  Payments are due. Start the coordinator on an empty database, with
  its ten workers. Let any number of handlers of \<open>SubmitTaskResult\<close>, receipt goroutines and workers
  run their statements in any interleaving with each other and with all other operations, with any
  database failures, any answers from outside, any shutdowns and restarts. Every payment request
  that was ever made is for the address and the reward, between 0 and 800 satoshis, of the row of a
  task for which a handler found a valid signature of a registered node.
\<close>

theorem payments_are_due_concurrent:
  assumes "crew_start E x" "(crew_step E co)\<^sup>*\<^sup>* x (agents, A, w)" "r \<in> set (w_sent w)"
  shows "\<exists>t\<in>set (w_tasks w). \<exists>uri. tk_id t \<in> A \<and> tk_ln_uri t = Some uri \<and> 0 \<le> tk_reward t \<and> tk_reward t \<le> 800 \<and>
    r = \<lparr>DestPubkeyHex = parsePubkeyFromLNURI uri, AmountSats = tk_reward t, Memo = [], TimeoutSecs = 60\<rparr>"
proof -
  have ok: "pay_ok A w" using crew.inv_reachable [OF assms(1,2)] sys_okD unfolding crew_ok_def by blast
  then obtain j where j: "job_due A (w_tasks w) j" "r = payment_request j" using assms(3) by (auto simp: pay_ok_def)
  then obtain t uri where t: "j_TaskID j \<in> A" "t \<in> set (w_tasks w)" "tk_ln_uri t = Some uri" "j = task_job t uri"
    by (auto simp: job_due_def)
  have "task_paid_ok A t" using ok t(2) by (simp add: pay_ok_def list_all_iff)
  then show ?thesis using t j(2)
    by (intro bexI [of _ t] exI [of _ uri]) (simp_all add: task_paid_ok_def payment_request_def task_job_def)
qed

theorem payments_are_due_concurrent_witness:
  "\<exists>agents A w r. (crew_step demo_ext demo_co)\<^sup>*\<^sup>* (replicate 10 (Worker Idle), {}, empty_world demo_now) (agents, A, w) \<and>
     r \<in> set (w_sent w) \<and> AmountSats r \<le> 800"
proof -
  obtain A w where r: "co_start demo_ext ({}, empty_world demo_now)" "(co_step demo_ext demo_co)\<^sup>*\<^sup>* ({}, empty_world demo_now) (A, w)"
    and "w_sent w \<noteq> []" using demo_run [of demo_co] by blast
  then obtain q where q: "q \<in> set (w_sent w)" by (cases "w_sent w") auto
  obtain ags where c: "(crew_step demo_ext demo_co)\<^sup>*\<^sup>* (replicate numWorkers (Worker Idle), {}, empty_world demo_now) (ags, A, w)"
    using serial_runs [OF r(2)] by blast
  have s: "crew_start demo_ext (replicate numWorkers (Worker Idle), {}, empty_world demo_now)" using r(1) by (simp add: crew_start_def)
  from payments_are_due_concurrent [OF s c q] have "AmountSats q \<le> 800" by auto
  with c q show ?thesis unfolding numWorkers_def by blast
qed

text \<open>
  C16 (statements make operations). A worker, a handler of \<open>SubmitTaskResult\<close> and a receipt goroutine
  that nothing interrupts end, after finitely many statements, with the reply and the state of the
  operation, whatever the Lightning node and the registry answer and whichever database calls fail.
\<close>

theorem agents_make_operations:
  "(\<exists>n. ((\<lambda>(pc, w). pay_step lnc obs ctx_done pc w) ^^ n) (Idle, w) = (Idle, worker lnc obs ctx_done w)) \<and>
   (\<exists>n. ((\<lambda>(pc, w). result_step S req pc w) ^^ n) (Authenticate, w) = (Replied (fst (SubmitTaskResult S req w)), snd (SubmitTaskResult S req w))) \<and>
   ((\<lambda>(pc, w). receipt_step E submitFn pc w) ^^ 3) (Look job preimage, w) = (Over, submitObserverReceipt E submitFn job preimage w)"
  using worker_alone [of lnc obs ctx_done w] SubmitTaskResult_alone [of S req w] receipt_alone [of E submitFn job preimage w] by blast

text \<open>
  C23 (an accepted result is settled). With a working database, a running dispatcher and room in its
  queue, the first authentic result of a task with a node address is acknowledged as queued; and
  after as many turns of the workers as jobs are then waiting, the task is completed, a request for its
  reward was made, and its payment is no longer pending. If the Lightning node settles what it is
  asked, the payment is recorded as paid.
\<close>

theorem result_is_settled:
  assumes "result_authentic S req w tid nid" "healthy w" "sv_disp S" "lookup tk_id tid (w_tasks w) = Some t"
    and "tk_ln_uri t = Some uri" "uri \<noteq> []" "tk_payment_status t = ''pending''" "length (w_queue w) < queueSize"
    and "SubmitTaskResult S req w = (res, w')" "length turns = Suc (length (w_queue w))"
    and "list_all (\<lambda>(lnc, ctx_done). \<forall>k. \<not> ctx_done k) turns"
  shows "res = Inr \<lparr>ack_Accepted = True, ack_RejectionReason = [], ack_PaymentStatus = ''queued''\<rparr> \<and>
    (\<exists>t'. lookup tk_id tid (w_tasks (worker_turns obs turns w')) = Some t' \<and> tk_status t' = ''completed'' \<and>
      tk_payment_status t' \<noteq> ''pending'' \<and> payment_request (task_job t uri) \<in> set (w_sent (worker_turns obs turns w')) \<and>
      (list_all (\<lambda>(lnc, _). settles_all lnc) turns \<longrightarrow> tk_payment_status t' = ''paid''))"
proof -
  have a: "accept_result S req tid nid w = (res, w')"
    using SubmitTaskResult_authentic [OF assms(1)] healthy_not_down [OF assms(2)] db_tick_healthy [OF assms(2)] assms(9) by simp
  note acc = accept_result_healthy [OF assms(2-6) a]
  let ?oh = "hex_EncodeToString (tr_OutputHash req)" and ?w = "worker_turns obs turns w'"
  have q: "w_queue w' = w_queue w @ [task_job t uri]" using acc(3) assms(8) by (simp add: enqueue_job_def)
  have len: "length turns = length (w_queue w')" using q assms(10) by simp
  have tid: "tk_id t = tid" using lookup_Some [OF assms(4)] by simp
  have l: "lookup tk_id tid (w_tasks w') = Some (t\<lparr>tk_status := ''completed'', tk_output_hash := Some ?oh, tk_completed := Some (w_now w)\<rparr>)"
    using acc(2) assms(4) tid by (simp add: lookup_complete_task)
  obtain t' where t': "lookup tk_id tid (w_tasks ?w) = Some t'" "tk_status t' = ''completed''"
    using turns_lookup [OF l, of obs turns] by auto
  obtain ks where ks: "length ks = length (w_queue w')" "list_all (\<lambda>k. 1 \<le> k \<and> k \<le> 4) ks"
    "w_sent ?w = w_sent w' @ concat (map2 (\<lambda>job k. replicate k (payment_request job)) (w_queue w') ks)"
    "list_all (\<lambda>job. not_pending (j_TaskID job) (w_tasks ?w)) (w_queue w')"
    using turns_drain [OF len acc(4) assms(11), of obs] by blast
  have np: "tk_payment_status t' \<noteq> ''pending''"
    using ks(4) q t'(1) tid by (simp add: not_pending_def task_job_def)
  obtain ks' k where k: "ks = ks' @ [k]" "1 \<le> k" "length ks' = length (w_queue w)"
    using ks(1,2) q by (cases ks rule: rev_cases) auto
  then have sent: "payment_request (task_job t uri) \<in> set (w_sent ?w)" using ks(3) q by (simp add: set_replicate_conv_if)
  have "tk_payment_status t' = ''paid''" if "list_all (\<lambda>(lnc, _). settles_all lnc) turns"
  proof -
    have "list_all (\<lambda>(lnc, d). (\<forall>k. \<not> d k) \<and> settles_all lnc) turns" using that assms(11) by (auto simp: list_all_iff)
    then have "not_failed tid (w_tasks ?w)" using turns_not_failed [OF acc(4)] l assms(7) by (simp add: not_failed_def)
    then show ?thesis using t'(1) np by (simp add: not_failed_def)
  qed
  then show ?thesis using acc(1) t' np sent by blast
qed

theorem result_is_settled_witness:
  "\<exists>w' t'. SubmitTaskResult (demo_server None) demo_result demo_result_world =
       (Inr \<lparr>ack_Accepted = True, ack_RejectionReason = [], ack_PaymentStatus = ''queued''\<rparr>, w') \<and>
     lookup tk_id 1 (w_tasks (worker_turns False [(demo_payer, \<lambda>_. False)] w')) = Some t' \<and> tk_payment_status t' = ''paid''"
proof -
  let ?S = "demo_server None"
  obtain res w' where s: "SubmitTaskResult ?S demo_result demo_result_world = (res, w')" by fastforce
  have l: "lookup tk_id 1 (w_tasks demo_result_world) = Some (demo_task ''running'' ''pending'')"
    unfolding demo_result_world_simps by (rule demo_task_lookup)
  have p: "settles_all demo_payer" using demo_payer_answers by (simp add: settles_all_def settled_def demo_payer_def mock_Client_def mock_SendPayment_def mock_New_def)
  have "sv_disp ?S" "tk_ln_uri (demo_task ''running'' ''pending'') = Some ''02ab@host:9735''" "''02ab@host:9735'' \<noteq> []"
    "tk_payment_status (demo_task ''running'' ''pending'') = ''pending''" "length (w_queue demo_result_world) < queueSize"
    "length [(demo_payer, \<lambda>_::nat. False)] = Suc (length (w_queue demo_result_world))"
    "list_all (\<lambda>(lnc, d). \<forall>k. \<not> d k) [(demo_payer, \<lambda>_. False)]" by (simp_all add: queueSize_def)
  from result_is_settled [OF demo_result_authentic demo_result_world_simps(1) this(1) l this(2-5) s this(6,7), of False] p s show ?thesis by auto
qed

text \<open>
  C25 (a payment that is not recorded is repeated). The node settles a payment and the statement
  that records it fails. The task then stays completed with its payment pending, so the next start
  queues it again, and the worker pays the full amount once more; the row shows one payment.
\<close>

theorem unrecorded_payment_repeats:
  assumes "w_queue w = [task_job t uri]" "w_tasks w = [t]" "tk_status t = ''completed''" "tk_payment_status t = ''pending''"
    and "tk_ln_uri t = Some uri" "w_faults w = [True]" "settles_all lnc" "\<forall>k. \<not> ctx_done k"
  shows "let w1 = worker lnc obs ctx_done w; w2 = Start (lose_memory w1); w3 = worker lnc obs ctx_done w2 in
    w_tasks w1 = [t] \<and> w_queue w1 = [] \<and> w_queue w2 = [task_job t uri] \<and>
    w_sent w3 = w_sent w @ [payment_request (task_job t uri), payment_request (task_job t uri)] \<and>
    (\<exists>p. w_tasks w3 = [t\<lparr>tk_payment_status := ''paid'', tk_preimage := Some p\<rparr>])"
proof -
  let ?r = "payment_request (task_job t uri)"
  obtain p where p: "settled (SendPayment lnc (length (w_sent w)) ?r) = Some p" using assms(7) by (auto simp: settles_all_def)
  define w1 where "w1 = worker lnc obs ctx_done w"
  have w1: "w_tasks w1 = [t]" "w_queue w1 = []" "w_sent w1 = w_sent w @ [?r]" "w_faults w1 = []"
    using p assms(1,2,6) unfolding w1_def worker_def process_def
    by (simp_all add: attempt_step db_call_def db_down_def db_tick_def del: attempt_loop.simps)
  define w2 where "w2 = Start (lose_memory w1)"
  have w2: "w_queue w2 = [task_job t uri]" "w_tasks w2 = [t]" "w_sent w2 = w_sent w @ [?r]" "healthy w2"
    using w1 assms(3-5) unfolding w2_def Start_def
    by (simp_all add: db_call_def db_down_def db_tick_def lose_memory_def sql_select_def recovery_job_def task_job_def enqueue_job_def
        queueSize_def healthy_def)
  have h: "healthy (w2\<lparr>w_queue := []\<rparr>)" using w2(4) by (simp add: healthy_def)
  obtain q where q: "answers lnc ?r (w2\<lparr>w_queue := []\<rparr>) 0 = Some q" using assms(7) by (auto simp: settles_all_def answers_def)
  have w3: "w_sent (worker lnc obs ctx_done w2) = w_sent w @ [?r, ?r]" "w_tasks (worker lnc obs ctx_done w2) = mark_paid (task_job t uri) q [t]"
    using process_paid [OF h _ _ _ q, of ctx_done obs] assms(8) w2 by (auto simp: worker_def Let_def)
  have "mark_paid (task_job t uri) q [t] = [t\<lparr>tk_payment_status := ''paid'', tk_preimage := Some q\<rparr>]"
    using assms(4) by (simp add: mark_paid_def sql_update_def task_job_def)
  then show ?thesis unfolding Let_def w1_def [symmetric] w2_def [symmetric] using w1 w2(1) w3 by auto
qed

theorem unrecorded_payment_repeats_witness:
  "\<exists>w. w_faults w = [True] \<and> w_tasks w = [demo_task ''completed'' ''pending''] \<and>
     length (w_sent (worker demo_payer False (\<lambda>_. False) (Start (lose_memory (worker demo_payer False (\<lambda>_. False) w))))) = 2"
proof -
  let ?t = "demo_task ''completed'' ''pending''"
  let ?w = "(demo_pay_world [?t])\<lparr>w_queue := [task_job ?t ''02ab@host:9735''], w_faults := [True]\<rparr>"
  have p: "settles_all demo_payer" by (simp add: settles_all_def settled_def demo_payer_def mock_Client_def mock_SendPayment_def mock_New_def)
  have "w_queue ?w = [task_job ?t ''02ab@host:9735'']" "w_tasks ?w = [?t]" "w_sent ?w = []" "w_faults ?w = [True]" by simp_all
  with unrecorded_payment_repeats [of ?w ?t "''02ab@host:9735''" demo_payer "\<lambda>_. False" False] p show ?thesis
    by (intro exI [of _ ?w]) (simp add: Let_def)
qed

end
