(* ===== verification/Lifecycle.thy ===== *)
theory Lifecycle
  imports Workers
begin

text \<open>
  The life of the process, \<open>cmd/coordinator/main.go\<close> after the listeners are open: \<open>run\<close> waits for
  a signal or for the failure of the gRPC server, cancels the context of workers and tickers, shuts the
  HTTP server down, and stops the gRPC server, which waits for the calls that are open. Around these
  statements run the agents of \<open>Workers\<close> and all other operations. A life ends with a restart, which
  may come at any time.
\<close>

section \<open>Main\<close>

datatype main_pc = Select | Cancel | Http_shutdown | Graceful_stop | Returned "unit result"

text \<open>
  \<open>lf_ctx_done\<close> tells whether the context of workers and tickers is done, \<open>lf_streams\<close> counts the open
  calls of \<open>StreamTasks\<close>, \<open>lf_http\<close> the HTTP requests that are being served.
\<close>

record life =
  lf_main :: main_pc
  lf_ctx_done :: bool
  lf_streams :: nat
  lf_http :: nat

definition serving :: life where
  "serving = \<lparr>lf_main = Select, lf_ctx_done = False, lf_streams = 0, lf_http = 0\<rparr>"

text \<open>What ends the wait. The deferred \<open>bgCancel\<close> cancels the context when \<open>run\<close> returns.\<close>

datatype wake = Signal | Serve_error go_error

fun on_wake :: "wake \<Rightarrow> life \<Rightarrow> life" where
  "on_wake Signal L = L\<lparr>lf_main := Cancel\<rparr>"
| "on_wake (Serve_error e) L = L\<lparr>lf_main := Returned (Inl (Wrap ''gRPC serve'' e)), lf_ctx_done := True\<rparr>"

text \<open>Whether an agent leaves no call of a client open.\<close>

fun replied :: "agent \<Rightarrow> bool" where
  "replied (Handler req (Replied r)) = True"
| "replied (Handler req pc) = False"
| "replied ag = True"

text \<open>
  The statements after the signal. \<open>Shutdown\<close> and \<open>GracefulStop\<close> return when nothing is open any
  more; until then they block.
\<close>

definition main_step :: "agent list \<Rightarrow> life \<Rightarrow> life option" where
  "main_step ags L = (case lf_main L of
     Select \<Rightarrow> None
   | Cancel \<Rightarrow> Some (L\<lparr>lf_main := Http_shutdown, lf_ctx_done := True\<rparr>)
   | Http_shutdown \<Rightarrow> if lf_http L = 0 then Some (L\<lparr>lf_main := Graceful_stop\<rparr>) else None
   | Graceful_stop \<Rightarrow> if lf_streams L = 0 \<and> list_all replied ags then Some (L\<lparr>lf_main := Returned (Inr ())\<rparr>) else None
   | Returned r \<Rightarrow> None)"

text \<open>When new calls and new requests are accepted.\<close>

definition accepting :: "life \<Rightarrow> bool" where
  "accepting L \<longleftrightarrow> lf_main L \<in> {Select, Cancel, Http_shutdown}"

definition http_accepting :: "life \<Rightarrow> bool" where
  "http_accepting L \<longleftrightarrow> lf_main L \<in> {Select, Cancel}"

section \<open>Lives\<close>

text \<open>
  A statement in the context that is done: what it asks of the database fails, and this says nothing
  about the database.
\<close>

definition in_done_ctx :: "(world \<Rightarrow> 'a \<times> world) \<Rightarrow> world \<Rightarrow> 'a \<times> world" where
  "in_done_ctx f w = (case f (w\<lparr>w_faults := True # w_faults w\<rparr>) of (r, w') \<Rightarrow> (r, w'\<lparr>w_faults := w_faults w\<rparr>))"

datatype origin = From_client | From_http | From_ticker | From_agent | From_inside

fun origin_of :: "co_event \<Rightarrow> origin" where
  "origin_of (RegisterNode_ev _ _ _) = From_client"
| "origin_of (Heartbeat_ev _) = From_client"
| "origin_of (DeregisterNode_ev _) = From_client"
| "origin_of (SubmitGradient_ev _ _) = From_client"
| "origin_of (GetCurrentModel_ev _ _) = From_client"
| "origin_of (ListModelVersions_ev _ _) = From_client"
| "origin_of (GetStakeStatus_ev _) = From_client"
| "origin_of (GetNodeStatus_ev _) = From_http"
| "origin_of Requeue_ev = From_ticker"
| "origin_of (Reverify_ev _) = From_ticker"
| "origin_of (CloseExpired_ev _) = From_ticker"
| "origin_of (Worker_ev _ _) = From_agent"
| "origin_of (Receipt_ev _ _) = From_agent"
| "origin_of _ = From_inside"

definition may_run :: "life \<Rightarrow> co_event \<Rightarrow> bool" where
  "may_run L ev = (case origin_of ev of
     From_client \<Rightarrow> (case lf_main L of Returned _ \<Rightarrow> False | _ \<Rightarrow> True)
   | From_http \<Rightarrow> False | From_ticker \<Rightarrow> \<not> lf_ctx_done L | From_agent \<Rightarrow> False | From_inside \<Rightarrow> True)"

type_synonym process_state = "life \<times> agent list \<times> uuid set \<times> world"

inductive life_step :: "ext \<Rightarrow> coordinator \<Rightarrow> process_state \<Rightarrow> process_state \<Rightarrow> bool" for E co where
  wake: "lf_main L = Select \<Longrightarrow> life_step E co (L, x) (on_wake wk L, x)"
| main: "main_step ags L = Some L' \<Longrightarrow> life_step E co (L, ags, s) (L', ags, s)"
| stream_open: "accepting L \<Longrightarrow> life_step E co (L, x) (L\<lparr>lf_streams := Suc (lf_streams L)\<rparr>, x)"
| stream_end: "lf_streams L = Suc n \<Longrightarrow> life_step E co (L, x) (L\<lparr>lf_streams := n\<rparr>, x)"
| request: "http_accepting L \<Longrightarrow> life_step E co (L, x) (L\<lparr>lf_http := Suc (lf_http L)\<rparr>, x)"
| page: "lf_http L = Suc n \<Longrightarrow> life_step E co (L, x) (L\<lparr>lf_http := n\<rparr>, x)"
| status: "lf_http L = Suc n \<Longrightarrow> life_step E co (L, ags, A, w) (L\<lparr>lf_http := n\<rparr>, ags, A, co_exec E co (GetNodeStatus_ev pk) w)"
| call: "admissible ev w \<Longrightarrow> may_run L ev \<Longrightarrow> life_step E co (L, ags, A, w) (L, ags, A, co_exec E co ev w)"
| late_tick: "admissible ev w \<Longrightarrow> origin_of ev = From_ticker \<Longrightarrow> lf_ctx_done L \<Longrightarrow>
    in_done_ctx (\<lambda>w. ((), co_exec E co ev w)) w = ((), w') \<Longrightarrow> life_step E co (L, ags, A, w) (L, ags, A, w')"
| arrive: "accepting L \<Longrightarrow> life_step E co (L, ags, s) (L, ags @ [Handler req Authenticate], s)"
| authentic: "i < length ags \<Longrightarrow> ags ! i = Handler req Authenticate \<Longrightarrow> result_authentic (rpc_server E co) req w tid nid \<Longrightarrow>
    result_step (rpc_server E co) req Authenticate w = (pc', w') \<Longrightarrow>
    life_step E co (L, ags, A, w) (L, ags[i := Handler req pc'], insert tid A, w')"
| forged: "i < length ags \<Longrightarrow> ags ! i = Handler req Authenticate \<Longrightarrow> \<nexists>tid nid. result_authentic (rpc_server E co) req w tid nid \<Longrightarrow>
    result_step (rpc_server E co) req Authenticate w = (pc', w') \<Longrightarrow>
    life_step E co (L, ags, A, w) (L, ags[i := Handler req pc'], A, w')"
| handle: "i < length ags \<Longrightarrow> ags ! i = Handler req pc \<Longrightarrow> pc \<noteq> Authenticate \<Longrightarrow> sizes_fit w \<Longrightarrow>
    result_step (rpc_server E co) req pc w = (pc', w') \<Longrightarrow>
    life_step E co (L, ags, A, w) (L, ags[i := Handler req pc'], A, w')"
| pay: "\<not> lf_ctx_done L \<Longrightarrow> i < length ags \<Longrightarrow> ags ! i = Worker pc \<Longrightarrow>
    pay_step lnc (co_obs co \<noteq> None) (\<lambda>_. False) pc w = (pc', w') \<Longrightarrow>
    life_step E co (L, ags, A, w) (L, ags[i := Worker pc'], A, w')"
| late_pay: "lf_ctx_done L \<Longrightarrow> i < length ags \<Longrightarrow> ags ! i = Worker pc \<Longrightarrow>
    in_done_ctx (pay_step lnc (co_obs co \<noteq> None) (\<lambda>_. True) pc) w = (pc', w') \<Longrightarrow>
    life_step E co (L, ags, A, w) (L, ags[i := Worker pc'], A, w')"
| stop: "lf_ctx_done L \<Longrightarrow> i < length ags \<Longrightarrow> ags ! i = Worker Idle \<Longrightarrow>
    life_step E co (L, ags, s) (L, ags[i := Worker Stopped], s)"
| receipt: "i < length (w_receipts w) \<Longrightarrow> w_receipts w ! i = (job, preimage) \<Longrightarrow>
    life_step E co (L, ags, A, w) (L, ags @ [Receipting (Look job preimage)], A, w\<lparr>w_receipts := drop_nth i (w_receipts w)\<rparr>)"
| submit: "i < length ags \<Longrightarrow> ags ! i = Receipting pc \<Longrightarrow> receipt_step E f pc w = (pc', w') \<Longrightarrow>
    life_step E co (L, ags, A, w) (L, ags[i := Receipting pc'], A, w')"
| clock: "w_now w \<le> t \<Longrightarrow> life_step E co (L, ags, A, w) (L, ags, A, w\<lparr>w_now := t\<rparr>)"
| faults: "life_step E co (L, ags, A, w) (L, ags, A, w\<lparr>w_faults := fs\<rparr>)"
| restart: "life_step E co (L, ags, A, w) (serving, replicate numWorkers (Worker Idle), A, Start (lose_memory w))"

definition life_start :: "ext \<Rightarrow> process_state \<Rightarrow> bool" where
  "life_start E x \<longleftrightarrow> fst x = serving \<and> crew_start E (snd x)"

section \<open>Lives and crews\<close>

lemma in_done_ctx_crew:
  assumes "in_done_ctx f w = (r, w')"
    and "\<And>v v' r. f v = (r, v') \<Longrightarrow> crew_step E co (ags, A, v) (g r, A, v')"
  shows "(crew_step E co)\<^sup>*\<^sup>* (ags, A, w) (g r, A, w')"
proof -
  obtain v where v: "f (w\<lparr>w_faults := True # w_faults w\<rparr>) = (r, v)" "w' = v\<lparr>w_faults := w_faults w\<rparr>"
    using assms(1) by (auto simp: in_done_ctx_def split: prod.splits)
  have "crew_step E co (ags, A, w) (ags, A, w\<lparr>w_faults := True # w_faults w\<rparr>)" by (rule crew_step.faults)
  moreover have "crew_step E co (g r, A, v) (g r, A, w')" unfolding v(2) by (rule crew_step.faults)
  ultimately show ?thesis using assms(2) [OF v(1)] by (meson rtranclp.rtrancl_refl rtranclp.rtrancl_into_rtrancl)
qed

lemma may_run_call: "may_run L ev \<Longrightarrow> \<not> by_agents ev"
  by (cases ev) (auto simp: may_run_def)

lemma life_step_crew: "life_step E co x y \<Longrightarrow> (crew_step E co)\<^sup>*\<^sup>* (snd x) (snd y)"
proof (induction rule: life_step.induct)
  case (status L n ags A w pk)
  show ?case using crew_step.call [of "GetNodeStatus_ev pk" w E co ags A] by (simp add: r_into_rtranclp)
next
  case (call ev w L ags A)
  then show ?case using crew_step.call [OF call(1) may_run_call [OF call(2)]] by (simp add: r_into_rtranclp del: co_exec.simps)
next
  case (late_tick ev w L w' ags A)
  have b: "\<not> by_agents ev" "admissible ev v" for v using late_tick(1,2) by (cases ev; simp)+
  show ?case
    using in_done_ctx_crew [OF late_tick(4), of E co ags A "\<lambda>_. ags"] crew_step.call [OF b(2,1)] by auto
next
  case (late_pay L i ags pc lnc w pc' w' A)
  show ?case
    using in_done_ctx_crew [OF late_pay(4), of E co ags A "\<lambda>r. ags[i := Worker r]"] crew_pay [OF late_pay(2,3)] by auto
next
  case (authentic i ags req w tid nid pc' w' L A)
  show ?case unfolding snd_conv by (rule r_into_rtranclp, rule crew_authentic [OF authentic])
next
  case (forged i ags req w pc' w' L A)
  show ?case unfolding snd_conv by (rule r_into_rtranclp, rule crew_forged [OF forged])
next
  case (handle i ags req pc w pc' w' L A)
  show ?case unfolding snd_conv by (rule r_into_rtranclp, rule crew_handle [OF handle])
next
  case (pay L i ags pc lnc w pc' w' A)
  show ?case unfolding snd_conv by (rule r_into_rtranclp, rule crew_pay [OF pay(2-)])
qed (auto intro: r_into_rtranclp crew_step.intros crew_rules)

text \<open>What holds of \<open>main\<close>.\<close>

definition life_ok :: "ext \<Rightarrow> process_state \<Rightarrow> bool" where
  "life_ok E x \<longleftrightarrow> (case x of (L, ags, s) \<Rightarrow> crew_ok E (ags, s) \<and>
     (case lf_main L of
       Select \<Rightarrow> \<not> lf_ctx_done L | Cancel \<Rightarrow> \<not> lf_ctx_done L | Http_shutdown \<Rightarrow> lf_ctx_done L
     | Graceful_stop \<Rightarrow> lf_ctx_done L \<and> lf_http L = 0
     | Returned r \<Rightarrow> lf_ctx_done L \<and> (r = Inr () \<longrightarrow> lf_http L = 0 \<and> lf_streams L = 0 \<and> list_all replied ags)))"

lemma replied_update: "list_all replied ags \<Longrightarrow> replied ag \<Longrightarrow> list_all replied (ags[i := ag])"
  using set_update_subset_insert [of ags i ag] by (auto simp: list_all_iff)

lemma replied_step:
  assumes "list_all replied ags" "i < length ags" "ags ! i = Handler req pc" "result_step S req pc w = (pc', w')"
  shows "replied (Handler req pc')"
  using assms by (cases pc) (auto simp: list_all_length)

lemma life_step_ok:
  assumes "life_step E co x y" "life_ok E x"
  shows "life_ok E y"
proof -
  have c: "crew_ok E (snd y)"
    using crew.inv_steps [OF life_step_crew [OF assms(1)]] assms(2) by (auto simp: life_ok_def)
  show ?thesis using assms(1) c assms(2)
  proof (induction rule: life_step.induct)
    case (wake L x wk)
    then show ?case by (cases wk; cases x) (auto simp: life_ok_def)
  next
    case (main ags L L' s)
    then show ?case by (cases "lf_main L"; cases s) (auto simp: life_ok_def main_step_def split: if_splits)
  next
    case (authentic i ags req w tid nid pc' w' L A)
    then show ?case by (auto simp: life_ok_def list_all_length split: main_pc.splits)
  next
    case (forged i ags req w pc' w' L A)
    then show ?case by (auto simp: life_ok_def list_all_length split: main_pc.splits)
  next
    case (handle i ags req pc w pc' w' L A)
    then show ?case using replied_step [OF _ handle(1,2,5)]
      by (auto simp: life_ok_def intro!: replied_update split: main_pc.splits)
  qed (auto simp: life_ok_def accepting_def http_accepting_def serving_def intro!: replied_update split: main_pc.splits)
qed

lemma life_start_ok: "life_start E x \<Longrightarrow> life_ok E x"
  using crew_start_ok by (auto simp: life_start_def life_ok_def serving_def)

interpretation lives: simulation "life_start E" "life_step E co" "life_ok E" snd "crew_step E co" for E co
  by unfold_locales (fact life_start_ok, fact life_step_ok, rule life_step_crew)

section \<open>Shutting down\<close>

text \<open>How many statements a handler and \<open>main\<close> have before them, at most.\<close>

fun result_rank :: "result_pc \<Rightarrow> nat" where
  "result_rank Authenticate = 7"
| "result_rank (Penalise _) = 1"
| "result_rank (Type_of _ _) = 6"
| "result_rank (Mark _ _ _) = 5"
| "result_rank (Rate _ _) = 4"
| "result_rank (Terms _) = 3"
| "result_rank (Send _ _ _) = 2"
| "result_rank (Acknowledge _) = 1"
| "result_rank (Replied _) = 0"

fun agent_rank :: "agent \<Rightarrow> nat" where
  "agent_rank (Handler req pc) = result_rank pc"
| "agent_rank ag = 0"

fun main_rank :: "main_pc \<Rightarrow> nat" where
  "main_rank Cancel = 3"
| "main_rank Http_shutdown = 2"
| "main_rank Graceful_stop = 1"
| "main_rank _ = 0"

definition handlers_rank :: "agent list \<Rightarrow> nat" where
  "handlers_rank ags = sum_list (map agent_rank ags)"

lemma result_step_rank: "result_step S req pc w = (pc', w') \<Longrightarrow> 0 < result_rank pc \<Longrightarrow> result_rank pc' < result_rank pc"
  by (cases pc) (auto split: option.splits if_splits prod.splits sum.splits)

lemma not_replied: "\<not> list_all replied ags \<Longrightarrow> \<exists>i req pc. i < length ags \<and> ags ! i = Handler req pc \<and> 0 < result_rank pc"
proof -
  have "0 < agent_rank ag \<and> (\<exists>req pc. ag = Handler req pc)" if "\<not> replied ag" for ag
  proof (cases ag)
    case (Handler req pc)
    with that show ?thesis by (cases pc) auto
  qed (use that in auto)
  then show "\<not> list_all replied ags \<Longrightarrow> \<exists>i req pc. i < length ags \<and> ags ! i = Handler req pc \<and> 0 < result_rank pc"
    unfolding list_all_length by (metis agent_rank.simps(1))
qed

lemma sum_list_update_less: "i < length xs \<Longrightarrow> f y < f (xs ! i) \<Longrightarrow> sum_list (map f (xs[i := y])) < (sum_list (map f xs) :: nat)"
proof (induction xs arbitrary: i)
  case (Cons x xs)
  then show ?case by (cases i) auto
qed simp

text \<open>What a stage of the shutdown still waits for, and the steps that get on with it.\<close>

definition shutting :: "life \<Rightarrow> bool" where
  "shutting L \<longleftrightarrow> lf_main L \<in> {Cancel, Http_shutdown, Graceful_stop}"

definition load :: "life \<Rightarrow> agent list \<Rightarrow> nat" where
  "load L ags = (case lf_main L of
     Http_shutdown \<Rightarrow> lf_http L | Graceful_stop \<Rightarrow> lf_streams L + handlers_rank ags | _ \<Rightarrow> 0)"

fun advances :: "process_state \<Rightarrow> process_state \<Rightarrow> bool" where
  "advances (L, ags, x) (L', ags', y) \<longleftrightarrow> lf_main L' \<noteq> lf_main L \<or>
     lf_main L = Http_shutdown \<and> lf_http L' < lf_http L \<or>
     lf_main L = Graceful_stop \<and> (lf_streams L' < lf_streams L \<or> handlers_rank ags' < handlers_rank ags)"

fun remaining :: "process_state \<Rightarrow> nat \<times> nat" where
  "remaining (L, ags, x) = (main_rank (lf_main L), load L ags)"

lemma handlers_rank_update:
  assumes "i < length ags" "agent_rank ag < agent_rank (ags ! i)"
  shows "handlers_rank (ags[i := ag]) < handlers_rank ags"
  using sum_list_update_less [OF assms] by (simp add: handlers_rank_def)

lemma handlers_rank_same:
  assumes "i < length ags" "agent_rank ag \<le> agent_rank (ags ! i)"
  shows "handlers_rank (ags[i := ag]) \<le> handlers_rank ags"
proof (cases "agent_rank ag = agent_rank (ags ! i)")
  case True
  then have "map agent_rank (ags[i := ag]) = map agent_rank ags" by (simp add: map_update list_update_same_conv assms(1))
  then show ?thesis by (simp add: handlers_rank_def)
qed (use handlers_rank_update [OF assms(1), of ag] assms(2) in simp)

lemma result_step_rank_le: "result_step S req pc w = (pc', w') \<Longrightarrow> result_rank pc' \<le> result_rank pc"
proof (cases "0 < result_rank pc")
  case False
  assume "result_step S req pc w = (pc', w')"
  with False show ?thesis by (cases pc) auto
qed (use result_step_rank [of S req pc w pc' w'] in simp)

definition no_more :: "life \<Rightarrow> agent list \<Rightarrow> life \<Rightarrow> agent list \<Rightarrow> bool" where
  "no_more L ags L' ags' \<longleftrightarrow> (shutting L' \<or> lf_main L' = Returned (Inr ())) \<and> (main_rank (lf_main L') < main_rank (lf_main L) \<or>
    lf_main L' = lf_main L \<and> (lf_main L = Http_shutdown \<longrightarrow> lf_http L' \<le> lf_http L) \<and>
      (lf_main L = Graceful_stop \<longrightarrow> lf_streams L' \<le> lf_streams L \<and> handlers_rank ags' \<le> handlers_rank ags))"

lemma no_more_agents: "shutting L \<Longrightarrow> handlers_rank ags' \<le> handlers_rank ags \<Longrightarrow> no_more L ags L ags'"
  by (simp add: no_more_def)

lemma life_step_load:
  assumes "life_step E co x y" "shutting (fst x)" "lf_main (fst y) \<noteq> Select"
  shows "no_more (fst x) (fst (snd x)) (fst y) (fst (snd y))"
  using assms
proof (induction rule: life_step.induct)
  case (main ags L L' s)
  then show ?case by (auto simp: no_more_def main_step_def shutting_def split: main_pc.splits if_splits)
next
  case (authentic i ags req w tid nid pc' w' L A)
  then show ?case using handlers_rank_same [of i ags "Handler req pc'"] result_step_rank_le [OF authentic(4)] by (simp add: no_more_agents)
next
  case (forged i ags req w pc' w' L A)
  then show ?case using handlers_rank_same [of i ags "Handler req pc'"] result_step_rank_le [OF forged(4)] by (simp add: no_more_agents)
next
  case (handle i ags req pc w pc' w' L A)
  then show ?case using handlers_rank_same [of i ags "Handler req pc'"] result_step_rank_le [OF handle(5)] by (simp add: no_more_agents)
next
  case (pay L i ags pc lnc w pc' w' A)
  then show ?case using handlers_rank_same [of i ags "Worker pc'"] by (simp add: no_more_agents)
next
  case (late_pay L i ags pc lnc w pc' w' A)
  then show ?case using handlers_rank_same [of i ags "Worker pc'"] by (simp add: no_more_agents)
next
  case (stop L i ags s)
  then show ?case using handlers_rank_same [of i ags "Worker Stopped"] by (simp add: no_more_agents)
next
  case (submit i ags pc f w pc' w' L A)
  then show ?case using handlers_rank_same [of i ags "Receipting pc'"] by (simp add: no_more_agents)
qed (auto simp: no_more_def shutting_def accepting_def http_accepting_def handlers_rank_def serving_def)

abbreviation lex_less :: "((nat \<times> nat) \<times> (nat \<times> nat)) set" where
  "lex_less \<equiv> less_than <*lex*> less_than"

lemma life_step_remaining:
  assumes "life_step E co x y" "shutting (fst x)" "lf_main (fst y) \<noteq> Select"
  shows "(remaining y, remaining x) \<in> lex_less \<or> \<not> advances x y \<and> remaining y = remaining x"
proof -
  obtain L ags s L' ags' t where xy: "x = (L, ags, s)" "y = (L', ags', t)" by (metis prod.exhaust)
  note s = life_step_load [OF assms, unfolded xy no_more_def, simplified]
  show ?thesis
  proof (cases "lf_main L' = lf_main L")
    case True
    with s show ?thesis using assms(2) by (cases "lf_main L") (auto simp: xy load_def shutting_def)
  next
    case False
    with s show ?thesis by (auto simp: xy)
  qed
qed

text \<open>Without restarts, infinitely many advances are impossible.\<close>

lemma no_endless_descent:
  fixes m :: "nat \<Rightarrow> nat \<times> nat"
  assumes "\<And>i. (m (Suc i), m i) \<in> lex_less \<or> m (Suc i) = m i" "\<And>i. \<exists>j\<ge>i. (m (Suc j), m j) \<in> lex_less"
  shows False
proof -
  have wf: "wf lex_less" by blast
  have down: "(m (i + k), m i) \<in> lex_less \<or> m (i + k) = m i" for i k
  proof (induction k)
    case (Suc k)
    then show ?case using assms(1) [of "i + k"] by (auto simp del: in_lex_prod intro: transD [OF trans_lex_prod [OF trans_less_than trans_less_than]])
  qed simp
  have "False" if "p = m i" for p i
    using wf that
  proof (induction p arbitrary: i rule: wf_induct_rule)
    case (less p)
    obtain j where j: "i \<le> j" "(m (Suc j), m j) \<in> lex_less" using assms(2) by blast
    then obtain k where "j = i + k" using le_Suc_ex by blast
    then have "(m (Suc j), m i) \<in> lex_less"
      using down [of i k] j(2) by (auto simp del: in_lex_prod intro: transD [OF trans_lex_prod [OF trans_less_than trans_less_than]])
    then show ?case using less(1) less(2) by blast
  qed
  then show False by blast
qed

text \<open>And in no state of a shutdown is everything stuck: a client, a handler or \<open>main\<close> can get on with it.\<close>

lemma shutdown_enabled:
  assumes "shutting L" "sizes_fit w"
  shows "\<exists>y. life_step E co (L, ags, A, w) y \<and> advances (L, ags, A, w) y"
proof (cases "lf_main L = Graceful_stop \<and> \<not> list_all replied ags")
  case True
  then obtain i req pc where i: "i < length ags" "ags ! i = Handler req pc" "0 < result_rank pc" using not_replied by blast
  obtain pc' w' where s: "result_step (rpc_server E co) req pc w = (pc', w')" by fastforce
  have "\<exists>A'. life_step E co (L, ags, A, w) (L, ags[i := Handler req pc'], A', w')"
  proof (cases "pc = Authenticate")
    case True
    then show ?thesis
      using life_step.authentic [OF i(1) _ _ s [unfolded True]] life_step.forged [OF i(1) _ _ s [unfolded True]] i(2) by blast
  next
    case False
    from life_step.handle [OF i(1,2) False assms(2) s] show ?thesis by blast
  qed
  moreover have "handlers_rank (ags[i := Handler req pc']) < handlers_rank ags"
    using handlers_rank_update [OF i(1), of "Handler req pc'"] result_step_rank [OF s i(3)] i(2) by simp
  ultimately show ?thesis using True by fastforce
next
  case False
  show ?thesis
  proof (cases "main_step ags L")
    case None
    then consider n where "lf_main L = Http_shutdown" "lf_http L = Suc n" | n where "lf_main L = Graceful_stop" "lf_streams L = Suc n"
      using assms(1) False by (cases "lf_http L"; cases "lf_streams L") (auto simp: main_step_def shutting_def split: if_splits)
    then show ?thesis
    proof cases
      case 1
      then show ?thesis using life_step.page [of L n E co "(ags, A, w)"] by fastforce
    next
      case 2
      then show ?thesis using life_step.stream_end [of L n E co "(ags, A, w)"] by fastforce
    qed
  next
    case (Some L')
    then have "advances (L, ags, A, w) (L', ags, A, w)" using assms(1) by (auto simp: main_step_def shutting_def split: if_splits)
    with life_step.main [OF Some, of E co "(A, w)"] show ?thesis by blast
  qed
qed

text \<open>A stream that stays open blocks it.\<close>

lemma open_stream_blocks: "lf_streams L \<noteq> 0 \<Longrightarrow> lf_main L = Graceful_stop \<Longrightarrow> main_step ags L = None"
  by (simp add: main_step_def)

section \<open>The context that is done\<close>

lemma result_step_kept:
  assumes "result_step S req pc w = (pc', w')"
  shows "accounts_kept w w'"
proof -
  have u: "w_tasks (snd (UpdateReliability E nid ok w)) = w_tasks w" for E nid ok
    by (auto simp: UpdateReliability_def db_call_def Let_def split: world_splits)
  show ?thesis
  proof (cases pc)
    case (Mark tid nid tt)
    have "w_tasks w' = w_tasks w \<or> w_tasks w' = sql_update (\<lambda>t. tk_id t = tid)
        (\<lambda>t. t\<lparr>tk_status := ''completed'', tk_output_hash := Some (hex_EncodeToString (tr_OutputHash req)), tk_completed := Some (w_now w)\<rparr>) (w_tasks w)"
      using assms Mark by (auto simp: db_call_def split: if_splits)
    then show ?thesis by (rule accounts_kept_update) simp
  qed (use assms u in \<open>auto simp: db_call_def task_type_of_def Enqueue_def intro!: accounts_kept_same split: sum.splits option.splits if_splits\<close>)
qed

lemma receipt_step_kept:
  assumes "receipt_step E f pc w = (pc', w')"
  shows "accounts_kept w w'"
proof (cases pc)
  case (Store job i)
  have "w_tasks w' = w_tasks w \<or> w_tasks w' = sql_update (\<lambda>t. tk_id t = j_TaskID job) (\<lambda>t. t\<lparr>tk_receipt_id := Some i\<rparr>) (w_tasks w)"
    using assms Store by (auto simp: db_call_def split: if_splits)
  then show ?thesis by (rule accounts_kept_update) simp
qed (use assms in \<open>auto simp: db_call_def intro!: accounts_kept_same split: if_splits option.splits sum.splits\<close>)

lemma late_pay_kept:
  assumes "in_done_ctx (pay_step lnc obs d pc) w = (pc', w')"
  shows "accounts_kept w w'"
  using assms
  by (cases pc) (auto simp: in_done_ctx_def db_call_def db_down_def db_tick_def Let_def intro!: accounts_kept_same
      split: prod.splits list.splits sum.splits option.splits if_splits)

lemma late_tick_kept:
  assumes "origin_of ev = From_ticker" "in_done_ctx (\<lambda>w. ((), co_exec E co ev w)) w = ((), w')"
  shows "accounts_kept w w'"
proof -
  have "\<not> by_agents ev" using assms(1) by (cases ev) auto
  then have "accounts_kept (w\<lparr>w_faults := fs\<rparr>) (co_exec E co ev (w\<lparr>w_faults := fs\<rparr>))" for fs by (rule call_kept)
  then have "accounts_kept w (co_exec E co ev (w\<lparr>w_faults := True # w_faults w\<rparr>))" by (simp add: accounts_kept_def)
  moreover have "w' = (co_exec E co ev (w\<lparr>w_faults := True # w_faults w\<rparr>))\<lparr>w_faults := w_faults w\<rparr>"
    using assms(2) by (simp add: in_done_ctx_def)
  ultimately show ?thesis by (simp add: accounts_kept_def)
qed

lemma done_step_kept:
  assumes "life_step E co (L, ags, A, w) (L', ags', A', w')" "lf_ctx_done L" "lf_ctx_done L'"
  shows "accounts_kept w w'"
  using assms
proof (cases rule: life_step.cases)
  case (status n pk)
  then show ?thesis using call_kept [of "GetNodeStatus_ev pk" w E co] by simp
next
  case (call ev)
  then show ?thesis using call_kept [OF may_run_call] by blast
next
  case (late_tick ev)
  then show ?thesis using late_tick_kept by blast
next
  case (late_pay i pc lnc pc')
  then show ?thesis using late_pay_kept by blast
next
  case (authentic i req tid nid pc')
  then show ?thesis using result_step_kept by blast
next
  case (forged i req pc')
  then show ?thesis using result_step_kept by blast
next
  case (handle i req pc pc')
  then show ?thesis using result_step_kept by blast
next
  case (submit i pc f pc')
  then show ?thesis using receipt_step_kept by blast
qed (use assms in \<open>auto simp: serving_def intro: accounts_kept_same\<close>)

section \<open>Properties\<close>

text \<open>
  C18 (a clean stop). When \<open>run\<close> has returned without an error, in any life, then the context of workers
  and tickers is done, no HTTP request and no stream is open, and every handler of \<open>SubmitTaskResult\<close> that
  was ever accepted in this life has replied, and the status of the process is 0. When it has returned an
  error, the context is done as well and the status is 1.
\<close>

theorem clean_stop:
  assumes "life_start E x" "(life_step E co)\<^sup>*\<^sup>* x (L, agents, A, w)" "lf_main L = Returned r"
  shows "lf_ctx_done L \<and> (\<forall>e. r = Inl e \<longrightarrow> exit_status r = 1) \<and>
    (r = Inr () \<longrightarrow> exit_status r = 0 \<and> lf_http L = 0 \<and> lf_streams L = 0 \<and>
      (\<forall>req pc. Handler req pc \<in> set agents \<longrightarrow> (\<exists>ack. pc = Replied ack)))"
proof -
  have ok: "lf_ctx_done L" "r = Inr () \<longrightarrow> lf_http L = 0 \<and> lf_streams L = 0 \<and> list_all replied agents"
    using lives.inv_reachable [OF assms(1,2)] assms(3) by (simp_all add: life_ok_def)
  have "\<exists>ack. pc = Replied ack" if "list_all replied agents" "Handler req pc \<in> set agents" for req pc
  proof -
    have "replied (Handler req pc)" using that by (simp add: list_all_iff)
    then show ?thesis by (cases pc) auto
  qed
  with ok show ?thesis by (cases r) (auto simp: exit_status_def)
qed

theorem clean_stop_witness:
  "\<exists>L w. (life_step demo_ext demo_co)\<^sup>*\<^sup>* (serving, replicate 10 (Worker Idle), {}, empty_world 0) (L, replicate 10 (Worker Idle), {}, w) \<and>
     lf_main L = Returned (Inr ()) \<and> lf_ctx_done L \<and> exit_status (Inr ()) = 0"
proof -
  let ?x = "(replicate numWorkers (Worker Idle), {}, empty_world 0)" and ?step = "life_step demo_ext demo_co"
  let ?L1 = "serving\<lparr>lf_main := Cancel\<rparr>" and ?L2 = "serving\<lparr>lf_main := Http_shutdown, lf_ctx_done := True\<rparr>"
  let ?L3 = "serving\<lparr>lf_main := Graceful_stop, lf_ctx_done := True\<rparr>" and ?L4 = "serving\<lparr>lf_main := Returned (Inr ()), lf_ctx_done := True\<rparr>"
  have s: "life_start demo_ext (serving, ?x)"
    by (auto simp: life_start_def crew_start_def co_start_def demo_numeric_rounds)
  have 1: "?step (serving, ?x) (?L1, ?x)" using life_step.wake [of serving demo_ext demo_co ?x Signal] by (simp add: serving_def)
  have 2: "?step (?L1, ?x) (?L2, ?x)" "?step (?L2, ?x) (?L3, ?x)" "?step (?L3, ?x) (?L4, ?x)"
    by (rule life_step.main; simp add: main_step_def serving_def list_all_iff)+
  have r: "?step\<^sup>*\<^sup>* (serving, ?x) (?L4, ?x)"
    using 1 2 by (meson rtranclp.rtrancl_refl rtranclp.rtrancl_into_rtrancl)
  from clean_stop [OF s r] r show ?thesis unfolding numWorkers_def by auto
qed

text \<open>
  C19 (a shutdown comes to an end). From the signal to the return of \<open>run\<close>, whatever the database and
  the Lightning node answer and whatever else runs: in every state some step can be made that advances
  the shutdown, that is a statement of \<open>main\<close>, the end of an HTTP request while those are waited for, or,
  while the gRPC server stops, a statement of an open handler or the end of a stream. And every run of the
  process without a restart, an infinite sequence of states, in which such a step is made again and
  again until \<open>run\<close> has returned, comes to the return, without an error: new calls and requests cannot put it off.
  The streams are the condition: nothing in the program ends them (\<open>open_stream_blocks\<close>).
\<close>

theorem shutdown_ends:
  assumes "\<forall>i. life_step E co (f i) (f (Suc i)) \<and> lf_main (fst (f (Suc i))) \<noteq> Select"
    and "lf_main (fst (f 0)) \<in> {Cancel, Http_shutdown, Graceful_stop}"
    and "\<forall>i. lf_main (fst (f i)) \<in> {Cancel, Http_shutdown, Graceful_stop} \<longrightarrow> (\<exists>j\<ge>i. advances (f j) (f (Suc j)))"
  shows "(\<exists>i. lf_main (fst (f i)) = Returned (Inr ()) \<and> (\<forall>j<i. lf_main (fst (f j)) \<in> {Cancel, Http_shutdown, Graceful_stop})) \<and>
    (\<forall>L agents A w. lf_main L \<in> {Cancel, Http_shutdown, Graceful_stop} \<longrightarrow> sizes_fit w \<longrightarrow>
      (\<exists>y. life_step E co (L, agents, A, w) y \<and> advances (L, agents, A, w) y))"
proof (intro conjI allI impI)
  have step: "life_step E co (f i) (f (Suc i))" "lf_main (fst (f (Suc i))) \<noteq> Select" for i using assms(1) by blast+
  have stays: "shutting (fst (f (Suc i))) \<or> lf_main (fst (f (Suc i))) = Returned (Inr ())" if "shutting (fst (f i))" for i
    using life_step_load [OF step(1) that step(2)] by (simp add: no_more_def)
  have "\<exists>i. \<not> shutting (fst (f i))"
  proof (rule ccontr)
    assume "\<nexists>i. \<not> shutting (fst (f i))"
    then have s: "shutting (fst (f i))" for i by blast
    note d = life_step_remaining [OF step(1) s step(2)]
    have "\<exists>j\<ge>i. (remaining (f (Suc j)), remaining (f j)) \<in> lex_less" for i
      using assms(3) s [of i] d unfolding shutting_def by blast
    then show False using no_endless_descent [of "\<lambda>i. remaining (f i)"] d by blast
  qed
  then obtain i where i: "\<not> shutting (fst (f i))" "\<forall>j<i. shutting (fst (f j))" using exists_least_iff [of "\<lambda>i. \<not> shutting (fst (f i))"] by blast
  then have "0 < i" using assms(2) by (cases i) (simp_all add: shutting_def)
  then obtain k where k: "i = Suc k" using gr0_implies_Suc by blast
  then have "lf_main (fst (f i)) = Returned (Inr ())" using stays [of k] i by auto
  with i(2) show "\<exists>i. lf_main (fst (f i)) = Returned (Inr ()) \<and> (\<forall>j<i. lf_main (fst (f j)) \<in> {Cancel, Http_shutdown, Graceful_stop})"
    by (auto simp: shutting_def)
qed (use shutdown_enabled in \<open>simp add: shutting_def\<close>)

theorem shutdown_ends_witness:
  "\<exists>f i. f 0 = (serving\<lparr>lf_main := Cancel, lf_streams := 1\<rparr>, replicate numWorkers (Worker Idle), {}, empty_world 0) \<and>
     (\<forall>i. life_step demo_ext demo_co (f i) (f (Suc i))) \<and> lf_main (fst (f i)) = Returned (Inr ())"
proof -
  let ?L = "serving\<lparr>lf_streams := 1\<rparr>" and ?x = "(replicate numWorkers (Worker Idle), {}, empty_world 0)"
  let ?L0 = "?L\<lparr>lf_main := Cancel\<rparr>" and ?L1 = "?L\<lparr>lf_main := Http_shutdown, lf_ctx_done := True\<rparr>"
  let ?L2 = "?L\<lparr>lf_main := Graceful_stop, lf_ctx_done := True\<rparr>" and ?L3 = "serving\<lparr>lf_main := Graceful_stop, lf_ctx_done := True\<rparr>"
  let ?L4 = "serving\<lparr>lf_main := Returned (Inr ()), lf_ctx_done := True\<rparr>"
  define f :: "nat \<Rightarrow> process_state" where "f i = ((if i = 0 then ?L0 else if i = 1 then ?L1 else if i = 2 then ?L2 else if i = 3 then ?L3 else ?L4), ?x)" for i :: nat
  have f: "f 0 = (?L0, ?x)" "f (Suc 0) = (?L1, ?x)" "f (Suc (Suc 0)) = (?L2, ?x)" "f (Suc (Suc (Suc 0))) = (?L3, ?x)"
    "f (Suc (Suc (Suc (Suc i)))) = (?L4, ?x)" for i by (simp_all add: f_def)
  have 0: "life_step demo_ext demo_co (?L0, ?x) (?L1, ?x)" "life_step demo_ext demo_co (?L1, ?x) (?L2, ?x)"
    "life_step demo_ext demo_co (?L3, ?x) (?L4, ?x)"
    by (rule life_step.main; simp add: main_step_def serving_def list_all_iff)+
  have 1: "life_step demo_ext demo_co (?L2, ?x) (?L3, ?x)" using life_step.stream_end [of ?L2 0 demo_ext demo_co ?x] by (simp add: serving_def)
  have 2: "life_step demo_ext demo_co (?L4, ?x) (?L4, ?x)" using life_step.clock [of "empty_world 0" "w_now (empty_world 0)"] by simp
  have four: "P i" if "P 0" "P (Suc 0)" "P (Suc (Suc 0))" "P (Suc (Suc (Suc 0)))" "\<And>j. P (Suc (Suc (Suc (Suc j))))" for P and i :: nat
  proof -
    have "i = 0 \<or> i = Suc 0 \<or> i = Suc (Suc 0) \<or> i = Suc (Suc (Suc 0)) \<or> (\<exists>j. i = Suc (Suc (Suc (Suc j))))" by presburger
    then show ?thesis by (elim disjE exE; hypsubst; intro that)
  qed
  have step: "\<forall>i. life_step demo_ext demo_co (f i) (f (Suc i)) \<and> lf_main (fst (f (Suc i))) \<noteq> Select"
    by (rule allI, rule four [of "\<lambda>i. life_step demo_ext demo_co (f i) (f (Suc i)) \<and> lf_main (fst (f (Suc i))) \<noteq> Select"])
      (use 0 1 2 in \<open>simp_all add: f\<close>)
  have "\<forall>i. lf_main (fst (f i)) \<in> {Cancel, Http_shutdown, Graceful_stop} \<longrightarrow> advances (f i) (f (Suc i))"
    by (rule allI, rule four [of "\<lambda>i. lf_main (fst (f i)) \<in> {Cancel, Http_shutdown, Graceful_stop} \<longrightarrow> advances (f i) (f (Suc i))"])
      (simp_all add: f serving_def)
  then have fair: "\<forall>i. lf_main (fst (f i)) \<in> {Cancel, Http_shutdown, Graceful_stop} \<longrightarrow> (\<exists>j\<ge>i. advances (f j) (f (Suc j)))" by blast
  have start: "lf_main (fst (f 0)) \<in> {Cancel, Http_shutdown, Graceful_stop}" by (simp add: f)
  have "f 0 = (serving\<lparr>lf_main := Cancel, lf_streams := 1\<rparr>, ?x)" by (simp add: f serving_def)
  with shutdown_ends [OF step start fair] step show ?thesis by blast
qed

text \<open>
  C20 (a shutdown records no payment). From the moment the context is done until the process ends, what any
  task row says about its payment stays as it is, whatever the workers still request and
  the Lightning node still settles. As the witness shows, a payment can be made and settled in this time: its
  row stays pending.
\<close>

theorem shutdown_records_nothing:
  assumes "(\<lambda>x y. life_step E co x y \<and> lf_ctx_done (fst y))\<^sup>*\<^sup>* (L, agents, A, w) (L', agents', A', w')" "lf_ctx_done L"
    and "t \<in> set (w_tasks w)"
  shows "\<exists>t'\<in>set (w_tasks w'). tk_id t' = tk_id t \<and> tk_payment_status t' = tk_payment_status t \<and> tk_preimage t' = tk_preimage t \<and>
    tk_ln_uri t' = tk_ln_uri t \<and> tk_reward t' = tk_reward t"
proof -
  have "accounts_kept w (snd (snd (snd y))) \<and> lf_ctx_done (fst y)"
    if "(\<lambda>x y. life_step E co x y \<and> lf_ctx_done (fst y))\<^sup>*\<^sup>* (L, agents, A, w) y" for y
    using that
  proof (induction rule: rtranclp_induct)
    case base
    then show ?case using assms(2) by simp
  next
    case (step y z)
    obtain L1 ags1 A1 w1 L2 ags2 A2 w2 where "y = (L1, ags1, A1, w1)" "z = (L2, ags2, A2, w2)" by (metis prod.exhaust)
    with step done_step_kept [of E co L1 ags1 A1 w1 L2 ags2 A2 w2] accounts_kept_trans [of w w1 w2] show ?case by simp
  qed
  from this [OF assms(1)] have "task_account t \<in> task_account ` set (w_tasks w')" using assms(3) by (auto simp: accounts_kept_def)
  then show ?thesis by (auto simp: task_account_def)
qed

theorem shutdown_records_nothing_witness:
  "\<exists>L agents w w'. lf_ctx_done L \<and> w_tasks w = [demo_task ''completed'' ''pending''] \<and>
     (\<lambda>x y. life_step demo_ext demo_co x y \<and> lf_ctx_done (fst y))\<^sup>*\<^sup>* (L, agents, {}, w) (L, [Worker Idle], {}, w') \<and>
     settled (SendPayment demo_payer 0 (payment_request demo_job)) \<noteq> None \<and> w_sent w' = w_sent w @ [payment_request demo_job] \<and>
     (\<exists>t\<in>set (w_tasks w'). tk_id t = 1 \<and> tk_payment_status t = ''pending'')"
proof -
  let ?L = "serving\<lparr>lf_main := Graceful_stop, lf_ctx_done := True\<rparr>" and ?w = "demo_pay_world [demo_task ''completed'' ''pending'']"
  let ?w' = "?w\<lparr>w_sent := [payment_request demo_job]\<rparr>"
  let ?step = "\<lambda>x y. life_step demo_ext demo_co x y \<and> lf_ctx_done (fst y)"
  have f: "w_faults ?w = []" by (simp add: demo_pay_world_def empty_world_def)
  have p: "SendPayment demo_payer i r = Inr (Some \<lparr>PaymentHash = ''mock-payment-hash'', Preimage = ''mock-preimage'', FeeSats = 0,
      pr_Status = ''SUCCEEDED'', FailureReason = []\<rparr>)" for i r
    by (simp add: demo_payer_def mock_Client_def mock_SendPayment_def mock_New_def)
  have "in_done_ctx (pay_step demo_payer (co_obs demo_co \<noteq> None) (\<lambda>_. True) (Asking demo_job 0)) ?w = (Recording demo_job ''mock-preimage'', ?w')"
    using f by (simp add: in_done_ctx_def Let_def p)
  then have 1: "?step (?L, [Worker (Asking demo_job 0)], {}, ?w) (?L, [Worker (Recording demo_job ''mock-preimage'')], {}, ?w')"
    using life_step.late_pay [of ?L 0 "[Worker (Asking demo_job 0)]" "Asking demo_job 0" demo_payer demo_co ?w _ ?w' demo_ext "{}"] by simp
  have "in_done_ctx (pay_step demo_payer (co_obs demo_co \<noteq> None) (\<lambda>_. True) (Recording demo_job ''mock-preimage'')) ?w' = (Idle, ?w')"
    using f by (simp add: in_done_ctx_def db_call_def db_down_def db_tick_def)
  then have 2: "?step (?L, [Worker (Recording demo_job ''mock-preimage'')], {}, ?w') (?L, [Worker Idle], {}, ?w')"
    using life_step.late_pay [of ?L 0 "[Worker (Recording demo_job ''mock-preimage'')]" "Recording demo_job ''mock-preimage''" demo_payer demo_co ?w' _ ?w' demo_ext "{}"]
    by simp
  note r = rtranclp.rtrancl_into_rtrancl [of ?step, OF r_into_rtranclp [of ?step, OF 1] 2]
  have "demo_task ''completed'' ''pending'' \<in> set (w_tasks ?w)" by simp
  from shutdown_records_nothing [OF r _ this] r p show ?thesis
    by (intro exI [of _ ?L] exI [of _ "[Worker (Asking demo_job 0)]"] exI [of _ ?w] exI [of _ ?w']) (simp add: settled_def)
qed

end
