(* ===== verification/Standing.thy ===== *)
theory Standing
  imports Coordinator
begin

text \<open>
  The standing of a node under concurrency: \<open>RegisterNode\<close> of \<open>internal/rpc/server.go\<close>,
  \<open>VerifyAllActive\<close>, \<open>RecordMisbehaviorSignal\<close> and \<open>Slash\<close> of \<open>internal/stake/verifier.go\<close> and
  \<open>Schedule\<close> of \<open>internal/scheduler/scheduler.go\<close> one statement at a time, with any number of
  callers and every other operation of the coordinator between any two statements.
\<close>

section \<open>Registering\<close>

text \<open>\<open>Checking\<close> asks the Lightning node, \<open>Persisting\<close> and \<open>Activating\<close> each write once.\<close>

datatype register_pc =
  Enter
| Checking node
| Persisting node StakeResult
| Activating node StakeResult
| Answered "RegisterNodeResponse reply"

fun register_step :: "Server_rpc \<Rightarrow> uuid \<Rightarrow> RegisterNodeRequest \<Rightarrow> register_pc \<Rightarrow> world \<Rightarrow> register_pc \<times> world" where
  "register_step S fresh req Enter w =
     (case validateTimestamp (rq_Timestamp req) w of
       Inl e \<Rightarrow> (Answered (Inl (InvalidArgument, ''timestamp: '' @ Error e)), w)
     | Inr _ \<Rightarrow>
       if rq_PublicKey req = [] \<or> rq_LnNodeUri req = [] \<or> rq_Capabilities req = None
       then (Answered (Inl (InvalidArgument, ''public_key, ln_node_uri, and capabilities are required'')), w)
       else (case Register (sv_ext S) fresh (rq_PublicKey req) (rq_LnNodeUri req) (rq_OnionAddress req)
                 (request_caps (the (rq_Capabilities req))) (rq_Signature req) (rq_Timestamp req) w of
           (Inl e, w) \<Rightarrow> (Answered (Inl (PermissionDenied, ''registration failed: '' @ Error e)), w)
         | (Inr node, w) \<Rightarrow> (Checking node, w)))"
| "register_step S fresh req (Checking node) w =
     (let tier = cap_Tier (request_caps (the (rq_Capabilities req))) in
      case VerifyStake (sv_lnReadonly S) (rq_PublicKey req) tier w of
        (Inl _, w) \<Rightarrow>
          (Answered (Inr \<lparr>rs_NodeId = uuid_String (sv_ext S) (NodeID node), rs_Status = ''pending'',
             rs_Message = ''open a Lightning channel to the treasury (min '' @ dec (stakeMinSats tier) @ '' sats for '' @ tier @ '')'',
             rs_StakeSats = 0, rs_BonusMult = Fin 0, rs_ErrorCode = ''INSUFFICIENT_STAKE''\<rparr>), w)
      | (Inr stakeResult, w) \<Rightarrow> (Persisting node stakeResult, w))"
| "register_step S fresh req (Persisting node stakeResult) w =
     (Activating node stakeResult, snd (PersistStake (sv_ext S) (NodeID node) stakeResult w))"
| "register_step S fresh req (Activating node stakeResult) w =
     (case Activate (NodeID node) w of
       (Inl e, w) \<Rightarrow> (Answered (Inl (Internal, ''activating node: '' @ Error e)), w)
     | (Inr _, w) \<Rightarrow>
         (Answered (Inr \<lparr>rs_NodeId = uuid_String (sv_ext S) (NodeID node), rs_Status = ''active'',
            rs_Message = ''node activated'', rs_StakeSats = sr_CapacitySats stakeResult,
            rs_BonusMult = float32 (BonusMultiplier stakeResult), rs_ErrorCode = []\<rparr>), w))"
| "register_step S fresh req (Answered r) w = (Answered r, w)"

section \<open>Slashing\<close>

record slashing =
  sh_event :: uuid
  sh_node :: uuid
  sh_tier :: string
  sh_reason :: string
  sh_evidence :: string

datatype slash_pc =
  Fetch_channel
| Close_channel string
| Persist_event string
| Suspend
| Mark_stake
| Link_signals
| Slashed "unit result"

text \<open>\<open>k\<close> is the count of the signals.\<close>

fun slash_step :: "SlashConfig \<Rightarrow> Client option \<Rightarrow> slashing \<Rightarrow> int \<Rightarrow> slash_pc \<Rightarrow> world \<Rightarrow> slash_pc \<times> world" where
  "slash_step cfg lnSlash sh k Fetch_channel w =
     (if lnSlash = None then (Slashed (Inl (Err ''cannot slash: Lightning slashing client is nil (dev mode or misconfiguration)'')), w)
      else case db_query_row (\<lambda>w. map_option st_channel_id (lookup st_node (sh_node sh) (w_stakes w))) w of
        (Inl e, w) \<Rightarrow> (Slashed (Inl (Wrap ''fetching channel for slashing'' e)), w)
      | (Inr channelID, w) \<Rightarrow> (Close_channel channelID, w))"
| "slash_step cfg lnSlash sh k (Close_channel channelID) w =
     (case ForceCloseChan (the lnSlash) channelID of
        Inl e \<Rightarrow> (Slashed (Inl (Wrap (''force-closing channel '' @ channelID) e)), w)
      | Inr _ \<Rightarrow> (Persist_event channelID, w))"
| "slash_step cfg lnSlash sh k (Persist_event channelID) w =
     (case db_call (\<lambda>w.
         if lookup NodeID (sh_node sh) (w_nodes w) = None \<or> lookup sl_id (sh_event sh) (w_slashings w) \<noteq> None \<or> \<not> in_int32 k
         then (Inl DbFailure, w)
         else (Inr (), w\<lparr>w_slashings := sql_insert
           \<lparr>sl_id = sh_event sh, sl_node = sh_node sh, sl_channel = channelID, sl_tier = sh_tier sh, sl_reason = sh_reason sh,
            sl_evidence = sh_evidence sh, sl_signal_count = k, sl_cooldown = w_now w + CooldownDuration cfg\<rparr> (w_slashings w)\<rparr>)) w of
       (Inl e, w) \<Rightarrow> (Slashed (Inl (Wrap ''persisting slash event'' e)), w)
     | (Inr _, w) \<Rightarrow> (Suspend, w))"
| "slash_step cfg lnSlash sh k Suspend w =
     (case db_exec (\<lambda>w. w\<lparr>w_nodes := sql_update (\<lambda>n. NodeID n = sh_node sh) (\<lambda>n. n\<lparr>Status := ''suspended''\<rparr>) (w_nodes w)\<rparr>) w of
       (Inl e, w) \<Rightarrow> (Slashed (Inl e), w) | (Inr _, w) \<Rightarrow> (Mark_stake, w))"
| "slash_step cfg lnSlash sh k Mark_stake w =
     (case db_exec (\<lambda>w. w\<lparr>w_stakes := sql_update (\<lambda>s. st_node s = sh_node sh) (\<lambda>s. s\<lparr>st_status := ''force_closed''\<rparr>) (w_stakes w)\<rparr>) w of
       (Inl e, w) \<Rightarrow> (Slashed (Inl e), w) | (Inr _, w) \<Rightarrow> (Link_signals, w))"
| "slash_step cfg lnSlash sh k Link_signals w =
     (case db_exec (\<lambda>w. w\<lparr>w_signals := sql_update (\<lambda>g. sg_node g = sh_node sh \<and> sg_event g = None)
         (\<lambda>g. g\<lparr>sg_event := Some (sh_event sh)\<rparr>) (w_signals w)\<rparr>) w of
       (r, w) \<Rightarrow> (Slashed r, counter_inc ''owm_slash_events_total'' [sh_tier sh] w))"
| "slash_step cfg lnSlash sh k (Slashed r) w = (Slashed r, w)"

text \<open>A signal is inserted, and at the threshold the slashing follows.\<close>

datatype signal_pc = Insert_signal | Inserted int slash_pc

fun signal_step :: "SlashConfig \<Rightarrow> Client option \<Rightarrow> slashing \<Rightarrow> signal_pc \<Rightarrow> world \<Rightarrow> signal_pc \<times> world" where
  "signal_step cfg lnSlash sh Insert_signal w =
     (case insert_signal (sh_node sh) (sh_reason sh) (sh_evidence sh) w of
       (Inl e, w) \<Rightarrow> (Inserted 0 (Slashed (Inl (Wrap ''recording signal'' e))), w)
     | (Inr signalCount, w) \<Rightarrow>
         (Inserted signalCount (if sh_tier sh = ''t1'' \<and> T1AutoSlashSignals cfg \<le> signalCount then Fetch_channel else Slashed (Inr ())), w))"
| "signal_step cfg lnSlash sh (Inserted k pc) w = (case slash_step cfg lnSlash sh k pc w of (pc, w) \<Rightarrow> (Inserted k pc, w))"

section \<open>Re-verifying\<close>

text \<open>The loop over the rows that were active: \<open>Rechecking\<close> holds those that are left.\<close>

datatype reverify_pc =
  Query_active
| Rechecking "node list"
| Degrading uuid "node list"
| Degrading_stake uuid "node list"
| Refreshing uuid StakeResult "node list"
| Reverified "unit result"

fun reverify_step :: "ext \<Rightarrow> Client \<Rightarrow> reverify_pc \<Rightarrow> world \<Rightarrow> reverify_pc \<times> world" where
  "reverify_step E lnc Query_active w =
     (case db_query (\<lambda>w. sql_select (\<lambda>n. Status n = ''active'' \<and> lookup st_node (NodeID n) (w_stakes w) \<noteq> None) (w_nodes w)) w of
       (Inl e, w) \<Rightarrow> (Reverified (Inl e), w) | (Inr rows, w) \<Rightarrow> (Rechecking rows, w))"
| "reverify_step E lnc (Rechecking []) w = (Reverified (Inr ()), w)"
| "reverify_step E lnc (Rechecking (n # ns)) w =
     (case VerifyStake (Some lnc) (PublicKey n) (Tier n) w of
       (Inl _, w) \<Rightarrow> (Rechecking ns, w)
     | (Inr res, w) \<Rightarrow> (if \<not> OK res then Degrading (NodeID n) ns else Refreshing (NodeID n) res ns, w))"
| "reverify_step E lnc (Degrading nodeID ns) w =
     (case db_exec (\<lambda>w. w\<lparr>w_nodes := sql_update (\<lambda>n. NodeID n = nodeID \<and> Status n = ''active'')
          (\<lambda>n. n\<lparr>Status := ''degraded''\<rparr>) (w_nodes w)\<rparr>) w of
       (Inl _, w) \<Rightarrow> (Rechecking ns, w) | (Inr _, w) \<Rightarrow> (Degrading_stake nodeID ns, w))"
| "reverify_step E lnc (Degrading_stake nodeID ns) w =
     (Rechecking ns, snd (db_exec (\<lambda>w. w\<lparr>w_stakes := sql_update (\<lambda>s. st_node s = nodeID \<and> st_degraded_since s = None)
           (\<lambda>s. s\<lparr>st_status := ''degraded'', st_degraded_since := Some (w_now w)\<rparr>) (w_stakes w)\<rparr>) w))"
| "reverify_step E lnc (Refreshing nodeID res ns) w = (Rechecking ns, snd (PersistStake E nodeID res w))"
| "reverify_step E lnc (Reverified r) w = (Reverified r, w)"

section \<open>Scheduling\<close>

record schedule_args =
  sa_rng :: "nat \<Rightarrow> flt"
  sa_redis :: "bool option"
  sa_fresh :: uuid
  sa_type :: string
  sa_hash :: string
  sa_timeout :: int

datatype schedule_pc =
  List_nodes
| Reward node
| Insert_task Assignment
| Scheduled "Assignment result"

fun schedule_step :: "ext \<Rightarrow> schedule_args \<Rightarrow> schedule_pc \<Rightarrow> world \<Rightarrow> schedule_pc \<times> world" where
  "schedule_step E a List_nodes w =
     (case ListActive w of
       (Inl e, w) \<Rightarrow> (Scheduled (Inl (Wrap ''listing active nodes'' e)), w)
     | (Inr nodes, w) \<Rightarrow>
       (case selectNode (sa_rng a) (filterEligible nodes (sa_type a) (taskMinTier (sa_type a))) of
         None \<Rightarrow> (Scheduled (Inl (Err (''no eligible nodes for task type '' @ sa_type a))), w)
       | Some nd \<Rightarrow> (Reward nd, w)))"
| "schedule_step E a (Reward nd) w =
     (case computeReward nd (sa_type a) w of (rewardSats, w) \<Rightarrow>
       (Insert_task \<lparr>a_TaskID = sa_fresh a, a_NodeID = NodeID nd, a_NodeLNURI = LNNodeURI nd, a_TaskType = sa_type a,
          a_RewardSats = rewardSats, a_TimeoutSecs = sa_timeout a, a_AssignedAt = w_now w\<rparr>, w))"
| "schedule_step E a (Insert_task asg) w =
     (case persistAssignment E (sa_redis a) asg (sa_hash a) w of
       (Inl e, w) \<Rightarrow> (Scheduled (Inl (Wrap ''persisting assignment'' e)), w)
     | (Inr _, w) \<Rightarrow> (Scheduled (Inr asg), w))"
| "schedule_step E a (Scheduled r) w = (Scheduled r, w)"

section \<open>Statements and operations\<close>

lemma register_alone:
  "((\<lambda>(pc, w). register_step S fresh req pc w) ^^ 4) (Enter, w) = (Answered (fst (RegisterNode S fresh req w)), snd (RegisterNode S fresh req w))"
  by (auto simp: RegisterNode_def Let_def eval_nat_numeral split: prod.splits sum.splits)

lemma slash_alone:
  "((\<lambda>(pc, w). slash_step cfg l sh k pc w) ^^ 6) (Fetch_channel, w) =
     (Slashed (fst (Slash cfg l (sh_event sh) (sh_node sh) (sh_tier sh) (sh_reason sh) (sh_evidence sh) k w)),
      snd (Slash cfg l (sh_event sh) (sh_node sh) (sh_tier sh) (sh_reason sh) (sh_evidence sh) k w))"
  by (cases l) (auto simp: Slash_def eval_nat_numeral split: prod.splits sum.splits)

lemma schedule_alone:
  "((\<lambda>(pc, w). schedule_step E a pc w) ^^ 3) (List_nodes, w) =
     (Scheduled (fst (Schedule E (sa_rng a) (sa_redis a) (sa_fresh a) (sa_type a) (sa_hash a) (sa_timeout a) w)),
      snd (Schedule E (sa_rng a) (sa_redis a) (sa_fresh a) (sa_type a) (sa_hash a) (sa_timeout a) w))"
  by (auto simp: Schedule_def schedule_over_def Let_def eval_nat_numeral simp del: selectNode_None split: prod.splits sum.splits option.splits)

lemma signal_lift:
  "((\<lambda>(pc, w). signal_step cfg l sh pc w) ^^ n) (Inserted k pc, w) =
     (case ((\<lambda>(pc, w). slash_step cfg l sh k pc w) ^^ n) (pc, w) of (pc, w) \<Rightarrow> (Inserted k pc, w))"
  by (induction n) (simp_all split: prod.splits del: slash_step.simps)

lemma slashed_fix: "((\<lambda>(pc, w). slash_step cfg l sh k pc w) ^^ n) (Slashed r, w) = (Slashed r, w)"
  by (induction n) simp_all

lemma signal_alone:
  "\<exists>k. ((\<lambda>(pc, w). signal_step cfg l sh pc w) ^^ 7) (Insert_signal, w) =
     (Inserted k (Slashed (fst (RecordMisbehaviorSignal cfg l (sh_event sh) (sh_node sh) (sh_tier sh) (sh_reason sh) (sh_evidence sh) w))),
      snd (RecordMisbehaviorSignal cfg l (sh_event sh) (sh_node sh) (sh_tier sh) (sh_reason sh) (sh_evidence sh) w))"
proof -
  have seven: "(f ^^ 7) x = (f ^^ 6) (f x)" for f :: "'x \<Rightarrow> 'x" and x
    by (simp add: funpow_swap1 eval_nat_numeral)
  show ?thesis
  proof (cases "insert_signal (sh_node sh) (sh_reason sh) (sh_evidence sh) w")
    case (Pair r w1)
    show ?thesis
    proof (cases r)
      case (Inl e)
      with Pair show ?thesis by (simp add: seven signal_lift slashed_fix RecordMisbehaviorSignal_def)
    next
      case (Inr k)
      with Pair show ?thesis
        by (cases "sh_tier sh = ''t1'' \<and> T1AutoSlashSignals cfg \<le> k")
          (auto simp: seven signal_lift slashed_fix slash_alone RecordMisbehaviorSignal_def)
    qed
  qed
qed

lemma reverify_row_alone:
  "\<exists>m\<le>3. ((\<lambda>(pc, w). reverify_step E lnc pc w) ^^ m) (Rechecking (n # ns), w) = (Rechecking ns, reverify_row E lnc n w)"
proof -
  obtain r w1 where v: "VerifyStake (Some lnc) (PublicKey n) (Tier n) w = (r, w1)" by fastforce
  show ?thesis
  proof (cases r)
    case (Inl e)
    with v show ?thesis by (intro exI [of _ 1]) (simp add: reverify_row_def)
  next
    case (Inr res)
    show ?thesis
    proof (cases "OK res")
      case True
      with v Inr show ?thesis by (intro exI [of _ 2]) (simp add: reverify_row_def eval_nat_numeral)
    next
      case False
      show ?thesis
      proof (cases "db_down w1")
        case True
        with v Inr False show ?thesis by (intro exI [of _ 2]) (simp add: reverify_row_def markDegraded_def db_call_def eval_nat_numeral)
      next
        case False
        with v Inr \<open>\<not> OK res\<close> show ?thesis
          by (intro exI [of _ 3]) (simp add: reverify_row_def markDegraded_def db_call_def eval_nat_numeral)
      qed
    qed
  qed
qed

lemma reverify_rows_alone:
  "\<exists>m. ((\<lambda>(pc, w). reverify_step E lnc pc w) ^^ m) (Rechecking ns, w) = (Reverified (Inr ()), foldl (\<lambda>w n. reverify_row E lnc n w) w ns)"
proof (induction ns arbitrary: w)
  case Nil
  show ?case by (intro exI [of _ 1]) simp
next
  case (Cons n ns)
  obtain m where m: "((\<lambda>(pc, w). reverify_step E lnc pc w) ^^ m) (Rechecking (n # ns), w) = (Rechecking ns, reverify_row E lnc n w)"
    using reverify_row_alone by blast
  obtain k where "((\<lambda>(pc, w). reverify_step E lnc pc w) ^^ k) (Rechecking ns, reverify_row E lnc n w) =
      (Reverified (Inr ()), foldl (\<lambda>w n. reverify_row E lnc n w) (reverify_row E lnc n w) ns)" using Cons.IH by blast
  with m have "((\<lambda>(pc, w). reverify_step E lnc pc w) ^^ (k + m)) (Rechecking (n # ns), w) =
      (Reverified (Inr ()), foldl (\<lambda>w n. reverify_row E lnc n w) w (n # ns))" unfolding funpow_add by simp
  then show ?case by blast
qed

lemma reverify_alone:
  "\<exists>m. ((\<lambda>(pc, w). reverify_step E lnc pc w) ^^ m) (Query_active, w) =
     (Reverified (fst (VerifyAllActive E (Some lnc) w)), snd (VerifyAllActive E (Some lnc) w))"
proof (cases "db_down w")
  case True
  then show ?thesis by (intro exI [of _ 1]) (simp add: VerifyAllActive_def db_call_def)
next
  case False
  let ?rows = "sql_select (\<lambda>n. Status n = ''active'' \<and> lookup st_node (NodeID n) (w_stakes w) \<noteq> None) (w_nodes w)"
  obtain m where "((\<lambda>(pc, w). reverify_step E lnc pc w) ^^ m) (Rechecking ?rows, db_tick w) =
      (Reverified (Inr ()), foldl (\<lambda>w n. reverify_row E lnc n w) (db_tick w) ?rows)" using reverify_rows_alone by blast
  with False show ?thesis
    by (intro exI [of _ "Suc m"]) (simp add: VerifyAllActive_def db_call_def funpow_Suc_right del: funpow.simps)
qed

section \<open>The clerks\<close>

datatype clerk =
  Registrar RegisterNodeRequest uuid register_pc
| Slasher slashing int slash_pc
| Signaller slashing signal_pc
| Reverifier reverify_pc
| Assigner schedule_args schedule_pc

fun clerk_step :: "ext \<Rightarrow> coordinator \<Rightarrow> Client \<Rightarrow> clerk \<Rightarrow> world \<Rightarrow> clerk \<times> world" where
  "clerk_step E co lnc (Registrar req fresh pc) w =
     (case register_step (server_with E co lnc) fresh req pc w of (pc, w) \<Rightarrow> (Registrar req fresh pc, w))"
| "clerk_step E co lnc (Slasher sh k pc) w = (case slash_step (co_slash co) (Some lnc) sh k pc w of (pc, w) \<Rightarrow> (Slasher sh k pc, w))"
| "clerk_step E co lnc (Signaller sh pc) w = (case signal_step (co_slash co) (Some lnc) sh pc w of (pc, w) \<Rightarrow> (Signaller sh pc, w))"
| "clerk_step E co lnc (Reverifier pc) w = (case reverify_step E lnc pc w of (pc, w) \<Rightarrow> (Reverifier pc, w))"
| "clerk_step E co lnc (Assigner a pc) w = (case schedule_step E a pc w of (pc, w) \<Rightarrow> (Assigner a pc, w))"

fun arrives :: "clerk \<Rightarrow> bool" where
  "arrives (Registrar req fresh pc) = (pc = Enter)"
| "arrives (Slasher sh k pc) = (pc = Fetch_channel)"
| "arrives (Signaller sh pc) = (pc = Insert_signal)"
| "arrives (Reverifier pc) = (pc = Query_active)"
| "arrives (Assigner a pc) = (pc = List_nodes)"

text \<open>The key that a statement registers: the one of the request, when \<open>Register\<close> accepted it.\<close>

fun registered :: "clerk \<Rightarrow> clerk \<Rightarrow> string option" where
  "registered (Registrar req fresh Enter) (Registrar _ _ (Checking _)) = Some (rq_PublicKey req)"
| "registered _ _ = None"

fun by_clerks :: "co_event \<Rightarrow> bool" where
  "by_clerks (RegisterNode_ev _ _ _) = True"
| "by_clerks (Reverify_ev _) = True"
| "by_clerks (Signal_ev _ _ _ _ _ _) = True"
| "by_clerks (Slash_ev _ _ _ _ _ _ _) = True"
| "by_clerks (Schedule_ev _ _ _ _ _ _) = True"
| "by_clerks _ = False"

text \<open>Capacities and balances that a clerk reads from the Lightning node are 64-bit integers.\<close>

fun vetted :: "clerk \<Rightarrow> Client \<Rightarrow> bool" where
  "vetted (Registrar req fresh pc) lnc = typed_client lnc"
| "vetted (Reverifier pc) lnc = typed_client lnc"
| "vetted _ lnc = True"

text \<open>
  A step is labelled with the key it registers. As in \<open>Coordinator\<close> the set collects the tasks with
  an authentic result.
\<close>

inductive standing_step :: "ext \<Rightarrow> coordinator \<Rightarrow> string option \<Rightarrow> clerk list \<times> uuid set \<times> world \<Rightarrow> clerk list \<times> uuid set \<times> world \<Rightarrow> bool"
  for E co where
  arrive: "arrives c \<Longrightarrow> standing_step E co None (cs, s) (cs @ [c], s)"
| clerk: "i < length cs \<Longrightarrow> vetted (cs ! i) lnc \<Longrightarrow> clerk_step E co lnc (cs ! i) w = (c, w') \<Longrightarrow>
    standing_step E co (registered (cs ! i) c) (cs, A, w) (cs[i := c], A, w')"
| call: "admissible ev w \<Longrightarrow> \<not> by_clerks ev \<Longrightarrow> standing_step E co None (cs, A, w) (cs, A, co_exec E co ev w)"
| result: "result_authentic (rpc_server E co) req w tid nid \<Longrightarrow> sizes_fit w \<Longrightarrow>
    standing_step E co None (cs, A, w) (cs, insert tid A, snd (SubmitTaskResult (rpc_server E co) req w))"
| forged: "\<nexists>tid nid. result_authentic (rpc_server E co) req w tid nid \<Longrightarrow> sizes_fit w \<Longrightarrow>
    standing_step E co None (cs, A, w) (cs, A, snd (SubmitTaskResult (rpc_server E co) req w))"
| clock: "w_now w \<le> t \<Longrightarrow> standing_step E co None (cs, A, w) (cs, A, w\<lparr>w_now := t\<rparr>)"
| faults: "standing_step E co None (cs, A, w) (cs, A, w\<lparr>w_faults := fs\<rparr>)"
| restart: "standing_step E co None (cs, A, w) ([], A, Start (lose_memory w))"

abbreviation standing :: "ext \<Rightarrow> coordinator \<Rightarrow> clerk list \<times> uuid set \<times> world \<Rightarrow> clerk list \<times> uuid set \<times> world \<Rightarrow> bool" where
  "standing E co x y \<equiv> \<exists>l. standing_step E co l x y"

definition standing_start :: "ext \<Rightarrow> clerk list \<times> uuid set \<times> world \<Rightarrow> bool" where
  "standing_start E x \<longleftrightarrow> fst x = [] \<and> co_start E (snd x)"

subsection \<open>The invariant\<close>

text \<open>What a clerk has in its hands: a bonus that fits, a reward within its bounds.\<close>

fun clerk_ok :: "clerk \<Rightarrow> bool" where
  "clerk_ok (Registrar req fresh (Persisting n res)) = bonus_ok (BonusMultiplier res)"
| "clerk_ok (Reverifier (Refreshing nid res ns)) = bonus_ok (BonusMultiplier res)"
| "clerk_ok (Assigner a (Insert_task asg)) = (0 \<le> a_RewardSats asg \<and> a_RewardSats asg \<le> 800)"
| "clerk_ok _ = True"

definition standing_ok :: "ext \<Rightarrow> clerk list \<times> uuid set \<times> world \<Rightarrow> bool" where
  "standing_ok E x \<longleftrightarrow> (case x of (cs, s) \<Rightarrow> sys_ok E s \<and> list_all clerk_ok cs)"

text \<open>
  How the status of a node may move. Only a registration takes it back, and only from the key of the
  node.
\<close>

definition status_edge :: "string \<Rightarrow> string \<Rightarrow> bool" where
  "status_edge s s' \<longleftrightarrow> s' = s \<or> s = ''pending'' \<and> s' = ''active'' \<or> s = ''active'' \<and> s' = ''degraded'' \<or> s' = ''suspended''"

definition node_moves :: "string option \<Rightarrow> node \<Rightarrow> node \<Rightarrow> bool" where
  "node_moves l n n' \<longleftrightarrow> NodeID n' = NodeID n \<and> PublicKey n' = PublicKey n \<and>
     (status_edge (Status n) (Status n') \<or> l = Some (PublicKey n) \<and> Status n' = ''pending'')"

definition moves :: "string option \<Rightarrow> world \<Rightarrow> world \<Rightarrow> bool" where
  "moves l w w' \<longleftrightarrow> (\<forall>n\<in>set (w_nodes w). \<exists>n'\<in>set (w_nodes w'). node_moves l n n')"

lemma node_moves_refl [simp]: "node_moves l n n"
  by (simp add: node_moves_def status_edge_def)

lemma moves_same: "w_nodes w' = w_nodes w \<Longrightarrow> moves l w w'"
  unfolding moves_def using node_moves_refl by metis

lemma moves_update:
  assumes "w_nodes w' = sql_update P f (w_nodes w)" "\<And>n. n \<in> set (w_nodes w) \<Longrightarrow> P n \<Longrightarrow> node_moves l n (f n)"
  shows "moves l w w'"
proof -
  have "\<exists>n'\<in>set (w_nodes w'). node_moves l n n'" if "n \<in> set (w_nodes w)" for n
    using assms that by (intro bexI [of _ "if P n then f n else n"]) (auto simp: set_sql_update)
  then show ?thesis by (simp add: moves_def)
qed

lemma moves_insert: "w_nodes w' = sql_insert n (w_nodes w) \<Longrightarrow> moves l w w'"
  unfolding moves_def sql_insert_def using node_moves_refl by fastforce

lemma moves_weaken: "moves None w w' \<Longrightarrow> moves l w w'"
  by (fastforce simp: moves_def node_moves_def)

text \<open>The registry.\<close>

lemma UpdateReliability_moves: "moves None w (snd (UpdateReliability E nid ok w))"
proof -
  have "w_nodes (snd (UpdateReliability E nid ok w)) = w_nodes w \<or>
      (\<exists>P f. w_nodes (snd (UpdateReliability E nid ok w)) = sql_update P f (w_nodes w) \<and> (\<forall>n. node_moves None n (f n)))"
    by (auto simp: UpdateReliability_def db_call_def Let_def node_moves_def status_edge_def split: world_splits intro!: exI)
  then show ?thesis by (auto intro: moves_same moves_update)
qed

lemma UpdateReliability_moves_from: "w_nodes v = w_nodes w \<Longrightarrow> moves None w (snd (UpdateReliability E nid ok v))"
  using UpdateReliability_moves [of v] by (simp add: moves_def)

lemma UpdateStatus_moves: "moves None w (snd (UpdateStatus nid ''suspended'' w))"
proof -
  have "w_nodes (snd (UpdateStatus nid ''suspended'' w)) = w_nodes w \<or>
      w_nodes (snd (UpdateStatus nid ''suspended'' w)) = sql_update (\<lambda>n. NodeID n = nid) (\<lambda>n. n\<lparr>Status := ''suspended''\<rparr>) (w_nodes w)"
    by (auto simp: UpdateStatus_def db_call_def Let_def split: world_splits)
  then show ?thesis by (auto simp: node_moves_def status_edge_def intro: moves_same moves_update)
qed

lemma RecordHeartbeat_moves: "moves None w (snd (RecordHeartbeat nid w))"
proof -
  have "w_nodes (snd (RecordHeartbeat nid w)) = w_nodes w \<or>
      (\<exists>P f. w_nodes (snd (RecordHeartbeat nid w)) = sql_update P f (w_nodes w) \<and> (\<forall>n. node_moves None n (f n)))"
    by (auto simp: RecordHeartbeat_def db_call_def Let_def node_moves_def status_edge_def split: world_splits intro!: exI)
  then show ?thesis by (auto intro: moves_same moves_update)
qed

lemma Activate_moves: "moves None w (snd (Activate nid w))"
proof -
  have "w_nodes (snd (Activate nid w)) = w_nodes w \<or>
      w_nodes (snd (Activate nid w)) = sql_update (\<lambda>n. NodeID n = nid \<and> Status n = ''pending'') (\<lambda>n. n\<lparr>Status := ''active''\<rparr>) (w_nodes w)"
    by (auto simp: Activate_def activate_row_def db_call_def split: world_splits)
  then show ?thesis by (auto simp: node_moves_def status_edge_def intro: moves_same moves_update)
qed

lemma Register_moves:
  assumes "Register E fresh pk uri onion caps sig ts w = (r, w')"
  shows "moves (if is_ok r then Some pk else None) w w'"
proof (cases r)
  case (Inl e)
  then have "w_nodes w' = w_nodes w"
    using assms upsert_node_fail by (fastforce simp: Register_def Let_def split: world_splits)
  then show ?thesis by (rule moves_same)
next
  case (Inr n)
  have "w_nodes w' = sql_update (\<lambda>r. PublicKey r = pk) f (w_nodes w) \<Longrightarrow> (\<And>r. NodeID (f r) = NodeID r \<and> PublicKey (f r) = PublicKey r \<and> Status (f r) = ''pending'') \<Longrightarrow>
      moves (Some pk) w w'" for f
    using moves_update [of w' "\<lambda>r. PublicKey r = pk" f w "Some pk"] by (simp add: node_moves_def)
  moreover have "(\<exists>f. w_nodes w' = sql_update (\<lambda>r. PublicKey r = pk) f (w_nodes w) \<and>
        (\<forall>r. NodeID (f r) = NodeID r \<and> PublicKey (f r) = PublicKey r \<and> Status (f r) = ''pending'')) \<or> (\<exists>m. w_nodes w' = sql_insert m (w_nodes w))"
    using assms Inr by (auto simp: Register_def Let_def upsert_node_def db_call_def reregister_row_def split: world_splits)
  ultimately show ?thesis using Inr by (auto intro: moves_insert)
qed

section \<open>Steps of the clerks\<close>

lemma VerifyStake_nodes [simp]: "w_nodes (snd (VerifyStake l pk t w)) = w_nodes w" "w_stakes (snd (VerifyStake l pk t w)) = w_stakes w"
  using VerifyStake_simps(1,2) [of l pk t w] by simp_all

text \<open>A statement about nodes and stakes.\<close>

definition stands :: "ext \<Rightarrow> string option \<Rightarrow> world \<Rightarrow> world \<Rightarrow> bool" where
  "stands E l w w' \<longleftrightarrow> side w' = side w \<and> nodes_ok (w_nodes w') \<and> stakes_ok (w_stakes w') \<and> moves l w w'"

lemma register_step_stands:
  assumes "register_step (server_with E co lnc) fresh req pc w = (pc', w')" "sys_ok E (A, w)" "typed_client lnc"
    and "clerk_ok (Registrar req fresh pc)"
  shows "stands E (registered (Registrar req fresh pc) (Registrar req fresh pc')) w w' \<and> clerk_ok (Registrar req fresh pc')"
proof -
  have ok: "nodes_ok (w_nodes w)" "stakes_ok (w_stakes w)" "numeric_rounds E" using sys_okD [OF assms(2)] by auto
  show ?thesis
  proof (cases pc)
    case Enter
    let ?caps = "request_caps (the (rq_Capabilities req))"
    obtain r v where r: "Register E fresh (rq_PublicKey req) (rq_LnNodeUri req) (rq_OnionAddress req) ?caps (rq_Signature req) (rq_Timestamp req) w = (r, v)"
      by fastforce
    have v: "side v = side w" "nodes_ok (w_nodes v)" "stakes_ok (w_stakes v)" "moves (if is_ok r then Some (rq_PublicKey req) else None) w v"
      using Register_nodes_ok [OF ok(1,3), of fresh "rq_PublicKey req" "rq_LnNodeUri req" "rq_OnionAddress req" ?caps "rq_Signature req" "rq_Timestamp req"]
        registry_side(1) [of E fresh "rq_PublicKey req" "rq_LnNodeUri req" "rq_OnionAddress req" ?caps "rq_Signature req" "rq_Timestamp req" w]
        nodes_only_Register [of w E fresh "rq_PublicKey req" "rq_LnNodeUri req" "rq_OnionAddress req" ?caps "rq_Signature req" "rq_Timestamp req"]
        Register_moves [OF r] ok(2) r by (simp_all add: nodes_only_iff)
    have "w' = w \<and> (\<exists>a. pc' = Answered a) \<or> w' = v \<and> (case r of Inl _ \<Rightarrow> \<exists>a. pc' = Answered a | Inr n \<Rightarrow> pc' = Checking n)"
      using assms(1) Enter r by (auto split: sum.splits if_splits)
    then show ?thesis using v ok Enter by (auto simp: stands_def intro: moves_same split: sum.splits)
  next
    case (Checking n)
    let ?t = "cap_Tier (request_caps (the (rq_Capabilities req)))"
    obtain r v where v: "VerifyStake (Some lnc) (rq_PublicKey req) ?t w = (r, v)" by fastforce
    have s: "side v = side w" "w_nodes v = w_nodes w" "w_stakes v = w_stakes w"
      using arg_cong [OF v, of snd] by auto
    have "w' = v \<and> (case r of Inl _ \<Rightarrow> \<exists>a. pc' = Answered a | Inr res \<Rightarrow> pc' = Persisting n res)"
      using assms(1) Checking v by (auto simp: Let_def split: sum.splits)
    then show ?thesis using s ok Checking VerifyStake_bonus [OF _ assms(3), of "rq_PublicKey req" ?t w _ v] v
      by (auto simp: stands_def intro: moves_same split: sum.splits)
  next
    case (Persisting n res)
    have "w_nodes (snd (PersistStake E (NodeID n) res w)) = w_nodes w" by (auto simp: PersistStake_def db_call_def split: world_splits)
    moreover have "stakes_ok (w_stakes (snd (PersistStake E (NodeID n) res w)))"
      using PersistStake_stakes_ok [OF ok(2) _ ok(3)] assms(4) Persisting by simp
    ultimately show ?thesis using assms(1) Persisting ok by (auto simp: stands_def intro: moves_same)
  next
    case (Activating n res)
    obtain r v where a: "Activate (NodeID n) w = (r, v)" by fastforce
    have "stands E None w v"
      using a Activate_nodes_ok [OF ok(1), of "NodeID n"] nodes_only_Activate [of w "NodeID n"] Activate_moves [of w "NodeID n"] ok(2)
        registry_side(2) [of "NodeID n" w] by (simp add: stands_def nodes_only_iff)
    then show ?thesis using assms(1) Activating a by (auto split: sum.splits)
  next
    case (Answered a)
    then show ?thesis using assms(1) ok by (auto simp: stands_def intro: moves_same)
  qed
qed

lemma stands_none: "side w' = side w \<Longrightarrow> w_nodes w' = w_nodes w \<Longrightarrow> stakes_ok (w_stakes w') \<Longrightarrow> nodes_ok (w_nodes w) \<Longrightarrow> stands E l w w'"
  by (simp add: stands_def moves_same)

lemma slash_step_stands:
  assumes "slash_step cfg l sh k pc w = (pc', w')" "sys_ok E (A, w)"
  shows "stands E None w w'"
proof -
  have ok: "nodes_ok (w_nodes w)" "stakes_ok (w_stakes w)" using sys_okD [OF assms(2)] by auto
  show ?thesis
  proof (cases pc)
    case Suspend
    have w': "side w' = side w" "w_stakes w' = w_stakes w" "w_nodes w' = w_nodes w \<or>
        w_nodes w' = sql_update (\<lambda>n. NodeID n = sh_node sh) (\<lambda>n. n\<lparr>Status := ''suspended''\<rparr>) (w_nodes w)"
      using assms(1) Suspend by (auto simp: db_call_def split: if_splits)
    have "nodes_ok (w_nodes w')" using w'(3) ok(1) by (auto simp: node_ok_def node_statuses_def intro!: nodes_ok_update)
    moreover have "moves None w w'" using w'(3) by (auto simp: node_moves_def status_edge_def intro: moves_same moves_update)
    ultimately show ?thesis using w' ok(2) by (simp add: stands_def)
  next
    case Mark_stake
    then show ?thesis
      using assms(1) ok by (auto simp: db_call_def stakes_ok_def list_all_iff set_sql_update intro!: stands_none split: if_splits)
  next
    case Fetch_channel
    then show ?thesis using assms(1) ok by (auto simp: db_call_def intro!: stands_none split: if_splits option.splits)
  next
    case (Persist_event ch)
    then show ?thesis using assms(1) ok by (auto simp: db_call_def intro!: stands_none split: if_splits)
  next
    case Link_signals
    then show ?thesis using assms(1) ok by (auto simp: db_call_def intro!: stands_none split: if_splits)
  next
    case (Close_channel ch)
    then show ?thesis using assms(1) ok by (auto intro!: stands_none split: sum.splits)
  next
    case (Slashed r)
    then show ?thesis using assms(1) ok by (auto intro!: stands_none)
  qed
qed

lemma signal_step_stands:
  assumes "signal_step cfg l sh pc w = (pc', w')" "sys_ok E (A, w)"
  shows "stands E None w w'"
proof (cases pc)
  case Insert_signal
  then show ?thesis
    using assms sys_okD [OF assms(2)] by (auto simp: insert_signal_def db_call_def intro!: stands_none split: if_splits)
next
  case (Inserted k spc)
  then obtain spc' where "slash_step cfg l sh k spc w = (spc', w')" using assms(1) by (auto split: prod.splits)
  then show ?thesis using slash_step_stands assms(2) by blast
qed

lemma reverify_step_stands:
  assumes "reverify_step E lnc pc w = (pc', w')" "sys_ok E (A, w)" "typed_client lnc" "clerk_ok (Reverifier pc)"
  shows "stands E None w w' \<and> clerk_ok (Reverifier pc')"
proof -
  have ok: "nodes_ok (w_nodes w)" "stakes_ok (w_stakes w)" "numeric_rounds E" using sys_okD [OF assms(2)] by auto
  consider "pc = Query_active \<or> pc = Rechecking []" | n ns where "pc = Rechecking (n # ns)" | i ns where "pc = Degrading i ns"
    | i ns where "pc = Degrading_stake i ns" | i res ns where "pc = Refreshing i res ns" | r where "pc = Reverified r"
  proof (cases pc)
    case (Rechecking ns)
    then show ?thesis using that by (cases ns) auto
  qed (use that in auto)
  then show ?thesis
  proof cases
    case 1
    then show ?thesis using assms(1) ok by (auto simp: db_call_def intro!: stands_none split: if_splits)
  next
    case 2
    obtain r v where v: "VerifyStake (Some lnc) (PublicKey n) (Tier n) w = (r, v)" by fastforce
    have s: "side v = side w" "w_nodes v = w_nodes w" "w_stakes v = w_stakes w" using arg_cong [OF v, of snd] by auto
    have "w' = v \<and> (case r of Inl _ \<Rightarrow> pc' = Rechecking ns | Inr res \<Rightarrow> pc' = Degrading (NodeID n) ns \<or> pc' = Refreshing (NodeID n) res ns)"
      using assms(1) 2 v by (auto split: sum.splits)
    then show ?thesis using s ok VerifyStake_bonus [OF _ assms(3), of "PublicKey n" "Tier n" w _ v] v
      by (auto intro!: stands_none split: sum.splits)
  next
    case 3
    have w': "side w' = side w" "w_stakes w' = w_stakes w" "pc' = Rechecking ns \<or> pc' = Degrading_stake i ns" "w_nodes w' = w_nodes w \<or>
        w_nodes w' = sql_update (\<lambda>n. NodeID n = i \<and> Status n = ''active'') (\<lambda>n. n\<lparr>Status := ''degraded''\<rparr>) (w_nodes w)"
      using assms(1) 3 by (auto simp: db_call_def split: if_splits)
    have "nodes_ok (w_nodes w')" using w'(4) ok(1) by (auto simp: node_ok_def node_statuses_def intro!: nodes_ok_update)
    moreover have "moves None w w'" using w'(4) by (auto simp: node_moves_def status_edge_def intro: moves_same moves_update)
    ultimately show ?thesis using w' ok(2) by (auto simp: stands_def)
  next
    case 4
    then show ?thesis
      using assms(1) ok by (auto simp: db_call_def stakes_ok_def list_all_iff set_sql_update intro!: stands_none)
  next
    case 5
    have "w_nodes (snd (PersistStake E i res w)) = w_nodes w" by (auto simp: PersistStake_def db_call_def split: world_splits)
    moreover have "stakes_ok (w_stakes (snd (PersistStake E i res w)))" using PersistStake_stakes_ok [OF ok(2) _ ok(3)] assms(4) 5 by simp
    ultimately show ?thesis using assms(1) 5 ok by (auto intro!: stands_none)
  next
    case 6
    then show ?thesis using assms(1) ok by (auto intro!: stands_none)
  qed
qed

text \<open>Scheduling changes no node; it inserts a task for the node that its listing saw active.\<close>

fun holds_node :: "uuid \<Rightarrow> clerk \<Rightarrow> bool" where
  "holds_node nid (Assigner a (Reward nd)) = (NodeID nd = nid)"
| "holds_node nid (Assigner a (Insert_task asg)) = (a_NodeID asg = nid)"
| "holds_node nid _ = False"

definition assigned :: "uuid \<Rightarrow> world \<Rightarrow> uuid set" where
  "assigned nid w = {tk_id t |t. t \<in> set (w_tasks w) \<and> tk_assigned t = Some nid}"

lemma persistAssignment_tasks_ok:
  assumes "persistAssignment E redis asg ih w = (r, v)" "tasks_ok (w_tasks w)"
  shows "tasks_ok (w_tasks v)"
proof (cases r)
  case (Inl e)
  then have "w_tasks v = w_tasks w" using persistAssignment_world [OF assms(1)] by auto
  with assms(2) show ?thesis by simp
next
  case (Inr u)
  then have "lookup tk_id (a_TaskID asg) (w_tasks w) = None" "in_int32 (a_RewardSats asg)"
    using assms(1) insert_task_ok [of asg ih w] by (auto simp: persistAssignment_def split: sum.splits prod.splits)
  then show ?thesis
    using persistAssignment_world [OF assms(1)] assms(2)
    by (auto simp: tasks_ok_def task_ok_def assignment_row_def task_statuses_def payment_statuses_def sql_insert_def
        keyed_insert [unfolded sql_insert_def])
qed

lemma schedule_step_effect:
  assumes "schedule_step E a pc w = (pc', w')" "sys_ok E (A, w)" "clerk_ok (Assigner a pc)"
  shows "sys_ok E (A, w') \<and> clerk_ok (Assigner a pc') \<and> w_nodes w' = w_nodes w \<and>
    (\<forall>nid. holds_node nid (Assigner a pc') \<longrightarrow> holds_node nid (Assigner a pc) \<or> (\<exists>n\<in>set (w_nodes w). NodeID n = nid \<and> Status n = ''active'')) \<and>
    (\<forall>nid. assigned nid w' \<subseteq> assigned nid w \<or> holds_node nid (Assigner a pc))"
proof -
  have ok: "stakes_ok (w_stakes w)" "pay_ok A w" using sys_okD [OF assms(2)] by auto
  have same: "sys_ok E (A, v) \<and> w_nodes v = w_nodes w \<and> assigned nid v = assigned nid w" if "v = w \<or> v = db_tick w" for v nid
    using that assms(2) sys_ok_ticked [OF assms(2), of v] by (auto simp: assigned_def)
  show ?thesis
  proof (cases pc)
    case List_nodes
    obtain r v where l: "ListActive w = (r, v)" by fastforce
    have "w' = v \<and> ((\<exists>x. pc' = Scheduled x) \<or> (\<exists>ns nd. r = Inr ns \<and> pc' = Reward nd \<and> selectNode (sa_rng a) (filterEligible ns (sa_type a) (taskMinTier (sa_type a))) = Some nd))"
      using assms(1) List_nodes l by (simp del: selectNode_None split: sum.splits option.splits) blast+
    moreover have "nd \<in> set (w_nodes w) \<and> Status nd = ''active''"
      if "r = Inr ns" "selectNode (sa_rng a) (filterEligible ns (sa_type a) (taskMinTier (sa_type a))) = Some nd" for ns nd
      using registry.list_sound [OF l [unfolded that(1)], of nd] selectNode_in [OF that(2)] by (simp add: filterEligible_def)
    ultimately show ?thesis using same [OF registry.list_world [OF l]] by auto
  next
    case (Reward nd)
    obtain k v where k: "computeReward nd (sa_type a) w = (k, v)" by fastforce
    then have "w' = v" "clerk_ok (Assigner a pc')" "holds_node nid (Assigner a pc') \<longrightarrow> NodeID nd = nid" for nid
      using assms(1) Reward computeReward_range [OF k ok(1)] by auto
    then show ?thesis using same [OF computeReward_world [OF k]] Reward by auto
  next
    case (Insert_task asg)
    obtain r v where p: "persistAssignment E (sa_redis a) asg (sa_hash a) w = (r, v)" by fastforce
    then have w': "w' = v" "\<exists>x. pc' = Scheduled x" using assms(1) Insert_task by (auto split: sum.splits)
    note e = persistAssignment_world [OF p]
    have r: "0 \<le> a_RewardSats asg" "a_RewardSats asg \<le> 800" using assms(3) Insert_task by simp_all
    have "tasks_ok (w_tasks v)" using persistAssignment_tasks_ok [OF p] ok(2) by (simp add: pay_ok_def)
    then have "pay_ok A v"
      using e r ok(2) by (intro pay_ok_step [OF ok(2) order_refl]) (auto simp: pay_ok_def sql_insert_def task_paid_ok_def assignment_row_def)
    then have "sys_ok E (A, v)" using sys_ok_tasks [OF assms(2)] e by blast
    moreover have "assigned nid v \<subseteq> assigned nid w \<or> a_NodeID asg = nid" for nid
      using e by (auto simp: assigned_def sql_insert_def assignment_row_def)
    ultimately show ?thesis using w' e Insert_task by (auto simp: base_def)
  next
    case (Scheduled r)
    then show ?thesis using assms by auto
  qed
qed

lemma assigned_same: "w_tasks w' = w_tasks w \<Longrightarrow> assigned nid w' = assigned nid w"
  by (simp add: assigned_def)

lemma stands_sys: "sys_ok E (A, w) \<Longrightarrow> stands E l w w' \<Longrightarrow> sys_ok E (A, w') \<and> moves l w w' \<and> assigned nid w' = assigned nid w"
  using sys_ok_nodes [of E A w w'] by (auto simp: stands_def assigned_def side_defs)

lemma clerk_step_effect:
  assumes "clerk_step E co lnc c w = (c', w')" "sys_ok E (A, w)" "clerk_ok c" "vetted c lnc"
  shows "sys_ok E (A, w') \<and> clerk_ok c' \<and> moves (registered c c') w w' \<and>
    (holds_node nid c' \<longrightarrow> holds_node nid c \<or> (\<exists>n\<in>set (w_nodes w). NodeID n = nid \<and> Status n = ''active'')) \<and>
    (assigned nid w' \<subseteq> assigned nid w \<or> holds_node nid c)"
proof (cases c)
  case (Registrar req fresh pc)
  then obtain pc' where "register_step (server_with E co lnc) fresh req pc w = (pc', w')" "c' = Registrar req fresh pc'"
    using assms(1) by (auto split: prod.splits)
  then show ?thesis using register_step_stands [of E co lnc fresh req pc w pc' w' A] stands_sys [OF assms(2), of _ w' nid] assms(2-) Registrar by auto
next
  case (Slasher sh k pc)
  then obtain pc' where s: "slash_step (co_slash co) (Some lnc) sh k pc w = (pc', w')" "c' = Slasher sh k pc'"
    using assms(1) by (auto split: prod.splits)
  then show ?thesis using stands_sys [OF assms(2) slash_step_stands [OF s(1) assms(2)]] Slasher by simp
next
  case (Signaller sh pc)
  then obtain pc' where s: "signal_step (co_slash co) (Some lnc) sh pc w = (pc', w')" "c' = Signaller sh pc'"
    using assms(1) by (auto split: prod.splits)
  then show ?thesis using stands_sys [OF assms(2) signal_step_stands [OF s(1) assms(2)]] Signaller by simp
next
  case (Reverifier pc)
  then obtain pc' where "reverify_step E lnc pc w = (pc', w')" "c' = Reverifier pc'"
    using assms(1) by (auto split: prod.splits)
  then show ?thesis using reverify_step_stands [of E lnc pc w pc' w' A] stands_sys [OF assms(2), of _ w' nid] assms(2-) Reverifier by auto
next
  case (Assigner a pc)
  then obtain pc' where "schedule_step E a pc w = (pc', w')" "c' = Assigner a pc'"
    using assms(1) by (auto split: prod.splits)
  then show ?thesis using schedule_step_effect [of E a pc w pc' w' A] assms(2,3) Assigner by (auto intro: moves_same)
qed

text \<open>The other operations.\<close>

lemma tasks_updated:
  assumes "w_tasks w' = w_tasks w \<or> w_tasks w' = sql_update P f (w_tasks w)"
    and "\<And>t. tk_id (f t) = tk_id t \<and> (tk_assigned (f t) = tk_assigned t \<or> tk_assigned (f t) = None)"
  shows "assigned nid w' \<subseteq> assigned nid w"
  using assms by (auto simp: assigned_def set_sql_update) (metis option.distinct(1))+

lemma assigned_mark: "w_tasks w' = mark_paid job p (w_tasks w) \<Longrightarrow> assigned nid w' \<subseteq> assigned nid w"
  "w_tasks w' = mark_failed job (w_tasks w) \<Longrightarrow> assigned nid w' \<subseteq> assigned nid w"
  unfolding mark_paid_def mark_failed_def by (rule tasks_updated [OF disjI2], assumption, simp)+

lemma assigned_alt: "assigned nid w = {i. (i, Some nid) \<in> set (map (\<lambda>t. (tk_id t, tk_assigned t)) (w_tasks w))}"
  by (auto simp: assigned_def)

lemma assigned_receipt:
  "assigned nid (u\<lparr>w_tasks := sql_update P (\<lambda>t. t\<lparr>tk_receipt_id := x\<rparr>) (w_tasks v)\<rparr>) = assigned nid v"
  "assigned nid (counter_inc m ls v) = assigned nid v" "assigned nid (db_tick v) = assigned nid v"
proof -
  have "map (\<lambda>t. (tk_id t, tk_assigned t)) (sql_update P (\<lambda>t. t\<lparr>tk_receipt_id := x\<rparr>) (w_tasks v)) = map (\<lambda>t. (tk_id t, tk_assigned t)) (w_tasks v)"
    by (rule map_sql_update_frame) simp
  then show "assigned nid (u\<lparr>w_tasks := sql_update P (\<lambda>t. t\<lparr>tk_receipt_id := x\<rparr>) (w_tasks v)\<rparr>) = assigned nid v"
    unfolding assigned_alt by simp
  show "assigned nid (counter_inc m ls v) = assigned nid v" "assigned nid (db_tick v) = assigned nid v" by (simp_all add: assigned_def)
qed

lemma call_keeps:
  assumes "\<not> by_clerks ev"
  shows "moves None w (co_exec E co ev w) \<and> assigned nid (co_exec E co ev w) \<subseteq> assigned nid w"
proof -
  have core: "core w' = core w \<Longrightarrow> moves None w w' \<and> assigned nid w' \<subseteq> assigned nid w" for w'
    using moves_same [of w' w] assigned_same [of w' w] by (simp add: core_def)
  have tick: "ticked w w' \<Longrightarrow> moves None w w' \<and> assigned nid w' \<subseteq> assigned nid w" for w'
    using core [of w'] by (auto simp: ticked_def core_def)
  have side: "side w' = side w \<Longrightarrow> moves None w w' \<Longrightarrow> moves None w w' \<and> assigned nid w' \<subseteq> assigned nid w" for w'
    using assigned_same [of w' w] by (simp add: side_defs)
  have base: "base w' = base w \<Longrightarrow> assigned nid w' \<subseteq> assigned nid w \<Longrightarrow> moves None w w' \<and> assigned nid w' \<subseteq> assigned nid w" for w'
    using moves_same [of w' w] by (simp add: base_def)
  have grad: "core (snd (SubmitGradient_rpc S up g w)) = core w" for S up g
  proof -
    have "core (snd (SubmitGradient sub w)) = core w" for sub by (rule core_snd) (rule SubmitGradient_core)
    then show ?thesis using SubmitGradient_rpc_cases [of S up g w] by auto
  qed
  show ?thesis using assms
  proof (cases ev)
    case (Heartbeat_ev req)
    have "moves None w (snd (Heartbeat (rpc_server E co) req w))"
      using RecordHeartbeat_moves [of w] by (auto simp: Heartbeat_def intro: moves_same split: sum.splits option.splits prod.splits) (metis snd_conv)+
    then show ?thesis using side [of "co_exec E co ev w"] Heartbeat_ev by simp
  next
    case (DeregisterNode_ev req)
    have "moves None w (snd (DeregisterNode (rpc_server E co) req w))"
      using UpdateStatus_moves [of w] by (auto simp: DeregisterNode_def intro: moves_same split: sum.splits option.splits prod.splits) (metis snd_conv)+
    then show ?thesis using side [of "co_exec E co ev w"] DeregisterNode_ev by simp
  next
    case (SubmitGradient_ev up g)
    then show ?thesis using core [OF grad] by simp
  next
    case (GetCurrentModel_ev stored gm)
    then show ?thesis using tick [OF reads_ticked(1)] by simp
  next
    case (ListModelVersions_ev stored l)
    then show ?thesis using tick [OF reads_ticked(2)] by simp
  next
    case (GetStakeStatus_ev i)
    then show ?thesis using tick [OF reads_ticked(3)] by simp
  next
    case (GetNodeStatus_ev pk)
    then show ?thesis using tick [OF reads_ticked(4)] by simp
  next
    case (Worker_ev lnc d)
    have "assigned nid (process lnc obs d job v) \<subseteq> assigned nid v" for obs job v
    proof -
      have "w_tasks (process lnc obs d job v) = w_tasks v \<or> (\<exists>p. w_tasks (process lnc obs d job v) = mark_paid job p (w_tasks v)) \<or>
          w_tasks (process lnc obs d job v) = mark_failed job (w_tasks v)" using process_effect [of lnc job v obs d] by blast
      then show ?thesis using assigned_same assigned_mark by blast
    qed
    from this [of _ "hd (w_queue w)" "w\<lparr>w_queue := tl (w_queue w)\<rparr>"]
    have "assigned nid (worker lnc obs d w) \<subseteq> assigned nid w" for obs
      by (cases "w_queue w") (simp_all add: worker_def assigned_def)
    then show ?thesis using base [of "co_exec E co ev w"] Worker_ev by simp
  next
    case (Receipt_ev i f)
    have "assigned nid (submitObserverReceipt E f job p v) \<subseteq> assigned nid v" for job p v
      by (simp add: submitObserverReceipt_def db_call_def assigned_receipt split: option.split sum.split)
    from this [of _ _ "w\<lparr>w_receipts := drop_nth i (w_receipts w)\<rparr>"]
    show ?thesis using base [of "co_exec E co ev w"] Receipt_ev by (auto simp: assigned_def split: prod.splits)
  next
    case (Stamp_ev i M post order)
    then show ?thesis using core [of "co_exec E co ev w"] by (simp split: prod.splits)
  next
    case Requeue_ev
    have "assigned nid (snd (RequeueTimedOut w)) \<subseteq> assigned nid w"
      by (rule tasks_updated [where f = requeue]) (auto simp: RequeueTimedOut_def db_call_def requeue_def)
    then show ?thesis using base [of "co_exec E co ev w"] Requeue_ev by simp
  next
    case (CloseExpired_ev M)
    then show ?thesis using core [OF core_snd [OF CloseExpired_core]] by simp
  next
    case (MarkFailed_ev tid n)
    have "moves None w (snd (MarkFailed E tid n w))"
    proof -
      obtain tt v where t: "task_type_of tid w = (tt, v)" by fastforce
      then have "w_nodes v = w_nodes w" by (auto simp: task_type_of_def db_call_def split: option.splits if_splits)
      then show ?thesis
        by (auto simp: MarkFailed_def t db_call_def intro: moves_same UpdateReliability_moves_from)
    qed
    moreover have "assigned nid (snd (MarkFailed E tid n w)) \<subseteq> assigned nid w" by (rule tasks_updated [OF MarkFailed_frame(5)]) simp
    ultimately show ?thesis using MarkFailed_ev by simp
  next
    case (OpenRound_ev v)
    then show ?thesis using core [OF core_snd [OF OpenRound_core]] by simp
  next
    case (TryAggregate_ev M rn)
    then show ?thesis using core [OF core_snd [OF TryAggregate_core]] by simp
  qed simp_all
qed

text \<open>A result, and a restart.\<close>

lemma accept_result_keeps:
  assumes "accept_result S req tid nd w = (res, w')"
  shows "moves None w w' \<and> assigned nid w' \<subseteq> assigned nid w"
proof -
  obtain r w1 where m: "MarkComplete tid (hex_EncodeToString (tr_OutputHash req)) w = (r, w1)" by fastforce
  note f = MarkComplete_frame [of tid "hex_EncodeToString (tr_OutputHash req)" w, unfolded m snd_conv]
  have "w_nodes w' = w_nodes w1 \<or> w_nodes w' = w_nodes (snd (UpdateReliability (sv_ext S) nd True w1))"
    using assms m by (auto simp: accept_result_def Let_def split: prod.splits sum.splits dest!: arg_cong [of _ _ snd])
  then have "moves None w w'"
  proof
    assume "w_nodes w' = w_nodes w1"
    then show ?thesis using f by (simp add: moves_same)
  next
    assume "w_nodes w' = w_nodes (snd (UpdateReliability (sv_ext S) nd True w1))"
    then show ?thesis using UpdateReliability_moves_from [of w1 w "sv_ext S" nd True] f by (simp add: moves_def)
  qed
  moreover have "assigned nid w' \<subseteq> assigned nid w"
    using accept_result_effect(1) [OF assms] unfolding complete_task_def by (intro tasks_updated) auto
  ultimately show ?thesis by simp
qed

lemma result_keeps:
  "moves None w (snd (SubmitTaskResult S req w)) \<and> assigned nid (snd (SubmitTaskResult S req w)) \<subseteq> assigned nid w"
proof -
  have tick: "moves None w v \<and> assigned nid v \<subseteq> assigned nid w" if "v \<in> {w, db_tick w}" for v
    using that by (auto simp: assigned_receipt intro: moves_same)
  show ?thesis
  proof (cases "\<exists>tid nd. result_authentic S req w tid nd")
    case True
    then obtain tid nd where a: "result_authentic S req w tid nd" by blast
    obtain res w' where "accept_result S req tid nd (db_tick w) = (res, w')" by fastforce
    with accept_result_keeps [OF this, of nid] SubmitTaskResult_authentic [OF a] tick [of "db_tick w"] show ?thesis
      by (cases "db_down w") (simp_all add: moves_def assigned_receipt)
  next
    case False
    have "moves None w (snd (UpdateReliability E nd False (db_tick w)))"
      "assigned nid (snd (UpdateReliability E nd False (db_tick w))) = assigned nid w" for E nd
      by (simp_all add: UpdateReliability_moves_from assigned_def)
    with SubmitTaskResult_refused [OF False] tick show ?thesis by auto
  qed
qed

lemma restart_keeps: "moves None w (Start (lose_memory w)) \<and> assigned nid (Start (lose_memory w)) \<subseteq> assigned nid w"
proof -
  have n: "w_nodes (Start v) = w_nodes v" for v using payments_base(2) [of v] unfolding base_def by blast
  have t: "w_tasks (Start v) = w_tasks v" for v by (simp add: Start_def db_call_def)
  have "w_nodes (Start (lose_memory w)) = w_nodes w" "w_tasks (Start (lose_memory w)) = w_tasks w"
    unfolding n t by (simp_all add: lose_memory_def)
  then show ?thesis using moves_same assigned_same by blast
qed

section \<open>The machine\<close>

lemma standing_step_effect:
  assumes "standing_step E co l x y" "standing_ok E x"
  shows "standing_ok E y \<and> moves l (snd (snd x)) (snd (snd y)) \<and>
    ((\<forall>c\<in>set (fst x). \<not> holds_node nid c) \<longrightarrow> assigned nid (snd (snd y)) \<subseteq> assigned nid (snd (snd x)) \<and>
      ((\<exists>n\<in>set (w_nodes (snd (snd x))). NodeID n = nid \<and> Status n = ''active'') \<or> (\<forall>c\<in>set (fst y). \<not> holds_node nid c)))"
  using assms
proof (induction rule: standing_step.induct)
  case (arrive c cs s)
  have "clerk_ok c \<and> \<not> holds_node nid c" using arrive.hyps by (cases c) auto
  with arrive show ?case by (auto simp: standing_ok_def moves_same)
next
  case (clerk i cs lnc w c w' A)
  have ok: "sys_ok E (A, w)" "list_all clerk_ok cs" "clerk_ok (cs ! i)"
    using clerk by (auto simp: standing_ok_def list_all_length)
  note e = clerk_step_effect [OF clerk.hyps(3) ok(1,3) clerk.hyps(2), of nid]
  have "set (cs[i := c]) \<subseteq> insert c (set cs)" by (rule set_update_subset_insert)
  moreover have "cs ! i \<in> set cs" using clerk.hyps(1) by simp
  ultimately show ?case using e ok(2) unfolding standing_ok_def list_all_iff prod.case fst_conv snd_conv by blast
next
  case (call ev w cs A)
  then show ?case using call_keeps [of ev w E co nid] sys_ok_call [of ev w E A co] by (simp add: standing_ok_def)
next
  case (result req w tid nd cs A)
  then show ?case using result_keeps [of w "rpc_server E co" req nid] sys_ok_result [of E co req w tid nd A] by (simp add: standing_ok_def)
next
  case (forged req w cs A)
  then show ?case using result_keeps [of w "rpc_server E co" req nid] sys_ok_forged [of E co req w A] by (simp add: standing_ok_def)
next
  case (clock w t cs A)
  then show ?case by (simp add: standing_ok_def moves_same assigned_def)
next
  case (faults cs A w fs)
  then show ?case by (simp add: standing_ok_def moves_same assigned_def)
next
  case (restart cs A w)
  then show ?case using restart_keeps [of w nid] sys_ok_restart [of E A w] by (simp add: standing_ok_def)
qed

lemma standing_ok_start: "standing_start E x \<Longrightarrow> standing_ok E x"
  using sys_ok_start [of E "snd x"] by (cases x) (simp add: standing_start_def standing_ok_def)

interpretation clerks: transition_system "standing_start E" "standing E co" "standing_ok E" for E co
  by unfold_locales (use standing_ok_start standing_step_effect in blast)+

subsection \<open>The machine of the operations\<close>

lemma lift_runs:
  assumes "\<And>pc w. clerk_step E co lnc (C pc) w = (case st pc w of (pc, w) \<Rightarrow> (C pc, w))"
    and "((\<lambda>(pc, w). st pc w) ^^ n) (pc, w) = (pc', w')"
  shows "((\<lambda>(c, w). clerk_step E co lnc c w) ^^ n) (C pc, w) = (C pc', w')"
proof -
  have "((\<lambda>(c, w). clerk_step E co lnc c w) ^^ n) (C pc, w) = (case ((\<lambda>(pc, w). st pc w) ^^ n) (pc, w) of (pc, w) \<Rightarrow> (C pc, w))"
    by (induction n) (simp_all add: assms(1) split: prod.splits)
  with assms(2) show ?thesis by simp
qed

lemma vetted_step: "clerk_step E co lnc c w = (c', w') \<Longrightarrow> vetted c' lnc' = vetted c lnc'"
  by (cases c) (auto split: prod.splits)

lemma clerk_at_runs:
  assumes "((\<lambda>(c, w). clerk_step E co lnc c w) ^^ n) (cs ! i, w) = (c', w')" "vetted (cs ! i) lnc" "i < length cs"
  shows "(standing E co)\<^sup>*\<^sup>* (cs, A, w) (cs[i := c'], A, w')"
  using assms
proof (induction n arbitrary: cs w)
  case 0
  then show ?case by auto
next
  case (Suc n)
  obtain d v where d: "clerk_step E co lnc (cs ! i) w = (d, v)" by fastforce
  have "standing E co (cs, A, w) (cs[i := d], A, v)"
    using standing_step.clerk [OF Suc.prems(3,2) d] by blast
  moreover have "(standing E co)\<^sup>*\<^sup>* (cs[i := d], A, v) (cs[i := c'], A, w')"
    using Suc.IH [of "cs[i := d]" v] Suc.prems d vetted_step [OF d] by (simp add: funpow_Suc_right del: funpow.simps)
  ultimately show ?case by (rule converse_rtranclp_into_rtranclp)
qed

lemma clerk_runs:
  assumes "((\<lambda>(c, w). clerk_step E co lnc c w) ^^ n) (c, w) = (c', w')" "vetted c lnc"
  shows "(standing E co)\<^sup>*\<^sup>* (cs @ [c], A, w) (cs @ [c'], A, w')"
  using clerk_at_runs [of n E co lnc "cs @ [c]" "length cs" w c' w' A] assms by simp

lemma arrive_runs:
  assumes "((\<lambda>(c, w). clerk_step E co lnc c w) ^^ n) (c, w) = (c', w')" "vetted c lnc" "arrives c"
  shows "(standing E co)\<^sup>*\<^sup>* (cs, A, w) (cs @ [c'], A, w')"
  using clerk_runs [OF assms(1,2)] standing_step.arrive [OF assms(3)] by (blast intro: converse_rtranclp_into_rtranclp)

lemma registers:
  assumes "typed_client lnc"
  shows "(standing E co)\<^sup>*\<^sup>* (cs, A, w)
    (cs @ [Registrar req fresh (Answered (fst (RegisterNode (server_with E co lnc) fresh req w)))], A, snd (RegisterNode (server_with E co lnc) fresh req w))"
  by (rule arrive_runs [OF lift_runs [OF _ register_alone]]) (use assms in simp_all)

text \<open>Every operation is a run of its clerk: the runs of \<open>Coordinator\<close> are runs of this machine.\<close>

lemma clerk_alone:
  assumes "admissible ev w" "by_clerks ev"
  obtains n lnc c c' where "arrives c" "vetted c lnc" "((\<lambda>(c, w). clerk_step E co lnc c w) ^^ n) (c, w) = (c', co_exec E co ev w)"
proof (cases ev)
  case (RegisterNode_ev lnc fresh req)
  show thesis
    by (rule that [OF _ _ lift_runs [OF _ register_alone, of E co lnc "Registrar req fresh", THEN trans]])
      (use RegisterNode_ev assms in auto)
next
  case (Reverify_ev lnc)
  obtain m where m: "((\<lambda>(pc, w). reverify_step E lnc pc w) ^^ m) (Query_active, w) =
     (Reverified (fst (VerifyAllActive E (Some lnc) w)), snd (VerifyAllActive E (Some lnc) w))" using reverify_alone by blast
  show thesis
    by (rule that [OF _ _ lift_runs [OF _ m, of _ co lnc Reverifier, THEN trans]]) (use Reverify_ev assms in auto)
next
  case (Schedule_ev rng redis fresh tt ih tmo)
  let ?a = "\<lparr>sa_rng = rng, sa_redis = redis, sa_fresh = fresh, sa_type = tt, sa_hash = ih, sa_timeout = tmo\<rparr>"
  show thesis
    by (rule that [OF _ _ lift_runs [OF _ schedule_alone, of E co _ "Assigner ?a", THEN trans]]) (use Schedule_ev in auto)
next
  case (Signal_ev lnc ev nid tier ty evid)
  let ?s = "\<lparr>sh_event = ev, sh_node = nid, sh_tier = tier, sh_reason = ty, sh_evidence = evid\<rparr>"
  obtain k where k: "((\<lambda>(pc, w). signal_step (co_slash co) (Some lnc) ?s pc w) ^^ 7) (Insert_signal, w) =
     (Inserted k (Slashed (fst (RecordMisbehaviorSignal (co_slash co) (Some lnc) ev nid tier ty evid w))),
      snd (RecordMisbehaviorSignal (co_slash co) (Some lnc) ev nid tier ty evid w))" using signal_alone [of "co_slash co" "Some lnc" ?s w] by auto
  show thesis
    by (rule that [OF _ _ lift_runs [OF _ k, of E co lnc "Signaller ?s", THEN trans]]) (use Signal_ev in auto)
next
  case (Slash_ev lnc ev nid tier ty evid k)
  let ?s = "\<lparr>sh_event = ev, sh_node = nid, sh_tier = tier, sh_reason = ty, sh_evidence = evid\<rparr>"
  show thesis
    by (rule that [OF _ _ lift_runs [OF _ slash_alone, of E co lnc "Slasher ?s k", THEN trans]]) (use Slash_ev in auto)
qed (use assms in auto)

lemma serial_clerk_step:
  assumes "co_step E co (A, w) (B, v)"
  shows "\<exists>cs'. (standing E co)\<^sup>*\<^sup>* (cs, A, w) (cs', B, v)"
  using assms
proof (cases rule: co_step.cases)
  case (call ev)
  show ?thesis
  proof (cases "by_clerks ev")
    case True
    with call obtain n lnc c c' where c: "arrives c" "vetted c lnc" "((\<lambda>(c, w). clerk_step E co lnc c w) ^^ n) (c, w) = (c', co_exec E co ev w)"
      using clerk_alone by metis
    show ?thesis using arrive_runs [OF c(3,2,1)] call by blast
  next
    case False
    then show ?thesis using standing_step.call [of ev w E co cs A] call by blast
  qed
qed (blast intro: standing_step.intros)+

lemma serial_clerk_runs: "(co_step E co)\<^sup>*\<^sup>* s (B, v) \<Longrightarrow> \<exists>cs'. (standing E co)\<^sup>*\<^sup>* (cs, s) (cs', B, v)"
proof (induction "(B, v)" arbitrary: B v rule: rtranclp_induct)
  case base
  then show ?case by blast
next
  case (step y)
  obtain A w where y: "y = (A, w)" by fastforce
  with step.hyps(3) obtain cs' where "(standing E co)\<^sup>*\<^sup>* (cs, s) (cs', A, w)" by blast
  moreover obtain cs'' where "(standing E co)\<^sup>*\<^sup>* (cs', A, w) (cs'', B, v)" using serial_clerk_step step.hyps(2) y by blast
  ultimately show ?case by (blast intro: rtranclp_trans)
qed

lemma moves_lookup:
  assumes "moves l w w'" "nodes_ok (w_nodes w')" "lookup NodeID i (w_nodes w) = Some n"
  shows "\<exists>n'. lookup NodeID i (w_nodes w') = Some n' \<and> node_moves l n n'"
proof -
  have "n \<in> set (w_nodes w)" "NodeID n = i" using lookup_Some [OF assms(3)] by simp_all
  then obtain n' where "n' \<in> set (w_nodes w')" "node_moves l n n'" "NodeID n' = i" using assms(1) by (auto simp: moves_def node_moves_def)
  then show ?thesis using lookup_in [of NodeID "w_nodes w'" n'] assms(2) by (auto simp: nodes_ok_def)
qed

lemma standing_nodes_ok: "standing_ok E (cs, A, w) \<Longrightarrow> nodes_ok (w_nodes w)"
  using sys_okD [of E A w] by (simp add: standing_ok_def)

section \<open>A concrete run\<close>

text \<open>A node registers and leaves again.\<close>

definition demo_leave :: DeregisterNodeRequest where
  "demo_leave = \<lparr>dr_NodeId = demo_nid, dr_Signature = [], dr_Timestamp = 1000, dr_Reason = []\<rparr>"

abbreviation demo_joined :: world where
  "demo_joined \<equiv> snd (RegisterNode (server_with demo_ext demo_co (demo_ln [])) 7 (demo_register ''t1'') (empty_world demo_now))"

lemma RegisterNode_now: "w_now (snd (RegisterNode S f r w)) = w_now w"
proof -
  have 1: "w_now w2 = w_now w1" if "Register E f pk u on c sg ts w1 = (x, w2)" for E f pk u on c sg ts w1 x w2
    using nodes_only_Register [of w1 E f pk u on c sg ts] that by (simp add: nodes_only_iff)
  have 2: "w_now w2 = w_now w1" if "Activate i w1 = (x, w2)" for i w1 x w2
    using nodes_only_Activate [of w1 i] that by (simp add: nodes_only_iff)
  have 3: "w_now w2 = w_now w1" if "VerifyStake l p t w1 = (x, w2)" for l p t w1 x w2
    using VerifyStake_simps(5) [of l p t w1] that by simp
  have 4: "w_now (snd (PersistStake E i x w1)) = w_now w1" for E i x w1
    by (auto simp: PersistStake_def db_call_def split: option.splits)
  show ?thesis by (auto simp: RegisterNode_def Let_def 4 split: sum.splits prod.splits dest!: 1 2 3)
qed

lemma demo_typed: "typed_client (demo_ln [])"
  by (auto simp: typed_client_def demo_ln_def mock_Client_def mock_ListChannels_def mock_SetChannels_def mock_New_def in_int_def split: if_splits option.splits)

lemma demo_start: "standing_start demo_ext ([], {}, empty_world demo_now)"
  by (auto simp: standing_start_def co_start_def demo_numeric_rounds)

lemma demo_join:
  "\<exists>a. (standing demo_ext demo_co)\<^sup>*\<^sup>* ([], {}, empty_world demo_now) ([Registrar (demo_register ''t1'') 7 (Answered a)], {}, demo_joined)"
  using registers [OF demo_typed, of demo_ext demo_co "[]" "{}" "empty_world demo_now" "demo_register ''t1''" 7] by auto

lemma demo_leaves:
  "lookup NodeID 7 (w_nodes (snd (DeregisterNode (rpc_server demo_ext demo_co) demo_leave demo_joined))) =
     Some (demo_node ''t1''\<lparr>Status := ''suspended''\<rparr>)"
proof -
  have j: "w_nodes demo_joined = [demo_node ''t1''\<lparr>Status := ''active''\<rparr>]" "healthy demo_joined" using demo_registered [of demo_co] by simp_all
  obtain a where a: "(standing demo_ext demo_co)\<^sup>*\<^sup>* ([], {}, empty_world demo_now) ([Registrar (demo_register ''t1'') 7 (Answered a)], {}, demo_joined)"
    using demo_join by blast
  have ok: "nodes_ok (w_nodes demo_joined)" using standing_nodes_ok [OF clerks.inv_reachable [OF demo_start a]] .
  have "w_now demo_joined = demo_now" by (simp add: RegisterNode_now empty_world_def)
  then have "validateTimestamp 1000 demo_joined = Inr ()"
    by (simp add: validateTimestamp_ok demo_now_def time_Sub_def time_defs)
  then have "is_ok (validateTimestamp (dr_Timestamp demo_leave) demo_joined)" by (simp add: demo_leave_def)
  from deregister_ignores_signature(3) [OF j(2) _ _ ok this, of "rpc_server demo_ext demo_co" "demo_node ''t1''\<lparr>Status := ''active''\<rparr>"]
  show ?thesis using j(1) by (simp add: demo_leave_def)
qed

subsection \<open>Overtaken by a slashing\<close>

abbreviation late_world :: world where
  "late_world \<equiv> demo_staked ''t1'' ''active'' []"

abbreviation late_client :: Client where
  "late_client \<equiv> demo_ln [demo_channel ''c1'' 300000]"

definition late_slashing :: slashing where
  "late_slashing = \<lparr>sh_event = 1, sh_node = 7, sh_tier = ''t1'', sh_reason = ''double_vote'', sh_evidence = ''ff''\<rparr>"

definition late_args :: schedule_args where
  "late_args = \<lparr>sa_rng = (\<lambda>_. Fin 0), sa_redis = None, sa_fresh = 1, sa_type = ''inference'', sa_hash = ''h'', sa_timeout = 30\<rparr>"

lemma late_ok: "standing_ok demo_ext ([], {}, late_world)"
  using demo_numeric_rounds
  by (simp add: standing_ok_def sys_ok_def nodes_ok_def keyed_def node_ok_def tiers_def node_statuses_def unit_flt_def stakes_ok_def
      demo_stake_def bonus_ok_def fl_ok_def pay_ok_def tasks_ok_def demo_staked_def empty_world_def)

lemma late_typed: "typed_client late_client"
  by (auto simp: typed_client_def demo_ln_def mock_Client_def mock_ListChannels_def mock_SetChannels_def mock_New_def demo_channel_def
      in_int_def split: if_splits option.splits)

lemma late_verified:
  "\<exists>res v. VerifyStake (Some late_client) demo_pk ''t1'' late_world = (Inr res, v) \<and> OK res \<and> sr_ChannelID res = ''c1'' \<and> bonus_ok (BonusMultiplier res)"
proof -
  have m: "TierMinimums ''t1'' = Some 100000" by (simp add: TierMinimums_def)
  obtain b where b: "best_channel 100000 [demo_channel ''c1'' 300000] = Some b" "b = demo_channel ''c1'' 300000"
    using best_channel_None [of 100000 "[demo_channel ''c1'' 300000]"] best_channel_Some [of 100000 "[demo_channel ''c1'' 300000]"]
    by (cases "best_channel 100000 [demo_channel ''c1'' 300000]") (auto simp: demo_channel_def)
  obtain res v where v: "VerifyStake (Some late_client) demo_pk ''t1'' late_world = (Inr res, v)" "OK res" "sr_ChannelID res = ''c1''"
    using m b by (simp add: VerifyStake_def) (simp add: demo_channel_def)
  with VerifyStake_bonus [OF v(1) late_typed] show ?thesis by blast
qed

lemma late_recheck:
  "\<exists>res v. ((\<lambda>(c, w). clerk_step E co late_client c w) ^^ 2) (Reverifier Query_active, late_world) = (Reverifier (Refreshing 7 res []), v) \<and>
     sr_ChannelID res = ''c1'' \<and> bonus_ok (BonusMultiplier res) \<and> v = snd (VerifyStake (Some late_client) demo_pk ''t1'' late_world)"
proof -
  have h: "healthy late_world" by simp
  obtain res v where v: "VerifyStake (Some late_client) demo_pk ''t1'' late_world = (Inr res, v)" "OK res" "sr_ChannelID res = ''c1''"
    "bonus_ok (BonusMultiplier res)" using late_verified by blast
  have "sql_select (\<lambda>n. Status n = ''active'' \<and> lookup st_node (NodeID n) (w_stakes late_world) \<noteq> None) (w_nodes late_world) =
      [demo_node ''t1''\<lparr>Status := ''active''\<rparr>]" by (simp add: sql_select_def)
  then have "((\<lambda>(pc, w). reverify_step E late_client pc w) ^^ 2) (Query_active, late_world) = (Refreshing 7 res [], v)"
    using v by (simp add: eval_nat_numeral db_call_healthy [OF h])
  from lift_runs [OF _ this, of _ co _ Reverifier] v show ?thesis by (intro exI [of _ res] exI [of _ v]) simp
qed

lemma late_choice:
  assumes "w_nodes w = w_nodes late_world" "w_stakes w = w_stakes late_world" "healthy w"
  shows "\<exists>asg. ((\<lambda>(c, w). clerk_step E co l c w) ^^ 2) (Assigner late_args List_nodes, w) = (Assigner late_args (Insert_task asg), w) \<and>
     a_TaskID asg = 1 \<and> a_NodeID asg = 7 \<and> in_int32 (a_RewardSats asg) \<and> in_int32 (a_TimeoutSecs asg)"
proof -
  let ?n = "demo_node ''t1''\<lparr>Status := ''active''\<rparr>"
  obtain k w' where k: "computeReward ?n ''inference'' w = (k, w')" by fastforce
  have w': "w' = w" using computeReward_world [OF k] db_tick_healthy [OF assms(3)] by auto
  have st: "stakes_ok (w_stakes w)" using assms(2) by (simp add: stakes_ok_def demo_stake_def bonus_ok_def)
  have r: "in_int32 k" using computeReward_range [OF k st] by (auto simp: in_int_def)
  have l: "ListActive w = (Inr [?n], w)"
    using assms(1,3) by (simp add: ListActive_def db_call_healthy sql_select_def order_by_reliability_def)
  have f: "filterEligible [?n] ''inference'' (taskMinTier ''inference'') = [?n]"
    by (simp add: filterEligible_def tierNums_def taskMinTier_def supportsTaskType_def)
  have s: "selectNode (\<lambda>_. Fin 0) [?n] = Some ?n" by (simp add: selectNode_def Let_def)
  let ?asg = "\<lparr>a_TaskID = 1, a_NodeID = 7, a_NodeLNURI = LNNodeURI ?n, a_TaskType = ''inference'', a_RewardSats = k, a_TimeoutSecs = 30, a_AssignedAt = w_now w\<rparr>"
  have "((\<lambda>(pc, w). schedule_step E late_args pc w) ^^ 2) (List_nodes, w) = (Insert_task ?asg, w)"
    using l f s k w' by (simp add: late_args_def eval_nat_numeral)
  from lift_runs [OF _ this, of E co l "Assigner late_args"] r show ?thesis by (intro exI [of _ ?asg]) (simp add: in_int_def)
qed

lemma late_slashed:
  assumes "w_nodes w = w_nodes late_world" "w_stakes w = w_stakes late_world" "w_slashings w = []" "healthy w"
  shows "\<exists>v. ((\<lambda>(c, w). clerk_step E co late_client c w) ^^ 6) (Slasher late_slashing 3 Fetch_channel, w) = (Slasher late_slashing 3 (Slashed (Inr ())), v) \<and>
     healthy v \<and> w_nodes v = [demo_node ''t1''\<lparr>Status := ''suspended''\<rparr>] \<and> w_stakes v = [demo_stake ''c1''\<lparr>st_status := ''force_closed''\<rparr>] \<and>
     w_tasks v = w_tasks w"
proof -
  have s: "Slash (co_slash co) (Some late_client) 1 7 ''t1'' ''double_vote'' ''ff'' 3 w =
    (Inr (), counter_inc ''owm_slash_events_total'' [''t1'']
       (w\<lparr>w_slashings := sql_insert \<lparr>sl_id = 1, sl_node = 7, sl_channel = ''c1'', sl_tier = ''t1'',
            sl_reason = ''double_vote'', sl_evidence = ''ff'', sl_signal_count = 3,
            sl_cooldown = w_now w + CooldownDuration (co_slash co)\<rparr> (w_slashings w),
          w_nodes := sql_update (\<lambda>n. NodeID n = 7) (\<lambda>n. n\<lparr>Status := ''suspended''\<rparr>) (w_nodes w),
          w_stakes := sql_update (\<lambda>s. st_node s = 7) (\<lambda>s. s\<lparr>st_status := ''force_closed''\<rparr>) (w_stakes w),
          w_signals := sql_update (\<lambda>g. sg_node g = 7 \<and> sg_event g = None) (\<lambda>g. g\<lparr>sg_event := Some 1\<rparr>) (w_signals w)\<rparr>))" (is "_ = (_, ?v)")
    using Slash_healthy [OF assms(4), of 7 "demo_stake ''c1''" late_client 1 3 "co_slash co" "''t1''" "''double_vote''" "''ff''"] assms
    by (simp add: in_int_def) (simp add: lookup_def sql_row_def demo_stake_def)
  have "healthy ?v" "w_tasks ?v = w_tasks w" using assms(4) by (simp_all add: healthy_def)
  moreover have "w_nodes ?v = [demo_node ''t1''\<lparr>Status := ''suspended''\<rparr>]" "w_stakes ?v = [demo_stake ''c1''\<lparr>st_status := ''force_closed''\<rparr>]"
    using assms(1,2) by (simp_all add: sql_update_def demo_stake_def)
  moreover have "((\<lambda>(c, w). clerk_step E co late_client c w) ^^ 6) (Slasher late_slashing 3 Fetch_channel, w) = (Slasher late_slashing 3 (Slashed (Inr ())), ?v)"
  proof (rule lift_runs [where st = "slash_step (co_slash co) (Some late_client) late_slashing 3"])
    have f: "sh_event late_slashing = 1" "sh_node late_slashing = 7" "sh_tier late_slashing = ''t1''"
      "sh_reason late_slashing = ''double_vote''" "sh_evidence late_slashing = ''ff''" by (simp_all add: late_slashing_def)
    show "((\<lambda>(pc, w). slash_step (co_slash co) (Some late_client) late_slashing 3 pc w) ^^ 6) (Fetch_channel, w) = (Slashed (Inr ()), ?v)"
      unfolding slash_alone f s by simp
  qed simp
  ultimately show ?thesis by blast
qed

lemma late_refresh:
  assumes "w_nodes w = [demo_node ''t1''\<lparr>Status := st\<rparr>]" "w_stakes w = [s]" "st_node s = 7" "healthy w" "sr_ChannelID res = ''c1''" "bonus_ok (BonusMultiplier res)"
  shows "\<exists>v t. ((\<lambda>(c, w). clerk_step demo_ext co l c w) ^^ 2) (Reverifier (Refreshing 7 res []), w) = (Reverifier (Reverified (Inr ())), v) \<and>
     healthy v \<and> w_nodes v = w_nodes w \<and> w_stakes v = [t] \<and> st_node t = 7 \<and> st_status t = ''active'' \<and> w_tasks v = w_tasks w"
proof -
  obtain x where x: "BonusMultiplier res = Fin x" "0 \<le> x" "x \<le> 2" using assms(6) by (rule bonus_okE)
  have "\<exists>y. pg_numeric demo_ext 4 3 (Fin x) = Some (Fin y) \<and> of_int 0 \<le> y \<and> y \<le> of_int 2"
    by (rule demo_numeric_rounds [unfolded numeric_rounds_def, rule_format]) (use x in simp_all)
  then obtain y where y: "pg_numeric demo_ext 4 3 (BonusMultiplier res) = Some (Fin y)" using x by auto
  have l: "lookup st_node 7 [s] = Some s" using assms(3) by (simp add: lookup_def sql_row_def)
  have p: "healthy (snd (PersistStake demo_ext 7 res w))" by (rule PersistStake_healthy [OF assms(4)])
  have "\<exists>t. w_nodes (snd (PersistStake demo_ext 7 res w)) = w_nodes w \<and> w_stakes (snd (PersistStake demo_ext 7 res w)) = [t] \<and>
      st_node t = 7 \<and> st_status t = ''active'' \<and> w_tasks (snd (PersistStake demo_ext 7 res w)) = w_tasks w"
    using y l assms(2,3) by (simp add: PersistStake_def db_call_healthy [OF assms(4)] sql_update_def)
  moreover have "((\<lambda>(pc, w). reverify_step demo_ext l pc w) ^^ 2) (Refreshing 7 res [], w) = (Reverified (Inr ()), snd (PersistStake demo_ext 7 res w))"
    by (simp add: eval_nat_numeral)
  from lift_runs [OF _ this, of _ co _ Reverifier] have
    "((\<lambda>(c, w). clerk_step demo_ext co l c w) ^^ 2) (Reverifier (Refreshing 7 res []), w) = (Reverifier (Reverified (Inr ())), snd (PersistStake demo_ext 7 res w))"
    by simp
  ultimately show ?thesis using p by blast
qed

lemma late_insert:
  assumes "w_nodes w = [demo_node ''t1''\<lparr>Status := st\<rparr>]" "w_tasks w = []" "healthy w"
    and "a_TaskID asg = 1" "a_NodeID asg = 7" "in_int32 (a_RewardSats asg)" "in_int32 (a_TimeoutSecs asg)"
  shows "\<exists>v t. clerk_step E co l (Assigner late_args (Insert_task asg)) w = (Assigner late_args (Scheduled (Inr asg)), v) \<and>
     w_nodes v = w_nodes w \<and> w_stakes v = w_stakes w \<and> w_tasks v = [t] \<and> tk_id t = 1 \<and> tk_status t = ''running'' \<and> tk_assigned t = Some 7"
proof -
  have i: "lookup tk_id i [] = None" for i by (simp add: lookup_def sql_row_def)
  show ?thesis using assms
    by (simp add: late_args_def persistAssignment_def insert_task_def db_call_healthy Let_def i sql_insert_def assignment_row_def)
qed

section \<open>Properties\<close>

text \<open>
  C17 (statements make operations). A registration, a slashing, a misbehaviour signal, a re-verification and a
  scheduling that nothing interrupts end, after finitely many statements, with the reply and the state of
  the operation, whatever the Lightning node answers and whichever database calls fail.
\<close>

theorem clerks_make_operations:
  "((\<lambda>(pc, w). register_step S fresh req pc w) ^^ 4) (Enter, w) = (Answered (fst (RegisterNode S fresh req w)), snd (RegisterNode S fresh req w)) \<and>
   ((\<lambda>(pc, w). slash_step cfg l sh k pc w) ^^ 6) (Fetch_channel, w) =
     (Slashed (fst (Slash cfg l (sh_event sh) (sh_node sh) (sh_tier sh) (sh_reason sh) (sh_evidence sh) k w)),
      snd (Slash cfg l (sh_event sh) (sh_node sh) (sh_tier sh) (sh_reason sh) (sh_evidence sh) k w)) \<and>
   (\<exists>k. ((\<lambda>(pc, w). signal_step cfg l sh pc w) ^^ 7) (Insert_signal, w) =
     (Inserted k (Slashed (fst (RecordMisbehaviorSignal cfg l (sh_event sh) (sh_node sh) (sh_tier sh) (sh_reason sh) (sh_evidence sh) w))),
      snd (RecordMisbehaviorSignal cfg l (sh_event sh) (sh_node sh) (sh_tier sh) (sh_reason sh) (sh_evidence sh) w))) \<and>
   (\<exists>m. ((\<lambda>(pc, w). reverify_step E lnc pc w) ^^ m) (Query_active, w) =
     (Reverified (fst (VerifyAllActive E (Some lnc) w)), snd (VerifyAllActive E (Some lnc) w))) \<and>
   ((\<lambda>(pc, w). schedule_step E a pc w) ^^ 3) (List_nodes, w) =
     (Scheduled (fst (Schedule E (sa_rng a) (sa_redis a) (sa_fresh a) (sa_type a) (sa_hash a) (sa_timeout a) w)),
      snd (Schedule E (sa_rng a) (sa_redis a) (sa_fresh a) (sa_type a) (sa_hash a) (sa_timeout a) w))"
  by (intro conjI register_alone slash_alone signal_alone reverify_alone schedule_alone)


end
