(* ===== verification/Concurrency.thy ===== *)
theory Concurrency
  imports Interleaving Workers Standing
begin

text \<open>
  The whole coordinator under concurrency. \<open>Interleaving\<close>, \<open>Workers\<close> and \<open>Standing\<close> each split some of the
  operations into their statements and run all others as single steps. Here the statements of all of
  them interleave: any number of callers of \<open>TryAggregate\<close>, \<open>CloseExpired\<close> and \<open>SubmitGradient\<close> of
  \<open>internal/fl/rounds.go\<close>, the workers and the receipts of \<open>internal/payment/dispatcher.go\<close>, the handlers of
  \<open>SubmitTaskResult\<close> and \<open>RegisterNode\<close> of \<open>internal/rpc/server.go\<close>, slashings, signals and re-verifications
  of \<open>internal/stake/verifier.go\<close> and schedulings of \<open>internal/scheduler/scheduler.go\<close>.
\<close>

section \<open>The machine\<close>

fun by_callers :: "co_event \<Rightarrow> bool" where
  "by_callers (TryAggregate_ev _ _) = True"
| "by_callers (CloseExpired_ev _) = True"
| "by_callers _ = False"

definition atomic :: "co_event \<Rightarrow> bool" where
  "atomic ev \<longleftrightarrow> \<not> by_agents ev \<and> \<not> by_callers ev \<and> \<not> by_clerks ev"

text \<open>The agents, the callers and the clerks, with the tasks of an authentic result and the world.\<close>

type_synonym joint = "agent list \<times> caller list \<times> clerk list \<times> uuid set \<times> world"

inductive joint_step :: "ext \<Rightarrow> coordinator \<Rightarrow> string option \<Rightarrow> joint \<Rightarrow> joint \<Rightarrow> bool" for E co where
  agent: "agent_step E co (ags, A, w) (ags', A', w') \<Longrightarrow> joint_step E co None (ags, qs, cs, A, w) (ags', qs, cs, A', w')"
| ask: "Interleaving.arrives q \<Longrightarrow> joint_step E co None (ags, qs, cs, s) (ags, qs @ [q], cs, s)"
| statement: "i < length qs \<Longrightarrow> caller_step E M (co_fl co) (qs ! i) w = (q, w') \<Longrightarrow>
    joint_step E co None (ags, qs, cs, A, w) (ags, qs[i := q], cs, A, w')"
| arrive: "Standing.arrives c \<Longrightarrow> joint_step E co None (ags, qs, cs, s) (ags, qs, cs @ [c], s)"
| clerk: "i < length cs \<Longrightarrow> vetted (cs ! i) lnc \<Longrightarrow> clerk_step E co lnc (cs ! i) w = (c, w') \<Longrightarrow>
    joint_step E co (registered (cs ! i) c) (ags, qs, cs, A, w) (ags, qs, cs[i := c], A, w')"
| call: "admissible ev w \<Longrightarrow> atomic ev \<Longrightarrow> joint_step E co None (ags, qs, cs, A, w) (ags, qs, cs, A, co_exec E co ev w)"
| clock: "w_now w \<le> t \<Longrightarrow> joint_step E co None (ags, qs, cs, A, w) (ags, qs, cs, A, w\<lparr>w_now := t\<rparr>)"
| faults: "joint_step E co None (ags, qs, cs, A, w) (ags, qs, cs, A, w\<lparr>w_faults := fs\<rparr>)"
| restart: "joint_step E co None (ags, qs, cs, A, w) (replicate numWorkers (Worker Idle), [], [], A, Start (lose_memory w))"

abbreviation joint :: "ext \<Rightarrow> coordinator \<Rightarrow> joint \<Rightarrow> joint \<Rightarrow> bool" where
  "joint E co x y \<equiv> \<exists>l. joint_step E co l x y"

definition joint_start :: "ext \<Rightarrow> joint \<Rightarrow> bool" where
  "joint_start E x \<longleftrightarrow> (case x of (ags, qs, cs, s) \<Rightarrow>
     ags = replicate numWorkers (Worker Idle) \<and> qs = [] \<and> cs = [] \<and> co_start E s)"

text \<open>The three invariants hold together.\<close>

definition joint_ok :: "ext \<Rightarrow> joint \<Rightarrow> bool" where
  "joint_ok E x \<longleftrightarrow> (case x of (ags, qs, cs, s) \<Rightarrow> crew_ok E (ags, s) \<and> fine_ok E (qs, s) \<and> standing_ok E (cs, s))"

fun world_of :: "joint \<Rightarrow> world" where
  "world_of (ags, qs, cs, A, w) = w"

section \<open>What a step of one part leaves to the others\<close>

text \<open>Agents touch no round; of a node they change no status, and of a task not where it is assigned.\<close>

lemma result_step_effect:
  assumes "result_step S req pc w = (pc', w')"
  shows "w_rounds w' = w_rounds w \<and> moves None w w' \<and> assigned nid w' \<subseteq> assigned nid w"
proof -
  have rate: "w_rounds (snd (UpdateReliability E nd ok w)) = w_rounds w \<and> moves None w (snd (UpdateReliability E nd ok w)) \<and>
      assigned nid (snd (UpdateReliability E nd ok w)) = assigned nid w" for E nd ok
    using rows_side [of "snd (UpdateReliability E nd ok w)" w] UpdateReliability_moves by (simp add: assigned_def)
  have tick: "w_rounds v = w_rounds w \<and> moves None w v \<and> assigned nid v \<subseteq> assigned nid w" if "v = w \<or> v = db_tick w" for v
    using that by (auto simp: assigned_receipt intro: moves_same)
  show ?thesis
  proof (cases pc)
    case Authenticate
    then have "w' = w \<or> w' = db_tick w" using assms by (auto simp: db_call_def split: option.splits if_splits sum.splits)
    then show ?thesis by (rule tick)
  next
    case (Mark tid nd tt)
    let ?f = "\<lambda>t. t\<lparr>tk_status := ''completed'', tk_output_hash := Some (hex_EncodeToString (tr_OutputHash req)), tk_completed := Some (w_now w)\<rparr>"
    have f: "w_tasks w' = w_tasks w \<or> w_tasks w' = sql_update (\<lambda>t. tk_id t = tid) ?f (w_tasks w)"
      "w_nodes w' = w_nodes w" "w_rounds w' = w_rounds w" using assms Mark by (auto simp: db_call_def split: if_splits)
    have "assigned nid w' \<subseteq> assigned nid w" by (rule tasks_updated [OF f(1)]) simp
    with f show ?thesis by (simp add: moves_same)
  next
    case (Penalise nd)
    then show ?thesis using assms rate by auto
  next
    case (Rate tid nd)
    then show ?thesis using assms rate by auto
  next
    case (Type_of tid nd)
    then have "w' = w \<or> w' = db_tick w" using assms by (auto simp: task_type_of_def db_call_def split: if_splits option.splits)
    then show ?thesis by (rule tick)
  next
    case (Terms tid)
    then have "w' = w \<or> w' = db_tick w" using assms by (auto simp: db_call_def split: if_splits option.splits)
    then show ?thesis by (rule tick)
  next
    case (Send tid uri k)
    then have "w' = Enqueue tid uri k w" using assms by simp
    then show ?thesis by (auto simp: Enqueue_def assigned_def intro: moves_same)
  next
    case (Acknowledge st)
    then show ?thesis using assms by (auto simp: assigned_receipt intro: moves_same)
  next
    case (Replied r)
    then show ?thesis using assms by (auto intro: moves_same)
  qed
qed

lemma pay_step_effect:
  assumes "pay_step lnc obs d pc w = (pc', w')"
  shows "base w' = base w \<and> assigned nid w' \<subseteq> assigned nid w"
proof (cases pc)
  case (Recording job p)
  then have "w_tasks w' = w_tasks w \<or> w_tasks w' = mark_paid job p (w_tasks w)" "base w' = base w"
    using assms by (auto simp: db_call_def Let_def mark_paid_def split: if_splits)
  then show ?thesis using assigned_same assigned_mark(1) by blast
next
  case (Failing job)
  then have "w_tasks w' = w_tasks w \<or> w_tasks w' = mark_failed job (w_tasks w)" "base w' = base w"
    using assms by (auto simp: db_call_def mark_failed_def)
  then show ?thesis using assigned_same assigned_mark(2) by blast
next
  case (Asking job k)
  then have "w' = w \<or> w' = w\<lparr>w_sent := w_sent w @ [payment_request job]\<rparr>"
    using assms by (auto simp: Let_def split: if_splits sum.splits option.splits)
  then show ?thesis by (auto simp: assigned_def)
qed (use assms in \<open>auto simp: assigned_def split: list.splits\<close>)

lemma receipt_step_effect:
  assumes "receipt_step E f pc w = (pc', w')"
  shows "base w' = base w \<and> assigned nid w' \<subseteq> assigned nid w"
  using assms by (cases pc) (auto simp: db_call_def assigned_receipt split: if_splits option.splits sum.splits)

lemma agent_step_effect:
  assumes "agent_step E co x y"
  shows "w_rounds (snd (snd y)) = w_rounds (snd (snd x)) \<and> moves None (snd (snd x)) (snd (snd y)) \<and>
    assigned nid (snd (snd y)) \<subseteq> assigned nid (snd (snd x))"
proof -
  have same: "w_rounds v = w_rounds w \<and> moves None w v \<and> assigned nid v \<subseteq> assigned nid w"
    if "base v = base w \<and> assigned nid v \<subseteq> assigned nid w" for v w
    using that moves_same [of v w] by (simp add: base_def fl_part_def)
  show ?thesis using assms
  proof (induction rule: agent_step.induct)
    case (pay i ags pc lnc d w pc' w' A)
    then show ?case using same [OF pay_step_effect [OF pay(3)]] by simp
  next
    case (submit i ags pc f w pc' w' A)
    then show ?case using same [OF receipt_step_effect [OF submit(3)]] by simp
  next
    case (authentic i ags req w tid nd pc' w' A)
    then show ?case using result_step_effect [OF authentic(4)] by simp
  next
    case (forged i ags req w pc' w' A)
    then show ?case using result_step_effect [OF forged(4)] by simp
  next
    case (handle i ags req pc w pc' w' A)
    then show ?case using result_step_effect [OF handle(5)] by simp
  qed (auto simp: assigned_def intro: moves_same)
qed

text \<open>Clerks touch no round and keep what the rows say about payments; callers touch rounds only.\<close>

lemma clerk_step_kept:
  assumes "clerk_step E co lnc c w = (c', w')" "sys_ok E (A, w)" "clerk_ok c" "vetted c lnc"
  shows "w_rounds w' = w_rounds w \<and> grows w w'"
proof -
  have stand: "w_rounds w' = w_rounds w \<and> grows w w'" if "stands E l w w'" for l
    using that by (simp add: stands_def side_defs grows_same)
  show ?thesis
  proof (cases c)
    case (Registrar req fresh pc)
    then obtain pc' where "register_step (server_with E co lnc) fresh req pc w = (pc', w')" using assms(1) by (auto split: prod.splits)
    from register_step_stands [OF this assms(2)] assms(3,4) Registrar show ?thesis by (auto intro: stand [THEN conjunct1] stand [THEN conjunct2])
  next
    case (Slasher sh k pc)
    then obtain pc' where "slash_step (co_slash co) (Some lnc) sh k pc w = (pc', w')" using assms(1) by (auto split: prod.splits)
    from stand [OF slash_step_stands [OF this assms(2)]] show ?thesis .
  next
    case (Signaller sh pc)
    then obtain pc' where "signal_step (co_slash co) (Some lnc) sh pc w = (pc', w')" using assms(1) by (auto split: prod.splits)
    from stand [OF signal_step_stands [OF this assms(2)]] show ?thesis .
  next
    case (Reverifier pc)
    then obtain pc' where "reverify_step E lnc pc w = (pc', w')" using assms(1) by (auto split: prod.splits)
    from reverify_step_stands [OF this assms(2)] assms(3,4) Reverifier show ?thesis by (auto intro: stand [THEN conjunct1] stand [THEN conjunct2])
  next
    case (Assigner a pc)
    then obtain pc' where s: "schedule_step E a pc w = (pc', w')" using assms(1) by (auto split: prod.splits)
    have same: "w_rounds v = w_rounds w \<and> grows w v" if "v = w \<or> v = db_tick w" for v using that by (auto intro: grows_same)
    show ?thesis
    proof (cases pc)
      case List_nodes
      obtain r v where l: "ListActive w = (r, v)" by fastforce
      then have "w' = v" using s List_nodes by (simp del: selectNode_None split: sum.splits option.splits)
      then show ?thesis using same [OF registry.list_world [OF l]] by simp
    next
      case (Reward nd)
      obtain k v where k: "computeReward nd (sa_type a) w = (k, v)" by fastforce
      then have "w' = v" using s Reward by simp
      then show ?thesis using same [OF computeReward_world [OF k]] by simp
    next
      case (Insert_task asg)
      obtain r v where p: "persistAssignment E (sa_redis a) asg (sa_hash a) w = (r, v)" by fastforce
      then have "w' = v" using s Insert_task by (auto split: sum.splits)
      then show ?thesis using persistAssignment_world [OF p] by (auto simp: base_def fl_part_def grows_def sql_insert_def)
    next
      case (Scheduled r)
      then show ?thesis using s by simp
    qed
  qed
qed

section \<open>The invariants together\<close>

lemma joint_okI: "crew_ok E (ags, A, w) \<Longrightarrow> fine_ok E (qs, A, w) \<Longrightarrow> standing_ok E (cs, A, w) \<Longrightarrow> joint_ok E (ags, qs, cs, A, w)"
  by (simp add: joint_ok_def)

lemma joint_sys_ok: "joint_ok E (ags, qs, cs, A, w) \<Longrightarrow> sys_ok E (A, w)"
  by (simp add: joint_ok_def crew_ok_def)

lemma joint_step_ok: "joint_step E co l x y \<Longrightarrow> joint_ok E x \<Longrightarrow> joint_ok E y"
proof (induction rule: joint_step.induct)
  case (agent ags A w ags' A' w' qs cs)
  then have ok: "crew_ok E (ags, A, w)" "fine_ok E (qs, A, w)" "standing_ok E (cs, A, w)" by (simp_all add: joint_ok_def)
  have c: "crew_ok E (ags', A', w')" by (rule agent_step_ok [OF agent(1) ok(1)])
  then have s: "sys_ok E (A', w')" by (simp add: crew_ok_def)
  have "life_of w' = life_of w" using agent_step_effect [OF agent(1)] by (intro life_of_cong) simp
  then have "fine_ok E (qs, A', w')" using ok(2) s by (simp add: fine_ok_def)
  moreover have "standing_ok E (cs, A', w')" using ok(3) s by (simp add: standing_ok_def)
  ultimately show ?case using c by (intro joint_okI)
next
  case (ask q ags qs cs s)
  obtain A w where s: "s = (A, w)" by fastforce
  show ?case using fine_step_ok [OF fine_step.arrive [OF ask(1), of E co qs s]] ask(2) by (simp add: joint_ok_def s)
next
  case (statement i qs M w q w' ags cs A)
  then have ok: "crew_ok E (ags, A, w)" "fine_ok E (qs, A, w)" "standing_ok E (cs, A, w)" by (simp_all add: joint_ok_def)
  have f: "fine_ok E (qs[i := q], A, w')" by (rule fine_step_ok [OF fine_step.statement [OF statement(1,2)] ok(2)])
  then have s: "sys_ok E (A, w')" by (simp add: fine_ok_def)
  have "grows w w'" using caller_step_core [OF statement(2)] by (intro grows_same) (simp add: core_def)
  then have "crew_ok E (ags, A, w')" by (rule crew_ok_other [OF ok(1) s order_refl])
  moreover have "standing_ok E (cs, A, w')" using ok(3) s by (simp add: standing_ok_def)
  ultimately show ?case using f by (intro joint_okI)
next
  case (arrive c ags qs cs s)
  obtain A w where s: "s = (A, w)" by fastforce
  show ?case using standing_step_effect [OF standing_step.arrive [OF arrive(1), of E co cs s]] arrive(2) by (simp add: joint_ok_def s)
next
  case (clerk i cs lnc w c w' ags qs A)
  then have ok: "crew_ok E (ags, A, w)" "fine_ok E (qs, A, w)" "standing_ok E (cs, A, w)" by (simp_all add: joint_ok_def)
  have st: "standing_ok E (cs[i := c], A, w')"
    using standing_step_effect [OF standing_step.clerk [OF clerk(1-3)] ok(3)] by blast
  then have s: "sys_ok E (A, w')" "sys_ok E (A, w)" "clerk_ok (cs ! i)" using ok(3) clerk(1) by (auto simp: standing_ok_def list_all_length)
  note k = clerk_step_kept [OF clerk(3) s(2,3) clerk(2)]
  then have "life_of w' = life_of w" by (intro life_of_cong) simp
  then have "fine_ok E (qs, A, w')" using ok(2) s by (simp add: fine_ok_def)
  moreover have "crew_ok E (ags, A, w')" using crew_ok_other [OF ok(1) s(1) order_refl] k by blast
  ultimately show ?case using st by (intro joint_okI)
next
  case (call ev w ags qs cs A)
  then have ok: "crew_ok E (ags, A, w)" "fine_ok E (qs, A, w)" "standing_ok E (cs, A, w)" by (simp_all add: joint_ok_def)
  have ev: "\<not> by_agents ev" "\<not> by_clerks ev" using call(2) by (simp_all add: atomic_def)
  have "crew_ok E (ags, A, co_exec E co ev w)" by (rule crew_step_ok [OF crew_step.call [OF call(1) ev(1)] ok(1)])
  moreover have "fine_ok E (qs, A, co_exec E co ev w)" by (rule fine_step_ok [OF fine_step.other [OF co_step.call [OF call(1)]] ok(2)])
  moreover have "standing_ok E (cs, A, co_exec E co ev w)" using standing_step_effect [OF standing_step.call [OF call(1) ev(2)] ok(3)] by blast
  ultimately show ?case by (rule joint_okI)
next
  case (clock w t ags qs cs A)
  then have ok: "crew_ok E (ags, A, w)" "fine_ok E (qs, A, w)" "standing_ok E (cs, A, w)" by (simp_all add: joint_ok_def)
  show ?case using crew_step_ok [OF crew_step.clock [OF clock(1)] ok(1)] fine_step_ok [OF fine_step.other [OF co_step.clock [OF clock(1)]] ok(2)]
      standing_step_effect [OF standing_step.clock [OF clock(1)] ok(3)] by (intro joint_okI) blast+
next
  case (faults ags qs cs A w fs)
  then have ok: "crew_ok E (ags, A, w)" "fine_ok E (qs, A, w)" "standing_ok E (cs, A, w)" by (simp_all add: joint_ok_def)
  show ?case using crew_step_ok [OF crew_step.faults ok(1)] fine_step_ok [OF fine_step.other [OF co_step.faults] ok(2)]
      standing_step_effect [OF standing_step.faults ok(3)] by (intro joint_okI) blast+
next
  case (restart ags qs cs A w)
  then have ok: "crew_ok E (ags, A, w)" "fine_ok E (qs, A, w)" "standing_ok E (cs, A, w)" by (simp_all add: joint_ok_def)
  have "fine_ok E (qs, A, Start (lose_memory w))" by (rule fine_step_ok [OF fine_step.other [OF co_step.restart] ok(2)])
  then have "fine_ok E ([], A, Start (lose_memory w))" by (simp add: fine_ok_def exclusive_def)
  then show ?case using crew_step_ok [OF crew_step.restart ok(1)] standing_step_effect [OF standing_step.restart ok(3)]
    by (intro joint_okI) blast+
qed

lemma joint_start_ok: "joint_start E x \<Longrightarrow> joint_ok E x"
  using crew_start_ok [of E "(fst x, snd (snd (snd x)))"] fine_start_ok [of E "([], snd (snd (snd x)))"] standing_ok_start [of E "([], snd (snd (snd x)))"]
  by (cases x) (auto simp: joint_start_def joint_ok_def crew_start_def fine_start_def standing_start_def)

text \<open>The rounds go through their lives.\<close>

lemma joint_step_life: "joint_step E co l x y \<Longrightarrow> joint_ok E x \<Longrightarrow> life_step\<^sup>*\<^sup>* (life_of (world_of x)) (life_of (world_of y))"
proof (induction rule: joint_step.induct)
  case (agent ags A w ags' A' w' qs cs)
  have "life_of w' = life_of w" using agent_step_effect [OF agent(1)] by (intro life_of_cong) simp
  then show ?case by simp
next
  case (ask q ags qs cs s)
  then show ?case by (cases s) simp
next
  case (statement i qs M w q w' ags cs A)
  then show ?case using fine_step_life [OF fine_step.statement [OF statement(1,2)], of A] by (simp add: joint_ok_def)
next
  case (arrive c ags qs cs s)
  then show ?case by (cases s) simp
next
  case (clerk i cs lnc w c w' ags qs A)
  then have "sys_ok E (A, w)" "clerk_ok (cs ! i)" by (auto simp: joint_ok_def standing_ok_def list_all_length)
  with clerk_step_kept [OF clerk(3) _ _ clerk(2)] have "life_of w' = life_of w" by (intro life_of_cong) blast
  then show ?case by simp
next
  case (call ev w ags qs cs A)
  then show ?case using fine_step_life [OF fine_step.other [OF co_step.call [OF call(1), of E co A]], of qs] by (simp add: joint_ok_def)
next
  case (restart ags qs cs A w)
  then show ?case using fine_step_life [OF fine_step.other [OF co_step.restart [of E co A w]], of qs] by (simp add: joint_ok_def)
qed simp_all

interpretation joint: simulation "joint_start E" "joint E co" "joint_ok E" "\<lambda>x. life_of (world_of x)" life_step for E co
  by unfold_locales (use joint_start_ok joint_step_ok joint_step_life in blast)+

text \<open>The nodes go through their statuses, and tasks are assigned by clerks that hold the node.\<close>

lemma joint_step_effect:
  assumes "joint_step E co l x y" "joint_ok E x"
  shows "moves l (world_of x) (world_of y) \<and>
    ((\<forall>c\<in>set (fst (snd (snd x))). \<not> holds_node nid c) \<longrightarrow> assigned nid (world_of y) \<subseteq> assigned nid (world_of x) \<and>
      ((\<exists>n\<in>set (w_nodes (world_of x)). NodeID n = nid \<and> Status n = ''active'') \<or> (\<forall>c\<in>set (fst (snd (snd y))). \<not> holds_node nid c)))"
  using assms
proof (induction rule: joint_step.induct)
  case (agent ags A w ags' A' w' qs cs)
  then show ?case using agent_step_effect [OF agent(1), of nid] by simp
next
  case (ask q ags qs cs s)
  then show ?case by (cases s) (simp add: moves_same)
next
  case (statement i qs M w q w' ags cs A)
  have "core w' = core w" by (rule caller_step_core [OF statement(2)])
  then have "w_nodes w' = w_nodes w" "w_tasks w' = w_tasks w" by (simp_all add: core_def)
  then show ?case by (simp add: moves_same assigned_def)
next
  case (arrive c ags qs cs s)
  obtain A w where s: "s = (A, w)" by fastforce
  have "standing_ok E (cs, A, w)" using arrive(2) by (simp add: joint_ok_def s)
  then show ?case using standing_step_effect [OF standing_step.arrive [OF arrive(1), of E co cs s], of nid] by (simp add: s)
next
  case (clerk i cs lnc w c w' ags qs A)
  then have "standing_ok E (cs, A, w)" by (simp add: joint_ok_def)
  then show ?case using standing_step_effect [OF standing_step.clerk [OF clerk(1-3)], of A nid] by simp
next
  case (call ev w ags qs cs A)
  then show ?case using call_keeps [of ev w E co nid] by (simp add: atomic_def)
next
  case (clock w t ags qs cs A)
  then show ?case by (simp add: moves_same assigned_def)
next
  case (faults ags qs cs A w fs)
  then show ?case by (simp add: moves_same assigned_def)
next
  case (restart ags qs cs A w)
  then show ?case using restart_keeps [of w nid] by simp
qed

section \<open>Runs of the parts are runs of the whole\<close>

lemma joint_trans: "(joint E co)\<^sup>*\<^sup>* x y \<Longrightarrow> (joint E co)\<^sup>*\<^sup>* y z \<Longrightarrow> (joint E co)\<^sup>*\<^sup>* x z"
  by (rule rtranclp_trans)

text \<open>A clerk or a caller that is alone.\<close>

lemma joint_clerk_runs:
  assumes "((\<lambda>(c, w). clerk_step E co lnc c w) ^^ n) (cs ! i, w) = (c', w')" "vetted (cs ! i) lnc" "i < length cs"
  shows "(joint E co)\<^sup>*\<^sup>* (ags, qs, cs, A, w) (ags, qs, cs[i := c'], A, w')"
  using assms
proof (induction n arbitrary: cs w)
  case 0
  then show ?case by auto
next
  case (Suc n)
  obtain d v where d: "clerk_step E co lnc (cs ! i) w = (d, v)" by fastforce
  have "joint E co (ags, qs, cs, A, w) (ags, qs, cs[i := d], A, v)" using joint_step.clerk [OF Suc.prems(3,2) d] by blast
  moreover have "(joint E co)\<^sup>*\<^sup>* (ags, qs, cs[i := d], A, v) (ags, qs, cs[i := c'], A, w')"
    using Suc.IH [of "cs[i := d]" v] Suc.prems d vetted_step [OF d] by (simp add: funpow_Suc_right del: funpow.simps)
  ultimately show ?case by (rule converse_rtranclp_into_rtranclp)
qed

lemma joint_clerk_alone:
  assumes "admissible ev w" "by_clerks ev"
  shows "\<exists>cs'. (joint E co)\<^sup>*\<^sup>* (ags, qs, cs, A, w) (ags, qs, cs', A, co_exec E co ev w)"
proof -
  obtain n lnc c c' where c: "Standing.arrives c" "vetted c lnc" "((\<lambda>(c, w). clerk_step E co lnc c w) ^^ n) (c, w) = (c', co_exec E co ev w)"
    using clerk_alone [OF assms] by metis
  have "joint E co (ags, qs, cs, A, w) (ags, qs, cs @ [c], A, w)" using joint_step.arrive [OF c(1)] by blast
  moreover have "(joint E co)\<^sup>*\<^sup>* (ags, qs, cs @ [c], A, w) (ags, qs, (cs @ [c])[length cs := c'], A, co_exec E co ev w)"
    by (rule joint_clerk_runs) (use c in simp_all)
  ultimately show ?thesis by (blast intro: converse_rtranclp_into_rtranclp)
qed

lemma joint_caller_runs:
  "alone E M (co_fl co) k (qs ! i, w) = (q, w') \<Longrightarrow> i < length qs \<Longrightarrow> (joint E co)\<^sup>*\<^sup>* (ags, qs, cs, A, w) (ags, qs[i := q], cs, A, w')"
proof (induction k arbitrary: q w')
  case (Suc k)
  obtain q1 w1 where a: "alone E M (co_fl co) k (qs ! i, w) = (q1, w1)" by fastforce
  then have "(joint E co)\<^sup>*\<^sup>* (ags, qs, cs, A, w) (ags, qs[i := q1], cs, A, w1)" using Suc by blast
  moreover have "joint_step E co None (ags, qs[i := q1], cs, A, w1) (ags, (qs[i := q1])[i := q], cs, A, w')"
    using Suc.prems a by (intro joint_step.statement [where M = M]) simp_all
  ultimately show ?case by (auto intro: rtranclp.rtrancl_into_rtrancl)
qed simp

lemma joint_asks:
  assumes "(joint E co)\<^sup>*\<^sup>* x (ags, qs, cs, A, w)" "Interleaving.arrives q" "alone E M (co_fl co) k (q, w) = (q', w')"
  shows "(joint E co)\<^sup>*\<^sup>* x (ags, qs @ [q'], cs, A, w')"
proof -
  have "joint E co (ags, qs, cs, A, w) (ags, qs @ [q], cs, A, w)" using joint_step.ask [OF assms(2)] by blast
  moreover have "(joint E co)\<^sup>*\<^sup>* (ags, qs @ [q], cs, A, w) (ags, (qs @ [q])[length qs := q'], cs, A, w')"
    by (rule joint_caller_runs [where k = k and M = M]) (use assms(3) in simp_all)
  ultimately show ?thesis using assms(1) by (auto intro: joint_trans converse_rtranclp_into_rtranclp)
qed

text \<open>Hence every run of the crew, and with it every run of single operations.\<close>

lemma crew_step_joint:
  assumes "crew_step E co (ags, A, w) (bgs, B, v)"
  shows "\<exists>qs' cs'. (joint E co)\<^sup>*\<^sup>* (ags, qs, cs, A, w) (bgs, qs', cs', B, v)"
  using assms
proof (cases rule: crew_step.cases)
  case agent
  then show ?thesis using joint_step.agent [of E co ags A w bgs B v qs cs] by blast
next
  case (call ev)
  consider "atomic ev" | "by_clerks ev" | M rn where "ev = TryAggregate_ev M rn" | M where "ev = CloseExpired_ev M"
    using call(5) by (cases ev) (auto simp: atomic_def)
  then show ?thesis
  proof cases
    case 1
    then show ?thesis using joint_step.call [OF call(4) 1, of E co bgs qs cs A] call by blast
  next
    case 2
    then show ?thesis using joint_clerk_alone [OF call(4) 2, of E co bgs qs cs A] call by blast
  next
    case 3
    obtain r v' where t: "TryAggregate E M (co_fl co) rn w = (r, v')" by fastforce
    have "alone E M (co_fl co) 7 (Call rn Resolve, w) = (Call rn (Return r), v')" unfolding Call_alone TryAggregate_alone [OF t] by simp
    from joint_asks [OF rtranclp.rtrancl_refl _ this, of bgs qs cs A] show ?thesis using call 3 t by auto
  next
    case 4
    obtain k where "alone E M (co_fl co) k (Scan, w) = (Closed (fst (CloseExpired E M (co_fl co) w)), snd (CloseExpired E M (co_fl co) w))"
      using CloseExpired_alone by blast
    from joint_asks [OF rtranclp.rtrancl_refl _ this, of bgs qs cs A] show ?thesis using call 4 by auto
  qed
qed (blast intro: joint_step.intros)+

lemma crew_joint:
  "(crew_step E co)\<^sup>*\<^sup>* (ags, A, w) (bgs, B, v) \<Longrightarrow> \<exists>qs' cs'. (joint E co)\<^sup>*\<^sup>* (ags, qs, cs, A, w) (bgs, qs', cs', B, v)"
proof (induction "(bgs, B, v)" arbitrary: bgs B v rule: rtranclp_induct)
  case base
  then show ?case by blast
next
  case (step y)
  obtain cgs C u where y: "y = (cgs, C, u)" by (cases y)
  from step.hyps(3) [OF y] obtain qs' cs' where "(joint E co)\<^sup>*\<^sup>* (ags, qs, cs, A, w) (cgs, qs', cs', C, u)" by blast
  moreover obtain qs'' cs'' where "(joint E co)\<^sup>*\<^sup>* (cgs, qs', cs', C, u) (bgs, qs'', cs'', B, v)"
    using crew_step_joint step.hyps(2) y by blast
  ultimately show ?case by (blast intro: joint_trans)
qed

lemma serial_joint:
  "(co_step E co)\<^sup>*\<^sup>* s t \<Longrightarrow> \<exists>ags qs cs. (joint E co)\<^sup>*\<^sup>* (replicate numWorkers (Worker Idle), [], [], s) (ags, qs, cs, t)"
  using serial_runs [of E co s t] crew_joint [of E co "replicate numWorkers (Worker Idle)" "fst s" "snd s" _ "fst t" "snd t" "[]" "[]"]
  by (metis prod.collapse)

section \<open>A node joins and leaves\<close>

abbreviation demo_crew :: "agent list" where
  "demo_crew \<equiv> replicate numWorkers (Worker Idle)"

lemma demo_joint_start: "joint_start demo_ext (demo_crew, [], [], {}, empty_world demo_now)"
  using demo_start by (simp add: joint_start_def standing_start_def)

lemma demo_joint_join:
  "\<exists>a. (joint demo_ext demo_co)\<^sup>*\<^sup>* (demo_crew, [], [], {}, empty_world demo_now) (demo_crew, [], [Registrar (demo_register ''t1'') 7 (Answered a)], {}, demo_joined)"
proof -
  let ?q = "Registrar (demo_register ''t1'') 7" and ?S = "server_with demo_ext demo_co (demo_ln [])"
  obtain a where "((\<lambda>(pc, w). register_step ?S 7 (demo_register ''t1'') pc w) ^^ 4) (Enter, empty_world demo_now) = (Answered a, demo_joined)"
    using register_alone by blast
  from lift_runs [OF _ this, of demo_ext demo_co "demo_ln []" ?q] have
    "((\<lambda>(c, w). clerk_step demo_ext demo_co (demo_ln []) c w) ^^ 4) (?q Enter, empty_world demo_now) = (?q (Answered a), demo_joined)" by simp
  then have "(joint demo_ext demo_co)\<^sup>*\<^sup>* (demo_crew, [], [?q Enter], {}, empty_world demo_now) (demo_crew, [], [?q Enter][0 := ?q (Answered a)], {}, demo_joined)"
    using demo_typed by (intro joint_clerk_runs) simp_all
  moreover have "joint demo_ext demo_co (demo_crew, [], [], {}, empty_world demo_now) (demo_crew, [], [] @ [?q Enter], {}, empty_world demo_now)"
    using joint_step.arrive [of "?q Enter"] by fastforce
  ultimately show ?thesis by (auto intro: converse_rtranclp_into_rtranclp)
qed

lemma demo_joint_leave:
  "joint_step demo_ext demo_co None (ags, qs, cs, A, demo_joined) (ags, qs, cs, A, co_exec demo_ext demo_co (DeregisterNode_ev demo_leave) demo_joined)"
  by (rule joint_step.call) (simp_all add: atomic_def)

section \<open>A round is claimed and published\<close>

lemma demo_joint_opened:
  "\<exists>ags qs cs w. joint_start demo_ext (demo_crew, [], [], {}, empty_world 0) \<and>
     (joint demo_ext eager_co)\<^sup>*\<^sup>* (demo_crew, [], [], {}, empty_world 0) (ags, qs, cs, {}, w) \<and> healthy w \<and> w_rounds w = [demo_round ''open'']"
proof -
  obtain w where w: "co_start demo_ext ({}, empty_world 0)" "(co_step demo_ext eager_co)\<^sup>*\<^sup>* ({}, empty_world 0) ({}, w)" "healthy w"
    "w_rounds w = [demo_round ''open'']" using demo_opened by blast
  with serial_joint [OF w(2)] show ?thesis by (auto simp: joint_start_def)
qed

section \<open>A round whose process has stopped\<close>

text \<open>
  A caller is away from a round when it neither works on it, between claim and end, nor has it on the
  list of expired rounds. The statements of such a caller do not change a round that is aggregating: the
  claim asks for an open round.
\<close>

fun listed :: "caller \<Rightarrow> int list" where
  "listed (Close rn rns _ _) = rn # rns"
| "listed _ = []"

definition away :: "int \<Rightarrow> caller \<Rightarrow> bool" where
  "away n c \<longleftrightarrow> holds c \<noteq> Some n \<and> n \<notin> set (listed c)"

lemma away_simps [simp]:
  "away n (Call rn pc) \<longleftrightarrow> claimed rn pc \<noteq> Some n"
  "away n (Close rn rns k pc) \<longleftrightarrow> rn \<noteq> n \<and> n \<notin> set rns"
  "away n Scan" "away n (Closed r)" "away n (Submit sub sp)"
  by (auto simp: away_def elim: claimed.elims)

lemma away_next_round [simp]: "away n (next_round rns k) \<longleftrightarrow> n \<notin> set rns"
  by (cases rns) auto

definition aggregating :: "int \<Rightarrow> world \<Rightarrow> bool" where
  "aggregating n w \<longleftrightarrow> rounds_of w n = Some Round_aggregating"

lemma aggregating_iff: "aggregating n w \<longleftrightarrow> (\<exists>r. lookup rd_number n (w_rounds w) = Some r \<and> rd_status r = ''aggregating'')"
  by (cases "lookup rd_number n (w_rounds w)") (simp_all add: aggregating_def rounds_of_def round_phase_of_def)

lemma aggregating_cong: "w_rounds w' = w_rounds w \<Longrightarrow> aggregating n w' = aggregating n w"
  by (simp add: aggregating_iff)

lemma aggregating_update:
  assumes "aggregating n w" "w_rounds w' = sql_update P f (w_rounds w)" "\<And>r. rd_number (f r) = rd_number r"
    "\<And>r. P r \<Longrightarrow> rd_number r = n \<Longrightarrow> rd_status r = ''open''"
  shows "aggregating n w'"
proof -
  obtain r where r: "lookup rd_number n (w_rounds w) = Some r" "rd_status r = ''aggregating''" using assms(1) by (auto simp: aggregating_iff)
  have "\<not> P r" using assms(4) [of r] lookup_Some [OF r(1)] r(2) by auto
  then have "lookup rd_number n (w_rounds w') = Some r" using lookup_update [where key = rd_number and f = f] assms(2,3) r(1) by simp
  with r(2) show ?thesis by (auto simp: aggregating_iff)
qed

lemma failRound_aggregating: "aggregating n w \<Longrightarrow> rn \<noteq> n \<Longrightarrow> aggregating n (snd (failRound rn w))"
  by (rule aggregating_update [where P = "\<lambda>r. rd_number r = rn \<and> \<not> db_down w" and f = "\<lambda>r. r\<lparr>rd_status := ''failed''\<rparr>"])
    (auto simp: failRound_def db_call_def sql_update_def)

lemma tryagg_step_away:
  assumes "tryagg_step E M orc rn pc w = (pc', w')" "aggregating n w" "claimed rn pc \<noteq> Some n" "fl_ok w"
  shows "aggregating n w' \<and> claimed rn pc' \<noteq> Some n"
proof (cases pc)
  case (Claim rid cnt)
  obtain c w1 where c: "cas_aggregating rn w = (c, w1)" by fastforce
  from c show ?thesis
  proof (cases rule: cas_cases)
    case (taken k)
    have "aggregating n w1" by (rule aggregating_update [OF assms(2), where P = "\<lambda>r. rd_number r = rn \<and> rd_status r = ''open''" and
        f = "\<lambda>r. r\<lparr>rd_status := ''aggregating''\<rparr>"]) (simp_all add: taken(4))
    moreover have "rn \<noteq> n"
      using rounds_of_open [OF assms(4)] taken(3) assms(2) by (auto simp: aggregating_def)
    ultimately show ?thesis using assms(1) Claim c taken(1,2) by auto
  qed (use assms Claim c aggregating_cong [of "db_tick w" w n] in auto)
next
  case (Sift rid cnt hs)
  with assms anomalyFilter_world [of w M orc rid hs] aggregating_cong [of w' w n] show ?thesis
    by (auto simp: same_rounds_def split: prod.splits if_splits)
next
  case (Average acc)
  obtain r w1 where f: "fedAvg E M orc rn acc w = (r, w1)" by fastforce
  with fedAvg_spec [OF f] aggregating_cong [of w1 w n] assms Average show ?thesis
    by (auto simp: same_rounds_def split: sum.splits)
next
  case (Complete k h)
  have "aggregating n (snd (completeRound rn h w))"
    by (rule aggregating_update [OF assms(2), where P = "\<lambda>r. rd_number r = rn \<and> \<not> db_down w" and
        f = "\<lambda>r. r\<lparr>rd_status := ''complete'', rd_checkpoint := Some h, rd_completed := Some (w_now w)\<rparr>"])
      (use assms(3) Complete in \<open>auto simp: completeRound_def db_call_def sql_update_def\<close>)
  with assms(1) Complete show ?thesis by (auto simp: aggregating_iff split: prod.splits sum.splits)
next
  case (Fail e)
  with assms failRound_aggregating show ?thesis by auto
qed (use assms aggregating_cong [of "db_tick w" w n] in \<open>auto simp: fetchGradientHashes_def db_call_def split: if_splits option.splits\<close>)

lemma caller_step_away:
  assumes "caller_step E M orc c w = (c', w')" "aggregating n w" "away n c" "fl_ok w"
  shows "aggregating n w' \<and> away n c'"
proof (cases c)
  case (Call rn pc)
  with assms tryagg_step_away [of E M orc rn pc w] show ?thesis by (auto split: prod.splits)
next
  case Scan
  have "n \<notin> set (map rd_number (sql_select (expired orc (w_now w)) (w_rounds w)))"
    using rounds_of_open [OF assms(4)] assms(2) by (auto simp: aggregating_def sql_select_def expired_def)
  with assms Scan aggregating_cong [of "db_tick w" w n] show ?thesis by (auto split: prod.splits sum.splits dest!: scan_expired_cases)
next
  case (Close rn rns k pc)
  from assms(1) [unfolded Close] show ?thesis
  proof (cases rule: Close_cases)
    case (nxt j)
    with Close assms(2,3) failRound_aggregating show ?thesis by auto
  next
    case (inner pc')
    have "claimed rn pc \<noteq> Some n" using assms(3) Close by (auto elim: claimed.elims)
    with tryagg_step_away [OF inner(1) assms(2) _ assms(4)] inner(2) assms(3) Close show ?thesis by simp
  qed
next
  case (Closed r)
  with assms show ?thesis by simp
next
  case (Submit sub sp)
  have "w_rounds w1 = w_rounds w" if "submit_step sub sp w = (sp1, w1)" for sp1 w1
    using that by (cases sp) (auto simp: db_call_def upsert_participant_def split: if_splits option.splits)
  then have "w_rounds w' = w_rounds w" using assms(1) Submit by (auto split: prod.splits)
  then have "aggregating n w'" using assms(2) by (simp add: aggregating_cong [of w' w])
  moreover have "away n c'" using assms(1) Submit by (auto split: prod.splits)
  ultimately show ?thesis ..
qed

lemma co_step_aggregating:
  assumes "co_step E co (A, w) (B, w')" "sys_ok E (A, w)" "aggregating n w"
  shows "aggregating n w'"
proof -
  have "round_step\<^sup>*\<^sup>* (rounds_of w) (rounds_of w')" using rounds.sim_step [OF assms(1,2)] by simp
  then show ?thesis using settled_stays [of "rounds_of w" "rounds_of w'" n] assms(3) by (simp add: aggregating_def)
qed

text \<open>The state of a round that nobody works on any more, and that no step leaves.\<close>

definition orphaned :: "int \<Rightarrow> joint \<Rightarrow> bool" where
  "orphaned n x \<longleftrightarrow> (case x of (ags, qs, cs, A, w) \<Rightarrow> aggregating n w \<and> list_all (away n) qs)"

lemma joint_step_orphaned:
  assumes "joint_step E co l x y" "joint_ok E x" "orphaned n x"
  shows "orphaned n y"
  using assms
proof (induction rule: joint_step.induct)
  case (agent ags A w ags' A' w' qs cs)
  then show ?case using agent_step_effect [OF agent(1)] aggregating_cong [of w' w n] by (simp add: orphaned_def)
next
  case (ask q ags qs cs s)
  then show ?case by (cases q; cases s) (auto simp: orphaned_def)
next
  case (statement i qs M w q w' ags cs A)
  then have "fl_ok w" using sys_okD [OF joint_sys_ok] by blast
  moreover have "aggregating n w" "away n (qs ! i)" using statement(1,4) by (simp_all add: orphaned_def list_all_length)
  ultimately have "aggregating n w' \<and> away n q" using caller_step_away [OF statement(2)] by blast
  with statement(1,4) show ?case by (simp add: orphaned_def list_all_length nth_list_update)
next
  case (arrive c ags qs cs s)
  then show ?case by (cases s) (simp add: orphaned_def)
next
  case (clerk i cs lnc w c w' ags qs A)
  then have "sys_ok E (A, w)" "clerk_ok (cs ! i)" by (auto simp: joint_ok_def standing_ok_def list_all_length)
  with clerk_step_kept [OF clerk(3) _ _ clerk(2)] have "w_rounds w' = w_rounds w" by blast
  with clerk(5) aggregating_cong [of w' w] show ?case by (simp add: orphaned_def)
next
  case (call ev w ags qs cs A)
  then show ?case using co_step_aggregating [OF co_step.call [OF call(1)] joint_sys_ok [OF call(3)], of n] by (simp add: orphaned_def)
next
  case (restart ags qs cs A w)
  then show ?case using co_step_aggregating [OF co_step.restart joint_sys_ok [OF restart(1)], of n] by (simp add: orphaned_def)
next
  case (clock w t ags qs cs A)
  then show ?case using aggregating_cong [of "w\<lparr>w_now := t\<rparr>" w n] by (simp add: orphaned_def)
next
  case (faults ags qs cs A w fs)
  then show ?case using aggregating_cong [of "w\<lparr>w_faults := fs\<rparr>" w n] by (simp add: orphaned_def)
qed

section \<open>The phases of a round\<close>

text \<open>
  The specification, one statement at a time: a new round is open, an open round is claimed, and a
  claimed round is completed with a checkpoint or fails.
\<close>

definition final_phase :: "round_phase \<Rightarrow> bool" where
  "final_phase p \<longleftrightarrow> p = Round_failed \<or> (\<exists>h. p = Round_complete h)"

inductive phase_step :: "(int \<rightharpoonup> round_phase) \<Rightarrow> (int \<rightharpoonup> round_phase) \<Rightarrow> bool" where
  opens: "m n = None \<Longrightarrow> phase_step m (m(n \<mapsto> Round_open))"
| claimed: "m n = Some Round_open \<Longrightarrow> phase_step m (m(n \<mapsto> Round_aggregating))"
| ended: "m n = Some Round_aggregating \<Longrightarrow> final_phase p \<Longrightarrow> phase_step m (m(n \<mapsto> p))"

inductive_cases phase_stepE: "phase_step m m'"

lemma phase_step_final: "phase_step m m' \<Longrightarrow> m n = Some p \<Longrightarrow> final_phase p \<Longrightarrow> m' n = Some p"
  by (erule phase_stepE) (auto simp: final_phase_def)

lemma phase_steps_final: "phase_step\<^sup>*\<^sup>* m m' \<Longrightarrow> m n = Some p \<Longrightarrow> final_phase p \<Longrightarrow> m' n = Some p"
  by (induction rule: rtranclp_induct) (auto intro: phase_step_final)

text \<open>What one statement of a caller does, seen through the phases and the round that the caller holds.\<close>

inductive phase_effect :: "int option \<Rightarrow> int option \<Rightarrow> (int \<rightharpoonup> round_phase) \<Rightarrow> (int \<rightharpoonup> round_phase) \<Rightarrow> bool" where
  stays: "p' = None \<or> p' = p \<Longrightarrow> phase_effect p p' m m"
| claims: "m n = Some Round_open \<Longrightarrow> phase_effect None (Some n) m (m(n \<mapsto> Round_aggregating))"
| ends: "m n = Some r \<Longrightarrow> final_phase q \<Longrightarrow> phase_effect (Some n) None m (m(n \<mapsto> q))"

lemma rounds_of_row_update:
  assumes "w_rounds w' = sql_update (\<lambda>r. rd_number r = rn) f (w_rounds w)" "\<And>r. rd_number (f r) = rd_number r"
  shows "rounds_of w' = (case lookup rd_number rn (w_rounds w) of None \<Rightarrow> rounds_of w
    | Some r \<Rightarrow> (rounds_of w)(rn \<mapsto> round_phase_of (f r)))"
proof (rule ext)
  fix n
  show "rounds_of w' n = (case lookup rd_number rn (w_rounds w) of None \<Rightarrow> rounds_of w
    | Some r \<Rightarrow> (rounds_of w)(rn \<mapsto> round_phase_of (f r))) n"
    using assms(2) by (cases "n = rn"; cases "lookup rd_number n (w_rounds w)")
      (auto simp: rounds_of_def assms(1) lookup_update dest: lookup_Some split: option.split)
qed

lemma row_ends:
  assumes "w_rounds w' = sql_update (\<lambda>r. rd_number r = rn) f (w_rounds w)" "\<And>r. rd_number (f r) = rd_number r"
    "\<And>r. final_phase (round_phase_of (f r))"
  shows "phase_effect (Some rn) None (rounds_of w) (rounds_of w')"
proof (cases "lookup rd_number rn (w_rounds w)")
  case None
  then show ?thesis using rounds_of_row_update [OF assms(1,2)] by (auto intro: phase_effect.stays)
next
  case (Some r)
  then have "rounds_of w rn = Some (round_phase_of r)" by (simp add: rounds_of_def)
  then show ?thesis using rounds_of_row_update [OF assms(1,2)] Some assms(3) by (auto intro: phase_effect.ends)
qed

lemma failRound_ends: "phase_effect (Some rn) None (rounds_of w) (rounds_of (snd (failRound rn w)))"
proof (cases "db_down w")
  case True
  then have "rounds_of (snd (failRound rn w)) = rounds_of w" using rounds_of_cong [of "db_tick w" w] by (simp add: failRound_def db_call_def)
  then show ?thesis by (auto intro: phase_effect.stays)
next
  case False
  then have "w_rounds (snd (failRound rn w)) = sql_update (\<lambda>r. rd_number r = rn) (\<lambda>r. r\<lparr>rd_status := ''failed''\<rparr>) (w_rounds w)"
    by (simp add: failRound_def db_call_def)
  then show ?thesis by (rule row_ends) (simp_all add: round_phase_of_def final_phase_def)
qed

lemma completeRound_ends: "phase_effect (Some rn) None (rounds_of w) (rounds_of (snd (completeRound rn h w)))"
proof (cases "fst (completeRound rn h w)")
  case (Inl e)
  then have "snd (completeRound rn h w) = db_tick w" using completeRound_fail [of rn h w e] by (metis prod.collapse)
  then show ?thesis using rounds_of_cong [of "db_tick w" w] by (auto intro: phase_effect.stays)
next
  case (Inr u)
  then have "w_rounds (snd (completeRound rn h w)) = sql_update (\<lambda>r. rd_number r = rn)
      (\<lambda>r. r\<lparr>rd_status := ''complete'', rd_checkpoint := Some h, rd_completed := Some (w_now w)\<rparr>) (w_rounds w)"
    using completeRound_ok [of rn h w] by (cases "completeRound rn h w") simp
  then show ?thesis by (rule row_ends) (simp_all add: round_phase_of_def final_phase_def)
qed

lemma cas_claims:
  assumes "cas_aggregating rn w = (c, w')" "fl_ok w"
  obtains (missed) "rounds_of w' = rounds_of w" "c = Inl DbFailure \<or> c = Inr 0"
    | (taken) k where "c = Inr k" "k \<noteq> 0" "rounds_of w rn = Some Round_open" "rounds_of w' = (rounds_of w)(rn \<mapsto> Round_aggregating)"
  using assms(1)
proof (cases rule: cas_cases)
  case (taken k)
  let ?f = "\<lambda>r. if rd_status r = ''open'' then r\<lparr>rd_status := ''aggregating''\<rparr> else r"
  obtain r where r: "r \<in> set (w_rounds w)" "rd_number r = rn" "rd_status r = ''open''" using taken(3) by blast
  then have l: "lookup rd_number rn (w_rounds w) = Some r" using lookup_in [of rd_number "w_rounds w" r] assms(2) by (simp add: fl_ok_def)
  have "w_rounds w' = sql_update (\<lambda>r. rd_number r = rn) ?f (w_rounds w)" using taken(4) by (simp add: sql_update_def)
  then have "rounds_of w' = (rounds_of w)(rn \<mapsto> Round_aggregating)"
    using rounds_of_row_update [of w' rn ?f w] l r(3) by (simp add: round_phase_of_def)
  then show thesis using taken(1,2) that(2) rounds_of_open [OF assms(2) r] by blast
qed (use that(1) rounds_of_cong [of "db_tick w" w] in simp_all)

lemma tryagg_step_phase:
  assumes "tryagg_step E M orc rn pc w = (pc', w')" "fl_ok w"
  shows "phase_effect (claimed rn pc) (claimed rn pc') (rounds_of w) (rounds_of w')"
proof (cases pc)
  case (Claim rid cnt)
  obtain c w1 where c: "cas_aggregating rn w = (c, w1)" by fastforce
  from c assms(2) show ?thesis
  proof (cases rule: cas_claims)
    case missed
    with assms(1) Claim c show ?thesis by (auto intro!: phase_effect.stays)
  next
    case (taken k)
    with assms(1) Claim c show ?thesis by (auto intro: phase_effect.claims)
  qed
next
  case (Sift rid cnt hs)
  with assms show ?thesis using rounds_of_cong [of w' w] anomalyFilter_world [of w M orc rid hs]
    by (auto simp: same_rounds_def intro!: phase_effect.stays split: prod.splits if_splits)
next
  case (Average acc)
  obtain r w1 where f: "fedAvg E M orc rn acc w = (r, w1)" by fastforce
  with fedAvg_spec [OF f] rounds_of_cong [of w1 w] assms Average show ?thesis
    by (auto simp: same_rounds_def intro!: phase_effect.stays split: sum.splits)
next
  case (Complete n h)
  have "claimed rn pc' = None" "rounds_of w' = rounds_of (snd (completeRound rn h w))"
    using assms(1) Complete by (auto split: prod.splits sum.splits)
  then show ?thesis using completeRound_ends [of rn w h] Complete by simp
next
  case (Fail e)
  with assms show ?thesis using failRound_ends by auto
qed (use assms rounds_of_cong [of "db_tick w" w] in
    \<open>auto simp: fetchGradientHashes_def db_call_def intro!: phase_effect.stays split: if_splits option.splits\<close>)

text \<open>A driver that refuses the argument of the scan ends every caller of \<open>CloseExpired\<close> at its first statement.\<close>

fun closes :: "caller \<Rightarrow> bool" where
  "closes (Close _ _ _ _) = True"
| "closes _ = False"

lemma scan_ends:
  assumes "refuses_int E" "caller_step E M orc Scan w = (q, w')"
  shows "w' = db_tick w \<and> (\<exists>e. q = Closed (Inl (Wrap ''querying expired rounds'' e)) \<and>
    (e = DbFailure \<or> pgx_int_as_text E (roundDurationSecs orc) = Some e))"
proof -
  obtain e where "scan_expired E orc w = (Inl e, db_tick w)" using scan_refused [OF assms(1)] by blast
  with assms(2) scan_expired_cases [OF this] show ?thesis by auto
qed

lemma caller_step_phase:
  assumes "refuses_int E" "caller_step E M orc q w = (q', w')" "\<not> closes q" "fl_ok w"
  shows "\<not> closes q' \<and> phase_effect (holds q) (holds q') (rounds_of w) (rounds_of w')"
proof (cases q)
  case (Call rn pc)
  with assms(2) tryagg_step_phase [OF _ assms(4), of E M orc rn pc] show ?thesis by (auto split: prod.splits)
next
  case Scan
  with assms(2) have "w' = db_tick w \<and> (\<exists>e. q' = Closed (Inl e))" using scan_ends [OF assms(1)] by blast
  with Scan rounds_of_cong [of "db_tick w" w] show ?thesis by (auto intro!: phase_effect.stays)
next
  case (Submit sub sp)
  have "w_rounds w1 = w_rounds w" if "submit_step sub sp w = (sp1, w1)" for sp1 w1
    using that by (cases sp) (auto simp: db_call_def upsert_participant_def split: if_splits option.splits)
  with assms(2) Submit rounds_of_cong [of w' w] show ?thesis by (auto intro!: phase_effect.stays split: prod.splits)
qed (use assms in \<open>auto intro!: phase_effect.stays\<close>)

text \<open>What a step does to the callers and the rounds.\<close>

fun callers_of :: "joint \<Rightarrow> caller list" where
  "callers_of (ags, qs, cs, A, w) = qs"

lemma joint_rounds_cases:
  assumes "joint_step E co l x y" "joint_ok E x"
  obtains (opened) n where "rounds_of (world_of x) n = None" "rounds_of (world_of y) = (rounds_of (world_of x))(n \<mapsto> Round_open)"
      "callers_of y = callers_of x"
    | (same) qs where "rounds_of (world_of y) = rounds_of (world_of x)" "callers_of y = callers_of x @ qs \<or> callers_of y = []"
      "\<forall>q\<in>set qs. Interleaving.arrives q"
    | (stated) i M q w' where "i < length (callers_of x)" "caller_step E M (co_fl co) (callers_of x ! i) (world_of x) = (q, w')"
      "callers_of y = (callers_of x)[i := q]" "world_of y = w'"
  using assms
proof (cases rule: joint_step.cases)
  case (agent ags A w ags' A' w' qs cs)
  then show thesis using same [of "[]"] agent_step_effect [OF agent(4)] rounds_of_cong [of w' w] by simp
next
  case (ask q ags qs cs s)
  then show thesis using same [of "[q]"] by (cases s) simp
next
  case (statement i qs M w q w' ags cs A)
  then show thesis using stated [of i M q w'] by simp
next
  case (arrive c ags qs cs s)
  then show thesis using same [of "[]"] by (cases s) simp
next
  case (clerk i cs lnc w c w' ags qs A)
  then have "sys_ok E (A, w)" "clerk_ok (cs ! i)" using assms(2) by (auto simp: joint_ok_def standing_ok_def list_all_length)
  with clerk_step_kept [OF clerk(6) _ _ clerk(5)] have "rounds_of w' = rounds_of w" by (intro rounds_of_cong) blast
  then show thesis using same [of "[]"] clerk by simp
next
  case (call ev w ags qs cs A)
  then have fl: "fl_ok w" using sys_okD [OF joint_sys_ok] assms(2) by blast
  show thesis
  proof (cases "about_rounds ev")
    case True
    then consider v where "ev = OpenRound_ev v" | i M post order where "ev = Stamp_ev i M post order"
      using call(5) by (cases ev) (auto simp: atomic_def)
    then show thesis
    proof cases
      case 1
      then show thesis using OpenRound_rounds [OF fl, of v] opened same [of "[]"] call by auto
    next
      case 2
      then show thesis using Stamp_rounds [of E co i M post order w] same [of "[]"] call by simp
    qed
  next
    case False
    then show thesis using same [of "[]"] rounds_of_cong [OF call_rows [OF False, of E co w]] call by simp
  qed
next
  case (restart ags qs cs A w)
  then show thesis using same [of "[]"] rounds_of_cong [OF restart_rows] by simp
qed (use same [of "[]"] in simp_all)

text \<open>Who holds a round holds one that is aggregating, and the rounds go through their phases.\<close>

definition phased :: "joint \<Rightarrow> bool" where
  "phased x \<longleftrightarrow> list_all (\<lambda>q. \<not> closes q) (callers_of x) \<and>
     (\<forall>i n. i < length (callers_of x) \<longrightarrow> holds (callers_of x ! i) = Some n \<longrightarrow> rounds_of (world_of x) n = Some Round_aggregating)"

lemma joint_exclusive: "joint_ok E x \<Longrightarrow> exclusive (life_of (world_of x)) (map holds (callers_of x))"
  by (cases x) (simp add: joint_ok_def fine_ok_def)

lemma joint_fl_ok: "joint_ok E x \<Longrightarrow> fl_ok (world_of x)"
  by (cases x) (use sys_okD joint_sys_ok in \<open>simp, blast\<close>)

lemma arrives_idle: "Interleaving.arrives q \<Longrightarrow> \<not> closes q \<and> holds q = None"
  by (cases q) auto

lemma joint_step_phase:
  assumes "refuses_int E" "joint_step E co l x y" "joint_ok E x" "phased x"
  shows "phased y \<and> phase_step\<^sup>*\<^sup>* (rounds_of (world_of x)) (rounds_of (world_of y))"
  using assms(2,3)
proof (cases rule: joint_rounds_cases)
  case (opened n)
  then show ?thesis using assms(4) phase_step.opens [of "rounds_of (world_of x)" n] by (auto simp: phased_def)
next
  case (same qs)
  have "\<not> closes q \<and> holds q = None" if "q \<in> set qs" for q using same(3) that arrives_idle by blast
  then have "list_all (\<lambda>q. \<not> closes q) qs" "\<And>i. i < length qs \<Longrightarrow> holds (qs ! i) = None" by (auto simp: list_all_iff)
  then show ?thesis using assms(4) same by (auto simp: phased_def nth_append split: if_splits)
next
  case (stated i M q w')
  let ?q = "callers_of x ! i" and ?m = "rounds_of (world_of x)" and ?m' = "rounds_of (world_of y)"
  note ex = exclusiveD(2) [OF joint_exclusive [OF assms(3)]]
  have nc: "\<not> closes ?q" and held: "\<And>j n. j < length (callers_of x) \<Longrightarrow> holds (callers_of x ! j) = Some n \<Longrightarrow> ?m n = Some Round_aggregating"
    using assms(4) stated(1) by (auto simp: phased_def list_all_length)
  have e: "\<not> closes q" "phase_effect (holds ?q) (holds q) ?m ?m'"
    using caller_step_phase [OF assms(1) stated(2) nc joint_fl_ok [OF assms(3)]] stated(4) by auto
  from e(2) have "phase_step\<^sup>*\<^sup>* ?m ?m' \<and> (\<forall>j n. j < length (callers_of x) \<longrightarrow> holds ((callers_of x)[i := q] ! j) = Some n \<longrightarrow> ?m' n = Some Round_aggregating)"
  proof (cases rule: phase_effect.cases)
    case stays
    then show ?thesis using held stated(1) by (auto simp: nth_list_update)
  next
    case (claims n)
    then show ?thesis using held stated(1) phase_step.claimed [of ?m n] by (auto simp: nth_list_update)
  next
    case (ends n r p)
    then have "?m n = Some Round_aggregating" using held stated(1) by simp
    then have "phase_step ?m ?m'" using phase_step.ended [of ?m n p] ends by simp
    moreover have "?m' k = Some Round_aggregating" if "j < length (callers_of x)" "holds ((callers_of x)[i := q] ! j) = Some k" for j k
    proof -
      have "j \<noteq> i" using that ends(2) by auto
      moreover from this have "k \<noteq> n" using ex [of i j n] that stated(1) ends(1) by auto
      ultimately show ?thesis using ends(3) held [of j k] that by simp
    qed
    ultimately show ?thesis by blast
  qed
  moreover have "list_all (\<lambda>q. \<not> closes q) ((callers_of x)[i := q])"
    using e(1) assms(4) set_update_subset_insert [of "callers_of x" i q] by (auto simp: phased_def list_all_iff)
  ultimately show ?thesis using stated(3) by (simp add: phased_def)
qed

lemma joint_steps_phase:
  assumes "refuses_int E" "(joint E co)\<^sup>*\<^sup>* x y" "joint_ok E x" "phased x"
  shows "phased y \<and> joint_ok E y \<and> phase_step\<^sup>*\<^sup>* (rounds_of (world_of x)) (rounds_of (world_of y))"
  using assms(2)
proof (induction rule: rtranclp_induct)
  case base
  then show ?case using assms(3,4) by simp
next
  case (step y z)
  then obtain l where "joint_step E co l y z" by blast
  with step.IH show ?case using joint_step_phase [OF assms(1)] joint_step_ok by (meson rtranclp_trans)
qed

lemma joint_start_phased:
  assumes "joint_start E x"
  shows "phased x \<and> rounds_of (world_of x) = Map.empty"
  using assms by (auto simp: joint_start_def phased_def co_start_def rounds_of_def empty_world_def lookup_def sql_row_def)

section \<open>The callers that the program has\<close>

text \<open>
  \<open>main.go\<close> calls \<open>CloseExpired\<close> from a ticker, and the handler calls \<open>SubmitGradient\<close>; nothing but
  \<open>CloseExpired\<close> calls \<open>TryAggregate\<close>. A step in which no caller is a direct call of \<open>TryAggregate\<close>:
\<close>

fun direct :: "caller \<Rightarrow> bool" where
  "direct (Call _ _) = True"
| "direct _ = False"

definition wired_step :: "ext \<Rightarrow> coordinator \<Rightarrow> joint \<Rightarrow> joint \<Rightarrow> bool" where
  "wired_step E co x y \<longleftrightarrow> joint E co x y \<and> list_all (\<lambda>q. \<not> direct q) (callers_of y)"

text \<open>Then no round leaves the open phase, and every call of \<open>CloseExpired\<close> ends with the error of its scan.\<close>

definition refused :: "ext \<Rightarrow> coordinator \<Rightarrow> caller \<Rightarrow> bool" where
  "refused E co q \<longleftrightarrow> \<not> direct q \<and> \<not> closes q \<and> (\<forall>r. q = Closed r \<longrightarrow> (\<exists>e. r = Inl (Wrap ''querying expired rounds'' e) \<and>
     (e = DbFailure \<or> pgx_int_as_text E (roundDurationSecs (co_fl co)) = Some e)))"

definition stays_open :: "ext \<Rightarrow> coordinator \<Rightarrow> joint \<Rightarrow> bool" where
  "stays_open E co x \<longleftrightarrow> list_all (refused E co) (callers_of x) \<and> ran (rounds_of (world_of x)) \<subseteq> {Round_open}"

lemma caller_step_refused:
  assumes "refuses_int E" "caller_step E M (co_fl co) q w = (q', w')" "refused E co q"
  shows "refused E co q' \<and> rounds_of w' = rounds_of w"
proof (cases q)
  case Scan
  with assms(2) have "w' = db_tick w \<and> (\<exists>e. q' = Closed (Inl (Wrap ''querying expired rounds'' e)) \<and>
      (e = DbFailure \<or> pgx_int_as_text E (roundDurationSecs (co_fl co)) = Some e))" using scan_ends [OF assms(1)] by blast
  then have "w' = db_tick w" "refused E co q'" by (auto simp: refused_def)
  then show ?thesis using rounds_of_cong [of "db_tick w" w] by simp
next
  case (Submit sub sp)
  have "w_rounds w1 = w_rounds w" if "submit_step sub sp w = (sp1, w1)" for sp1 w1
    using that by (cases sp) (auto simp: db_call_def upsert_participant_def split: if_splits option.splits)
  with assms(2) Submit rounds_of_cong [of w' w] show ?thesis by (auto simp: refused_def split: prod.splits)
qed (use assms(2,3) in \<open>auto simp: refused_def\<close>)

lemma wired_step_stays:
  assumes "refuses_int E" "wired_step E co x y" "joint_ok E x" "stays_open E co x"
  shows "stays_open E co y"
proof -
  obtain l where "joint_step E co l x y" and d: "list_all (\<lambda>q. \<not> direct q) (callers_of y)" using assms(2) by (auto simp: wired_step_def)
  from this(1) assms(3) show ?thesis
  proof (cases rule: joint_rounds_cases)
    case (opened n)
    then show ?thesis using assms(4) by (auto simp: stays_open_def ran_def)
  next
    case (same qs)
    have "refused E co q" if "q \<in> set qs" "q \<in> set (callers_of y)" for q
      using same(3) that d by (cases q) (auto simp: refused_def list_all_iff)
    then show ?thesis using same(1,2) assms(4) by (auto simp: stays_open_def list_all_iff)
  next
    case (stated i M q w')
    then show ?thesis using caller_step_refused [OF assms(1) stated(2)] assms(4)
      by (auto simp: stays_open_def list_all_length nth_list_update)
  qed
qed

lemma wired_steps_stay:
  assumes "refuses_int E" "(wired_step E co)\<^sup>*\<^sup>* x y" "joint_ok E x" "stays_open E co x"
  shows "stays_open E co y \<and> joint_ok E y"
  using assms(2)
proof (induction rule: rtranclp_induct)
  case (step y z)
  then obtain l where "joint_step E co l y z" by (auto simp: wired_step_def)
  with step show ?case using wired_step_stays [OF assms(1)] joint_step_ok by blast
qed (use assms(3,4) in simp)

section \<open>Properties\<close>

lemma joint_nodes_ok: "joint_ok E x \<Longrightarrow> nodes_ok (w_nodes (world_of x))"
  using standing_nodes_ok by (cases x) (auto simp: joint_ok_def)

text \<open>
  C1 (payments are due in every interleaving). Start the coordinator on an empty database, with its ten
  workers. Let the statements of all its operations interleave in any way, with any number of callers, any
  database failures, any answers from outside, and any restarts. Every payment request that was ever
  made is for the address and the reward, between 0 and 800 satoshis, of the row of a task for which a
  handler found a valid signature of a registered node.
\<close>

theorem payments_due_jointly:
  assumes "joint_start E x" "(joint E co)\<^sup>*\<^sup>* x (ags, qs, cs, A, w)" "r \<in> set (w_sent w)"
  shows "\<exists>t\<in>set (w_tasks w). \<exists>uri. tk_id t \<in> A \<and> tk_ln_uri t = Some uri \<and> 0 \<le> tk_reward t \<and> tk_reward t \<le> 800 \<and>
    r = \<lparr>DestPubkeyHex = parsePubkeyFromLNURI uri, AmountSats = tk_reward t, Memo = [], TimeoutSecs = 60\<rparr>"
proof -
  have ok: "pay_ok A w" using joint_sys_ok [OF joint.inv_reachable [OF assms(1,2)]] sys_okD by blast
  then obtain j where j: "job_due A (w_tasks w) j" "r = payment_request j" using assms(3) by (auto simp: pay_ok_def)
  then obtain t uri where t: "j_TaskID j \<in> A" "t \<in> set (w_tasks w)" "tk_ln_uri t = Some uri" "j = task_job t uri"
    by (auto simp: job_due_def)
  have "task_paid_ok A t" using ok t(2) by (simp add: pay_ok_def list_all_iff)
  then show ?thesis using t j(2)
    by (intro bexI [of _ t] exI [of _ uri]) (simp_all add: task_paid_ok_def payment_request_def task_job_def)
qed

theorem payments_due_jointly_witness:
  "\<exists>ags qs cs A w r. (joint demo_ext demo_co)\<^sup>*\<^sup>* (demo_crew, [], [], {}, empty_world demo_now) (ags, qs, cs, A, w) \<and>
     r \<in> set (w_sent w) \<and> AmountSats r \<le> 800"
proof -
  obtain A w where r: "(co_step demo_ext demo_co)\<^sup>*\<^sup>* ({}, empty_world demo_now) (A, w)" "w_sent w \<noteq> []" using demo_run [of demo_co] by blast
  then obtain q where q: "q \<in> set (w_sent w)" by (cases "w_sent w") auto
  obtain ags qs cs where c: "(joint demo_ext demo_co)\<^sup>*\<^sup>* (demo_crew, [], [], {}, empty_world demo_now) (ags, qs, cs, A, w)"
    using serial_joint [OF r(1)] by blast
  from payments_due_jointly [OF demo_joint_start c q] have "AmountSats q \<le> 800" by auto
  with c q show ?thesis by blast
qed

text \<open>
  C11 (one caller aggregates a round). However the statements of all operations are interleaved, and
  whatever fails, two callers of one coordinator never work on the same round between the claim and its end;
  and a round that is being worked on exists, is not open, and has no checkpoint yet.
\<close>

theorem one_aggregator_jointly:
  assumes "joint_start E x" "(joint E co)\<^sup>*\<^sup>* x (ags, qs, cs, A, w)"
    and "i < length qs" "j < length qs" "holds (qs ! i) = Some n" "holds (qs ! j) = Some n"
  shows "i = j \<and> (\<exists>r. lookup rd_number n (w_rounds w) = Some r \<and> rd_status r \<noteq> ''open'' \<and> rd_checkpoint r = None)"
proof -
  have ex: "exclusive (life_of w) (map holds qs)" using joint.inv_reachable [OF assms(1,2)] by (simp add: joint_ok_def fine_ok_def)
  have "life_of w n = Some (False, None)" using exclusiveD(1) [OF ex, of i n] assms(3,5) by simp
  with exclusiveD(2) [OF ex, of i j n] assms(3-6) show ?thesis by (auto simp: life_of_def)
qed

theorem one_aggregator_jointly_witness:
  "\<exists>ags qs cs w n r. (joint demo_ext eager_co)\<^sup>*\<^sup>* (demo_crew, [], [], {}, empty_world 0) (ags, qs @ [Call 1 (Fetch 1 n)], cs, {}, w) \<and>
     lookup rd_number 1 (w_rounds w) = Some r \<and> rd_status r \<noteq> ''open''"
proof -
  obtain ags qs cs w where w: "joint_start demo_ext (demo_crew, [], [], {}, empty_world 0)"
    "(joint demo_ext eager_co)\<^sup>*\<^sup>* (demo_crew, [], [], {}, empty_world 0) (ags, qs, cs, {}, w)" "healthy w" "w_rounds w = [demo_round ''open'']"
    using demo_joint_opened by blast
  obtain n w' where "alone demo_ext demo_env (co_fl eager_co) 3 (Call 1 Resolve, w) = (Call 1 (Fetch 1 n), w')" using eager_fetches [OF w(3,4)] by blast
  from joint_asks [OF w(2) _ this] have r: "(joint demo_ext eager_co)\<^sup>*\<^sup>* (demo_crew, [], [], {}, empty_world 0) (ags, qs @ [Call 1 (Fetch 1 n)], cs, {}, w')"
    by simp
  from one_aggregator_jointly [OF w(1) r, of "length qs" "length qs" 1]
  have "\<exists>r. lookup rd_number 1 (w_rounds w') = Some r \<and> rd_status r \<noteq> ''open''" by auto
  with r show ?thesis by blast
qed

text \<open>
  C13 (a checkpoint is published once). Under every interleaving of the statements of all operations, a
  round that is no longer open is never opened again and never disappears, and a checkpoint
  hash that it has is never replaced or removed.
\<close>

theorem checkpoint_final_jointly:
  assumes "joint_start E x" "(joint E co)\<^sup>*\<^sup>* x (ags, qs, cs, A, w)" "(joint E co)\<^sup>*\<^sup>* (ags, qs, cs, A, w) (ags', qs', cs', A', w')"
    and "lookup rd_number n (w_rounds w) = Some r" "rd_status r \<noteq> ''open''"
  shows "\<exists>r'. lookup rd_number n (w_rounds w') = Some r' \<and> rd_status r' \<noteq> ''open'' \<and>
    (rd_checkpoint r \<noteq> None \<longrightarrow> rd_checkpoint r' = rd_checkpoint r)"
proof -
  have ok: "joint_ok E (ags, qs, cs, A, w)" using joint.inv_reachable [OF assms(1,2)] .
  have "life_step\<^sup>*\<^sup>* (life_of w) (life_of w')" using joint.sim_steps [OF assms(3) ok] by simp
  moreover have "life_of w n = Some (False, rd_checkpoint r)" using assms(4,5) by (simp add: life_of_def)
  ultimately obtain c where "life_of w' n = Some (False, c) \<and> (rd_checkpoint r \<noteq> None \<longrightarrow> c = rd_checkpoint r)"
    using life_steps_stays by blast
  then show ?thesis by (auto simp: life_of_def)
qed

theorem checkpoint_final_jointly_witness:
  "\<exists>w r w' r'. lookup rd_number 1 (w_rounds w) = Some r \<and> rd_checkpoint r = Some race_result \<and> w' = Start (lose_memory w) \<and>
     lookup rd_number 1 (w_rounds w') = Some r' \<and> rd_checkpoint r' = Some race_result"
proof -
  obtain ags qs cs w where w: "joint_start demo_ext (demo_crew, [], [], {}, empty_world 0)"
    "(joint demo_ext eager_co)\<^sup>*\<^sup>* (demo_crew, [], [], {}, empty_world 0) (ags, qs, cs, {}, w)" "healthy w" "w_rounds w = [demo_round ''open'']"
    using demo_joint_opened by blast
  obtain s v r where v: "alone demo_ext demo_env (co_fl eager_co) 7 (Call 1 Resolve, w) = (Call 1 (Return (Inr (Some s))), v)"
    "lookup rd_number 1 (w_rounds v) = Some r" "rd_status r \<noteq> ''open''" "rd_checkpoint r = Some race_result" using eager_summary [OF w(3,4)] by blast
  have p: "(joint demo_ext eager_co)\<^sup>*\<^sup>* (demo_crew, [], [], {}, empty_world 0) (ags, qs @ [Call 1 (Return (Inr (Some s)))], cs, {}, v)"
    using joint_asks [OF w(2) _ v(1)] by simp
  have "(joint demo_ext eager_co)\<^sup>*\<^sup>* (ags, qs @ [Call 1 (Return (Inr (Some s)))], cs, {}, v) (demo_crew, [], [], {}, Start (lose_memory v))"
    using joint_step.restart by (intro r_into_rtranclp) blast
  from checkpoint_final_jointly [OF w(1) p this v(2,3)] v(2,4) show ?thesis by auto
qed

text \<open>
  C9 (the life of a node). Whatever operations overlap, and whatever fails: a statement keeps
  the identifier and the key of every node, and moves its status only from pending to active, from
  active to degraded, or to suspended; it is set back to pending only by a registration accepted for
  the node's own key.
\<close>

theorem node_status_machine:
  assumes "joint_start E x" "(joint E co)\<^sup>*\<^sup>* x (ags, qs, cs, A, w)" "joint_step E co l (ags, qs, cs, A, w) (ags', qs', cs', A', w')"
    and "lookup NodeID i (w_nodes w) = Some n"
  shows "\<exists>n'. lookup NodeID i (w_nodes w') = Some n' \<and> PublicKey n' = PublicKey n \<and>
    (Status n' = Status n \<or> Status n = ''pending'' \<and> Status n' = ''active'' \<or> Status n = ''active'' \<and> Status n' = ''degraded'' \<or>
     Status n' = ''suspended'' \<or> l = Some (PublicKey n) \<and> Status n' = ''pending'')"
proof -
  note ok = joint.inv_reachable [OF assms(1,2)]
  have "moves l w w'" using joint_step_effect [OF assms(3) ok] by simp
  moreover have "nodes_ok (w_nodes w')" using joint_nodes_ok [OF joint_step_ok [OF assms(3) ok]] by simp
  ultimately obtain n' where "lookup NodeID i (w_nodes w') = Some n'" "node_moves l n n'" using moves_lookup assms(4) by blast
  then show ?thesis by (auto simp: node_moves_def status_edge_def)
qed

theorem node_status_machine_witness:
  "\<exists>n. lookup NodeID 7 (w_nodes (snd (DeregisterNode (rpc_server demo_ext demo_co) demo_leave demo_joined))) = Some n \<and>
     PublicKey n = demo_pk \<and> Status n = ''suspended''"
proof -
  obtain a where a: "(joint demo_ext demo_co)\<^sup>*\<^sup>* (demo_crew, [], [], {}, empty_world demo_now) (demo_crew, [], [Registrar (demo_register ''t1'') 7 (Answered a)], {}, demo_joined)"
    using demo_joint_join by blast
  have n: "lookup NodeID 7 (w_nodes demo_joined) = Some (demo_node ''t1''\<lparr>Status := ''active''\<rparr>)" using demo_registered [of demo_co] by simp
  from node_status_machine [OF demo_joint_start a demo_joint_leave n] demo_leaves show ?thesis by auto
qed

text \<open>
  C10 (a slashed node gets no task). Once a node is suspended and no scheduling that chose it is
  under way, then as long as no registration for its key is accepted it stays suspended, and no task is
  assigned to it, whatever overlaps and whatever fails.
\<close>

theorem slashed_gets_no_task:
  assumes "joint_start E x" "(joint E co)\<^sup>*\<^sup>* x (ags, qs, cs, A, w)"
    and "lookup NodeID i (w_nodes w) = Some n" "Status n = ''suspended''" "list_all (\<lambda>c. \<not> holds_node i c) cs"
    and "(\<lambda>y z. \<exists>l. l \<noteq> Some (PublicKey n) \<and> joint_step E co l y z)\<^sup>*\<^sup>* (ags, qs, cs, A, w) (ags', qs', cs', A', w')"
  shows "\<exists>n'. lookup NodeID i (w_nodes w') = Some n' \<and> PublicKey n' = PublicKey n \<and> Status n' = ''suspended'' \<and>
    assigned i w' \<subseteq> assigned i w"
proof -
  have "\<exists>n'. lookup NodeID i (w_nodes (world_of y)) = Some n' \<and> PublicKey n' = PublicKey n \<and> Status n' = ''suspended'' \<and>
    assigned i (world_of y) \<subseteq> assigned i w \<and> joint_ok E y \<and> (\<forall>c\<in>set (fst (snd (snd y))). \<not> holds_node i c)"
    if "(\<lambda>y z. \<exists>l. l \<noteq> Some (PublicKey n) \<and> joint_step E co l y z)\<^sup>*\<^sup>* (ags, qs, cs, A, w) y" for y
    using that
  proof (induction rule: rtranclp_induct)
    case base
    then show ?case using assms(3-5) joint.inv_reachable [OF assms(1,2)] by (simp add: list_all_iff)
  next
    case (step y z)
    then obtain n' l where n': "lookup NodeID i (w_nodes (world_of y)) = Some n'" "PublicKey n' = PublicKey n" "Status n' = ''suspended''"
      "assigned i (world_of y) \<subseteq> assigned i w" "joint_ok E y" "\<forall>c\<in>set (fst (snd (snd y))). \<not> holds_node i c"
      and l: "l \<noteq> Some (PublicKey n)" "joint_step E co l y z" by blast
    note e = joint_step_effect [OF l(2) n'(5), of i] and z = joint_step_ok [OF l(2) n'(5)]
    obtain m where m: "lookup NodeID i (w_nodes (world_of z)) = Some m" "node_moves l n' m" using moves_lookup [OF _ joint_nodes_ok [OF z] n'(1)] e by blast
    have "Status m = ''suspended''" "PublicKey m = PublicKey n" using m(2) n'(2,3) l(1) by (auto simp: node_moves_def status_edge_def)
    moreover have "\<not> (\<exists>a\<in>set (w_nodes (world_of y)). NodeID a = i \<and> Status a = ''active'')"
      using lookup_in [of NodeID "w_nodes (world_of y)"] joint_nodes_ok [OF n'(5)] n'(1,3) by (auto simp: nodes_ok_def)
    ultimately show ?case using m(1) e n'(4,6) z by blast
  qed
  from this [OF assms(6)] show ?thesis by auto
qed

theorem slashed_gets_no_task_witness:
  "\<exists>c w'. clerk_step demo_ext demo_co (demo_ln []) (Assigner late_args List_nodes) (co_exec demo_ext demo_co (DeregisterNode_ev demo_leave) demo_joined) = (c, w') \<and>
     (\<exists>n. lookup NodeID 7 (w_nodes w') = Some n \<and> Status n = ''suspended'')"
proof -
  let ?w = "co_exec demo_ext demo_co (DeregisterNode_ev demo_leave) demo_joined" and ?a = "Assigner late_args List_nodes"
  obtain r where r: "(joint demo_ext demo_co)\<^sup>*\<^sup>* (demo_crew, [], [], {}, empty_world demo_now) (demo_crew, [], [Registrar (demo_register ''t1'') 7 (Answered r)], {}, demo_joined)"
    using demo_joint_join by blast
  let ?cs = "[Registrar (demo_register ''t1'') 7 (Answered r)]"
  have s: "(joint demo_ext demo_co)\<^sup>*\<^sup>* (demo_crew, [], [], {}, empty_world demo_now) (demo_crew, [], ?cs, {}, ?w)"
    using r demo_joint_leave by (blast intro: rtranclp.rtrancl_into_rtrancl)
  obtain c w' where c: "clerk_step demo_ext demo_co (demo_ln []) ?a ?w = (c, w')" by fastforce
  have 1: "joint_step demo_ext demo_co None (demo_crew, [], ?cs, {}, ?w) (demo_crew, [], ?cs @ [?a], {}, ?w)" by (rule joint_step.arrive) simp
  have 2: "joint_step demo_ext demo_co (registered ?a c) (demo_crew, [], ?cs @ [?a], {}, ?w) (demo_crew, [], (?cs @ [?a])[1 := c], {}, w')"
    using joint_step.clerk [of 1 "?cs @ [?a]" "demo_ln []" demo_ext demo_co ?w c w' demo_crew "[]" "{}"] c by simp
  have q: "(\<lambda>y z. \<exists>l. l \<noteq> Some (PublicKey (demo_node ''t1''\<lparr>Status := ''suspended''\<rparr>)) \<and> joint_step demo_ext demo_co l y z)\<^sup>*\<^sup>*
      (demo_crew, [], ?cs, {}, ?w) (demo_crew, [], (?cs @ [?a])[1 := c], {}, w')"
    using 1 2 by (intro rtranclp.rtrancl_into_rtrancl [OF r_into_rtranclp]) auto
  have "lookup NodeID 7 (w_nodes ?w) = Some (demo_node ''t1''\<lparr>Status := ''suspended''\<rparr>)" using demo_leaves by simp
  from slashed_gets_no_task [OF demo_joint_start s this _ _ q] c show ?thesis by auto
qed

text \<open>
  C14 (the rounds implement their specification). With a driver that refuses the argument of the scan
  of \<open>CloseExpired\<close>, as pgx v5 does, and however the statements of all operations, direct calls of
  \<open>TryAggregate\<close> included, interleave, whatever fails and however often the process restarts: seen
  through status and checkpoint, the rounds run through the machine in which a new round is open, an open
  round is claimed by one caller, and a claimed round is completed with a checkpoint or fails; and
  a round that is complete or failed never changes again. (A driver that took the argument would let
  \<open>CloseExpired\<close> mark a round as failed that another caller has completed in the meantime.)
\<close>

theorem rounds_refine_jointly:
  assumes "refuses_int E" "joint_start E x" "(joint E co)\<^sup>*\<^sup>* x (ags, qs, cs, A, w)"
    and "(joint E co)\<^sup>*\<^sup>* (ags, qs, cs, A, w) (ags', qs', cs', A', w')"
  shows "phase_step\<^sup>*\<^sup>* Map.empty (rounds_of w) \<and> phase_step\<^sup>*\<^sup>* (rounds_of w) (rounds_of w') \<and>
    (\<forall>n p. rounds_of w n = Some p \<longrightarrow> p = Round_failed \<or> (\<exists>h. p = Round_complete h) \<longrightarrow> rounds_of w' n = Some p)"
proof -
  note 1 = joint_steps_phase [OF assms(1,3) joint_start_ok [OF assms(2)]] joint_start_phased [OF assms(2)]
  then have "phase_step\<^sup>*\<^sup>* (rounds_of w) (rounds_of w')" using joint_steps_phase [OF assms(1,4)] by simp
  with 1 phase_steps_final show ?thesis by (auto simp: final_phase_def)
qed

theorem rounds_refine_jointly_witness:
  "\<exists>ags qs cs w s. (joint demo_ext eager_co)\<^sup>*\<^sup>* (demo_crew, [], [], {}, empty_world 0) (ags, qs @ [Call 1 (Return (Inr (Some s)))], cs, {}, w) \<and>
     phase_step\<^sup>*\<^sup>* Map.empty (rounds_of w) \<and> rounds_of (Start (lose_memory w)) 1 = Some (Round_complete race_result)"
proof -
  obtain ags qs cs w where w: "joint_start demo_ext (demo_crew, [], [], {}, empty_world 0)"
    "(joint demo_ext eager_co)\<^sup>*\<^sup>* (demo_crew, [], [], {}, empty_world 0) (ags, qs, cs, {}, w)" "healthy w" "w_rounds w = [demo_round ''open'']"
    using demo_joint_opened by blast
  obtain s v where v: "alone demo_ext demo_env (co_fl eager_co) 7 (Call 1 Resolve, w) = (Call 1 (Return (Inr (Some s))), v)"
    "rounds_of v 1 = Some (Round_complete race_result)" using eager_summary [OF w(3,4)] by blast
  have p: "(joint demo_ext eager_co)\<^sup>*\<^sup>* (demo_crew, [], [], {}, empty_world 0) (ags, qs @ [Call 1 (Return (Inr (Some s)))], cs, {}, v)"
    using joint_asks [OF w(2) _ v(1)] by simp
  have "(joint demo_ext eager_co)\<^sup>*\<^sup>* (ags, qs @ [Call 1 (Return (Inr (Some s)))], cs, {}, v) (demo_crew, [], [], {}, Start (lose_memory v))"
    using joint_step.restart by (intro r_into_rtranclp) blast
  from rounds_refine_jointly [OF demo_refuses w(1) p this] v(2) p show ?thesis by blast
qed

text \<open>
  C2 (no expired round is closed). The query of \<open>CloseExpired\<close> passes the round's duration, a Go
  \<open>int\<close>, for a parameter of type \<open>text\<close>, which pgx v5 refuses to encode. So in every run of the program,
  in which only the periodic \<open>CloseExpired\<close> asks for aggregations, with any failures and any
  number of restarts: every call of \<open>CloseExpired\<close> that ends returns the error of its query, be the
  database down or not, and every round there is, however long past its deadline, is still open and
  without a checkpoint: no round is ever aggregated, completed or failed.
\<close>

theorem expired_rounds_stay:
  assumes "refuses_int E" "joint_start E x" "(wired_step E co)\<^sup>*\<^sup>* x (ags, qs, cs, A, w)"
  shows "(\<forall>r\<in>set (w_rounds w). rd_status r = ''open'' \<and> rd_checkpoint r = None) \<and>
    (\<forall>res. Closed res \<in> set qs \<longrightarrow> (\<exists>e. res = Inl (Wrap ''querying expired rounds'' e) \<and>
      (e = DbFailure \<or> pgx_int_as_text E (roundDurationSecs (co_fl co)) = Some e)))"
proof (intro conjI ballI)
  have "stays_open E co x" using assms(2) joint_start_phased [OF assms(2)] by (auto simp: stays_open_def joint_start_def)
  note s = wired_steps_stay [OF assms(1,3) joint_start_ok [OF assms(2)] this]
  fix r assume r: "r \<in> set (w_rounds w)"
  have l: "lookup rd_number (rd_number r) (w_rounds w) = Some r"
    using lookup_in [of rd_number "w_rounds w" r] r joint_fl_ok [OF s [THEN conjunct2]] by (simp add: fl_ok_def)
  then have "round_phase_of r \<in> ran (rounds_of w)" by (auto simp: rounds_of_def ran_def)
  then have o: "rd_status r = ''open''" using s by (auto simp: stays_open_def round_phase_of_def split: if_splits)
  moreover have "unpublished (life_of w)" using exclusiveD(3) [OF joint_exclusive [OF s [THEN conjunct2]]] by simp
  ultimately show "rd_status r = ''open''" "rd_checkpoint r = None" using l by (auto simp: unpublished_def life_of_def)
next
  have "stays_open E co x" using assms(2) joint_start_phased [OF assms(2)] by (auto simp: stays_open_def joint_start_def)
  note s = wired_steps_stay [OF assms(1,3) joint_start_ok [OF assms(2)] this]
  then show "\<forall>res. Closed res \<in> set qs \<longrightarrow> (\<exists>e. res = Inl (Wrap ''querying expired rounds'' e) \<and>
      (e = DbFailure \<or> pgx_int_as_text E (roundDurationSecs (co_fl co)) = Some e))"
    by (auto simp: stays_open_def list_all_iff refused_def)
qed

theorem expired_rounds_stay_witness:
  "\<exists>w r. (wired_step demo_ext demo_co)\<^sup>*\<^sup>* (demo_crew, [], [], {}, empty_world 0)
       (demo_crew, [Closed (Inl (Wrap ''querying expired rounds'' (Err ''cannot find encode plan'')))], [], {}, w) \<and>
     w_rounds w = [r] \<and> expired (co_fl demo_co) (w_now w) r \<and> rd_status r = ''open'' \<and> rd_checkpoint r = None"
proof -
  let ?s = "wired_step demo_ext demo_co" and ?x = "(demo_crew, [], [], {}, empty_world 0)"
  let ?w = "co_exec demo_ext demo_co (OpenRound_ev ''v'') (empty_world 0)" and ?e = "Wrap ''querying expired rounds'' (Err ''cannot find encode plan'')"
  let ?v = "?w\<lparr>w_now := demo_time0\<rparr>"
  have w: "healthy ?w" "w_rounds ?w = [demo_round ''open'']" "w_now ?w = 0"
    by (simp_all add: OpenRound_def db_call_def db_down_def db_tick_def healthy_def empty_world_def in_int_def sql_insert_def demo_round_def)
  then have h: "healthy ?v" by (simp add: healthy_def)
  have "joint_step demo_ext demo_co None ?x (demo_crew, [], [], {}, ?w)" by (rule joint_step.call) (simp_all add: atomic_def)
  then have 1: "?s ?x (demo_crew, [], [], {}, ?w)" by (auto simp: wired_step_def)
  have "w_now ?w \<le> demo_time0" unfolding w(3) by (simp add: demo_time0_def time_defs)
  then have "joint demo_ext demo_co (demo_crew, [], [], {}, ?w) (demo_crew, [], [], {}, ?v)" using joint_step.clock by blast
  then have 2: "?s (demo_crew, [], [], {}, ?w) (demo_crew, [], [], {}, ?v)" by (simp add: wired_step_def)
  have "joint demo_ext demo_co (demo_crew, [], [], {}, ?v) (demo_crew, [] @ [Scan], [], {}, ?v)" using joint_step.ask [of Scan] by fastforce
  then have 3: "?s (demo_crew, [], [], {}, ?v) (demo_crew, [Scan], [], {}, ?v)" by (simp add: wired_step_def)
  have "caller_step demo_ext demo_env (co_fl demo_co) Scan ?v = (Closed (Inl ?e), ?v)"
    using h by (simp add: scan_expired_def demo_ext_def db_call_healthy)
  then have "joint demo_ext demo_co (demo_crew, [Scan], [], {}, ?v) (demo_crew, [Scan][0 := Closed (Inl ?e)], [], {}, ?v)"
    using joint_step.statement [of 0 "[Scan]"] by fastforce
  then have 4: "?s (demo_crew, [Scan], [], {}, ?v) (demo_crew, [Closed (Inl ?e)], [], {}, ?v)" by (simp add: wired_step_def)
  have r: "?s\<^sup>*\<^sup>* ?x (demo_crew, [Closed (Inl ?e)], [], {}, ?v)" using 1 2 3 4 by (meson rtranclp.rtrancl_refl rtranclp.rtrancl_into_rtrancl)
  have "joint_start demo_ext ?x" by (auto simp: joint_start_def co_start_def demo_numeric_rounds)
  from expired_rounds_stay [OF demo_refuses this r] have "rd_checkpoint (demo_round ''open'') = None" using w(2) by simp
  moreover have "expired (co_fl demo_co) demo_time0 (demo_round ''open'')"
    by (simp add: expired_def demo_co_def NewWithConfig_def demo_time0_def time_defs)
  ultimately show ?thesis using r w(2) by (intro exI [of _ ?v] exI [of _ "demo_round ''open''"]) (simp add: demo_round_def)
qed

text \<open>
  C12 (an interrupted round is lost). A round that is aggregating when the process stops is aggregating
  for ever: whatever the next lives of the coordinator do, with any operations, any interleaving of
  their statements, any failures and any number of further restarts, it never becomes open, complete
  or failed. Nothing takes up a round that is aggregating: the claim of \<open>TryAggregate\<close> and the scan of
  \<open>CloseExpired\<close> look for open rounds only.
\<close>

theorem interrupted_round_is_lost:
  assumes "joint_start E x" "(joint E co)\<^sup>*\<^sup>* x (ags, qs, cs, A, w)"
    and "lookup rd_number n (w_rounds w) = Some r" "rd_status r = ''aggregating''"
    and "(joint E co)\<^sup>*\<^sup>* (replicate numWorkers (Worker Idle), [], [], A, Start (lose_memory w)) (ags', qs', cs', A', w')"
  shows "\<exists>r'. lookup rd_number n (w_rounds w') = Some r' \<and> rd_status r' = ''aggregating''"
proof -
  let ?s = "(replicate numWorkers (Worker Idle), [], [], A, Start (lose_memory w))"
  have ok: "joint_ok E (ags, qs, cs, A, w)" by (rule joint.inv_reachable [OF assms(1,2)])
  have "aggregating n w" using assms(3,4) by (simp add: aggregating_iff)
  then have "aggregating n (Start (lose_memory w))" by (rule co_step_aggregating [OF co_step.restart joint_sys_ok [OF ok]])
  then have "orphaned n ?s \<and> joint_ok E ?s" using joint_step_ok [OF joint_step.restart ok] by (simp add: orphaned_def)
  with assms(5) have "orphaned n (ags', qs', cs', A', w') \<and> joint_ok E (ags', qs', cs', A', w')"
    by (induction rule: rtranclp_induct) (use joint_step_orphaned joint_step_ok in blast)+
  then show ?thesis by (simp add: orphaned_def aggregating_iff)
qed

theorem interrupted_round_is_lost_witness:
  "\<exists>ags qs cs w k r'. (joint demo_ext eager_co)\<^sup>*\<^sup>* (demo_crew, [], [], {}, empty_world 0) (ags, qs @ [Call 1 (Fetch 1 k)], cs, {}, w) \<and>
     lookup rd_number 1 (w_rounds (co_exec demo_ext eager_co (OpenRound_ev []) (Start (lose_memory w)))) = Some r' \<and> rd_status r' = ''aggregating''"
proof -
  obtain ags qs cs w where w: "joint_start demo_ext (demo_crew, [], [], {}, empty_world 0)"
    "(joint demo_ext eager_co)\<^sup>*\<^sup>* (demo_crew, [], [], {}, empty_world 0) (ags, qs, cs, {}, w)" "healthy w" "w_rounds w = [demo_round ''open'']"
    using demo_joint_opened by blast
  obtain k w' where a: "alone demo_ext demo_env (co_fl eager_co) 3 (Call 1 Resolve, w) = (Call 1 (Fetch 1 k), w')"
    "w_rounds w' = [demo_round ''aggregating'']" using eager_fetches [OF w(3,4)] by blast
  have r: "(joint demo_ext eager_co)\<^sup>*\<^sup>* (demo_crew, [], [], {}, empty_world 0) (ags, qs @ [Call 1 (Fetch 1 k)], cs, {}, w')"
    using joint_asks [OF w(2) _ a(1)] by simp
  have n: "lookup rd_number 1 (w_rounds w') = Some (demo_round ''aggregating'')" "rd_status (demo_round ''aggregating'') = ''aggregating''"
    using a(2) by (simp_all add: lookup_def sql_row_def demo_round_def)
  have q: "(joint demo_ext eager_co)\<^sup>*\<^sup>* (demo_crew, [], [], {}, Start (lose_memory w'))
      (demo_crew, [], [], {}, co_exec demo_ext eager_co (OpenRound_ev []) (Start (lose_memory w')))"
    using joint_step.call [of "OpenRound_ev []" "Start (lose_memory w')"] by (intro r_into_rtranclp exI) (simp add: atomic_def)
  from interrupted_round_is_lost [OF w(1) r n q] r show ?thesis by blast
qed

end
