(* ===== verification/Schema.thy ===== *)
theory Schema
  imports Rpc
begin

text \<open>
  \<open>migrations\<close>: the tables of the database. A migration is two files of DDL statements; a statement
  changes a catalogue of tables, indexes and sequences, and is refused where PostgreSQL refuses it.
  The statements of the Go code are checked against the catalogue that the migrations leave.
\<close>

section \<open>The catalogue\<close>

datatype sql_type = UUID | TEXT | TEXT_ARRAY | NUMERIC nat nat | INTEGER | BIGINT | SERIAL | BOOLEAN | JSONB | TIMESTAMPTZ

datatype sql_default = Literal string | Gen_random_uuid | Sql_now | Nextval string

datatype sql_constraint =
    Primary_key | Not_null | Unique | Default sql_default | Check_in "string list" | References string string | On_delete_cascade

datatype column = Column (cl_name: string) (cl_type: sql_type) (cl_constraints: "sql_constraint list")

text \<open>\<open>tb_primary\<close> is a key that is declared for the table and not for one column.\<close>

record table =
  tb_name :: string
  tb_columns :: "column list"
  tb_primary :: "string list"

record index =
  ix_name :: string
  ix_table :: string
  ix_columns :: "(string \<times> bool) list"

record schema =
  sc_tables :: "table list"
  sc_indexes :: "index list"
  sc_sequences :: "(string \<times> (string \<times> string) option) list"

definition empty_schema :: schema where
  "empty_schema = \<lparr>sc_tables = [], sc_indexes = [], sc_sequences = []\<rparr>"

definition find_table :: "schema \<Rightarrow> string \<Rightarrow> table option" where
  "find_table S t = find (\<lambda>tb. tb_name tb = t) (sc_tables S)"

definition find_column :: "schema \<Rightarrow> string \<Rightarrow> string \<Rightarrow> column option" where
  "find_column S t c = (case find_table S t of None \<Rightarrow> None | Some tb \<Rightarrow> find (\<lambda>col. cl_name col = c) (tb_columns tb))"

definition relations :: "schema \<Rightarrow> string list" where
  "relations S = map tb_name (sc_tables S) @ map ix_name (sc_indexes S) @ map fst (sc_sequences S)"

definition references :: "column \<Rightarrow> (string \<times> string) list" where
  "references col = List.map_filter (\<lambda>k. case k of References t c \<Rightarrow> Some (t, c) | _ \<Rightarrow> None) (cl_constraints col)"

definition uses_sequence :: "string \<Rightarrow> column \<Rightarrow> bool" where
  "uses_sequence s col \<longleftrightarrow> Default (Nextval s) \<in> set (cl_constraints col)"

definition all_columns :: "schema \<Rightarrow> column list" where
  "all_columns S = concat (map tb_columns (sc_tables S))"

text \<open>A foreign key needs a column of the same type that is unique; \<open>SERIAL\<close> is an \<open>INTEGER\<close> with a sequence of its own.\<close>

fun key_type :: "sql_type \<Rightarrow> sql_type" where
  "key_type SERIAL = INTEGER"
| "key_type t = t"

definition is_key :: "schema \<Rightarrow> string \<Rightarrow> string \<Rightarrow> bool" where
  "is_key S t c \<longleftrightarrow>
     (case find_column S t c of
       None \<Rightarrow> False
     | Some col \<Rightarrow> Primary_key \<in> set (cl_constraints col) \<or> Unique \<in> set (cl_constraints col) \<or>
         (case find_table S t of None \<Rightarrow> False | Some tb \<Rightarrow> tb_primary tb = [c]))"

definition column_ok :: "schema \<Rightarrow> column \<Rightarrow> bool" where
  "column_ok S col \<longleftrightarrow> list_all (\<lambda>k. case k of
       References t c \<Rightarrow> is_key S t c \<and>
         (case find_column S t c of None \<Rightarrow> False | Some r \<Rightarrow> key_type (cl_type r) = key_type (cl_type col))
     | Default (Nextval s) \<Rightarrow> s \<in> fst ` set (sc_sequences S)
     | _ \<Rightarrow> True) (cl_constraints col)"

section \<open>Statements of the migrations\<close>

text \<open>
  The forms that the files use: every \<open>CREATE\<close> and \<open>ADD COLUMN\<close> is \<open>IF NOT EXISTS\<close>, every \<open>DROP\<close> is
  \<open>IF EXISTS\<close> and, without \<open>CASCADE\<close>, refused while something depends on the object.
\<close>

datatype ddl =
    Create_table table
  | Drop_table string
  | Add_column string column
  | Drop_column string string
  | Create_index index
  | Drop_index string
  | Create_sequence string
  | Drop_sequence string
  | Set_default string string sql_default
  | Drop_default string string
  | Owned_by string string string

definition alter_table :: "string \<Rightarrow> (table \<Rightarrow> table) \<Rightarrow> schema \<Rightarrow> schema" where
  "alter_table t f S = S\<lparr>sc_tables := map (\<lambda>tb. if tb_name tb = t then f tb else tb) (sc_tables S)\<rparr>"

definition alter_column :: "string \<Rightarrow> string \<Rightarrow> (sql_constraint list \<Rightarrow> sql_constraint list) \<Rightarrow> schema \<Rightarrow> schema" where
  "alter_column t c f = alter_table t (\<lambda>tb. tb\<lparr>tb_columns := map (\<lambda>col. if cl_name col = c
     then Column c (cl_type col) (f (cl_constraints col)) else col) (tb_columns tb)\<rparr>)"

definition without_default :: "sql_constraint list \<Rightarrow> sql_constraint list" where
  "without_default = filter (\<lambda>k. case k of Default _ \<Rightarrow> False | _ \<Rightarrow> True)"

definition missing :: "string \<Rightarrow> 'a result" where
  "missing x = Inl (Err (x @ '' does not exist''))"

definition depended_on :: "string \<Rightarrow> 'a result" where
  "depended_on x = Inl (Err (''other objects depend on '' @ x))"

fun ddl_exec :: "ddl \<Rightarrow> schema \<Rightarrow> schema result" where
  "ddl_exec (Create_table tb) S =
     (if tb_name tb \<in> set (relations S) then Inr S
      else if list_all (column_ok S) (tb_columns tb) then Inr (S\<lparr>sc_tables := sc_tables S @ [tb]\<rparr>)
      else missing (''a key of '' @ tb_name tb))"
| "ddl_exec (Drop_table t) S =
     (if find_table S t = None then Inr S
      else if \<exists>tb\<in>set (sc_tables S). tb_name tb \<noteq> t \<and> (\<exists>col\<in>set (tb_columns tb). t \<in> fst ` set (references col)) then depended_on t
      else Inr (S\<lparr>sc_tables := filter (\<lambda>tb. tb_name tb \<noteq> t) (sc_tables S),
        sc_indexes := filter (\<lambda>ix. ix_table ix \<noteq> t) (sc_indexes S),
        sc_sequences := filter (\<lambda>(s, ow). map_option fst ow \<noteq> Some t) (sc_sequences S)\<rparr>))"
| "ddl_exec (Add_column t col) S =
     (if find_table S t = None then missing t
      else if find_column S t (cl_name col) \<noteq> None then Inr S
      else if column_ok S col then Inr (alter_table t (\<lambda>tb. tb\<lparr>tb_columns := tb_columns tb @ [col]\<rparr>) S)
      else missing (''a key of '' @ t))"
| "ddl_exec (Drop_column t c) S =
     (if find_table S t = None then missing t
      else if find_column S t c = None then Inr S
      else if \<exists>col\<in>set (all_columns S). (t, c) \<in> set (references col) then depended_on c
      else let S = alter_table t (\<lambda>tb. tb\<lparr>tb_columns := filter (\<lambda>col. cl_name col \<noteq> c) (tb_columns tb),
                 tb_primary := (if c \<in> set (tb_primary tb) then [] else tb_primary tb)\<rparr>) S
           in Inr (S\<lparr>sc_indexes := filter (\<lambda>ix. \<not> (ix_table ix = t \<and> c \<in> fst ` set (ix_columns ix))) (sc_indexes S),
                sc_sequences := filter (\<lambda>(s, ow). ow \<noteq> Some (t, c)) (sc_sequences S)\<rparr>))"
| "ddl_exec (Create_index ix) S =
     (if ix_name ix \<in> set (relations S) then Inr S
      else if list_all (\<lambda>(c, _). find_column S (ix_table ix) c \<noteq> None) (ix_columns ix)
      then Inr (S\<lparr>sc_indexes := sc_indexes S @ [ix]\<rparr>) else missing (''a column of '' @ ix_table ix))"
| "ddl_exec (Drop_index n) S = Inr (S\<lparr>sc_indexes := filter (\<lambda>ix. ix_name ix \<noteq> n) (sc_indexes S)\<rparr>)"
| "ddl_exec (Create_sequence s) S =
     (if s \<in> set (relations S) then Inr S else Inr (S\<lparr>sc_sequences := sc_sequences S @ [(s, None)]\<rparr>))"
| "ddl_exec (Drop_sequence s) S =
     (if list_ex (uses_sequence s) (all_columns S) then depended_on s
      else Inr (S\<lparr>sc_sequences := filter (\<lambda>q. fst q \<noteq> s) (sc_sequences S)\<rparr>))"
| "ddl_exec (Set_default t c d) S =
     (if find_column S t c = None then missing c
      else if \<not> column_ok S (Column c INTEGER [Default d]) then missing ''sequence''
      else Inr (alter_column t c (\<lambda>ks. without_default ks @ [Default d]) S))"
| "ddl_exec (Drop_default t c) S =
     (if find_column S t c = None then missing c else Inr (alter_column t c without_default S))"
| "ddl_exec (Owned_by s t c) S =
     (if s \<notin> fst ` set (sc_sequences S) then missing s
      else if find_column S t c = None then missing c
      else Inr (S\<lparr>sc_sequences := map (\<lambda>(s', ow). if s' = s then (s', Some (t, c)) else (s', ow)) (sc_sequences S)\<rparr>))"

text \<open>The driver sends a file as one query, which PostgreSQL runs as one transaction.\<close>

fun run_file :: "ddl list \<Rightarrow> schema \<Rightarrow> schema result" where
  "run_file [] S = Inr S"
| "run_file (d # ds) S = (case ddl_exec d S of Inl e \<Rightarrow> Inl e | Inr S \<Rightarrow> run_file ds S)"

fun run_files :: "ddl list list \<Rightarrow> schema \<Rightarrow> schema result" where
  "run_files [] S = Inr S"
| "run_files (f # fs) S = (case run_file f S of Inl e \<Rightarrow> Inl e | Inr S \<Rightarrow> run_files fs S)"

section \<open>The migrations\<close>

definition nodes_table :: table where
  "nodes_table = \<lparr>tb_name = ''nodes'', tb_columns = [
     Column ''node_id'' UUID [Primary_key, Default Gen_random_uuid],
     Column ''public_key'' TEXT [Not_null, Unique],
     Column ''ln_node_uri'' TEXT [Not_null],
     Column ''onion_address'' TEXT [],
     Column ''tier'' TEXT [Not_null, Check_in [''t1'', ''t2'', ''t3'']],
     Column ''vram_gb'' (NUMERIC 6 2) [],
     Column ''ram_gb'' (NUMERIC 6 2) [],
     Column ''bandwidth_mbps'' (NUMERIC 8 2) [],
     Column ''reliability'' (NUMERIC 5 4) [Default (Literal ''1.0'')],
     Column ''total_tasks'' INTEGER [Default (Literal ''0'')],
     Column ''total_sats'' BIGINT [Default (Literal ''0'')],
     Column ''status'' TEXT [Not_null, Default (Literal ''pending''), Check_in [''pending'', ''active'', ''degraded'', ''suspended'']],
     Column ''registered_at'' TIMESTAMPTZ [Default Sql_now],
     Column ''last_heartbeat'' TIMESTAMPTZ []], tb_primary = []\<rparr>"

definition node_stakes_table :: table where
  "node_stakes_table = \<lparr>tb_name = ''node_stakes'', tb_columns = [
     Column ''node_id'' UUID [Primary_key, References ''nodes'' ''node_id''],
     Column ''channel_id'' TEXT [Not_null, Unique],
     Column ''channel_capacity'' BIGINT [Not_null],
     Column ''local_balance'' BIGINT [Not_null],
     Column ''tier_minimum'' BIGINT [Not_null],
     Column ''bonus_multiplier'' (NUMERIC 4 3) [Default (Literal ''1.0'')],
     Column ''stake_status'' TEXT [Not_null, Default (Literal ''active''), Check_in [''active'', ''degraded'', ''force_closed'']],
     Column ''opened_at'' TIMESTAMPTZ [Default Sql_now],
     Column ''last_verified_at'' TIMESTAMPTZ [Default Sql_now],
     Column ''degraded_since'' TIMESTAMPTZ []], tb_primary = []\<rparr>"

definition tasks_table :: table where
  "tasks_table = \<lparr>tb_name = ''tasks'', tb_columns = [
     Column ''task_id'' UUID [Primary_key, Default Gen_random_uuid],
     Column ''task_type'' TEXT [Not_null],
     Column ''assigned_node'' UUID [References ''nodes'' ''node_id''],
     Column ''node_ln_uri'' TEXT [],
     Column ''status'' TEXT [Not_null, Default (Literal ''pending''),
       Check_in [''pending'', ''running'', ''completed'', ''failed'', ''timeout'']],
     Column ''input_hash'' TEXT [],
     Column ''output_hash'' TEXT [],
     Column ''reward_sats'' INTEGER [],
     Column ''payment_status'' TEXT [Default (Literal ''pending''), Check_in [''pending'', ''paid'', ''failed'']],
     Column ''payment_preimage'' TEXT [],
     Column ''submitted_at'' TIMESTAMPTZ [Default Sql_now],
     Column ''started_at'' TIMESTAMPTZ [],
     Column ''completed_at'' TIMESTAMPTZ [],
     Column ''timeout_seconds'' INTEGER [Default (Literal ''30'')]], tb_primary = []\<rparr>"

definition fl_rounds_table :: table where
  "fl_rounds_table = \<lparr>tb_name = ''fl_rounds'', tb_columns = [
     Column ''round_id'' SERIAL [Primary_key],
     Column ''round_number'' INTEGER [Not_null, Unique],
     Column ''status'' TEXT [Not_null, Default (Literal ''open''), Check_in [''open'', ''aggregating'', ''complete'', ''failed'']],
     Column ''model_version'' TEXT [],
     Column ''checkpoint_hash'' TEXT [],
     Column ''ots_proof_path'' TEXT [],
     Column ''btc_block'' INTEGER [],
     Column ''started_at'' TIMESTAMPTZ [Default Sql_now],
     Column ''completed_at'' TIMESTAMPTZ [],
     Column ''participant_count'' INTEGER []], tb_primary = []\<rparr>"

definition fl_participants_table :: table where
  "fl_participants_table = \<lparr>tb_name = ''fl_participants'', tb_columns = [
     Column ''round_id'' INTEGER [References ''fl_rounds'' ''round_id''],
     Column ''node_id'' UUID [References ''nodes'' ''node_id''],
     Column ''gradient_hash'' TEXT [],
     Column ''anomaly_flagged'' BOOLEAN [Default (Literal ''FALSE'')],
     Column ''reward_sats'' INTEGER [],
     Column ''s3_url'' TEXT []], tb_primary = [''round_id'', ''node_id'']\<rparr>"

definition model_versions_table :: table where
  "model_versions_table = \<lparr>tb_name = ''model_versions'', tb_columns = [
     Column ''version_id'' TEXT [Primary_key],
     Column ''round_number'' INTEGER [References ''fl_rounds'' ''round_number''],
     Column ''created_at'' TIMESTAMPTZ [Default Sql_now],
     Column ''sub_model_hashes'' JSONB [],
     Column ''ots_proof_paths'' JSONB [],
     Column ''btc_block'' INTEGER [],
     Column ''coordinator_sig'' TEXT [],
     Column ''is_current'' BOOLEAN [Default (Literal ''FALSE'')]], tb_primary = []\<rparr>"

definition slashing_events_table :: table where
  "slashing_events_table = \<lparr>tb_name = ''slashing_events'', tb_columns = [
     Column ''event_id'' UUID [Primary_key, Default Gen_random_uuid],
     Column ''node_id'' UUID [References ''nodes'' ''node_id''],
     Column ''channel_id'' TEXT [Not_null],
     Column ''tier'' TEXT [Not_null],
     Column ''reason'' TEXT [Not_null],
     Column ''evidence_hash'' TEXT [Not_null],
     Column ''signal_count'' INTEGER [Not_null],
     Column ''executed_at'' TIMESTAMPTZ [Default Sql_now],
     Column ''cooldown_expires_at'' TIMESTAMPTZ [Not_null],
     Column ''coordinator_sig'' TEXT [Not_null]], tb_primary = []\<rparr>"

definition misbehavior_signals_table :: table where
  "misbehavior_signals_table = \<lparr>tb_name = ''misbehavior_signals'', tb_columns = [
     Column ''signal_id'' UUID [Primary_key, Default Gen_random_uuid],
     Column ''node_id'' UUID [References ''nodes'' ''node_id''],
     Column ''signal_type'' TEXT [Not_null],
     Column ''evidence_hash'' TEXT [Not_null],
     Column ''detected_at'' TIMESTAMPTZ [Default Sql_now],
     Column ''slashing_event'' UUID [References ''slashing_events'' ''event_id'']], tb_primary = []\<rparr>"

definition bounties_table :: table where
  "bounties_table = \<lparr>tb_name = ''bounties'', tb_columns = [
     Column ''bounty_id'' UUID [Primary_key, Default Gen_random_uuid],
     Column ''github_issue'' TEXT [Not_null, Unique],
     Column ''github_repo'' TEXT [Not_null],
     Column ''amount_sats'' BIGINT [Not_null],
     Column ''status'' TEXT [Not_null, Default (Literal ''open''), Check_in [''open'', ''claimed'', ''paid'', ''expired'']],
     Column ''claimed_by'' TEXT [],
     Column ''merged_pr_url'' TEXT [],
     Column ''created_at'' TIMESTAMPTZ [Default Sql_now],
     Column ''paid_at'' TIMESTAMPTZ [],
     Column ''payment_preimage'' TEXT []], tb_primary = []\<rparr>"

definition heartbeat_log_table :: table where
  "heartbeat_log_table = \<lparr>tb_name = ''heartbeat_log'', tb_columns = [
     Column ''node_id'' UUID [Not_null, References ''nodes'' ''node_id'', On_delete_cascade],
     Column ''recorded_at'' TIMESTAMPTZ [Not_null, Default Sql_now]], tb_primary = []\<rparr>"

definition create_nodes_up :: "ddl list" where "create_nodes_up = [Create_table nodes_table, Create_table node_stakes_table]"
definition create_nodes_down :: "ddl list" where "create_nodes_down = [Drop_table ''node_stakes'', Drop_table ''nodes'']"

definition create_tasks_up :: "ddl list" where "create_tasks_up = [Create_table tasks_table]"
definition create_tasks_down :: "ddl list" where "create_tasks_down = [Drop_table ''tasks'']"

definition create_fl_up :: "ddl list" where
  "create_fl_up = [Create_table fl_rounds_table, Create_table fl_participants_table, Create_table model_versions_table]"
definition create_fl_down :: "ddl list" where
  "create_fl_down = [Drop_table ''model_versions'', Drop_table ''fl_participants'', Drop_table ''fl_rounds'']"

definition create_slashing_up :: "ddl list" where
  "create_slashing_up = [Create_table slashing_events_table, Create_table misbehavior_signals_table]"
definition create_slashing_down :: "ddl list" where
  "create_slashing_down = [Drop_table ''misbehavior_signals'', Drop_table ''slashing_events'']"

definition create_bounties_up :: "ddl list" where "create_bounties_up = [Create_table bounties_table]"
definition create_bounties_down :: "ddl list" where "create_bounties_down = [Drop_table ''bounties'']"

definition create_index :: "string \<Rightarrow> string \<Rightarrow> (string \<times> bool) list \<Rightarrow> ddl" where
  "create_index n t cs = Create_index \<lparr>ix_name = n, ix_table = t, ix_columns = cs\<rparr>"

definition add_indexes_up :: "ddl list" where
  "add_indexes_up =
     [create_index ''idx_nodes_status'' ''nodes'' [(''status'', False)],
      create_index ''idx_nodes_pubkey'' ''nodes'' [(''public_key'', False)],
      create_index ''idx_tasks_assigned_node'' ''tasks'' [(''assigned_node'', False), (''status'', False)],
      create_index ''idx_tasks_submitted'' ''tasks'' [(''submitted_at'', True)],
      create_index ''idx_slashing_node'' ''slashing_events'' [(''node_id'', False)],
      create_index ''idx_signals_node'' ''misbehavior_signals'' [(''node_id'', False), (''detected_at'', True)]]"
definition add_indexes_down :: "ddl list" where
  "add_indexes_down = [Drop_index ''idx_nodes_status'', Drop_index ''idx_nodes_pubkey'', Drop_index ''idx_tasks_assigned_node'',
     Drop_index ''idx_tasks_submitted'', Drop_index ''idx_slashing_node'', Drop_index ''idx_signals_node'']"

definition add_onion_address_up :: "ddl list" where
  "add_onion_address_up = [Add_column ''nodes'' (Column ''onion_address'' TEXT [])]"
definition add_onion_address_down :: "ddl list" where
  "add_onion_address_down = [Drop_column ''nodes'' ''onion_address'']"

definition add_observer_up :: "ddl list" where
  "add_observer_up = [Add_column ''tasks'' (Column ''observer_receipt_id'' TEXT [])]"
definition add_observer_down :: "ddl list" where
  "add_observer_down = [Drop_column ''tasks'' ''observer_receipt_id'']"

definition round_number_seq_up :: "ddl list" where
  "round_number_seq_up = [Create_sequence ''fl_round_number_seq'',
     Set_default ''fl_rounds'' ''round_number'' (Nextval ''fl_round_number_seq''),
     Owned_by ''fl_round_number_seq'' ''fl_rounds'' ''round_number'']"
definition round_number_seq_down :: "ddl list" where
  "round_number_seq_down = [Drop_default ''fl_rounds'' ''round_number'', Drop_sequence ''fl_round_number_seq'']"

definition add_supported_task_types_up :: "ddl list" where
  "add_supported_task_types_up = [Add_column ''nodes''
     (Column ''supported_task_types'' TEXT_ARRAY [Not_null, Default (Literal ''{}'')])]"
definition add_supported_task_types_down :: "ddl list" where
  "add_supported_task_types_down = [Drop_column ''nodes'' ''supported_task_types'']"

definition heartbeat_log_up :: "ddl list" where
  "heartbeat_log_up = [Create_table heartbeat_log_table,
     create_index ''idx_heartbeat_log_node_at'' ''heartbeat_log'' [(''node_id'', False), (''recorded_at'', True)]]"
definition heartbeat_log_down :: "ddl list" where
  "heartbeat_log_down = [Drop_index ''idx_heartbeat_log_node_at'', Drop_table ''heartbeat_log'']"

definition migrations_up :: "ddl list list" where
  "migrations_up = [create_nodes_up, create_tasks_up, create_fl_up, create_slashing_up, create_bounties_up, add_indexes_up,
     add_onion_address_up, add_observer_up, round_number_seq_up, add_supported_task_types_up, heartbeat_log_up]"

definition migrations_down :: "ddl list list" where
  "migrations_down = [create_nodes_down, create_tasks_down, create_fl_down, create_slashing_down, create_bounties_down,
     add_indexes_down, add_onion_address_down, add_observer_down, round_number_seq_down, add_supported_task_types_down,
     heartbeat_log_down]"

text \<open>The catalogue after the first files; a file is undone when its \<open>down\<close> restores the catalogue before it.\<close>

definition schema_at :: "nat \<Rightarrow> schema result" where
  "schema_at version = run_files (take version migrations_up) empty_schema"

fun versions :: "ddl list list \<Rightarrow> schema \<Rightarrow> schema list" where
  "versions [] S = [S]"
| "versions (u # us) S = S # (case run_file u S of Inl _ \<Rightarrow> [] | Inr S' \<Rightarrow> versions us S')"

fun undone :: "ddl list list \<Rightarrow> ddl list list \<Rightarrow> schema \<Rightarrow> bool list" where
  "undone (u # us) (d # ds) S =
     (case run_file u S of Inl _ \<Rightarrow> [] | Inr S' \<Rightarrow> (run_file d S' = Inr S) # undone us ds S')"
| "undone _ _ S = []"


section \<open>The statements of the coordinator\<close>

text \<open>
  What a statement of the Go code asks of the catalogue: the columns that it reads of each table, and what
  it writes. An insertion names its columns, the texts that it writes as literals and its conflict
  target; an update the columns and literals that it sets.
\<close>

type_synonym sources = "(string \<times> string list) list"

datatype statement =
    Select sources
  | Insert_into string "string list" "(string \<times> string) list" "string list" sources
  | Update_set string "string list" "(string \<times> string) list" sources
  | Truncate_tables "string list"

definition columns_of :: "schema \<Rightarrow> string \<Rightarrow> string list" where
  "columns_of S t = (case find_table S t of None \<Rightarrow> [] | Some tb \<Rightarrow> map cl_name (tb_columns tb))"

definition reads_fit :: "schema \<Rightarrow> sources \<Rightarrow> bool" where
  "reads_fit S src \<longleftrightarrow> list_all (\<lambda>(t, cs). find_table S t \<noteq> None \<and> columns_exist cs (columns_of S t)) src"

text \<open>A literal must satisfy the check of its column.\<close>

definition allows :: "string \<Rightarrow> column \<Rightarrow> bool" where
  "allows v col \<longleftrightarrow> list_all (\<lambda>k. case k of Check_in vs \<Rightarrow> v \<in> set vs | _ \<Rightarrow> True) (cl_constraints col)"

definition literals_fit :: "schema \<Rightarrow> string \<Rightarrow> (string \<times> string) list \<Rightarrow> bool" where
  "literals_fit S t ls \<longleftrightarrow> list_all (\<lambda>(c, v). case find_column S t c of None \<Rightarrow> False | Some col \<Rightarrow> allows v col) ls"

text \<open>A column that an insertion leaves out must accept \<open>NULL\<close> or have a default.\<close>

definition fills_itself :: "column \<Rightarrow> bool" where
  "fills_itself col \<longleftrightarrow> cl_type col = SERIAL \<or>
     list_ex (\<lambda>k. case k of Default _ \<Rightarrow> True | _ \<Rightarrow> False) (cl_constraints col) \<or>
     \<not> (Not_null \<in> set (cl_constraints col) \<or> Primary_key \<in> set (cl_constraints col))"

definition conflict_fits :: "schema \<Rightarrow> string \<Rightarrow> string list \<Rightarrow> bool" where
  "conflict_fits S t cs \<longleftrightarrow> cs = [] \<or>
     (case find_table S t of None \<Rightarrow> False | Some tb \<Rightarrow> tb_primary tb = cs) \<or> (case cs of [c] \<Rightarrow> is_key S t c | _ \<Rightarrow> False)"

fun fits :: "schema \<Rightarrow> statement \<Rightarrow> bool" where
  "fits S (Select src) \<longleftrightarrow> reads_fit S src"
| "fits S (Insert_into t cs ls conflict src) \<longleftrightarrow> reads_fit S ((t, cs) # src) \<and> literals_fit S t ls \<and> conflict_fits S t conflict \<and>
     (case find_table S t of None \<Rightarrow> False
      | Some tb \<Rightarrow> list_all (\<lambda>col. cl_name col \<in> set cs \<or> (fills_itself col \<and> cl_name col \<notin> set (tb_primary tb))) (tb_columns tb))"
| "fits S (Update_set t cs ls src) \<longleftrightarrow> reads_fit S ((t, cs) # src) \<and> literals_fit S t ls"
| "fits S (Truncate_tables ts) \<longleftrightarrow> list_all (\<lambda>t. find_table S t \<noteq> None) ts"

subsection \<open>internal/registry\<close>

definition sql_Register :: statement where
  "sql_Register = Insert_into ''nodes''
     [''node_id'', ''public_key'', ''ln_node_uri'', ''onion_address'', ''tier'', ''vram_gb'', ''ram_gb'', ''bandwidth_mbps'', ''reliability'', ''status'', ''registered_at'', ''supported_task_types'']
     [(''status'', ''pending'')] [''public_key''] [(''nodes'', [''tier'', ''status'', ''public_key'', ''node_id''])]"
definition sql_Activate :: statement where
  "sql_Activate = Update_set ''nodes'' [''status''] [] [(''nodes'', [''node_id'', ''status'', ''tier''])]"
definition sql_RecordHeartbeat :: statement where
  "sql_RecordHeartbeat = Update_set ''nodes'' [''last_heartbeat''] [] [(''nodes'', [''node_id'']), (''tasks'', [''assigned_node'', ''status''])]"
definition sql_log_heartbeat :: statement where
  "sql_log_heartbeat = Insert_into ''heartbeat_log''
     [''node_id'', ''recorded_at'']
     [] [] []"
definition sql_GetByPublicKey :: statement where
  "sql_GetByPublicKey = Select [(''nodes'', [''node_id'', ''public_key'', ''ln_node_uri'', ''onion_address'', ''tier'', ''vram_gb'', ''ram_gb'', ''bandwidth_mbps'',
       ''supported_task_types'', ''reliability'', ''total_tasks'', ''total_sats'', ''status'', ''registered_at'', ''last_heartbeat''])]"
definition sql_ListActive :: statement where
  "sql_ListActive = Select [(''nodes'', [''node_id'', ''public_key'', ''ln_node_uri'', ''onion_address'', ''tier'', ''vram_gb'', ''ram_gb'', ''bandwidth_mbps'',
       ''supported_task_types'', ''reliability'', ''total_tasks'', ''total_sats'', ''status'', ''registered_at'', ''last_heartbeat''])]"
definition sql_UpdateStatus_old :: statement where
  "sql_UpdateStatus_old = Select [(''nodes'', [''tier'', ''status'', ''node_id''])]"
definition sql_UpdateStatus :: statement where
  "sql_UpdateStatus = Update_set ''nodes'' [''status''] [] [(''nodes'', [''node_id''])]"
definition sql_registered_at :: statement where "sql_registered_at = Select [(''nodes'', [''registered_at'', ''node_id''])]"
definition sql_count_tasks :: statement where
  "sql_count_tasks = Select [(''tasks'', [''status'', ''assigned_node'', ''submitted_at''])]"
definition sql_count_heartbeats :: statement where
  "sql_count_heartbeats = Select [(''heartbeat_log'', [''node_id'', ''recorded_at''])]"
definition sql_UpdateReliability :: statement where
  "sql_UpdateReliability = Update_set ''nodes'' [''reliability'', ''total_tasks''] [] [(''nodes'', [''total_tasks'', ''node_id''])]"
definition sql_IsSuspended :: statement where
  "sql_IsSuspended = Select [(''nodes'', [''node_id'', ''public_key'']), (''slashing_events'', [''node_id'', ''cooldown_expires_at''])]"

subsection \<open>internal/stake\<close>

definition sql_PersistStake :: statement where
  "sql_PersistStake = Insert_into ''node_stakes''
     [''node_id'', ''channel_id'', ''channel_capacity'', ''local_balance'', ''tier_minimum'', ''bonus_multiplier'', ''stake_status'', ''last_verified_at'']
     [(''stake_status'', ''active'')] [''node_id''] [(''node_stakes'', [''degraded_since''])]"
definition sql_VerifyAllActive :: statement where
  "sql_VerifyAllActive = Select [(''nodes'', [''node_id'', ''public_key'', ''tier'', ''status'']), (''node_stakes'', [''channel_id'', ''tier_minimum'', ''node_id''])]"
definition sql_RecordMisbehaviorSignal :: statement where
  "sql_RecordMisbehaviorSignal = Insert_into ''misbehavior_signals''
     [''node_id'', ''signal_type'', ''evidence_hash'']
     [] [] [(''misbehavior_signals'', [''node_id'', ''slashing_event''])]"
definition sql_slash_channel :: statement where
  "sql_slash_channel = Select [(''node_stakes'', [''channel_id'', ''node_id''])]"
definition sql_slash_event :: statement where
  "sql_slash_event = Insert_into ''slashing_events''
     [''node_id'', ''channel_id'', ''tier'', ''reason'', ''evidence_hash'', ''signal_count'', ''cooldown_expires_at'', ''coordinator_sig'']
     [(''coordinator_sig'', ''pending'')] [] [(''slashing_events'', [''event_id''])]"
definition sql_suspend :: statement where
  "sql_suspend = Update_set ''nodes'' [''status''] [(''status'', ''suspended'')] [(''nodes'', [''node_id''])]"
definition sql_force_closed :: statement where
  "sql_force_closed = Update_set ''node_stakes'' [''stake_status''] [(''stake_status'', ''force_closed'')] [(''node_stakes'', [''node_id''])]"
definition sql_link_signals :: statement where
  "sql_link_signals = Update_set ''misbehavior_signals'' [''slashing_event''] [] [(''misbehavior_signals'', [''node_id'', ''slashing_event''])]"
definition sql_degrade_node :: statement where
  "sql_degrade_node = Update_set ''nodes'' [''status''] [(''status'', ''degraded'')] [(''nodes'', [''node_id'', ''status''])]"
definition sql_degrade_stake :: statement where
  "sql_degrade_stake = Update_set ''node_stakes'' [''stake_status'', ''degraded_since''] [(''stake_status'', ''degraded'')] [(''node_stakes'', [''node_id'', ''degraded_since''])]"

subsection \<open>internal/scheduler\<close>

definition sql_task_type :: statement where "sql_task_type = Select [(''tasks'', [''task_type'', ''task_id''])]"
definition sql_MarkComplete :: statement where
  "sql_MarkComplete = Update_set ''tasks'' [''status'', ''output_hash'', ''completed_at''] [(''status'', ''completed'')] [(''tasks'', [''task_id''])]"
definition sql_failed_task_type :: statement where "sql_failed_task_type = Select [(''tasks'', [''task_type'', ''task_id''])]"
definition sql_MarkFailed :: statement where
  "sql_MarkFailed = Update_set ''tasks'' [''status'', ''completed_at''] [(''status'', ''failed'')] [(''tasks'', [''task_id''])]"
definition sql_RequeueTimedOut :: statement where
  "sql_RequeueTimedOut = Update_set ''tasks'' [''status'', ''assigned_node'', ''started_at''] [(''status'', ''pending'')] [(''tasks'', [''status'', ''started_at'', ''timeout_seconds''])]"
definition sql_bonus_multiplier :: statement where
  "sql_bonus_multiplier = Select [(''node_stakes'', [''bonus_multiplier'', ''node_id''])]"
definition sql_persistAssignment :: statement where
  "sql_persistAssignment = Insert_into ''tasks''
     [''task_id'', ''task_type'', ''assigned_node'', ''node_ln_uri'', ''status'', ''input_hash'', ''reward_sats'', ''submitted_at'', ''started_at'', ''timeout_seconds'']
     [(''status'', ''running'')] [] []"

subsection \<open>internal/payment\<close>

definition sql_recover_payments :: statement where
  "sql_recover_payments = Select [(''tasks'', [''task_id'', ''node_ln_uri'', ''reward_sats'', ''payment_status'', ''status''])]"
definition sql_paid :: statement where
  "sql_paid = Update_set ''tasks'' [''payment_status'', ''payment_preimage''] [(''payment_status'', ''paid'')] [(''tasks'', [''task_id'', ''payment_status''])]"
definition sql_unpaid :: statement where
  "sql_unpaid = Update_set ''tasks'' [''payment_status''] [(''payment_status'', ''failed'')] [(''tasks'', [''task_id'', ''payment_status''])]"
definition sql_receipt_id :: statement where "sql_receipt_id = Select [(''tasks'', [''observer_receipt_id'', ''task_id''])]"
definition sql_store_receipt :: statement where
  "sql_store_receipt = Update_set ''tasks'' [''observer_receipt_id''] [] [(''tasks'', [''task_id''])]"

subsection \<open>internal/fl\<close>

definition sql_OpenRound :: statement where
  "sql_OpenRound = Insert_into ''fl_rounds''
     [''model_version'', ''status'', ''started_at'']
     [(''status'', ''open'')] [] [(''fl_rounds'', [''round_number''])]"
definition sql_round_of_submission :: statement where
  "sql_round_of_submission = Select [(''fl_rounds'', [''round_id'', ''status'', ''round_number''])]"
definition sql_SubmitGradient :: statement where
  "sql_SubmitGradient = Insert_into ''fl_participants''
     [''round_id'', ''node_id'', ''gradient_hash'', ''s3_url'']
     [] [''round_id'', ''node_id''] []"
definition sql_resolve_round :: statement where
  "sql_resolve_round = Select [(''fl_rounds'', [''round_id'', ''round_number''])]"
definition sql_count_participants :: statement where "sql_count_participants = Select [(''fl_participants'', [''round_id''])]"
definition sql_claim_round :: statement where
  "sql_claim_round = Update_set ''fl_rounds'' [''status''] [(''status'', ''aggregating'')] [(''fl_rounds'', [''round_number'', ''status''])]"
definition sql_CloseExpired :: statement where
  "sql_CloseExpired = Select [(''fl_rounds'', [''round_number'', ''status'', ''started_at''])]"
definition sql_GetRoundStatus :: statement where
  "sql_GetRoundStatus = Select [(''fl_rounds'', [''status'', ''round_number''])]"
definition sql_fetchGradientHashes :: statement where
  "sql_fetchGradientHashes = Select [(''fl_participants'', [''node_id'', ''gradient_hash'', ''s3_url'', ''round_id''])]"
definition sql_flag_participant :: statement where
  "sql_flag_participant = Update_set ''fl_participants'' [''anomaly_flagged''] [] [(''fl_participants'', [''round_id'', ''node_id''])]"
definition sql_node_weight :: statement where
  "sql_node_weight = Select [(''node_stakes'', [''bonus_multiplier'', ''node_id'']), (''nodes'', [''tier'', ''node_id''])]"
definition sql_completeRound :: statement where
  "sql_completeRound = Update_set ''fl_rounds'' [''status'', ''checkpoint_hash'', ''completed_at''] [(''status'', ''complete'')] [(''fl_rounds'', [''round_number''])]"
definition sql_stamp :: statement where
  "sql_stamp = Update_set ''fl_rounds'' [''ots_proof_path''] [] [(''fl_rounds'', [''round_number''])]"
definition sql_failRound :: statement where
  "sql_failRound = Update_set ''fl_rounds'' [''status''] [(''status'', ''failed'')] [(''fl_rounds'', [''round_number''])]"

subsection \<open>internal/rpc\<close>

definition sql_public_key :: statement where "sql_public_key = Select [(''nodes'', [''public_key'', ''node_id''])]"
definition sql_task_payment :: statement where
  "sql_task_payment = Select [(''tasks'', [''node_ln_uri'', ''reward_sats'', ''task_id''])]"
definition sql_current_model :: statement where "sql_current_model = Select [(''model_versions'', model_query_columns)]"
definition sql_list_models :: statement where "sql_list_models = Select [(''model_versions'', model_query_columns)]"
definition sql_count_models :: statement where "sql_count_models = Select [(''model_versions'', [])]"
definition sql_stake_status :: statement where
  "sql_stake_status = Select [(''node_stakes'', [''channel_id'', ''capacity_sats'', ''local_balance_sats'', ''bonus_multiplier'', ''status'', ''last_verified_at'', ''node_id'']), (''nodes'', [''tier'', ''node_id''])]"

subsection \<open>internal/http\<close>

definition sql_pool_status :: statement where
  "sql_pool_status = Select [(''nodes'', [''node_id'', ''tier'', ''status'', ''public_key''])]"

subsection \<open>internal/testutil\<close>

definition sql_TruncateAll :: statement where
  "sql_TruncateAll = Truncate_tables [''misbehavior_signals'', ''slashing_events'', ''node_stakes'', ''fl_participants'', ''model_versions'', ''bounties'', ''tasks'', ''fl_rounds'', ''nodes'']"

definition served_statements :: "statement list" where
  "served_statements =
   [sql_Register, sql_Activate, sql_RecordHeartbeat, sql_log_heartbeat, sql_GetByPublicKey, sql_ListActive,
     sql_UpdateStatus_old, sql_UpdateStatus, sql_registered_at, sql_count_tasks, sql_count_heartbeats,
     sql_UpdateReliability, sql_IsSuspended, sql_PersistStake, sql_VerifyAllActive, sql_RecordMisbehaviorSignal,
     sql_slash_channel, sql_slash_event, sql_suspend, sql_force_closed, sql_link_signals, sql_degrade_node,
     sql_degrade_stake, sql_task_type, sql_MarkComplete, sql_failed_task_type, sql_MarkFailed, sql_RequeueTimedOut,
     sql_bonus_multiplier, sql_persistAssignment, sql_recover_payments, sql_paid, sql_unpaid, sql_receipt_id,
     sql_store_receipt, sql_OpenRound, sql_round_of_submission, sql_SubmitGradient, sql_resolve_round,
     sql_count_participants, sql_claim_round, sql_CloseExpired, sql_GetRoundStatus, sql_fetchGradientHashes,
     sql_flag_participant, sql_node_weight, sql_completeRound, sql_stamp, sql_failRound, sql_public_key,
     sql_task_payment, sql_count_models, sql_pool_status, sql_TruncateAll]"

definition refused_statements :: "statement list" where
  "refused_statements = [sql_current_model, sql_list_models, sql_stake_status]"

section \<open>What the migrations promise\<close>

definition check_of :: "schema \<Rightarrow> string \<Rightarrow> string \<Rightarrow> string list option" where
  "check_of S t c = (case find_column S t c of None \<Rightarrow> None
     | Some col \<Rightarrow> (case List.map_filter (\<lambda>k. case k of Check_in vs \<Rightarrow> Some vs | _ \<Rightarrow> None) (cl_constraints col) of [vs] \<Rightarrow> Some vs | _ \<Rightarrow> None))"

definition type_of :: "schema \<Rightarrow> string \<Rightarrow> string \<Rightarrow> sql_type option" where
  "type_of S t c = map_option cl_type (find_column S t c)"

text \<open>The tables of a coordinator that runs: those of the \<open>CREATE\<close> statements with the later changes.\<close>

definition deployed :: schema where
  "deployed = \<lparr>sc_tables =
     [nodes_table\<lparr>tb_columns := tb_columns nodes_table @
        [Column ''supported_task_types'' TEXT_ARRAY [Not_null, Default (Literal ''{}'')]]\<rparr>,
      node_stakes_table,
      tasks_table\<lparr>tb_columns := tb_columns tasks_table @ [Column ''observer_receipt_id'' TEXT []]\<rparr>,
      fl_rounds_table\<lparr>tb_columns := map (\<lambda>col. if cl_name col = ''round_number''
        then Column ''round_number'' INTEGER [Not_null, Unique, Default (Nextval ''fl_round_number_seq'')] else col)
        (tb_columns fl_rounds_table)\<rparr>,
      fl_participants_table, model_versions_table, slashing_events_table, misbehavior_signals_table, bounties_table,
      heartbeat_log_table],
     sc_indexes = concat (map (\<lambda>d. case d of Create_index ix \<Rightarrow> [ix] | _ \<Rightarrow> []) (add_indexes_up @ heartbeat_log_up)),
     sc_sequences = [(''fl_round_number_seq'', Some (''fl_rounds'', ''round_number''))]\<rparr>"

lemma schema_11: "schema_at 11 = Inr deployed"
  by code_simp

text \<open>
  C39 (the statements fit the schema). The migrations run in order without an error, and every statement of the
  code fits the tables they leave: the tables and columns that it names exist, each literal it writes
  passes the check of its column, an insertion supplies every column that is required and has no
  default, and its conflict target is a key. Only the statements of \<open>GetCurrentModel\<close>,
  \<open>ListModelVersions\<close> and \<open>GetStakeStatus\<close> do not fit. Each of the last four migrations is needed:
  the storing of receipts from version 8 on, \<open>OpenRound\<close> from 9 on (without the default its
  insertion lacks the round number), \<open>ListActive\<close> from 10 on, the heartbeat log from 11 on.
\<close>

theorem schema_serves_code:
  "schema_at 11 = Inr deployed \<and> list_all (fits deployed) served_statements \<and> \<not> list_ex (fits deployed) refused_statements \<and>
   map (\<lambda>S. map (fits S) [sql_store_receipt, sql_OpenRound, sql_ListActive, sql_log_heartbeat])
     (drop 7 (versions migrations_up empty_schema)) =
   [[False, False, False, False], [True, False, False, False], [True, True, False, False], [True, True, True, False],
    [True, True, True, True]]"
proof (intro conjI)
  show "schema_at 11 = Inr deployed" by (rule schema_11)
qed code_simp+

text \<open>
  C40 (migrations undone). Every \<open>down\<close> file restores exactly the schema that its \<open>up\<close> file found, all of them in
  reverse order leave nothing, and the \<open>up\<close> files change nothing when they run again on the tables
  they made. The exception is 000007: on a new database its \<open>up\<close> file does nothing, since 000001
  already creates \<open>onion_address\<close>, but its \<open>down\<close> file drops the column.
\<close>

theorem migrations_roundtrip:
  "undone migrations_up migrations_down empty_schema = map (\<lambda>k. k \<noteq> 6) [0..<11] \<and>
   run_files (rev migrations_down) deployed = Inr empty_schema \<and> run_files migrations_up deployed = Inr deployed \<and>
   schema_at 7 = schema_at 6 \<and>
   (case run_file add_onion_address_down deployed of Inl _ \<Rightarrow> False
    | Inr S \<Rightarrow> ''onion_address'' \<in> set (columns_of deployed ''nodes'') \<and> ''onion_address'' \<notin> set (columns_of S ''nodes''))"
proof (intro conjI)
  show "schema_at 7 = schema_at 6" by code_simp
qed code_simp+

text \<open>The tables are the ones that the model assumes: checks, the scales of the \<open>NUMERIC\<close> columns, and columns.\<close>

lemma schema_matches_model:
  "check_of deployed ''nodes'' ''tier'' = Some tiers \<and> check_of deployed ''nodes'' ''status'' = Some node_statuses \<and>
     check_of deployed ''tasks'' ''status'' = Some task_statuses \<and> check_of deployed ''tasks'' ''payment_status'' = Some payment_statuses \<and>
     check_of deployed ''fl_rounds'' ''status'' = Some round_statuses \<and>
     map (type_of deployed ''nodes'') [''vram_gb'', ''ram_gb'', ''bandwidth_mbps'', ''reliability''] =
       map Some [NUMERIC 6 2, NUMERIC 6 2, NUMERIC 8 2, NUMERIC 5 4] \<and>
     type_of deployed ''node_stakes'' ''bonus_multiplier'' = Some (NUMERIC 4 3) \<and>
     columns_of deployed ''model_versions'' = model_versions_columns \<and> columns_of deployed ''node_stakes'' = node_stakes_columns"
  by code_simp

end
