(* ===== verification/Conformance.thy ===== *)
theory Conformance
  imports Concurrency Schema
begin

text \<open>
  The rows of the running coordinator against the catalogue of \<open>Schema\<close>. Every state that the machine of
  \<open>Concurrency\<close> reaches, statement by statement and across restarts, is one that the deployed tables
  admit: types, \<open>NOT NULL\<close>, \<open>CHECK\<close>, \<open>UNIQUE\<close>, primary and foreign keys. A statement that would break a
  constraint must fail in the model, as it does in PostgreSQL; what is checked here is that none is missed.
\<close>

section \<open>Rows as the tables hold them\<close>

datatype cell =
    Null | Uuid_val uuid | Text_val string | Number_val int | Numeric_val flt | Bool_val bool | Time_val int | Array_val "string list"

type_synonym cells = "(string \<times> cell) list"

fun nullable :: "('a \<Rightarrow> cell) \<Rightarrow> 'a option \<Rightarrow> cell" where
  "nullable f None = Null"
| "nullable f (Some x) = f x"

definition node_cells :: "node \<Rightarrow> cells" where
  "node_cells n = [(''node_id'', Uuid_val (NodeID n)), (''public_key'', Text_val (PublicKey n)), (''ln_node_uri'', Text_val (LNNodeURI n)),
     (''onion_address'', Text_val (OnionAddress n)), (''tier'', Text_val (Tier n)), (''vram_gb'', Numeric_val (VRAMGB n)),
     (''ram_gb'', Numeric_val (RAMGB n)), (''bandwidth_mbps'', Numeric_val (BandwidthMbps n)),
     (''reliability'', Numeric_val (Reliability n)), (''total_tasks'', Number_val (TotalTasks n)),
     (''total_sats'', Number_val (TotalSats n)), (''status'', Text_val (Status n)), (''registered_at'', Time_val (RegisteredAt n)),
     (''last_heartbeat'', nullable Time_val (LastHeartbeat n)), (''supported_task_types'', Array_val (SupportedTaskTypes n))]"

definition stake_cells :: "stake_row \<Rightarrow> cells" where
  "stake_cells s = [(''node_id'', Uuid_val (st_node s)), (''channel_id'', Text_val (st_channel_id s)),
     (''channel_capacity'', Number_val (st_capacity s)), (''local_balance'', Number_val (st_local_balance s)),
     (''tier_minimum'', Number_val (st_tier_minimum s)), (''bonus_multiplier'', Numeric_val (st_bonus s)),
     (''stake_status'', Text_val (st_status s)), (''last_verified_at'', Time_val (st_last_verified s)),
     (''degraded_since'', nullable Time_val (st_degraded_since s))]"

definition task_cells :: "task_row \<Rightarrow> cells" where
  "task_cells t = [(''task_id'', Uuid_val (tk_id t)), (''task_type'', Text_val (tk_type t)),
     (''assigned_node'', nullable Uuid_val (tk_assigned t)), (''node_ln_uri'', nullable Text_val (tk_ln_uri t)),
     (''status'', Text_val (tk_status t)), (''input_hash'', Text_val (tk_input_hash t)),
     (''output_hash'', nullable Text_val (tk_output_hash t)), (''reward_sats'', Number_val (tk_reward t)),
     (''payment_status'', Text_val (tk_payment_status t)), (''payment_preimage'', nullable Text_val (tk_preimage t)),
     (''submitted_at'', Time_val (tk_submitted t)), (''started_at'', nullable Time_val (tk_started t)),
     (''completed_at'', nullable Time_val (tk_completed t)), (''timeout_seconds'', Number_val (tk_timeout t)),
     (''observer_receipt_id'', nullable Text_val (tk_receipt_id t))]"

definition round_cells :: "round_row \<Rightarrow> cells" where
  "round_cells r = [(''round_id'', Number_val (rd_id r)), (''round_number'', Number_val (rd_number r)), (''status'', Text_val (rd_status r)),
     (''model_version'', Text_val (rd_model_version r)), (''checkpoint_hash'', nullable Text_val (rd_checkpoint r)),
     (''ots_proof_path'', nullable Text_val (rd_ots r)), (''started_at'', Time_val (rd_started r)),
     (''completed_at'', nullable Time_val (rd_completed r))]"

definition participant_cells :: "participant_row \<Rightarrow> cells" where
  "participant_cells p = [(''round_id'', Number_val (pt_round p)), (''node_id'', Uuid_val (pt_node p)),
     (''gradient_hash'', Text_val (pt_hash p)), (''s3_url'', Text_val (pt_s3_url p)), (''anomaly_flagged'', Bool_val (pt_flagged p))]"

definition slashing_cells :: "slash_row \<Rightarrow> cells" where
  "slashing_cells s = [(''event_id'', Uuid_val (sl_id s)), (''node_id'', Uuid_val (sl_node s)), (''channel_id'', Text_val (sl_channel s)),
     (''tier'', Text_val (sl_tier s)), (''reason'', Text_val (sl_reason s)), (''evidence_hash'', Text_val (sl_evidence s)),
     (''signal_count'', Number_val (sl_signal_count s)), (''cooldown_expires_at'', Time_val (sl_cooldown s)),
     (''coordinator_sig'', Text_val ''pending'')]"

definition signal_cells :: "signal_row \<Rightarrow> cells" where
  "signal_cells g = [(''node_id'', Uuid_val (sg_node g)), (''signal_type'', Text_val (sg_type g)),
     (''evidence_hash'', Text_val (sg_evidence g)), (''slashing_event'', nullable Uuid_val (sg_event g))]"

fun heartbeat_cells :: "uuid \<times> int \<Rightarrow> cells" where
  "heartbeat_cells (nid, t) = [(''node_id'', Uuid_val nid), (''recorded_at'', Time_val t)]"

text \<open>No statement of the Go code writes the last two tables.\<close>

definition contents :: "world \<Rightarrow> (string \<times> cells list) list" where
  "contents w = [(''nodes'', map node_cells (w_nodes w)), (''node_stakes'', map stake_cells (w_stakes w)),
     (''tasks'', map task_cells (w_tasks w)), (''fl_rounds'', map round_cells (w_rounds w)),
     (''fl_participants'', map participant_cells (w_participants w)), (''slashing_events'', map slashing_cells (w_slashings w)),
     (''misbehavior_signals'', map signal_cells (w_signals w)), (''heartbeat_log'', map heartbeat_cells (w_heartbeats w)),
     (''model_versions'', []), (''bounties'', [])]"

section \<open>What a catalogue admits\<close>

text \<open>\<open>NUMERIC(p, s)\<close> holds \<open>NaN\<close> and the numbers with at most \<open>p - s\<close> digits before the point.\<close>

definition numeric_holds :: "nat \<Rightarrow> nat \<Rightarrow> flt \<Rightarrow> bool" where
  "numeric_holds p s x \<longleftrightarrow> (case x of Fin r \<Rightarrow> \<bar>r\<bar> < 10 ^ (p - s) | NaN \<Rightarrow> True | _ \<Rightarrow> False)"

fun of_type :: "sql_type \<Rightarrow> cell \<Rightarrow> bool" where
  "of_type t Null = True"
| "of_type UUID (Uuid_val u) = True"
| "of_type TEXT (Text_val x) = True"
| "of_type TEXT_ARRAY (Array_val xs) = True"
| "of_type (NUMERIC p s) (Numeric_val x) = numeric_holds p s x"
| "of_type INTEGER (Number_val i) = in_int32 i"
| "of_type SERIAL (Number_val i) = in_int32 i"
| "of_type BIGINT (Number_val i) = in_int64 i"
| "of_type BOOLEAN (Bool_val b) = True"
| "of_type TIMESTAMPTZ (Time_val t) = True"
| "of_type _ _ = False"

definition column_values :: "string \<Rightarrow> cells list \<Rightarrow> cell list" where
  "column_values c rows = filter (\<lambda>v. v \<noteq> Null) (List.map_filter (\<lambda>r. map_of r c) rows)"

definition table_rows :: "(string \<times> cells list) list \<Rightarrow> string \<Rightarrow> cells list" where
  "table_rows db t = (case map_of db t of None \<Rightarrow> [] | Some rows \<Rightarrow> rows)"

text \<open>A condition on the cells of a column.\<close>

definition all_cells :: "(cell \<Rightarrow> bool) \<Rightarrow> string \<Rightarrow> cells list \<Rightarrow> bool" where
  "all_cells P c rows \<longleftrightarrow> list_all (\<lambda>r. case map_of r c of None \<Rightarrow> True | Some v \<Rightarrow> P v) rows"

fun constraint_holds :: "(string \<times> cells list) list \<Rightarrow> string \<Rightarrow> cells list \<Rightarrow> sql_constraint \<Rightarrow> bool" where
  "constraint_holds db c rows Primary_key = (all_cells (\<lambda>v. v \<noteq> Null) c rows \<and> distinct (column_values c rows))"
| "constraint_holds db c rows Not_null = all_cells (\<lambda>v. v \<noteq> Null) c rows"
| "constraint_holds db c rows Unique = distinct (column_values c rows)"
| "constraint_holds db c rows (Check_in vs) = all_cells (\<lambda>v. v \<in> set (Null # map Text_val vs)) c rows"
| "constraint_holds db c rows (References t k) = all_cells (\<lambda>v. v \<in> set (Null # column_values k (table_rows db t))) c rows"
| "constraint_holds db c rows _ = True"

definition column_admits :: "(string \<times> cells list) list \<Rightarrow> cells list \<Rightarrow> column \<Rightarrow> bool" where
  "column_admits db rows col \<longleftrightarrow> all_cells (of_type (cl_type col)) (cl_name col) rows \<and>
     list_all (constraint_holds db (cl_name col) rows) (cl_constraints col)"

text \<open>A row has only columns of its table; a key of the table is not \<open>NULL\<close> in any part.\<close>

definition key_admits :: "string list \<Rightarrow> cells list \<Rightarrow> bool" where
  "key_admits ks rows \<longleftrightarrow> ks = [] \<or>
     (list_all (\<lambda>r. list_all (\<lambda>k. map_of r k \<notin> {None, Some Null}) ks) rows \<and> distinct (map (\<lambda>r. map (map_of r) ks) rows))"

definition table_admits :: "(string \<times> cells list) list \<Rightarrow> table \<Rightarrow> bool" where
  "table_admits db tb \<longleftrightarrow> (let rows = table_rows db (tb_name tb) in
     list_all (\<lambda>r. set (map fst r) \<subseteq> set (map cl_name (tb_columns tb))) rows \<and>
     list_all (column_admits db rows) (tb_columns tb) \<and> key_admits (tb_primary tb) rows)"

definition admits :: "schema \<Rightarrow> (string \<times> cells list) list \<Rightarrow> bool" where
  "admits S db \<longleftrightarrow> set (map fst db) \<subseteq> set (map tb_name (sc_tables S)) \<and> list_all (table_admits db) (sc_tables S)"

section \<open>The invariant\<close>

text \<open>The identifiers that foreign keys refer to, and what each row asks of them.\<close>

definition node_ids :: "world \<Rightarrow> uuid set" where "node_ids w = NodeID ` set (w_nodes w)"
definition round_ids :: "world \<Rightarrow> int set" where "round_ids w = rd_id ` set (w_rounds w)"
definition event_ids :: "world \<Rightarrow> uuid set" where "event_ids w = sl_id ` set (w_slashings w)"

definition node_holds :: "node \<Rightarrow> bool" where
  "node_holds n \<longleftrightarrow> in_int32 (TotalTasks n) \<and> in_int64 (TotalSats n) \<and> numeric_holds 6 2 (VRAMGB n) \<and>
     numeric_holds 6 2 (RAMGB n) \<and> numeric_holds 8 2 (BandwidthMbps n)"

definition stake_statuses :: "string list" where "stake_statuses = [''active'', ''degraded'', ''force_closed'']"

definition stake_holds :: "uuid set \<Rightarrow> stake_row \<Rightarrow> bool" where
  "stake_holds N s \<longleftrightarrow> st_node s \<in> N \<and> st_status s \<in> set stake_statuses \<and> in_int64 (st_capacity s) \<and>
     in_int64 (st_local_balance s) \<and> in_int64 (st_tier_minimum s)"

definition task_holds :: "uuid set \<Rightarrow> task_row \<Rightarrow> bool" where
  "task_holds N t \<longleftrightarrow> set_option (tk_assigned t) \<subseteq> N \<and> in_int32 (tk_timeout t)"

definition round_holds :: "round_row \<Rightarrow> bool" where
  "round_holds r \<longleftrightarrow> in_int32 (rd_id r) \<and> in_int32 (rd_number r)"

definition participant_holds :: "uuid set \<Rightarrow> int set \<Rightarrow> participant_row \<Rightarrow> bool" where
  "participant_holds N R p \<longleftrightarrow> pt_node p \<in> N \<and> pt_round p \<in> R"

definition slashing_holds :: "uuid set \<Rightarrow> slash_row \<Rightarrow> bool" where
  "slashing_holds N s \<longleftrightarrow> sl_node s \<in> N \<and> in_int32 (sl_signal_count s)"

definition signal_holds :: "uuid set \<Rightarrow> uuid set \<Rightarrow> signal_row \<Rightarrow> bool" where
  "signal_holds N V g \<longleftrightarrow> sg_node g \<in> N \<and> set_option (sg_event g) \<subseteq> V"

definition stakes_hold :: "uuid set \<Rightarrow> stake_row list \<Rightarrow> bool" where
  "stakes_hold N ss \<longleftrightarrow> keyed st_node ss \<and> keyed st_channel_id ss \<and> list_all (stake_holds N) ss"

definition slashings_hold :: "uuid set \<Rightarrow> slash_row list \<Rightarrow> bool" where
  "slashings_hold N es \<longleftrightarrow> keyed sl_id es \<and> list_all (slashing_holds N) es"

definition rows_hold :: "world \<Rightarrow> bool" where
  "rows_hold w \<longleftrightarrow> list_all node_holds (w_nodes w) \<and> stakes_hold (node_ids w) (w_stakes w) \<and>
     list_all (task_holds (node_ids w)) (w_tasks w) \<and> list_all round_holds (w_rounds w) \<and>
     list_all (participant_holds (node_ids w) (round_ids w)) (w_participants w) \<and> slashings_hold (node_ids w) (w_slashings w) \<and>
     list_all (signal_holds (node_ids w) (event_ids w)) (w_signals w) \<and> list_all (\<lambda>h. fst h \<in> node_ids w) (w_heartbeats w)"

lemmas row_holds_defs = node_holds_def stake_holds_def task_holds_def round_holds_def participant_holds_def slashing_holds_def signal_holds_def

lemmas cells_defs = node_cells_def stake_cells_def task_cells_def round_cells_def participant_cells_def slashing_cells_def signal_cells_def

text \<open>With the invariant of the coordinator it is all that the deployed tables ask.\<close>

lemma column_values_plain:
  assumes "\<And>r. map_of (f r) c = Some (g r)" "\<And>r. g r \<noteq> Null"
  shows "column_values c (map f rs) = map g rs"
  using assms by (induction rs) (simp_all add: column_values_def List.map_filter_simps)

lemma key_columns:
  "column_values ''node_id'' (map node_cells ns) = map (\<lambda>n. Uuid_val (NodeID n)) ns"
  "column_values ''public_key'' (map node_cells ns) = map (\<lambda>n. Text_val (PublicKey n)) ns"
  "column_values ''node_id'' (map stake_cells ss) = map (\<lambda>s. Uuid_val (st_node s)) ss"
  "column_values ''channel_id'' (map stake_cells ss) = map (\<lambda>s. Text_val (st_channel_id s)) ss"
  "column_values ''task_id'' (map task_cells ts) = map (\<lambda>t. Uuid_val (tk_id t)) ts"
  "column_values ''round_id'' (map round_cells rs) = map (\<lambda>r. Number_val (rd_id r)) rs"
  "column_values ''round_number'' (map round_cells rs) = map (\<lambda>r. Number_val (rd_number r)) rs"
  "column_values ''event_id'' (map slashing_cells es) = map (\<lambda>s. Uuid_val (sl_id s)) es"
  by (rule column_values_plain; simp add: cells_defs)+

lemma no_signal_id: "column_values ''signal_id'' (map signal_cells gs) = []"
  by (induction gs) (simp_all add: column_values_def List.map_filter_simps cells_defs)

lemma distinct_keys:
  "distinct (map (\<lambda>r. Uuid_val (g r)) rs) \<longleftrightarrow> keyed g rs" "distinct (map (\<lambda>r. Text_val (h r)) rs) \<longleftrightarrow> keyed h rs"
  "distinct (map (\<lambda>r. Number_val (k r)) rs) \<longleftrightarrow> keyed k rs"
  by (induction rs) (auto simp: keyed_def)

lemma all_cells_map: "all_cells P c (map f rs) \<longleftrightarrow> list_all (\<lambda>r. case map_of (f r) c of None \<Rightarrow> True | Some v \<Rightarrow> P v) rs"
  by (simp add: all_cells_def list.pred_map comp_def)

lemma nullable_cells: "of_type t (nullable f x) \<longleftrightarrow> (\<forall>y\<in>set_option x. of_type t (f y))"
  "nullable f x = Null \<longleftrightarrow> (\<forall>y\<in>set_option x. f y = Null)"
  by (cases x; simp)+

lemma nullable_reference: "nullable Uuid_val k \<in> (\<lambda>r. Uuid_val (g r)) ` R \<longleftrightarrow> (\<exists>y. k = Some y \<and> y \<in> g ` R)"
  by (cases k) auto

lemma table_rows_simps [simp]:
  "table_rows (contents w) ''nodes'' = map node_cells (w_nodes w)" "table_rows (contents w) ''node_stakes'' = map stake_cells (w_stakes w)"
  "table_rows (contents w) ''tasks'' = map task_cells (w_tasks w)" "table_rows (contents w) ''fl_rounds'' = map round_cells (w_rounds w)"
  "table_rows (contents w) ''fl_participants'' = map participant_cells (w_participants w)"
  "table_rows (contents w) ''slashing_events'' = map slashing_cells (w_slashings w)"
  "table_rows (contents w) ''misbehavior_signals'' = map signal_cells (w_signals w)"
  "table_rows (contents w) ''heartbeat_log'' = map heartbeat_cells (w_heartbeats w)"
  "table_rows (contents w) ''model_versions'' = []" "table_rows (contents w) ''bounties'' = []"
  by (simp_all add: table_rows_def contents_def)

lemma bounded_numeric: "bonus_ok x \<Longrightarrow> numeric_holds 4 3 x" "unit_flt x \<Longrightarrow> numeric_holds 5 4 x"
  by (auto simp: bonus_ok_def unit_flt_def numeric_holds_def split: flt.splits)

lemmas admits_simps = table_admits_def column_admits_def all_cells_map key_columns distinct_keys key_admits_def Let_def

lemmas cell_simps = cells_defs list_all_iff row_holds_defs nullable_cells nullable_reference

lemma nodes_admitted:
  assumes "nodes_ok (w_nodes w)" "list_all node_holds (w_nodes w)"
  shows "table_admits (contents w) (nodes_table\<lparr>tb_columns := tb_columns nodes_table @
        [Column ''supported_task_types'' TEXT_ARRAY [Not_null, Default (Literal ''{}'')]]\<rparr>)"
  using assms by (simp add: admits_simps nodes_table_def nodes_ok_def)
    (auto simp: cell_simps node_ok_def tiers_def node_statuses_def bounded_numeric)

lemma stakes_admitted:
  assumes "stakes_ok (w_stakes w)" "stakes_hold (node_ids w) (w_stakes w)"
  shows "table_admits (contents w) node_stakes_table"
  using assms by (simp add: admits_simps node_stakes_table_def stakes_hold_def)
    (auto simp: cell_simps stakes_ok_def stake_statuses_def node_ids_def bounded_numeric)

lemma tasks_admitted:
  assumes "tasks_ok (w_tasks w)" "list_all (task_holds (node_ids w)) (w_tasks w)"
  shows "table_admits (contents w) (tasks_table\<lparr>tb_columns := tb_columns tasks_table @ [Column ''observer_receipt_id'' TEXT []]\<rparr>)"
  using assms by (simp add: admits_simps tasks_table_def tasks_ok_def)
    (auto simp: cell_simps task_ok_def task_statuses_def payment_statuses_def node_ids_def subset_iff)

lemma rounds_admitted:
  assumes "fl_ok w" "list_all round_holds (w_rounds w)"
  shows "table_admits (contents w) (fl_rounds_table\<lparr>tb_columns := map (\<lambda>col. if cl_name col = ''round_number''
        then Column ''round_number'' INTEGER [Not_null, Unique, Default (Nextval ''fl_round_number_seq'')] else col)
        (tb_columns fl_rounds_table)\<rparr>)"
  using assms by (simp add: admits_simps fl_rounds_table_def fl_ok_def)
    (auto simp: cell_simps round_ok_def round_statuses_def)

lemma participants_admitted:
  assumes "fl_ok w" "list_all round_holds (w_rounds w)" "list_all (participant_holds (node_ids w) (round_ids w)) (w_participants w)"
  shows "table_admits (contents w) fl_participants_table"
  using assms by (simp add: admits_simps fl_participants_table_def fl_ok_def keyed_def distinct_map)
    (auto simp: cell_simps node_ids_def round_ids_def inj_on_def)

lemma slashings_admitted:
  assumes "slashings_hold (node_ids w) (w_slashings w)"
  shows "table_admits (contents w) slashing_events_table"
  using assms by (simp add: admits_simps slashing_events_table_def slashings_hold_def)
    (auto simp: cell_simps node_ids_def)

lemma signals_admitted:
  assumes "list_all (signal_holds (node_ids w) (event_ids w)) (w_signals w)"
  shows "table_admits (contents w) misbehavior_signals_table"
  using assms by (simp add: admits_simps misbehavior_signals_table_def no_signal_id)
    (auto simp: cell_simps node_ids_def event_ids_def subset_iff)

lemma heartbeats_admitted:
  assumes "list_all (\<lambda>h. fst h \<in> node_ids w) (w_heartbeats w)"
  shows "table_admits (contents w) heartbeat_log_table"
  using assms by (simp add: admits_simps heartbeat_log_table_def)
    (auto simp: cell_simps node_ids_def)

lemma sys_admits:
  assumes "sys_ok E (A, w)" "rows_hold w"
  shows "admits deployed (contents w)"
proof -
  have unused: "table_admits (contents w) model_versions_table" "table_admits (contents w) bounties_table"
    by (simp_all add: table_admits_def column_admits_def model_versions_table_def bounties_table_def key_admits_def all_cells_def column_values_def List.map_filter_simps)
  have "list_all (table_admits (contents w)) (sc_tables deployed)"
    using assms unused nodes_admitted stakes_admitted tasks_admitted rounds_admitted participants_admitted slashings_admitted
      signals_admitted heartbeats_admitted by (simp add: deployed_def sys_ok_def rows_hold_def pay_ok_def)
  moreover have "set (map fst (contents w)) \<subseteq> set (map tb_name (sc_tables deployed))"
    by (simp add: contents_def deployed_def) (simp add: nodes_table_def node_stakes_table_def tasks_table_def fl_rounds_table_def
      fl_participants_table_def model_versions_table_def slashing_events_table_def misbehavior_signals_table_def bounties_table_def heartbeat_log_table_def)
  ultimately show ?thesis by (simp add: admits_def)
qed

section \<open>What statements keep\<close>

text \<open>
  No row that can be referred to disappears: identifiers only come, so a foreign key that holds keeps
  holding. A world is kept when that is so and the rows still hold.
\<close>

definition tables where
  "tables w = (w_nodes w, w_stakes w, w_tasks w, w_rounds w, w_participants w, w_slashings w, w_signals w, w_heartbeats w)"

definition extends :: "world \<Rightarrow> world \<Rightarrow> bool" where
  "extends w w' \<longleftrightarrow> node_ids w \<subseteq> node_ids w' \<and> round_ids w \<subseteq> round_ids w' \<and> event_ids w \<subseteq> event_ids w'"

definition kept :: "world \<Rightarrow> world \<Rightarrow> bool" where
  "kept w w' \<longleftrightarrow> extends w w' \<and> (rows_hold w \<longrightarrow> rows_hold w')"

lemma kept_trans: "kept w v \<Longrightarrow> kept v u \<Longrightarrow> kept w u"
  by (auto simp: kept_def extends_def)

lemma tables_simps [simp]:
  "tables (db_tick w) = tables w" "tables (counter_inc m ls w) = tables w" "tables (nodes_gauge_add tr st d w) = tables w"
  "tables (publish ch p w) = tables w" "tables (w\<lparr>w_now := t\<rparr>) = tables w" "tables (w\<lparr>w_faults := fs\<rparr>) = tables w"
  "tables (w\<lparr>w_receipts := a\<rparr>) = tables w" "tables (w\<lparr>w_stamps := b\<rparr>) = tables w" "tables (w\<lparr>w_queue := c\<rparr>) = tables w"
  "tables (w\<lparr>w_sent := e\<rparr>) = tables w" "tables (w\<lparr>w_paid_sats := k\<rparr>) = tables w" "tables (w\<lparr>w_s3 := g\<rparr>) = tables w"
  by (simp_all add: tables_def publish_def)

lemma kept_same: "tables w' = tables w \<Longrightarrow> kept w w'"
  by (auto simp: kept_def extends_def tables_def rows_hold_def node_ids_def round_ids_def event_ids_def)

lemma kept_refl [simp]: "kept w w" "kept w (db_tick w)"
  by (simp_all add: kept_same)

lemma kept_cong: "tables v = tables w \<Longrightarrow> tables v' = tables w' \<Longrightarrow> kept v v' = kept w w'"
  by (simp add: kept_def extends_def tables_def rows_hold_def node_ids_def round_ids_def event_ids_def)

lemma kept_frame [simp]:
  "kept w (db_tick v) = kept w v" "kept (db_tick w) v = kept w v" "kept w (counter_inc m ls v) = kept w v"
  "kept w (nodes_gauge_add tr st d v) = kept w v" "kept w (publish ch p v) = kept w v"
  "kept w (v\<lparr>w_stamps := b\<rparr>) = kept w v" "kept w (v\<lparr>w_queue := c\<rparr>) = kept w v" "kept w (v\<lparr>w_sent := e\<rparr>) = kept w v"
  "kept w (v\<lparr>w_receipts := a\<rparr>) = kept w v" "kept w (v\<lparr>w_paid_sats := k\<rparr>) = kept w v" "kept w (v\<lparr>w_s3 := g\<rparr>) = kept w v"
  "kept (w\<lparr>w_receipts := a\<rparr>) v = kept w v" "kept (w\<lparr>w_stamps := b\<rparr>) v = kept w v"
  by (rule kept_cong; simp)+

lemma holds_mono:
  "N \<subseteq> N' \<Longrightarrow> stakes_hold N ss \<Longrightarrow> stakes_hold N' ss" "N \<subseteq> N' \<Longrightarrow> list_all (task_holds N) ts \<Longrightarrow> list_all (task_holds N') ts"
  "N \<subseteq> N' \<Longrightarrow> R \<subseteq> R' \<Longrightarrow> list_all (participant_holds N R) ps \<Longrightarrow> list_all (participant_holds N' R') ps"
  "N \<subseteq> N' \<Longrightarrow> slashings_hold N es \<Longrightarrow> slashings_hold N' es"
  "N \<subseteq> N' \<Longrightarrow> V \<subseteq> V' \<Longrightarrow> list_all (signal_holds N V) gs \<Longrightarrow> list_all (signal_holds N' V') gs"
  "N \<subseteq> N' \<Longrightarrow> list_all (\<lambda>h. fst h \<in> N) hs \<Longrightarrow> list_all (\<lambda>h. fst h \<in> N') hs"
  by (auto simp: stakes_hold_def slashings_hold_def row_holds_defs list_all_iff)

lemma keptI:
  assumes "node_ids w \<subseteq> node_ids w'" "round_ids w \<subseteq> round_ids w'" "event_ids w \<subseteq> event_ids w'"
    and "rows_hold w \<Longrightarrow> list_all node_holds (w_nodes w') \<and> stakes_hold (node_ids w') (w_stakes w') \<and>
      list_all (task_holds (node_ids w')) (w_tasks w') \<and> list_all round_holds (w_rounds w') \<and>
      list_all (participant_holds (node_ids w') (round_ids w')) (w_participants w') \<and> slashings_hold (node_ids w') (w_slashings w') \<and>
      list_all (signal_holds (node_ids w') (event_ids w')) (w_signals w') \<and> list_all (\<lambda>h. fst h \<in> node_ids w') (w_heartbeats w')"
  shows "kept w w'"
  using assms by (simp add: kept_def extends_def rows_hold_def)

lemmas ids_defs = node_ids_def round_ids_def event_ids_def

lemma kept_nodes:
  assumes "tables w' = tables (w\<lparr>w_nodes := ns\<rparr>)" "node_ids w \<subseteq> NodeID ` set ns"
    and "list_all node_holds (w_nodes w) \<Longrightarrow> list_all node_holds ns"
  shows "kept w w'"
proof -
  note mono = holds_mono(1,2,4,6) [OF assms(2)] holds_mono(3,5) [OF assms(2) order_refl]
  show ?thesis by (rule keptI) (use assms mono in \<open>auto simp: tables_def ids_defs rows_hold_def\<close>)
qed

lemma kept_stakes:
  assumes "tables w' = tables (w\<lparr>w_stakes := ss\<rparr>)" "stakes_hold (node_ids w) (w_stakes w) \<Longrightarrow> stakes_hold (node_ids w) ss"
  shows "kept w w'"
  by (rule keptI) (use assms in \<open>auto simp: tables_def ids_defs rows_hold_def\<close>)

lemma kept_tasks:
  assumes "tables w' = tables (w\<lparr>w_tasks := ts\<rparr>)"
    and "list_all (task_holds (node_ids w)) (w_tasks w) \<Longrightarrow> list_all (task_holds (node_ids w)) ts"
  shows "kept w w'"
  by (rule keptI) (use assms in \<open>auto simp: tables_def ids_defs rows_hold_def\<close>)

lemma kept_rounds:
  assumes "tables w' = tables (w\<lparr>w_rounds := rs\<rparr>)" "round_ids w \<subseteq> rd_id ` set rs"
    and "list_all round_holds (w_rounds w) \<Longrightarrow> list_all round_holds rs"
  shows "kept w w'"
proof -
  note mono = holds_mono(3) [OF order_refl assms(2)]
  show ?thesis by (rule keptI) (use assms mono in \<open>auto simp: tables_def ids_defs rows_hold_def\<close>)
qed

lemma kept_participants:
  assumes "tables w' = tables (w\<lparr>w_participants := ps\<rparr>)"
    and "list_all (participant_holds (node_ids w) (round_ids w)) (w_participants w) \<Longrightarrow> list_all (participant_holds (node_ids w) (round_ids w)) ps"
  shows "kept w w'"
  by (rule keptI) (use assms in \<open>auto simp: tables_def ids_defs rows_hold_def\<close>)

lemma kept_slashings:
  assumes "tables w' = tables (w\<lparr>w_slashings := es\<rparr>)" "event_ids w \<subseteq> sl_id ` set es"
    and "slashings_hold (node_ids w) (w_slashings w) \<Longrightarrow> slashings_hold (node_ids w) es"
  shows "kept w w'"
proof -
  note mono = holds_mono(5) [OF order_refl assms(2)]
  show ?thesis by (rule keptI) (use assms mono in \<open>auto simp: tables_def ids_defs rows_hold_def\<close>)
qed

lemma kept_signals:
  assumes "tables w' = tables (w\<lparr>w_signals := gs\<rparr>)"
    and "list_all (signal_holds (node_ids w) (event_ids w)) (w_signals w) \<Longrightarrow> list_all (signal_holds (node_ids w) (event_ids w)) gs"
  shows "kept w w'"
  by (rule keptI) (use assms in \<open>auto simp: tables_def ids_defs rows_hold_def\<close>)

lemma kept_heartbeats:
  assumes "tables w' = tables (w\<lparr>w_heartbeats := hs\<rparr>)"
    and "list_all (\<lambda>h. fst h \<in> node_ids w) (w_heartbeats w) \<Longrightarrow> list_all (\<lambda>h. fst h \<in> node_ids w) hs"
  shows "kept w w'"
  by (rule keptI) (use assms in \<open>auto simp: tables_def ids_defs rows_hold_def\<close>)

text \<open>Updates that leave the keys alone.\<close>

lemma image_update: "(\<And>r. k (f r) = k r) \<Longrightarrow> k ` set (sql_update P f rs) = k ` set rs"
  by (metis list.set_map map_sql_update_frame)

lemma kept_node_update:
  assumes "tables w' = tables (w\<lparr>w_nodes := sql_update P f (w_nodes w)\<rparr>)" "\<And>n. NodeID (f n) = NodeID n"
    and "\<And>n. n \<in> set (w_nodes w) \<Longrightarrow> node_holds n \<Longrightarrow> P n \<Longrightarrow> node_holds (f n)"
  shows "kept w w'"
  by (rule kept_nodes [OF assms(1)]) (use assms(2,3) in \<open>auto simp: node_ids_def image_update intro!: list_all_sql_update\<close>)

lemma kept_stake_update:
  assumes "tables w' = tables (w\<lparr>w_stakes := sql_update P f (w_stakes w)\<rparr>)"
    and "\<And>s. st_node (f s) = st_node s" "\<And>s. st_channel_id (f s) = st_channel_id s"
    and "\<And>s. stake_holds (node_ids w) s \<Longrightarrow> stake_holds (node_ids w) (f s)"
  shows "kept w w'"
  by (rule kept_stakes [OF assms(1)]) (use assms(2-4) in \<open>auto simp: stakes_hold_def intro!: list_all_sql_update\<close>)

lemma kept_task_update:
  assumes "tables w' = tables (w\<lparr>w_tasks := sql_update P f (w_tasks w)\<rparr>)"
    and "\<And>t. tk_timeout (f t) = tk_timeout t" "\<And>t. tk_assigned (f t) = None \<or> tk_assigned (f t) = tk_assigned t"
  shows "kept w w'"
proof (rule kept_tasks [OF assms(1)])
  assume "list_all (task_holds (node_ids w)) (w_tasks w)"
  moreover have "task_holds N t \<Longrightarrow> task_holds N (f t)" for N t
    using assms(2,3) [of t] by (auto simp: task_holds_def)
  ultimately show "list_all (task_holds (node_ids w)) (sql_update P f (w_tasks w))" by (auto intro: list_all_sql_update)
qed

lemma kept_round_update:
  assumes "tables w' = tables (w\<lparr>w_rounds := sql_update P f (w_rounds w)\<rparr>)"
    and "\<And>r. rd_id (f r) = rd_id r" "\<And>r. rd_number (f r) = rd_number r"
  shows "kept w w'"
  by (rule kept_rounds [OF assms(1)]) (use assms(2,3) in \<open>auto simp: round_ids_def round_holds_def image_update intro!: list_all_sql_update\<close>)

lemma kept_participant_update:
  assumes "tables w' = tables (w\<lparr>w_participants := sql_update P f (w_participants w)\<rparr>)"
    and "\<And>p. pt_round (f p) = pt_round p" "\<And>p. pt_node (f p) = pt_node p"
  shows "kept w w'"
  by (rule kept_participants [OF assms(1)]) (use assms(2,3) in \<open>auto simp: participant_holds_def intro!: list_all_sql_update\<close>)

lemma kept_signal_update:
  assumes "tables w' = tables (w\<lparr>w_signals := sql_update P f (w_signals w)\<rparr>)"
    and "\<And>g. signal_holds (node_ids w) (event_ids w) g \<Longrightarrow> signal_holds (node_ids w) (event_ids w) (f g)"
  shows "kept w w'"
  by (rule kept_signals [OF assms(1)]) (use assms(2) in \<open>auto intro!: list_all_sql_update\<close>)

text \<open>A statement that the database refuses changes nothing.\<close>

lemma kept_call:
  assumes "\<And>v. tables v = tables w \<Longrightarrow> kept v (snd (stmt v))"
  shows "kept w (snd (db_call stmt w))"
  using assms [of "db_tick w"] by (simp add: db_call_def)

lemma keptD: "x = (r, w') \<Longrightarrow> kept w (snd x) \<Longrightarrow> kept w w'"
  by simp

text \<open>An update of the row with one key, to a value of another key that no other row has.\<close>

lemma keyed_update_apart:
  assumes "keyed k rows" "keyed c rows" "\<forall>r\<in>set rows. c r = x \<longrightarrow> k r = i" "\<And>r. c (f r) = x"
  shows "keyed c (sql_update (\<lambda>r. k r = i) f rows)"
  using assms(1-3)
proof (induction rows)
  case (Cons r rows)
  let ?u = "sql_update (\<lambda>r. k r = i) f"
  have split: "?u (r # rows) = (if k r = i then f r else r) # ?u rows" by (simp add: sql_update_def)
  show ?case
  proof (cases "k r = i")
    case True
    then have other: "\<forall>s\<in>set rows. k s \<noteq> i" using Cons.prems(1) by (metis image_eqI keyed_def distinct.simps(2) list.simps(9) list.set_map)
    then have "?u rows = rows" by (intro sql_update_no_match) blast
    moreover have "x \<notin> c ` set rows" using other Cons.prems(3) by auto
    ultimately show ?thesis using True Cons.prems(2) assms(4) by (simp add: split keyed_def)
  next
    case False
    then have "c r \<noteq> x" using Cons.prems(3) by auto
    then have "c r \<notin> c ` set (?u rows)" using Cons.prems(2) assms(4) by (auto simp: keyed_def set_sql_update)
    moreover have "keyed c (?u rows)" using Cons by (simp add: keyed_def)
    ultimately show ?thesis using False by (simp add: split keyed_def)
  qed
qed (simp add: sql_update_def)

section \<open>The operations of the packages\<close>

text \<open>PostgreSQL's cast to \<open>NUMERIC(p, s)\<close> yields a value of that type, or fails.\<close>

definition numeric_fits :: "ext \<Rightarrow> bool" where
  "numeric_fits E \<longleftrightarrow> (\<forall>p s x y. pg_numeric E p s x = Some y \<longrightarrow> numeric_holds p s y)"

subsection \<open>internal/registry\<close>

lemma upsert_node_kept:
  assumes "numeric_fits E" "TotalTasks n = 0" "TotalSats n = 0"
  shows "kept w (snd (upsert_node E n w))"
  unfolding upsert_node_def
proof (rule kept_call)
  fix v :: world
  have new: "kept v (v\<lparr>w_nodes := sql_insert (n\<lparr>VRAMGB := a, RAMGB := b, BandwidthMbps := c, Reliability := r\<rparr>) (w_nodes v)\<rparr>)"
    if "numeric_holds 6 2 a" "numeric_holds 6 2 b" "numeric_holds 8 2 c" for a b c r
    by (rule kept_nodes [OF refl]) (use that assms(2,3) in \<open>auto simp: node_ids_def sql_insert_def node_holds_def in_int_def\<close>)
  have old: "kept v (v\<lparr>w_nodes := sql_update P (reregister_row n a b c) (w_nodes v)\<rparr>)"
    if "numeric_holds 6 2 a" "numeric_holds 6 2 b" "numeric_holds 8 2 c" for a b c P
    by (rule kept_node_update [OF refl]) (use that in \<open>simp_all add: node_holds_def reregister_row_def\<close>)
  show "kept v (snd (if Tier n \<notin> set tiers then (Inl DbFailure, v)
     else case (pg_numeric E 6 2 (VRAMGB n), pg_numeric E 6 2 (RAMGB n), pg_numeric E 8 2 (BandwidthMbps n), pg_numeric E 5 4 (Reliability n)) of
       (Some vram, Some ram, Some bw, Some rel) \<Rightarrow>
         (case lookup PublicKey (PublicKey n) (w_nodes v) of
           Some old \<Rightarrow> (Inr (NodeID old, ''pending'', Some (Tier old, Status old)),
              v\<lparr>w_nodes := sql_update (\<lambda>r. PublicKey r = PublicKey n) (reregister_row n vram ram bw) (w_nodes v)\<rparr>)
         | None \<Rightarrow> if lookup NodeID (NodeID n) (w_nodes v) \<noteq> None then (Inl DbFailure, v)
             else (Inr (NodeID n, Status n, None),
                   v\<lparr>w_nodes := sql_insert (n\<lparr>VRAMGB := vram, RAMGB := ram, BandwidthMbps := bw, Reliability := rel\<rparr>) (w_nodes v)\<rparr>))
     | _ \<Rightarrow> (Inl DbFailure, v)))"
    using assms(1) new old by (auto simp: numeric_fits_def split: option.splits)
qed

lemma Register_kept:
  assumes "numeric_fits E"
  shows "kept w (snd (Register E fresh pk uri onion caps sig ts w))"
proof -
  have u: "kept w w1" if "upsert_node E (new_node fresh pk uri onion caps (w_now w)) w = (x, w1)" for x w1
    using upsert_node_kept [OF assms, of "new_node fresh pk uri onion caps (w_now w)" w] that by (simp add: new_node_def)
  show ?thesis by (auto simp: Register_def Let_def split: world_splits dest: u)
qed

lemma Activate_kept: "kept w (snd (Activate nid w))"
proof -
  have "kept w (snd (activate_row nid w))"
    unfolding activate_row_def by (rule kept_call) (auto split: option.split intro!: kept_node_update [OF refl] simp: node_holds_def)
  then show ?thesis by (auto simp: Activate_def split: world_splits dest: keptD)
qed

lemma UpdateStatus_kept: "kept w (snd (UpdateStatus nid st w))"
proof -
  have u: "kept v (v\<lparr>w_nodes := sql_update P (\<lambda>n. n\<lparr>Status := st\<rparr>) (w_nodes v)\<rparr>)" for v P
    by (rule kept_node_update [OF refl]) (simp_all add: node_holds_def)
  show ?thesis using u [of "db_tick (db_tick w)"] by (auto simp: UpdateStatus_def db_call_def Let_def split: world_splits)
qed

lemma UpdateReliability_kept: "kept w (snd (UpdateReliability E nid ok w))"
proof -
  have u: "kept v (v\<lparr>w_nodes := sql_update (\<lambda>n. NodeID n = nid) (\<lambda>n. n\<lparr>Reliability := rel, TotalTasks := TotalTasks n + k\<rparr>) (w_nodes v)\<rparr>)"
    if "list_all (\<lambda>n. NodeID n = nid \<longrightarrow> in_int32 (TotalTasks n + k)) (w_nodes v)" for k v rel
    by (rule kept_node_update [OF refl]) (use that in \<open>auto simp: node_holds_def list_all_iff\<close>)
  let ?w = "db_tick (db_tick (db_tick (db_tick w)))"
  show ?thesis using u [of 1 ?w] u [of 0 ?w, simplified]
    by (auto simp: UpdateReliability_def db_call_def Let_def split: world_splits)
qed

lemma RecordHeartbeat_kept: "kept w (snd (RecordHeartbeat nid w))"
proof -
  let ?v = "(db_tick w)\<lparr>w_nodes := sql_update (\<lambda>n. NodeID n = nid) (\<lambda>n. n\<lparr>LastHeartbeat := Some (w_now w)\<rparr>) (w_nodes w)\<rparr>"
  have beat: "kept (db_tick w) ?v"
    by (rule kept_node_update [where P = "\<lambda>n. NodeID n = nid" and f = "\<lambda>n. n\<lparr>LastHeartbeat := Some (w_now w)\<rparr>"]) (simp_all add: node_holds_def tables_def)
  have log: "kept v (v\<lparr>w_heartbeats := sql_insert (nid, t) (w_heartbeats v)\<rparr>)" if "nid \<in> node_ids v" for v t
    by (rule kept_heartbeats [OF refl]) (use that in \<open>simp add: sql_insert_def\<close>)
  show ?thesis
  proof (cases "lookup NodeID nid (w_nodes w)")
    case None
    then show ?thesis by (simp add: RecordHeartbeat_def db_call_def)
  next
    case (Some n)
    then have "nid \<in> node_ids (db_tick w)" using lookup_Some [OF Some] by (auto simp: node_ids_def)
    with beat have "nid \<in> node_ids (db_tick ?v)" by (auto simp: kept_def extends_def node_ids_def)
    from kept_trans [OF beat] log [OF this, of "w_now w"] beat Some show ?thesis
      by (simp add: RecordHeartbeat_def db_call_def)
  qed
qed

subsection \<open>internal/stake\<close>

lemma VerifyStake_kept: "tables (snd (VerifyStake l pk tier w)) = tables w"
  by (simp add: tables_def)

definition amounts_fit :: "StakeResult \<Rightarrow> bool" where
  "amounts_fit res \<longleftrightarrow> in_int64 (sr_CapacitySats res) \<and> in_int64 (sr_LocalBalanceSats res) \<and> in_int64 (TierMinimumSats res)"

lemma VerifyStake_amounts:
  assumes "VerifyStake (Some lnc) pk tier w = (Inr res, w')" "typed_client lnc"
  shows "amounts_fit res"
proof -
  obtain m where m: "TierMinimums tier = Some m" using assms(1) by (auto simp: VerifyStake_def split: option.splits)
  obtain cs where cs: "ListChannels lnc pk = Inr cs" using assms(1) m by (auto simp: VerifyStake_def split: sum.splits)
  have tm: "in_int64 m" using m by (auto simp: TierMinimums_def in_int_def split: if_splits)
  show ?thesis
  proof (cases "best_channel m cs")
    case None
    then show ?thesis using assms(1) m cs tm by (auto simp: VerifyStake_def amounts_fit_def in_int_def)
  next
    case (Some b)
    have "in_int64 (LocalBalanceSats b) \<and> in_int64 (CapacitySats b)" using best_channel_Some [OF Some] assms(2) cs by (auto simp: typed_client_def)
    then show ?thesis using assms(1) m cs Some tm by (auto simp: VerifyStake_def amounts_fit_def)
  qed
qed

lemma PersistStake_kept:
  assumes "amounts_fit res"
  shows "kept w (snd (PersistStake E nid res w))"
  unfolding PersistStake_def
proof (rule kept_call)
  fix v :: world
  let ?f = "\<lambda>bonus s. s\<lparr>st_channel_id := sr_ChannelID res, st_capacity := sr_CapacitySats res, st_local_balance := sr_LocalBalanceSats res,
      st_bonus := bonus, st_status := ''active'', st_last_verified := w_now v, st_degraded_since := None\<rparr>"
  let ?row = "\<lambda>bonus. \<lparr>st_node = nid, st_channel_id = sr_ChannelID res, st_capacity = sr_CapacitySats res,
      st_local_balance = sr_LocalBalanceSats res, st_tier_minimum = TierMinimumSats res, st_bonus = bonus, st_status = ''active'',
      st_last_verified = w_now v, st_degraded_since = None\<rparr>"
  assume "tables v = tables w"
  have free: "\<forall>s\<in>set (w_stakes v). st_channel_id s = sr_ChannelID res \<longrightarrow> st_node s = nid"
    if "\<not> (\<exists>s\<in>set (w_stakes v). st_node s \<noteq> nid \<and> st_channel_id s = sr_ChannelID res)" using that by blast
  have upd: "kept v (v\<lparr>w_stakes := sql_update (\<lambda>s. st_node s = nid) (?f bonus) (w_stakes v)\<rparr>)"
    if "\<not> (\<exists>s\<in>set (w_stakes v). st_node s \<noteq> nid \<and> st_channel_id s = sr_ChannelID res)" for bonus
  proof (rule kept_stakes [OF refl])
    assume h: "stakes_hold (node_ids v) (w_stakes v)"
    then have k: "keyed st_node (w_stakes v)" "keyed st_channel_id (w_stakes v)" by (simp_all add: stakes_hold_def)
    have "keyed st_channel_id (sql_update (\<lambda>s. st_node s = nid) (?f bonus) (w_stakes v))"
      using k free [OF that] by (rule keyed_update_apart) simp
    then show "stakes_hold (node_ids v) (sql_update (\<lambda>s. st_node s = nid) (?f bonus) (w_stakes v))"
      using h assms by (auto simp: stakes_hold_def stake_holds_def amounts_fit_def stake_statuses_def intro!: list_all_sql_update)
  qed
  show "kept v (snd (case pg_numeric E 4 3 (BonusMultiplier res) of None \<Rightarrow> (Inl DbFailure, v)
     | Some bonus \<Rightarrow>
       if (\<exists>s\<in>set (w_stakes v). st_node s \<noteq> nid \<and> st_channel_id s = sr_ChannelID res) then (Inl DbFailure, v)
       else (case lookup st_node nid (w_stakes v) of
         Some _ \<Rightarrow> (Inr (), v\<lparr>w_stakes := sql_update (\<lambda>s. st_node s = nid) (?f bonus) (w_stakes v)\<rparr>)
       | None \<Rightarrow> if lookup NodeID nid (w_nodes v) = None then (Inl DbFailure, v)
           else (Inr (), v\<lparr>w_stakes := sql_insert (?row bonus) (w_stakes v)\<rparr>))))"
  proof -
    have ins: "kept v (v\<lparr>w_stakes := sql_insert (?row bonus) (w_stakes v)\<rparr>)"
      if "\<not> (\<exists>s\<in>set (w_stakes v). st_node s \<noteq> nid \<and> st_channel_id s = sr_ChannelID res)" "lookup st_node nid (w_stakes v) = None"
        "lookup NodeID nid (w_nodes v) = Some n" for bonus n
      by (rule kept_stakes [OF refl])
        (use that lookup_Some [OF that(3)] assms in \<open>auto simp: stakes_hold_def stake_holds_def amounts_fit_def stake_statuses_def node_ids_def lookup_None\<close>,
         auto simp: sql_insert_def stake_holds_def stake_statuses_def)
    show ?thesis using upd ins by (auto split: option.splits)
  qed
qed

lemma node_found: "lookup NodeID nid (w_nodes w) = Some n \<Longrightarrow> nid \<in> node_ids w"
  using lookup_Some [of NodeID nid "w_nodes w" n] by (auto simp: node_ids_def)

text \<open>A slashing links the signals to an event that it has recorded before.\<close>

fun recorded :: "slash_pc \<Rightarrow> bool" where
  "recorded Suspend = True"
| "recorded Mark_stake = True"
| "recorded Link_signals = True"
| "recorded _ = False"

lemma slash_step_kept:
  assumes "slash_step cfg l sh k pc w = (pc', w')" "recorded pc \<longrightarrow> sh_event sh \<in> event_ids w"
  shows "kept w w' \<and> (recorded pc' \<longrightarrow> sh_event sh \<in> event_ids w')"
proof (cases pc)
  case Fetch_channel
  then have "w' = w \<or> w' = db_tick w" "\<not> recorded pc'" using assms(1) by (auto simp: db_call_def split: if_splits option.splits)
  then show ?thesis by auto
next
  case (Close_channel ch)
  then have "w' = w" "\<not> recorded pc'" using assms(1) by (auto split: sum.splits)
  then show ?thesis by simp
next
  case (Persist_event ch)
  let ?row = "\<lparr>sl_id = sh_event sh, sl_node = sh_node sh, sl_channel = ch, sl_tier = sh_tier sh, sl_reason = sh_reason sh,
      sl_evidence = sh_evidence sh, sl_signal_count = k, sl_cooldown = w_now w + CooldownDuration cfg\<rparr>"
  have ins: "kept w ((db_tick w)\<lparr>w_slashings := sql_insert ?row (w_slashings w)\<rparr>)"
    if "lookup NodeID (sh_node sh) (w_nodes w) = Some n" "lookup sl_id (sh_event sh) (w_slashings w) = None" "in_int32 k" for n
    by (rule kept_slashings [where es = "sql_insert ?row (w_slashings w)"])
      (use that node_found [OF that(1)] in \<open>auto simp: tables_def event_ids_def slashings_hold_def sql_insert_def slashing_holds_def
         keyed_def lookup_None\<close>)
  show ?thesis using assms(1) Persist_event ins
    by (auto simp: db_call_def event_ids_def sql_insert_def split: if_splits)
next
  case Suspend
  have "kept w (db_tick w\<lparr>w_nodes := sql_update (\<lambda>n. NodeID n = sh_node sh) (\<lambda>n. n\<lparr>Status := ''suspended''\<rparr>) (w_nodes w)\<rparr>)"
    by (rule kept_node_update [where P = "\<lambda>n. NodeID n = sh_node sh" and f = "\<lambda>n. n\<lparr>Status := ''suspended''\<rparr>"]) (simp_all add: tables_def node_holds_def)
  then show ?thesis using assms Suspend by (auto simp: db_call_def event_ids_def split: if_splits)
next
  case Mark_stake
  have "kept w (db_tick w\<lparr>w_stakes := sql_update (\<lambda>s. st_node s = sh_node sh) (\<lambda>s. s\<lparr>st_status := ''force_closed''\<rparr>) (w_stakes w)\<rparr>)"
    by (rule kept_stake_update [where P = "\<lambda>s. st_node s = sh_node sh" and f = "\<lambda>s. s\<lparr>st_status := ''force_closed''\<rparr>"])
      (simp_all add: tables_def stake_holds_def stake_statuses_def)
  then show ?thesis using assms Mark_stake by (auto simp: db_call_def event_ids_def split: if_splits)
next
  case Link_signals
  let ?P = "\<lambda>g. sg_node g = sh_node sh \<and> sg_event g = None" and ?f = "\<lambda>g. g\<lparr>sg_event := Some (sh_event sh)\<rparr>"
  have "kept w (db_tick w\<lparr>w_signals := sql_update ?P ?f (w_signals w)\<rparr>)"
    by (rule kept_signal_update [where P = ?P and f = ?f]) (use assms(2) Link_signals in \<open>simp_all add: tables_def signal_holds_def\<close>)
  then show ?thesis using assms(1) Link_signals by (auto simp: db_call_def split: if_splits)
next
  case (Slashed r)
  then show ?thesis using assms(1) by auto
qed

lemma insert_signal_kept: "kept w (snd (insert_signal nid ty ev w))"
  unfolding insert_signal_def
proof (rule kept_call)
  fix v :: world
  have "kept v (v\<lparr>w_signals := sql_insert \<lparr>sg_node = nid, sg_type = ty, sg_evidence = ev, sg_event = None\<rparr> (w_signals v)\<rparr>)"
    if "lookup NodeID nid (w_nodes v) = Some n" for n
    by (rule kept_signals [OF refl]) (use node_found [OF that] in \<open>auto simp: sql_insert_def signal_holds_def\<close>)
  then show "kept v (snd (if lookup NodeID nid (w_nodes v) = None then (Inl DbFailure, v)
     else (Inr (int (sql_count (\<lambda>g. sg_node g = nid \<and> sg_event g = None) (w_signals v))),
       v\<lparr>w_signals := sql_insert \<lparr>sg_node = nid, sg_type = ty, sg_evidence = ev, sg_event = None\<rparr> (w_signals v)\<rparr>)))"
    by (auto split: option.splits)
qed

lemma signal_step_kept:
  assumes "signal_step cfg l sh pc w = (pc', w')" "\<And>k q. pc = Inserted k q \<Longrightarrow> recorded q \<longrightarrow> sh_event sh \<in> event_ids w"
  shows "kept w w' \<and> (\<forall>k q. pc' = Inserted k q \<longrightarrow> recorded q \<longrightarrow> sh_event sh \<in> event_ids w')"
proof (cases pc)
  case Insert_signal
  obtain r v where i: "insert_signal (sh_node sh) (sh_reason sh) (sh_evidence sh) w = (r, v)" by fastforce
  then have "kept w v" by (rule keptD) (rule insert_signal_kept)
  then show ?thesis using assms(1) Insert_signal i by (auto split: sum.splits if_splits)
next
  case (Inserted k q)
  obtain q' v where s: "slash_step cfg l sh k q w = (q', v)" by fastforce
  from slash_step_kept [OF s] assms Inserted s show ?thesis by auto
qed

lemma reverify_step_kept:
  assumes "reverify_step E lnc pc w = (pc', w')" "typed_client lnc" "\<And>nid res ns. pc = Refreshing nid res ns \<Longrightarrow> amounts_fit res"
  shows "kept w w' \<and> (\<forall>nid res ns. pc' = Refreshing nid res ns \<longrightarrow> amounts_fit res)"
proof -
  have same: ?thesis if "tables w' = tables w" "\<And>nid res ns. pc' \<noteq> Refreshing nid res ns" using that by (simp add: kept_same)
  show ?thesis
  proof (cases pc)
    case Query_active
    then show ?thesis using assms(1) by (intro same) (auto simp: db_call_def split: if_splits)
  next
    case (Rechecking ns)
    show ?thesis
    proof (cases ns)
      case Nil
      then show ?thesis using assms(1) Rechecking by auto
    next
      case (Cons n rest)
      obtain r v where v: "VerifyStake (Some lnc) (PublicKey n) (Tier n) w = (r, v)" by fastforce
      then have "tables v = tables w" using VerifyStake_kept [of "Some lnc" "PublicKey n" "Tier n" w] by simp
      then show ?thesis using assms(1) Rechecking Cons v VerifyStake_amounts [OF _ assms(2)]
        by (auto simp: kept_same split: sum.splits if_splits)
    qed
  next
    case (Degrading nid ns)
    let ?P = "\<lambda>n. NodeID n = nid \<and> Status n = ''active''" and ?f = "\<lambda>n. n\<lparr>Status := ''degraded''\<rparr>"
    have "kept w (db_tick w\<lparr>w_nodes := sql_update ?P ?f (w_nodes w)\<rparr>)"
      by (rule kept_node_update [where P = ?P and f = ?f]) (simp_all add: tables_def node_holds_def)
    then show ?thesis using assms(1) Degrading by (auto simp: db_call_def split: if_splits)
  next
    case (Degrading_stake nid ns)
    let ?P = "\<lambda>s. st_node s = nid \<and> st_degraded_since s = None" and ?f = "\<lambda>s. s\<lparr>st_status := ''degraded'', st_degraded_since := Some (w_now w)\<rparr>"
    have "kept w (db_tick w\<lparr>w_stakes := sql_update ?P ?f (w_stakes w)\<rparr>)"
      by (rule kept_stake_update [where P = ?P and f = ?f]) (simp_all add: tables_def stake_holds_def stake_statuses_def)
    then show ?thesis using assms(1) Degrading_stake by (auto simp: db_call_def split: if_splits)
  next
    case (Refreshing nid res ns)
    then show ?thesis using assms(1) PersistStake_kept [OF assms(3) [OF Refreshing]] by auto
  next
    case (Reverified r)
    then show ?thesis using assms(1) by auto
  qed
qed

lemma register_step_kept:
  assumes "register_step (server_with E co lnc) fresh req pc w = (pc', w')" "numeric_fits E" "typed_client lnc"
    and "\<And>n res. pc = Persisting n res \<Longrightarrow> amounts_fit res"
  shows "kept w w' \<and> (\<forall>n res. pc' = Persisting n res \<longrightarrow> amounts_fit res)"
proof (cases pc)
  case Enter
  have "kept w v" if "Register E fresh pk uri onion caps sig ts w = (r, v)" for pk uri onion caps sig ts r v
    using that Register_kept [OF assms(2)] by (rule keptD)
  then show ?thesis using assms(1) Enter by (auto split: sum.splits if_splits prod.splits)
next
  case (Checking n)
  have v: "tables v = tables w" if "VerifyStake l pk t w = (r, v)" for l pk t r v using that VerifyStake_kept [of l pk t w] by simp
  show ?thesis using assms(1) Checking VerifyStake_amounts [OF _ assms(3)]
    by (auto simp: Let_def kept_same split: sum.splits prod.splits dest: v)
next
  case (Persisting n res)
  then show ?thesis using assms(1) PersistStake_kept [OF assms(4) [OF Persisting]] by auto
next
  case (Activating n res)
  have "kept w v" if "Activate nid w = (r, v)" for nid r v using that Activate_kept by (rule keptD)
  then show ?thesis using assms(1) Activating by (auto split: sum.splits prod.splits)
next
  case (Answered r)
  then show ?thesis using assms(1) by auto
qed

subsection \<open>internal/scheduler\<close>

lemma persistAssignment_kept: "kept w (snd (persistAssignment E redis a ih w))"
proof -
  have ins: "kept v (v\<lparr>w_tasks := sql_insert (assignment_row a ih now) (w_tasks v)\<rparr>)"
    if "lookup NodeID (a_NodeID a) (w_nodes v) = Some n" "in_int32 (a_TimeoutSecs a)" for v n now
    by (rule kept_tasks [OF refl]) (use node_found [OF that(1)] that(2) in \<open>simp add: sql_insert_def task_holds_def assignment_row_def\<close>)
  have "kept w (snd (insert_task a ih w))" unfolding insert_task_def by (rule kept_call) (auto intro!: ins)
  then show ?thesis by (auto simp: persistAssignment_def Let_def split: world_splits dest: keptD)
qed

lemma schedule_step_kept:
  assumes "schedule_step E a pc w = (pc', w')"
  shows "kept w w'"
proof (cases pc)
  case List_nodes
  have "kept w v" if "ListActive w = (r, v)" for r v using registry.list_world [OF that] by auto
  then show ?thesis using assms List_nodes by (auto simp del: selectNode_None split: sum.splits option.splits prod.splits)
next
  case (Reward nd)
  have "kept w v" if "computeReward nd tt w = (k, v)" for tt k v using computeReward_world [OF that] by auto
  then show ?thesis using assms Reward by (auto split: prod.splits)
next
  case (Insert_task asg)
  have "kept w v" if "persistAssignment E redis asg h w = (r, v)" for redis h r v using that persistAssignment_kept by (rule keptD)
  then show ?thesis using assms Insert_task by (auto split: sum.splits prod.splits)
next
  case (Scheduled r)
  then show ?thesis using assms by simp
qed

lemma task_type_of_kept: "kept w (snd (task_type_of tid w))"
  by (auto simp: task_type_of_def db_call_def split: world_splits)

lemma MarkFailed_kept: "kept w (snd (MarkFailed E tid nid w))"
proof -
  obtain tt v where t: "task_type_of tid w = (tt, v)" by fastforce
  then have v: "kept w v" by (rule keptD) (rule task_type_of_kept)
  let ?P = "\<lambda>t. tk_id t = tid" and ?f = "\<lambda>t. t\<lparr>tk_status := ''failed'', tk_completed := Some (w_now v)\<rparr>"
  let ?u = "db_tick v\<lparr>w_tasks := sql_update ?P ?f (w_tasks v)\<rparr>"
  have u: "kept v ?u" by (rule kept_task_update [where P = ?P and f = ?f]) (simp_all add: tables_def)
  have rate: "kept v (snd (UpdateReliability E nid False u'))" if "kept v u'" for u'
    using that UpdateReliability_kept by (rule kept_trans)
  have "kept v (snd (MarkFailed E tid nid w))"
    using rate [of ?u] rate [of "counter_inc ''owm_tasks_total'' [tt, ''failed''] ?u"] u t by (simp add: MarkFailed_def db_call_def)
  with v show ?thesis by (rule kept_trans)
qed

lemma RequeueTimedOut_kept: "kept w (snd (RequeueTimedOut w))"
proof -
  have "kept v (v\<lparr>w_tasks := sql_update (timed_out now) requeue (w_tasks v)\<rparr>)" for v now
    by (rule kept_task_update [OF refl]) (simp_all add: requeue_def)
  then show ?thesis unfolding RequeueTimedOut_def by (intro kept_call) simp
qed

subsection \<open>internal/payment and the handler of results\<close>

lemma pay_step_kept:
  assumes "pay_step lnc obs d pc w = (pc', w')"
  shows "kept w w'"
proof (cases pc)
  case (Recording job p)
  let ?P = "\<lambda>t. tk_id t = j_TaskID job \<and> tk_payment_status t = ''pending''" and ?f = "\<lambda>t. t\<lparr>tk_payment_status := ''paid'', tk_preimage := Some p\<rparr>"
  have "kept w (db_tick w\<lparr>w_tasks := sql_update ?P ?f (w_tasks w)\<rparr>)"
    by (rule kept_task_update [where P = ?P and f = ?f]) (simp_all add: tables_def)
  then show ?thesis using assms Recording by (auto simp: db_call_def Let_def split: if_splits)
next
  case (Failing job)
  let ?P = "\<lambda>t. tk_id t = j_TaskID job \<and> tk_payment_status t = ''pending''" and ?f = "\<lambda>t. t\<lparr>tk_payment_status := ''failed''\<rparr>"
  have "kept w (db_tick w\<lparr>w_tasks := sql_update ?P ?f (w_tasks w)\<rparr>)"
    by (rule kept_task_update [where P = ?P and f = ?f]) (simp_all add: tables_def)
  then show ?thesis using assms Failing by (auto simp: db_call_def)
next
  case (Asking job k)
  then have "w' = w \<or> w' = w\<lparr>w_sent := w_sent w @ [payment_request job]\<rparr>"
    using assms by (auto simp: Let_def split: if_splits sum.splits option.splits)
  then show ?thesis by auto
qed (use assms in \<open>auto split: list.splits\<close>)

lemma receipt_statement_kept:
  assumes "receipt_step E f pc w = (pc', w')"
  shows "kept w w'"
proof (cases pc)
  case (Store job i)
  let ?P = "\<lambda>t. tk_id t = j_TaskID job" and ?f = "\<lambda>t. t\<lparr>tk_receipt_id := Some i\<rparr>"
  have "kept w (db_tick w\<lparr>w_tasks := sql_update ?P ?f (w_tasks w)\<rparr>)"
    by (rule kept_task_update [where P = ?P and f = ?f]) (simp_all add: tables_def)
  then show ?thesis using assms Store by (auto simp: db_call_def split: if_splits)
qed (use assms in \<open>auto simp: db_call_def split: if_splits option.splits sum.splits\<close>)

lemma result_statement_kept:
  assumes "result_step S req pc w = (pc', w')"
  shows "kept w w'"
proof (cases pc)
  case Authenticate
  then have "w' = w \<or> w' = db_tick w" using assms by (auto simp: db_call_def split: option.splits if_splits sum.splits)
  then show ?thesis by auto
next
  case (Mark tid nd tt)
  let ?P = "\<lambda>t. tk_id t = tid"
  let ?f = "\<lambda>t. t\<lparr>tk_status := ''completed'', tk_output_hash := Some (hex_EncodeToString (tr_OutputHash req)), tk_completed := Some (w_now w)\<rparr>"
  have "kept w (db_tick w\<lparr>w_tasks := sql_update ?P ?f (w_tasks w)\<rparr>)"
    by (rule kept_task_update [where P = ?P and f = ?f]) (simp_all add: tables_def)
  then show ?thesis using assms Mark by (auto simp: db_call_def split: if_splits)
next
  case (Penalise nd)
  then show ?thesis using assms UpdateReliability_kept by auto
next
  case (Rate tid nd)
  then show ?thesis using assms UpdateReliability_kept by auto
next
  case (Type_of tid nd)
  have "kept w v" if "task_type_of tid w = (tt, v)" for tt v using that task_type_of_kept by (rule keptD)
  then show ?thesis using assms Type_of by (auto split: prod.splits)
next
  case (Terms tid)
  then have "w' = w \<or> w' = db_tick w" using assms by (auto simp: db_call_def split: if_splits option.splits)
  then show ?thesis by auto
next
  case (Send tid uri k)
  then show ?thesis using assms by (auto simp: Enqueue_def)
next
  case (Acknowledge st)
  then show ?thesis using assms by auto
next
  case (Replied r)
  then show ?thesis using assms by auto
qed

lemma agent_step_kept: "agent_step E co x y \<Longrightarrow> kept (snd (snd x)) (snd (snd y))"
  by (induction rule: agent_step.induct) (auto simp del: pay_step.simps receipt_step.simps result_step.simps intro: pay_step_kept receipt_statement_kept result_statement_kept)

subsection \<open>internal/fl\<close>

lemma round_statement_kept:
  assumes "tables v = tables w" "\<And>r. rd_id (f r) = rd_id r" "\<And>r. rd_number (f r) = rd_number r"
  shows "kept w (v\<lparr>w_rounds := sql_update P f (w_rounds w)\<rparr>)"
  by (rule kept_round_update [where P = P and f = f]) (use assms in \<open>simp_all add: tables_def\<close>)

lemma completeRound_kept: "kept w (snd (completeRound rn h w))"
  by (auto simp: completeRound_def db_call_def intro!: round_statement_kept)

lemma failRound_kept: "kept w (snd (failRound rn w))"
  by (auto simp: failRound_def db_call_def intro!: round_statement_kept)

lemma cas_aggregating_kept: "kept w (snd (cas_aggregating rn w))"
  by (auto simp: cas_aggregating_def db_call_def intro!: round_statement_kept)

lemma OpenRound_kept: "kept w (snd (OpenRound v w))"
proof -
  let ?r = "\<lparr>rd_id = w_next_round w, rd_number = w_next_round w, rd_status = ''open'', rd_model_version = v,
      rd_checkpoint = None, rd_ots = None, rd_started = w_now w, rd_completed = None\<rparr>"
  have "kept w (db_tick w\<lparr>w_next_round := k, w_rounds := sql_insert ?r (w_rounds w)\<rparr>)" if "in_int32 (w_next_round w)" for k
    by (rule kept_rounds [where rs = "sql_insert ?r (w_rounds w)"])
      (use that in \<open>auto simp: tables_def sql_insert_def round_holds_def round_ids_def\<close>)
  then show ?thesis by (auto simp: OpenRound_def db_call_def)
qed

lemma stampOTS_kept: "kept w (stampOTS M post order orc h rn w)"
  by (auto simp: stampOTS_def db_call_def PutObject_def Let_def split: option.splits list.splits intro!: round_statement_kept)

lemma flag_participant_kept: "kept w (flag_participant rid nid w)"
proof -
  have "kept v (v\<lparr>w_participants := sql_update P (\<lambda>p. p\<lparr>pt_flagged := b\<rparr>) (w_participants v)\<rparr>)" for v P b
    by (rule kept_participant_update [OF refl]) simp_all
  from this [of "db_tick w"] show ?thesis by (simp add: flag_participant_def db_call_def)
qed

lemma filter_loop_kept: "kept w (snd (filter_loop rid nm th rs w))"
proof (induction rs arbitrary: w)
  case (Cons r rs)
  show ?case using Cons.IH [of w] kept_trans [OF flag_participant_kept Cons.IH] by (auto split: prod.splits dest: keptD)
qed simp

lemma anomalyFilter_kept: "kept w (snd (anomalyFilter M orc rid rs w))"
  by (simp add: anomalyFilter_def Let_def filter_loop_kept)

lemma node_weight_kept: "kept w (snd (node_weight M nid w))"
  by (auto simp: node_weight_def db_call_def split: world_splits)

lemma collect_gradients_kept: "kept w (snd (collect_gradients M c rs w))"
proof (induction rs arbitrary: w)
  case (Cons r rs)
  have "kept w v" if "node_weight M nid w = (x, v)" for nid x v using that node_weight_kept by (rule keptD)
  then show ?case using Cons.IH by (auto split: world_splits dest: kept_trans) (metis kept_trans snd_conv)+
qed simp

lemma fedAvg_kept: "kept w (snd (fedAvg E M orc rn rs w))"
proof -
  have "kept w v" if "collect_gradients M c rs w = (x, v)" for c x v using that collect_gradients_kept by (rule keptD)
  then show ?thesis by (auto simp: fedAvg_def Let_def PutObject_def split: world_splits)
qed

lemma tryagg_step_kept:
  assumes "tryagg_step E M orc rn pc w = (pc', w')"
  shows "kept w w'"
proof (cases pc)
  case (Claim rid cnt)
  have "kept w v" if "cas_aggregating rn w = (r, v)" for r v using that cas_aggregating_kept by (rule keptD)
  then show ?thesis using assms Claim by (auto split: sum.splits prod.splits)
next
  case (Sift rid cnt hs)
  have "kept w v" if "anomalyFilter M orc rid hs w = (r, v)" for r v using that anomalyFilter_kept by (rule keptD)
  then show ?thesis using assms Sift by (auto split: prod.splits)
next
  case (Average hs)
  have "kept w v" if "fedAvg E M orc rn hs w = (r, v)" for r v using that fedAvg_kept by (rule keptD)
  then show ?thesis using assms Average by (auto split: sum.splits prod.splits)
next
  case (Complete n h)
  have "kept w v" if "completeRound rn h w = (r, v)" for r v using that completeRound_kept by (rule keptD)
  then show ?thesis using assms Complete by (auto split: sum.splits prod.splits)
next
  case (Fail e)
  then show ?thesis using assms failRound_kept by auto
qed (use assms in \<open>auto simp: db_call_def fetchGradientHashes_def split: if_splits option.splits sum.splits\<close>)

lemma upsert_participant_kept: "kept w (snd (upsert_participant rid sub w))"
proof -
  let ?P = "\<lambda>p. (pt_round p, pt_node p) = (rid, gs_NodeID sub)" and ?f = "\<lambda>p. p\<lparr>pt_hash := gs_GradientHash sub, pt_s3_url := gs_S3URL sub\<rparr>"
  let ?row = "\<lparr>pt_round = rid, pt_node = gs_NodeID sub, pt_hash = gs_GradientHash sub, pt_s3_url = gs_S3URL sub, pt_flagged = False\<rparr>"
  have upd: "kept v (v\<lparr>w_participants := sql_update ?P ?f (w_participants v)\<rparr>)" for v
    by (rule kept_participant_update [OF refl]) simp_all
  have ins: "kept v (v\<lparr>w_participants := sql_insert ?row (w_participants v)\<rparr>)"
    if "lookup rd_id rid (w_rounds v) = Some r" "lookup NodeID (gs_NodeID sub) (w_nodes v) = Some n" for v r n
  proof (rule kept_participants [OF refl])
    have "rid \<in> round_ids v" using lookup_Some [OF that(1)] by (auto simp: round_ids_def)
    then show "list_all (participant_holds (node_ids v) (round_ids v)) (sql_insert ?row (w_participants v))"
      if "list_all (participant_holds (node_ids v) (round_ids v)) (w_participants v)"
      using that node_found [OF \<open>lookup NodeID (gs_NodeID sub) (w_nodes v) = Some n\<close>] by (simp add: sql_insert_def participant_holds_def)
  qed
  show ?thesis unfolding upsert_participant_def
    by (rule kept_call) (use upd ins in \<open>auto split: option.splits\<close>)
qed

lemma submit_step_kept:
  assumes "submit_step sub pc w = (pc', w')"
  shows "kept w w'"
proof (cases pc)
  case (Insert rid)
  have "kept w v" if "upsert_participant rid sub w = (r, v)" for r v using that upsert_participant_kept by (rule keptD)
  then show ?thesis using assms Insert by (auto split: sum.splits prod.splits)
qed (use assms in \<open>auto simp: db_call_def split: if_splits option.splits\<close>)

lemma caller_step_kept:
  assumes "caller_step E M orc q w = (q', w')"
  shows "kept w w'"
proof (cases q)
  case (Call rn pc)
  obtain p v where "tryagg_step E M orc rn pc w = (p, v)" by fastforce
  with tryagg_step_kept [OF this] show ?thesis using assms Call by simp
next
  case Scan
  then have "w' = db_tick w" using assms by (auto split: prod.splits sum.splits dest!: scan_expired_cases)
  then show ?thesis by simp
next
  case (Close rn rns n pc)
  obtain p v where "tryagg_step E M orc rn pc w = (p, v)" by fastforce
  with tryagg_step_kept [OF this] show ?thesis using assms Close failRound_kept
    by (auto simp del: tryagg_step.simps split: agg_pc.splits sum.splits option.splits)
next
  case (Closed r)
  then show ?thesis using assms by simp
next
  case (Submit sub pc)
  obtain p v where "submit_step sub pc w = (p, v)" by fastforce
  with submit_step_kept [OF this] show ?thesis using assms Submit by simp
qed

lemma SubmitGradient_kept: "kept w (snd (SubmitGradient sub w))"
proof -
  have u: "kept v u" if "upsert_participant rid sub v = (r, u)" for rid v r u using that upsert_participant_kept by (rule keptD)
  show ?thesis by (auto simp: SubmitGradient_def db_call_def split: world_splits dest: u)
qed

section \<open>The running coordinator\<close>

lemma Heartbeat_kept: "kept w (snd (Heartbeat S req w))"
proof -
  have "kept w v" if "RecordHeartbeat nid w = (r, v)" for nid r v using that RecordHeartbeat_kept by (rule keptD)
  then show ?thesis by (auto simp: Heartbeat_def split: world_splits)
qed

lemma DeregisterNode_kept: "kept w (snd (DeregisterNode S req w))"
proof -
  have "kept w v" if "UpdateStatus nid st w = (r, v)" for nid st r v using that UpdateStatus_kept by (rule keptD)
  then show ?thesis by (auto simp: DeregisterNode_def split: world_splits)
qed

lemma ticked_kept: "ticked w w' \<Longrightarrow> kept w w'"
  by (auto simp: ticked_def kept_same)

lemma atomic_kept: "atomic ev \<Longrightarrow> kept w (co_exec E co ev w)"
proof (cases ev)
  case (SubmitGradient_ev up grad)
  then show ?thesis using SubmitGradient_rpc_cases [of "rpc_server E co" up grad w] SubmitGradient_kept by auto
next
  case (Stamp_ev i M post order)
  then show ?thesis using stampOTS_kept [of "w\<lparr>w_stamps := drop_nth i (w_stamps w)\<rparr>"] by (simp split: prod.split)
qed (auto simp: atomic_def Heartbeat_kept DeregisterNode_kept RequeueTimedOut_kept MarkFailed_kept OpenRound_kept
  intro: ticked_kept reads_ticked)

text \<open>What a clerk has in its hands for a later statement: amounts that fit, an event that is recorded.\<close>

fun clerk_holds :: "uuid set \<Rightarrow> clerk \<Rightarrow> bool" where
  "clerk_holds V (Registrar req fresh (Persisting n res)) = amounts_fit res"
| "clerk_holds V (Reverifier (Refreshing nid res ns)) = amounts_fit res"
| "clerk_holds V (Slasher sh k pc) = (recorded pc \<longrightarrow> sh_event sh \<in> V)"
| "clerk_holds V (Signaller sh (Inserted k pc)) = (recorded pc \<longrightarrow> sh_event sh \<in> V)"
| "clerk_holds V _ = True"

lemma clerk_holds_mono: "clerk_holds V c \<Longrightarrow> V \<subseteq> V' \<Longrightarrow> clerk_holds V' c"
  by (induction V c rule: clerk_holds.induct) auto

lemma clerk_holds_simps:
  "clerk_holds V (Registrar req fresh pc) \<longleftrightarrow> (\<forall>n res. pc = Persisting n res \<longrightarrow> amounts_fit res)"
  "clerk_holds V (Reverifier rpc) \<longleftrightarrow> (\<forall>nid res ns. rpc = Refreshing nid res ns \<longrightarrow> amounts_fit res)"
  "clerk_holds V (Signaller sh spc) \<longleftrightarrow> (\<forall>k q. spc = Inserted k q \<longrightarrow> recorded q \<longrightarrow> sh_event sh \<in> V)"
proof -
  show "clerk_holds V (Registrar req fresh pc) \<longleftrightarrow> (\<forall>n res. pc = Persisting n res \<longrightarrow> amounts_fit res)" by (cases pc) simp_all
  show "clerk_holds V (Reverifier rpc) \<longleftrightarrow> (\<forall>nid res ns. rpc = Refreshing nid res ns \<longrightarrow> amounts_fit res)" by (cases rpc) simp_all
  show "clerk_holds V (Signaller sh spc) \<longleftrightarrow> (\<forall>k q. spc = Inserted k q \<longrightarrow> recorded q \<longrightarrow> sh_event sh \<in> V)" by (cases spc) simp_all
qed

lemma arrives_holds: "Standing.arrives c \<Longrightarrow> clerk_holds V c"
  by (cases c) (auto simp: clerk_holds_simps)

lemma clerk_step_rows:
  assumes "clerk_step E co lnc c w = (c', w')" "numeric_fits E" "vetted c lnc" "clerk_holds (event_ids w) c"
  shows "kept w w' \<and> clerk_holds (event_ids w') c'"
proof (cases c)
  case (Registrar req fresh pc)
  then obtain pc' where s: "register_step (server_with E co lnc) fresh req pc w = (pc', w')" "c' = Registrar req fresh pc'"
    using assms(1) by (auto split: prod.splits)
  from register_step_kept [OF s(1) assms(2)] assms(3,4) s(2) Registrar show ?thesis by (auto simp: clerk_holds_simps)
next
  case (Slasher sh k pc)
  then obtain pc' where s: "slash_step (co_slash co) (Some lnc) sh k pc w = (pc', w')" "c' = Slasher sh k pc'"
    using assms(1) by (auto split: prod.splits)
  from slash_step_kept [OF s(1)] assms(4) s(2) Slasher show ?thesis by auto
next
  case (Signaller sh pc)
  then obtain pc' where s: "signal_step (co_slash co) (Some lnc) sh pc w = (pc', w')" "c' = Signaller sh pc'"
    using assms(1) by (auto split: prod.splits)
  from signal_step_kept [OF s(1)] assms(4) s(2) Signaller show ?thesis by (auto simp: clerk_holds_simps)
next
  case (Reverifier pc)
  then obtain pc' where s: "reverify_step E lnc pc w = (pc', w')" "c' = Reverifier pc'" using assms(1) by (auto split: prod.splits)
  from reverify_step_kept [OF s(1)] assms(3,4) s(2) Reverifier show ?thesis by (auto simp: clerk_holds_simps)
next
  case (Assigner a pc)
  then obtain pc' where s: "schedule_step E a pc w = (pc', w')" "c' = Assigner a pc'" using assms(1) by (auto split: prod.splits)
  from schedule_step_kept [OF s(1)] s(2) show ?thesis by simp
qed

definition joint_rows :: "ext \<Rightarrow> joint \<Rightarrow> bool" where
  "joint_rows E x \<longleftrightarrow> joint_ok E x \<and> numeric_fits E \<and> rows_hold (world_of x) \<and>
     list_all (clerk_holds (event_ids (world_of x))) (fst (snd (snd x)))"

lemma holds_kept: "list_all (clerk_holds (event_ids w)) cs \<Longrightarrow> kept w w' \<Longrightarrow> list_all (clerk_holds (event_ids w')) cs"
  by (auto simp: list_all_iff kept_def extends_def intro: clerk_holds_mono)

lemma joint_step_rows:
  assumes "joint_step E co l x y" "numeric_fits E" "rows_hold (world_of x)" "list_all (clerk_holds (event_ids (world_of x))) (fst (snd (snd x)))"
  shows "rows_hold (world_of y) \<and> list_all (clerk_holds (event_ids (world_of y))) (fst (snd (snd y)))"
proof -
  have same: ?thesis if "kept (world_of x) (world_of y)" "fst (snd (snd y)) = fst (snd (snd x))"
    using that assms(3,4) holds_kept by (auto simp: kept_def)
  from assms(1) show ?thesis
  proof cases
    case (agent ags A w ags' A' w' qs cs)
    then show ?thesis using agent_step_kept [OF agent(4)] by (intro same) simp_all
  next
    case (ask q ags qs cs s)
    then show ?thesis by (intro same; cases s) simp_all
  next
    case (statement i qs M w q w' ags cs A)
    then show ?thesis using caller_step_kept [OF statement(5)] by (intro same) simp_all
  next
    case (arrive c ags qs cs s)
    then show ?thesis using assms(3,4) arrives_holds by (cases s) simp
  next
    case (clerk i cs lnc w c w' ags qs A)
    then have "clerk_holds (event_ids w) (cs ! i)" using assms(4) by (auto simp: list_all_length)
    from clerk_step_rows [OF clerk(6) assms(2) clerk(5) this] have k: "kept w w'" "clerk_holds (event_ids w') c" by simp_all
    then have "list_all (clerk_holds (event_ids w')) (cs[i := c])"
      using holds_kept [OF _ k(1)] assms(4) clerk(1,2) set_update_subset_insert [of cs i c] by (auto simp: list_all_iff)
    with k(1) assms(3) clerk show ?thesis by (simp add: kept_def)
  next
    case (call ev w ags qs cs A)
    then show ?thesis using atomic_kept by (intro same) simp_all
  next
    case (clock w t ags qs cs A)
    then show ?thesis by (intro same) (simp_all add: kept_same)
  next
    case (faults ags qs cs A w fs)
    then show ?thesis by (intro same) (simp_all add: kept_same)
  next
    case (restart ags qs cs A w)
    have "tables (Start (lose_memory w)) = tables w" by (auto simp: Start_def lose_memory_def db_call_def tables_def)
    then have "kept w (Start (lose_memory w))" by (rule kept_same)
    with restart show ?thesis using assms(3) by (simp add: kept_def)
  qed
qed

lemma start_rows: "joint_start E x \<Longrightarrow> rows_hold (world_of x) \<and> fst (snd (snd x)) = []"
  by (auto simp: joint_start_def co_start_def rows_hold_def empty_world_def stakes_hold_def slashings_hold_def)

interpretation rows: transition_system "\<lambda>x. joint_start E x \<and> numeric_fits E" "joint E co" "joint_rows E" for E co
proof unfold_locales
  show "joint_start E x \<and> numeric_fits E \<Longrightarrow> joint_rows E x" for x using joint_start_ok [of E x] start_rows [of E x] by (simp add: joint_rows_def)
  show "joint E co x y \<Longrightarrow> joint_rows E x \<Longrightarrow> joint_rows E y" for x y using joint_step_ok joint_step_rows unfolding joint_rows_def by blast
qed

text \<open>The catalogue does reject rows: an unknown node, a second stake on a channel, a status that is not listed.\<close>

lemma rows_rejected:
  "\<not> admits deployed (contents ((empty_world 0)\<lparr>w_signals := [\<lparr>sg_node = 7, sg_type = [], sg_evidence = [], sg_event = None\<rparr>]\<rparr>))"
  "\<not> admits deployed (contents ((empty_world 0)\<lparr>w_rounds := [demo_round ''closed'']\<rparr>))"
  "\<not> admits deployed (contents ((empty_world 0)\<lparr>w_rounds := [demo_round ''open'', demo_round ''open'']\<rparr>))"
  by code_simp+

section \<open>Properties\<close>

text \<open>
  C6 (every stored row satisfies the schema). Every state that the coordinator reaches, however the statements of its
  operations interleave, whatever fails and through any number of restarts, satisfies all constraints
  of the deployed tables: each cell has a value of the type of its column, within the range of the
  \<open>INTEGER\<close>, \<open>BIGINT\<close> and \<open>NUMERIC\<close> columns; no column that must not be is \<open>NULL\<close>; statuses and tiers are
  listed by their checks; keys are unique; and every foreign key of a stake, a task, a participant, a slashing,
  a signal or a heartbeat finds its row. The hypothesis is that PostgreSQL's cast to \<open>NUMERIC(p, s)\<close> yields
  values of that type.
\<close>

theorem rows_satisfy_schema:
  assumes "joint_start E x" "numeric_fits E" "(joint E co)\<^sup>*\<^sup>* x (ags, qs, cs, A, w)"
  shows "admits deployed (contents w)"
proof -
  have r: "joint_rows E (ags, qs, cs, A, w)" by (rule rows.inv_reachable [OF _ assms(3)]) (use assms(1,2) in blast)
  then have "sys_ok E (A, w)" unfolding joint_rows_def using joint_sys_ok by blast
  then show ?thesis using sys_admits r by (simp add: joint_rows_def)
qed

theorem rows_satisfy_schema_witness:
  "\<exists>ags qs cs A w. (joint demo_ext demo_co)\<^sup>*\<^sup>* (demo_crew, [], [], {}, empty_world demo_now) (ags, qs, cs, A, w) \<and>
     w_sent w \<noteq> [] \<and> admits deployed (contents w)"
proof -
  obtain A w where r: "(co_step demo_ext demo_co)\<^sup>*\<^sup>* ({}, empty_world demo_now) (A, w)" "w_sent w \<noteq> []" using demo_run [of demo_co] by blast
  obtain ags qs cs where c: "(joint demo_ext demo_co)\<^sup>*\<^sup>* (demo_crew, [], [], {}, empty_world demo_now) (ags, qs, cs, A, w)"
    using serial_joint [OF r(1)] by blast
  have "numeric_fits demo_ext"
    by (auto simp: numeric_fits_def demo_ext_def demo_numeric_def numeric_holds_def split: flt.splits if_splits)
  from rows_satisfy_schema [OF demo_joint_start this c] c r(2) show ?thesis by blast
qed

end
