(* ===== verification/Spec2Isabelle.thy ===== *)
theory Spec2Isabelle
  imports Registry Lightning Stake Scheduler Go_Json Observer Payment Fl_Math Config Storage Fl Rpc Metrics Pool_Http Startup Testutil Coordinator Interleaving Workers Lifecycle Standing Concurrency Schema Conformance
begin

text \<open>
  The Go coordinator of the Open World Model network (\<open>src/owm-coordinator\<close>).

  \<^bold>\<open>The program.\<close> Compute nodes register with an Ed25519 key and a Lightning channel as stake,
  receive tasks, submit signed results and are paid in satoshis; they also submit gradients for
  rounds of federated learning, which the coordinator aggregates into checkpoints. The gRPC
  service (\<open>internal/rpc\<close>) binds the node registry, the stake verifier, the scheduler, the payment
  dispatcher and the learning orchestrator together; all of them share one PostgreSQL database.
  Tickers requeue tasks, re-verify stakes and are meant to close expired rounds; a worker pays; goroutines
  submit receipts and timestamp checkpoints; an HTTP endpoint reports the status of a node.

  \<^bold>\<open>The theories.\<close> Every theory opens with what it holds. In the order of the imports:
  \<^item> \<open>Prelude\<close>: errors, fixed-width integers, SQL statements over lists of rows, the locales
    \<open>transition_system\<close> and \<open>simulation\<close>.
  \<^item> \<open>Go_Float\<close>: IEEE binary64 and binary32 (rounding to nearest even, overflow, NaN, signed
    infinities; zeros are not signed), \<open>Go_Strings\<close>: \<open>strconv\<close>, \<open>strings\<close> and \<open>encoding/hex\<close>,
    \<open>Go_Json\<close>: \<open>encoding/json\<close> on strings.
  \<^item> \<open>World\<close>: the shared state, one record: the tables of the migrations, metrics, Redis, object
    store, payment queue, requests sent, clock, and the schedule of database failures.
  \<^item> \<open>Registry\<close> (\<open>internal/registry/registry.go\<close>), \<open>Lightning\<close> (\<open>internal/lightning\<close>: the client
    interface, the mock, LND and CLN), \<open>Stake\<close> (\<open>internal/stake/verifier.go\<close>), \<open>Scheduler\<close>
    (\<open>internal/scheduler/scheduler.go\<close>), \<open>Observer\<close> (\<open>internal/observer\<close>), \<open>Payment\<close>
    (\<open>internal/payment/dispatcher.go\<close>), \<open>Storage\<close> (\<open>internal/storage/s3.go\<close>), \<open>Fl_Math\<close> and \<open>Fl\<close>
    (\<open>internal/fl/rounds.go\<close>), \<open>Config\<close> (\<open>internal/config/config.go\<close>), \<open>Rpc\<close>
    (\<open>internal/rpc/server.go\<close>), \<open>Metrics\<close> (\<open>internal/metrics/metrics.go\<close>), \<open>Pool_Http\<close>
    (\<open>internal/http/pool_api.go\<close>), \<open>Startup\<close> (\<open>cmd/coordinator/main.go\<close> up to the
    running state), \<open>Testutil\<close> (\<open>internal/testutil/db.go\<close>): one group of definitions per file, with the names of the source.
  \<^item> \<open>Coordinator\<close>: all operations as the steps of one system.
  \<^item> \<open>Interleaving\<close>: \<open>TryAggregate\<close>, \<open>CloseExpired\<close> and \<open>SubmitGradient\<close> one statement at a time, with
    any number of callers and every other operation between any two statements.
  \<^item> \<open>Workers\<close>: the way from a result to its payment one statement at a time: the ten workers of the
    dispatcher, any number of handlers of \<open>SubmitTaskResult\<close> and of receipt goroutines, and every other
    operation between any two statements.
  \<^item> \<open>Lifecycle\<close>: \<open>main\<close> after the start around these: the wait, the cancelled context, the shutdown of
    the two servers, the exit status, and the restart.
  \<^item> \<open>Standing\<close>: the operations that decide on the standing of a node one statement at a time: any number of
    handlers of \<open>RegisterNode\<close>, of slashings, misbehaviour signals, re-verifications and schedulings, and
    every other operation between any two statements.
  \<^item> \<open>Concurrency\<close>: the three together: the statements of all these operations interleave with each other.
  \<^item> \<open>Schema\<close> (\<open>migrations\<close>): the up and down files as statements on a catalogue of tables, and every SQL
    statement of the Go code against the catalogue they leave.
  \<^item> \<open>Conformance\<close>: the constraints of that catalogue as a check of rows, and the rows of the running coordinator.

  \<^bold>\<open>Conventions.\<close> An operation takes the world and returns its result with the new world; a Go
  error is the left side of a sum. Every SQL statement is one call of \<open>db_call\<close>, which fails
  without effect when the schedule says so; constraints of the schema (keys, checks, column
  ranges, foreign keys) make a statement fail. Structs are records, fixed-width integers are \<open>int\<close>
  with the wrap-around written out, strings and byte slices are lists of bytes. Times are
  nanoseconds; the clock of the world does not move during an operation.

  \<^bold>\<open>External code\<close> is a parameter: \<open>ext\<close> (\<open>NUMERIC\<close> casts, \<open>uuid\<close>, SHA-256, Ed25519, the JSON image
  of an assignment, whether the database driver takes an \<open>int\<close> as an argument of type \<open>text\<close>), \<open>fl_env\<close> (msgpack, availability of the object store, PostgreSQL's product),
  \<open>Client\<close> (a Lightning node), \<open>os_env\<close> (files, drivers, network at start), functions for HTTP
  requests, \<open>url.Parse\<close> and the random generator. The laws used of \<open>ext\<close> are \<open>numeric_rounds\<close>,
  \<open>NUMERIC\<close> rounds to a value between the same whole numbers, in \<open>Conformance\<close> \<open>numeric_fits\<close>, the value
  has at most the digits of the column, and for the rounds \<open>refuses_int\<close>, the driver refuses the argument, as
  pgx v5 does in its default mode, and with it the scan of \<open>CloseExpired\<close>; \<open>demo_ext\<close> satisfies all three.
  What does not name \<open>refuses_int\<close> holds with either driver.

  \<^bold>\<open>Interfaces.\<close> \<open>rounding\<close> (a floating-point format), \<open>channel_source\<close> (what the verifier needs of a
  Lightning client), \<open>node_source\<close> (what the scheduler needs of the registry), \<open>bounded_queue\<close> (the
  payment queue), \<open>transition_system\<close> and \<open>simulation\<close> are locales, each interpreted on the
  definitions of the model: \<open>f64\<close> and \<open>f32\<close>, \<open>lnd\<close> and \<open>cln\<close>, \<open>registry\<close>, \<open>jobs\<close>, \<open>coord\<close>,
  \<open>metered\<close>, \<open>rounds\<close>, \<open>statements\<close>, \<open>crew\<close>, \<open>lives\<close>, \<open>clerks\<close>, \<open>joint\<close>, \<open>rows\<close>.

  \<^bold>\<open>What the lemmas show.\<close>
  \<^item> Of the system (\<open>Coordinator\<close>): for every interleaving of operations, failures, answers and
    restarts, payments are made only for the recorded reward and address of tasks with an
    authentic result; the tables satisfy their invariants and the counters are those declared; the worker
    drains the queue. Here every operation is one step.
  \<^item> Of concurrent callers (\<open>Interleaving\<close>): a round is aggregated by at most one of them, and a
    checkpoint is published once and stays; the statements of a caller that is not interrupted
    make up the operation; but a gradient can be accepted after its round is complete.
  \<^item> Of workers and handlers (\<open>Workers\<close>): payments are due also under concurrency; the statements make
    up the operations, and every run of single operations is a run of the statements; an accepted
    result is settled when the database works; a payment whose record fails is made again.
  \<^item> Of lives (\<open>Lifecycle\<close>): each of them is a run of the workers and handlers; a clean stop leaves no
    call open; a shutdown in which handlers, requests and streams get on comes to its end, and a stream
    that stays open prevents that; nothing that is paid during a shutdown is recorded.
  \<^item> Of the standing of nodes (\<open>Standing\<close>): the statements make up the operations, and every run of single
    operations is a run of the statements; a re-verification or a scheduling that is overtaken by a
    slashing writes over it.
  \<^item> Of all of them together (\<open>Concurrency\<close>): payments are due, a round is aggregated by one caller and its
    checkpoint stays, the rounds implement, statement by statement, the machine in which a round is opened, claimed, and
    completed or failed for good, the status of a node follows its machine, and a suspended node gets no task until it
    registers again, unless a scheduling had chosen it before; but a round whose aggregation is interrupted by
    the end of the process stays aggregating for ever, and in the program as it is wired no round
    is ever aggregated, because the scan for expired rounds, the only way to an aggregation, always fails. Every run of \<open>Workers\<close> and every run of
    single operations is among these runs.
  \<^item> Of the database (\<open>Schema\<close>): the migrations leave tables that fit all statements of the code but those of
    three read endpoints, and each is undone by its down file except one; every state of \<open>Concurrency\<close> satisfies
    all constraints of these tables (\<open>Conformance\<close>).
  \<^item> Of the service: who can register, whose results are accepted and what follows, which objects
    a gradient can name, which nodes are sent which tasks, which endpoints always fail.
  \<^item> Of the components: stake verification, bonus and slashing; selection, reward and timeouts;
    payment attempts and outcomes; receipt hashes, signatures and key formats; aggregation,
    median, clipping; validation of the configuration; wiring at start.
  \<^item> Where the code does not do what it means to, a theorem states what it does (a repeated result
    is paid again, one unreadable gradient fails a round, deregistration ignores the signature,
    slashing makes the gauge drift, an interrupted round is lost, expired rounds stay open, the stake is
    judged by the local balance and not by the capacity).

  \<^bold>\<open>Bounds.\<close> Loops are structural recursions over their inputs, so nothing runs out of fuel: the
  payment loop over its four attempts, the exchange sort over its indices, folds over rows. A shutdown is
  measured by \<open>remaining\<close>: the stages left of \<open>main\<close>, three at most, and then what the stage waits for, its
  HTTP requests, or its streams and the statements of its handlers, seven at most for each.
  Where the size of a table matters (counts converted to \<open>float64\<close>) the premise \<open>sizes_fit\<close> says
  that it has fewer than \<open>2 ^ 63\<close> rows.

  \<^bold>\<open>Not modelled.\<close> Interleaving inside the operations that \<open>Interleaving\<close>, \<open>Workers\<close> and \<open>Standing\<close> do not split: each of
  them runs as one step, though its database calls fail independently. In \<open>Concurrency\<close> one process serves the
  database; two processes (a rollout) are only seen in \<open>Interleaving\<close>, whose callers outlive a restart. A query fails before its first row or not at all;
  times in the database keep their nanoseconds (PostgreSQL rounds to microseconds). Fused multiply-add of some platforms; text that PostgreSQL refuses (NUL
  bytes, invalid UTF-8) except as a failing call; logging; histogram buckets; the transport (gRPC,
  TLS handshakes, Tor); numbers in the form of \<open>%g\<close> at the end of three messages about the configuration; the locks and the version table of the migration library, and \<open>SERIAL\<close>'s own sequence; the time that calls and waits take; the generated protobuf code; the pool
  daemon in Rust (\<open>src/owm-pool\<close>) and the deployment files.
\<close>

end
